(* ===== verification/Prelude.thy ===== *)
theory Prelude
  imports Complex_Main "HOL-Library.Sublist"
begin

text \<open>
  The values the modelled JavaScript computes with, and the part of the language's standard
  library it uses: \<open>typeof\<close> tests, truthiness, property reads (with the names every plain object
  inherits from \<open>Object.prototype\<close>), \<open>String(v)\<close>, \<open>Number(v)\<close>, \<open>trim\<close>, \<open>toLowerCase\<close>,
  \<open>includes\<close>, \<open>startsWith\<close>, \<open>split\<close>, and insertion ordered objects and maps.

  A number is an exact rational, an infinity or NaN: the rounding of IEEE arithmetic and the two
  signs of zero are outside the model. A string is a list of code units below 256.
\<close>

named_theorems js_eval \<open>equations that evaluate the JavaScript primitives\<close>

section \<open>Values\<close>

datatype jsnum = Fin rat | PInf | NInf | NaN

datatype jsval =
    JUndef
  | JNull
  | JBool bool
  | JNum jsnum
  | JStr string
  | JArr "jsval list"
  | JObj "(string \<times> jsval) list"
  | JFun string

type_synonym jsmap = "(string \<times> jsval) list"

abbreviation JInt :: "int \<Rightarrow> jsval" where
  "JInt n \<equiv> JNum (Fin (of_int n))"

text \<open>The tests the code writes as \<open>typeof v === ...\<close>, \<open>Array.isArray(v)\<close> and
  \<open>v == null\<close>. \<open>is_object\<close> is \<open>v !== null && typeof v === 'object'\<close>, true of arrays too.\<close>

fun is_str :: "jsval \<Rightarrow> bool" where
  "is_str (JStr _) = True" | "is_str _ = False"

fun is_num :: "jsval \<Rightarrow> bool" where
  "is_num (JNum _) = True" | "is_num _ = False"

fun is_bool :: "jsval \<Rightarrow> bool" where
  "is_bool (JBool _) = True" | "is_bool _ = False"

fun is_arr :: "jsval \<Rightarrow> bool" where
  "is_arr (JArr _) = True" | "is_arr _ = False"

fun is_plain :: "jsval \<Rightarrow> bool" where
  "is_plain (JObj _) = True" | "is_plain _ = False"

definition is_object :: "jsval \<Rightarrow> bool" where
  "is_object v \<longleftrightarrow> is_arr v \<or> is_plain v"

definition is_nullish :: "jsval \<Rightarrow> bool" where
  "is_nullish v \<longleftrightarrow> v = JUndef \<or> v = JNull"

fun truthy :: "jsval \<Rightarrow> bool" where
  "truthy JUndef = False"
| "truthy JNull = False"
| "truthy (JBool b) = b"
| "truthy (JNum (Fin q)) = (q \<noteq> 0)"
| "truthy (JNum NaN) = False"
| "truthy (JNum _) = True"
| "truthy (JStr s) = (s \<noteq> [])"
| "truthy _ = True"

text \<open>\<open>a ?? b\<close> and \<open>a || b\<close>.\<close>

definition coalesce :: "jsval \<Rightarrow> jsval \<Rightarrow> jsval" where
  "coalesce a b = (if is_nullish a then b else a)"

definition js_or :: "jsval \<Rightarrow> jsval \<Rightarrow> jsval" where
  "js_or a b = (if truthy a then a else b)"

fun elems :: "jsval \<Rightarrow> jsval list" where
  "elems (JArr xs) = xs" | "elems _ = []"

fun str_of :: "jsval \<Rightarrow> string" where
  "str_of (JStr s) = s" | "str_of _ = []"

fun entries :: "jsval \<Rightarrow> jsmap" where
  "entries (JObj m) = m" | "entries _ = []"

lemma is_str_iff: "is_str v \<longleftrightarrow> (\<exists>s. v = JStr s)"
  by (cases v) auto

lemma is_arr_iff: "is_arr v \<longleftrightarrow> (\<exists>xs. v = JArr xs)"
  by (cases v) auto

lemma is_plain_iff: "is_plain v \<longleftrightarrow> (\<exists>m. v = JObj m)"
  by (cases v) auto

lemma is_num_iff: "is_num v \<longleftrightarrow> (\<exists>n. v = JNum n)"
  by (cases v) auto

lemma is_bool_iff: "is_bool v \<longleftrightarrow> (\<exists>b. v = JBool b)"
  by (cases v) auto

section \<open>Insertion ordered maps\<close>

text \<open>A JavaScript object and a \<open>Map\<close> keep their keys in insertion order; writing an existing
  key keeps its place.\<close>

fun aset :: "'k \<Rightarrow> 'v \<Rightarrow> ('k \<times> 'v) list \<Rightarrow> ('k \<times> 'v) list" where
  "aset k v [] = [(k, v)]"
| "aset k v ((k', v') # m) = (if k = k' then (k, v) # m else (k', v') # aset k v m)"

definition adel :: "'k \<Rightarrow> ('k \<times> 'v) list \<Rightarrow> ('k \<times> 'v) list" where
  "adel k m = filter (\<lambda>(k', _). k' \<noteq> k) m"

definition akeys :: "('k \<times> 'v) list \<Rightarrow> 'k list" where
  "akeys m = map fst m"

definition wf_map :: "('k \<times> 'v) list \<Rightarrow> bool" where
  "wf_map m \<longleftrightarrow> distinct (akeys m)"

lemma map_of_aset [simp]: "map_of (aset k v m) = (map_of m)(k \<mapsto> v)"
  by (induction m) auto

lemma map_of_adel [simp]: "map_of (adel k m) = (map_of m)(k := None)"
  by (induction m) (auto simp: adel_def fun_eq_iff)

lemma akeys_simps [simp]: "akeys [] = []" "akeys ((k, v) # m) = k # akeys m"
  by (simp_all add: akeys_def)

lemma set_akeys_aset [simp]: "set (akeys (aset k v m)) = insert k (set (akeys m))"
  by (induction m) (auto split: if_splits)

lemma set_akeys_adel [simp]: "set (akeys (adel k m)) = set (akeys m) - {k}"
  by (induction m) (auto simp: adel_def akeys_def)

lemma set_akeys_dom: "set (akeys m) = dom (map_of m)"
  by (simp add: akeys_def dom_map_of_conv_image_fst)

lemma wf_map_Nil [simp]: "wf_map []"
  by (simp add: wf_map_def)

lemma wf_map_aset [simp]: "wf_map m \<Longrightarrow> wf_map (aset k v m)"
  by (induction m) (auto simp: wf_map_def)

lemma wf_map_adel [simp]: "wf_map m \<Longrightarrow> wf_map (adel k m)"
  by (simp add: wf_map_def adel_def akeys_def distinct_map_filter)

lemma wf_map_filter: "wf_map m \<Longrightarrow> wf_map (filter P m)"
  by (simp add: wf_map_def akeys_def distinct_map_filter)

lemma length_aset_new: "k \<notin> set (akeys m) \<Longrightarrow> aset k v m = m @ [(k, v)]"
  by (induction m) auto

lemma length_aset_old: "k \<in> set (akeys m) \<Longrightarrow> length (aset k v m) = length m"
  by (induction m) auto

lemma set_aset_sub: "set (aset k v m) \<subseteq> insert (k, v) (set m)"
  by (induction m) (auto split: if_splits)

text \<open>How many entries satisfy a test, after a write and after a removal.\<close>

definition count_if :: "('v \<Rightarrow> bool) \<Rightarrow> ('k \<times> 'v) list \<Rightarrow> nat" where
  "count_if P m = length (filter (\<lambda>(_, v). P v) m)"

lemma count_if_new: "k \<notin> set (akeys m) \<Longrightarrow> count_if P (aset k v m) = count_if P m + of_bool (P v)"
  by (simp add: count_if_def length_aset_new)

lemma count_if_old:
  "wf_map m \<Longrightarrow> map_of m k = Some w \<Longrightarrow>
     count_if P (aset k v m) + of_bool (P w) = count_if P m + of_bool (P v)"
  by (induction m) (auto simp: count_if_def wf_map_def split: if_splits)

lemma adel_absent: "k \<notin> set (akeys m) \<Longrightarrow> adel k m = m"
  by (induction m) (auto simp: adel_def)

lemma count_if_adel:
  "wf_map m \<Longrightarrow> map_of m k = Some w \<Longrightarrow> count_if P (adel k m) + of_bool (P w) = count_if P m"
proof (induction m)
  case (Cons kv m)
  obtain k' v where kv: "kv = (k', v)" by (cases kv)
  show ?case
  proof (cases "k' = k")
    case True
    with Cons.prems kv have "adel k m = m" by (simp add: adel_absent wf_map_def)
    with True Cons.prems kv show ?thesis by (simp add: adel_def count_if_def)
  next
    case False
    with Cons kv show ?thesis by (simp add: adel_def count_if_def wf_map_def)
  qed
qed simp

lemma count_if_all: "count_if (\<lambda>_. True) m = length m"
  by (simp add: count_if_def)

section \<open>Property reads\<close>

text \<open>The names a plain object answers although nobody wrote them.\<close>

definition proto_names :: "string list" where
  "proto_names =
    [''constructor'', ''__defineGetter__'', ''__defineSetter__'', ''hasOwnProperty'',
     ''__lookupGetter__'', ''__lookupSetter__'', ''isPrototypeOf'', ''propertyIsEnumerable'',
     ''toString'', ''valueOf'', ''__proto__'', ''toLocaleString'']"

definition own_get :: "jsmap \<Rightarrow> string \<Rightarrow> jsval" where
  "own_get m k = (case map_of m k of Some v \<Rightarrow> v | None \<Rightarrow>
     (if List.member proto_names k then JFun k else JUndef))"

fun jget :: "jsval \<Rightarrow> string \<Rightarrow> jsval" where
  "jget (JObj m) k = own_get m k"
| "jget _ _ = JUndef"

definition has_own :: "jsmap \<Rightarrow> string \<Rightarrow> bool" where
  "has_own m k \<longleftrightarrow> List.member (akeys m) k"

lemma has_own_iff [simp]: "has_own m k \<longleftrightarrow> k \<in> set (akeys m)"
  by (simp add: has_own_def)

lemma own_get_own: "map_of m k = Some v \<Longrightarrow> own_get m k = v"
  by (simp add: own_get_def)

lemma own_get_absent: "map_of m k = None \<Longrightarrow> k \<notin> set proto_names \<Longrightarrow> own_get m k = JUndef"
  by (simp add: own_get_def)

lemma jget_cases_obj: "jget v k \<noteq> JUndef \<Longrightarrow> \<exists>m. v = JObj m"
  by (cases v) auto

text \<open>\<open>{...a, ...b}\<close>: the entries of \<open>b\<close> written over those of \<open>a\<close>.\<close>

definition spread :: "jsmap \<Rightarrow> jsmap \<Rightarrow> jsmap" where
  "spread a b = fold (\<lambda>(k, v). aset k v) b a"

lemma wf_map_fold_aset: "wf_map m \<Longrightarrow> wf_map (fold (\<lambda>(k, v). aset k v) kvs m)"
  by (induction kvs arbitrary: m) auto

lemma map_of_fold_aset:
  "wf_map b \<Longrightarrow> map_of (fold (\<lambda>(k, v). aset k v) b a) = map_of a ++ map_of b"
proof (induction b arbitrary: a)
  case (Cons kv b)
  obtain k v where kv: "kv = (k, v)" by (cases kv)
  from Cons.prems kv have "wf_map b" "k \<notin> dom (map_of b)"
    by (auto simp: wf_map_def simp flip: set_akeys_dom)
  with Cons.IH kv show ?case by (auto simp: fun_eq_iff map_add_def split: option.splits)
qed simp

lemma map_of_spread: "wf_map b \<Longrightarrow> map_of (spread a b) = map_of a ++ map_of b"
  by (simp add: spread_def map_of_fold_aset)

lemma wf_map_spread: "wf_map a \<Longrightarrow> wf_map (spread a b)"
  by (simp add: spread_def wf_map_fold_aset)

lemma own_get_aset: "own_get (aset k v m) k' = (if k' = k then v else own_get m k')"
  by (simp add: own_get_def)

lemma own_get_aset_same: "own_get (aset k v m) k = v"
  by (simp add: own_get_aset)

lemma own_get_spread_absent: "k \<notin> set (akeys b) \<Longrightarrow> own_get (spread a b) k = own_get a k"
proof -
  assume "k \<notin> set (akeys b)"
  then have "map_of (spread a b) k = map_of a k"
    unfolding spread_def by (induction b arbitrary: a) auto
  then show ?thesis by (simp add: own_get_def)
qed

text \<open>\<open>a && a.k\<close>: the value itself when it is falsy, else its property.\<close>

definition and_get :: "jsval \<Rightarrow> string \<Rightarrow> jsval" where
  "and_get v k = (if truthy v then jget v k else v)"

section \<open>Sorting\<close>

text \<open>A sort with a comparator is the stable insertion sort, the result of every stable sort when
  the comparator is consistent. Elements are inserted from the right, so an equal one stays behind its predecessor.\<close>

fun insert_by :: "('a \<Rightarrow> 'a \<Rightarrow> bool) \<Rightarrow> 'a \<Rightarrow> 'a list \<Rightarrow> 'a list" where
  "insert_by before x [] = [x]"
| "insert_by before x (y # ys) = (if before y x then y # insert_by before x ys else x # y # ys)"

definition stable_sort :: "('a \<Rightarrow> 'a \<Rightarrow> bool) \<Rightarrow> 'a list \<Rightarrow> 'a list" where
  "stable_sort before xs = foldr (insert_by before) xs []"

end
