(* ===== verification/Js_Text.thy ===== *)
theory Js_Text
  imports Prelude
begin

text \<open>
  Strings and their conversions: \<open>trim\<close>, \<open>toLowerCase\<close>, \<open>includes\<close>, \<open>startsWith\<close>, \<open>split\<close>,
  \<open>join\<close>, \<open>String(v)\<close> and \<open>Number(v)\<close>, each an executable function on code units below 256,
  and the facts about decimal numerals the encoders of the program rest on.
\<close>

section \<open>Characters and substrings\<close>

definition code_of :: "char \<Rightarrow> nat" where
  "code_of c = of_char c"

text \<open>White space of \<open>trim\<close>: tab to carriage return, space, no-break space.\<close>

definition js_ws :: "char \<Rightarrow> bool" where
  "js_ws c \<longleftrightarrow> (let n = code_of c in (9 \<le> n \<and> n \<le> 13) \<or> n = 32 \<or> n = 160)"

definition js_trim :: "string \<Rightarrow> string" where
  "js_trim s = rev (dropWhile js_ws (rev (dropWhile js_ws s)))"

definition lower_char :: "char \<Rightarrow> char" where
  "lower_char c = (let n = code_of c in
     if (65 \<le> n \<and> n \<le> 90) \<or> (192 \<le> n \<and> n \<le> 222 \<and> n \<noteq> 215) then char_of (n + 32) else c)"

definition js_lower :: "string \<Rightarrow> string" where
  "js_lower s = map lower_char s"

fun str_prefix :: "string \<Rightarrow> string \<Rightarrow> bool" where
  "str_prefix [] _ = True"
| "str_prefix (_ # _) [] = False"
| "str_prefix (x # xs) (y # ys) = (x = y \<and> str_prefix xs ys)"

fun str_includes :: "string \<Rightarrow> string \<Rightarrow> bool" where
  "str_includes n [] = (n = [])"
| "str_includes n (c # cs) = (str_prefix n (c # cs) \<or> str_includes n cs)"

definition is_digit :: "char \<Rightarrow> bool" where
  "is_digit c \<longleftrightarrow> 48 \<le> code_of c \<and> code_of c \<le> 57"

text \<open>\<open>s.split(c)\<close> for a single character, and \<open>xs.join(sep)\<close>.\<close>

fun js_split :: "char \<Rightarrow> string \<Rightarrow> string list" where
  "js_split d [] = [[]]"
| "js_split d (c # cs) =
     (if c = d then [] # js_split d cs
      else (case js_split d cs of [] \<Rightarrow> [[c]] | w # ws \<Rightarrow> (c # w) # ws))"

fun js_join :: "string \<Rightarrow> string list \<Rightarrow> string" where
  "js_join sep [] = []"
| "js_join sep [w] = w"
| "js_join sep (w # ws) = w @ sep @ js_join sep ws"

text \<open>\<open>replace(/[^...]+/g, '-')\<close> for the characters \<open>P\<close> keeps: every run of the others becomes one dash,
  \<open>inside\<close> says it has been written. \<open>strip_dashes\<close> is \<open>replace(/^-+|-+$/g, '')\<close>.\<close>

fun dash_runs :: "(char \<Rightarrow> bool) \<Rightarrow> bool \<Rightarrow> string \<Rightarrow> string" where
  "dash_runs P inside [] = []"
| "dash_runs P inside (c # cs) =
     (if P c then c # dash_runs P False cs
      else if inside then dash_runs P True cs else CHR ''-'' # dash_runs P True cs)"

definition strip_dashes :: "string \<Rightarrow> string" where
  "strip_dashes s = rev (dropWhile (\<lambda>c. c = CHR ''-'') (rev (dropWhile (\<lambda>c. c = CHR ''-'') s)))"

lemma str_prefix_iff: "str_prefix n s \<longleftrightarrow> prefix n s"
  by (induction n s rule: str_prefix.induct) auto

lemma str_includes_iff: "str_includes n s \<longleftrightarrow> sublist n s"
  by (induction s) (auto simp: sublist_Cons_right str_prefix_iff)

lemma str_prefix_append [simp]: "str_prefix p (p @ s)"
  by (simp add: str_prefix_iff)

lemma js_split_nonempty [simp]: "js_split d s \<noteq> []"
  by (induction s) (auto split: list.splits)

lemma js_join_split: "js_join [d] (js_split d s) = s"
proof (induction s)
  case (Cons c s)
  then show ?case
    by (cases "js_split d s"; cases "tl (js_split d s)") auto
qed simp

lemma js_split_no_sep: "w \<in> set (js_split d s) \<Longrightarrow> d \<notin> set w"
proof (induction s arbitrary: w)
  case (Cons c s)
  then show ?case
    by (cases "js_split d s") (auto split: if_splits)
qed simp

lemma js_split_append: "js_split d (x @ d # r) = js_split d x @ js_split d r"
  by (induction x) (auto split: list.splits)

lemma js_split_single: "d \<notin> set w \<Longrightarrow> js_split d w = [w]"
  by (induction w) auto

lemma js_join_append:
  "xs \<noteq> [] \<Longrightarrow> ys \<noteq> [] \<Longrightarrow> js_join sep (xs @ ys) = js_join sep xs @ sep @ js_join sep ys"
  by (induction sep xs rule: js_join.induct) (auto simp: neq_Nil_conv)

lemma js_split_join:
  "ws \<noteq> [] \<Longrightarrow> \<forall>w \<in> set ws. d \<notin> set w \<Longrightarrow> js_split d (js_join [d] ws) = ws"
  by (induction "[d]" ws rule: js_join.induct) (auto simp: js_split_append js_split_single)

lemma js_join_empty_iff: "\<forall>w \<in> set ws. w \<noteq> [] \<Longrightarrow> js_join sep ws = [] \<longleftrightarrow> ws = []"
  by (cases ws; cases "tl ws") auto

text \<open>Containment of joined segments is containment of the segment lists.\<close>

lemma js_join_prefix:
  assumes "bs \<noteq> []" "\<forall>w \<in> set as \<union> set bs. w \<noteq> [] \<and> d \<notin> set w"
  shows "js_join [d] as = js_join [d] bs \<or> prefix (js_join [d] bs @ [d]) (js_join [d] as)
    \<longleftrightarrow> prefix bs as"
proof (cases "as = []")
  case True
  have "js_join [d] bs \<noteq> []" using assms by (simp add: js_join_empty_iff)
  with True assms show ?thesis by auto
next
  case False
  have split_as: "js_split d (js_join [d] as) = as" and split_bs: "js_split d (js_join [d] bs) = bs"
    using assms False by (auto intro!: js_split_join)
  show ?thesis
  proof
    assume "js_join [d] as = js_join [d] bs \<or> prefix (js_join [d] bs @ [d]) (js_join [d] as)"
    then show "prefix bs as"
    proof
      assume "js_join [d] as = js_join [d] bs"
      then have "as = bs" using split_as split_bs by metis
      then show ?thesis by simp
    next
      assume "prefix (js_join [d] bs @ [d]) (js_join [d] as)"
      then obtain r where "js_join [d] as = js_join [d] bs @ d # r" by (auto simp: prefix_def)
      then have "js_split d (js_join [d] as) = js_split d (js_join [d] bs) @ js_split d r"
        by (simp only: js_split_append)
      then have "as = bs @ js_split d r" by (simp only: split_as split_bs)
      then show ?thesis by simp
    qed
  next
    assume "prefix bs as"
    then obtain cs where cs: "as = bs @ cs" by (auto simp: prefix_def)
    show "js_join [d] as = js_join [d] bs \<or> prefix (js_join [d] bs @ [d]) (js_join [d] as)"
      using assms(1) cs by (cases "cs = []") (auto simp: js_join_append)
  qed
qed

text \<open>\<open>v.trim() !== ''\<close>: some character is not white space.\<close>

lemma js_trim_empty_iff: "js_trim s = [] \<longleftrightarrow> (\<forall>c \<in> set s. js_ws c)"
proof -
  let ?d = "dropWhile js_ws s"
  have "js_trim s = [] \<longleftrightarrow> (\<forall>c \<in> set ?d. js_ws c)"
    by (simp add: js_trim_def)
  also have "\<dots> \<longleftrightarrow> ?d = []"
    using hd_dropWhile [of js_ws s] by (cases ?d) (auto dest: set_dropWhileD)
  finally show ?thesis by simp
qed

lemma js_trim_Nil [simp]: "js_trim [] = []"
  by (simp add: js_trim_def)

lemma hd_rev_dropWhile: "rev (dropWhile P (rev s)) \<noteq> [] \<Longrightarrow> hd (rev (dropWhile P (rev s))) = hd s"
  by (metis append_is_Nil_conv hd_append rev_append rev_rev_ident takeWhile_dropWhile_id)

lemma trim_ends:
  assumes "js_trim s \<noteq> []"
  shows "\<not> js_ws (hd (js_trim s))" "\<not> js_ws (last (js_trim s))"
proof -
  let ?t = "dropWhile js_ws s"
  have ne: "rev (dropWhile js_ws (rev ?t)) \<noteq> []" using assms by (simp add: js_trim_def)
  then have "hd (js_trim s) = hd ?t" using hd_rev_dropWhile [of js_ws ?t] by (simp add: js_trim_def)
  moreover have "?t \<noteq> []" using ne by (metis dropWhile.simps(1) rev.simps(1))
  ultimately show "\<not> js_ws (hd (js_trim s))" using hd_dropWhile [of js_ws s] by simp
  show "\<not> js_ws (last (js_trim s))"
    using hd_dropWhile [of js_ws "rev ?t"] ne by (simp add: js_trim_def last_rev)
qed

lemma js_trim_ends: "s \<noteq> [] \<Longrightarrow> \<not> js_ws (hd s) \<Longrightarrow> \<not> js_ws (last s) \<Longrightarrow> js_trim s = s"
proof -
  assume s: "s \<noteq> []" "\<not> js_ws (hd s)" "\<not> js_ws (last s)"
  have "dropWhile js_ws s = s" using s by (cases s) auto
  moreover have "dropWhile js_ws (rev s) = rev s" using s by (cases s rule: rev_cases) auto
  ultimately show ?thesis by (simp add: js_trim_def)
qed

lemma js_trim_idem [simp]: "js_trim (js_trim s) = js_trim s"
  using trim_ends [of s] by (cases "js_trim s = []") (simp_all add: js_trim_ends)

section \<open>Decimal numerals\<close>

definition digit_char :: "nat \<Rightarrow> char" where
  "digit_char d = char_of (48 + d)"

fun dec_nat :: "nat \<Rightarrow> string" where
  "dec_nat n = (if n < 10 then [digit_char n] else dec_nat (n div 10) @ [digit_char (n mod 10)])"

declare dec_nat.simps [simp del]

text \<open>The fractional digits of \<open>num / den\<close>, by long division, as far as \<open>fuel\<close> digits; the
  rational of a double of the sizes in use ends well before 30.\<close>

fun frac_digits :: "nat \<Rightarrow> nat \<Rightarrow> nat \<Rightarrow> string" where
  "frac_digits 0 num den = []"
| "frac_digits (Suc fuel) num den =
     (if num = 0 then [] else digit_char (10 * num div den) # frac_digits fuel (10 * num mod den) den)"

definition dec_rat :: "rat \<Rightarrow> string" where
  "dec_rat q = (case quotient_of q of (a, b) \<Rightarrow>
     let n = nat \<bar>a\<bar>; d = nat b; frac = frac_digits 30 (n mod d) d in
     (if a < 0 then ''-'' else []) @ dec_nat (n div d) @ (if frac = [] then [] else ''.'' @ frac))"

fun num_to_str :: "jsnum \<Rightarrow> string" where
  "num_to_str (Fin q) = dec_rat q"
| "num_to_str PInf = ''Infinity''"
| "num_to_str NInf = ''-Infinity''"
| "num_to_str NaN = ''NaN''"

text \<open>\<open>String(v)\<close>; an array joins its elements, with nothing for \<open>null\<close> and \<open>undefined\<close>.\<close>

fun to_str :: "jsval \<Rightarrow> string" where
  "to_str JUndef = ''undefined''"
| "to_str JNull = ''null''"
| "to_str (JBool b) = (if b then ''true'' else ''false'')"
| "to_str (JNum n) = num_to_str n"
| "to_str (JStr s) = s"
| "to_str (JArr vs) = js_join '','' (map (\<lambda>v. if is_nullish v then [] else to_str v) vs)"
| "to_str (JObj _) = ''[object Object]''"
| "to_str (JFun f) = ''function '' @ f @ ''() { [native code] }''"

definition digits_val :: "string \<Rightarrow> nat" where
  "digits_val s = foldl (\<lambda>a c. 10 * a + (code_of c - 48)) 0 s"

text \<open>The exponent part of a decimal literal: nothing, or \<open>e\<close> with an optional sign and digits.\<close>

definition exponent_of :: "string \<Rightarrow> int option" where
  "exponent_of r = (case r of
       [] \<Rightarrow> Some 0
     | c # cs \<Rightarrow>
         if c \<noteq> CHR ''e'' \<and> c \<noteq> CHR ''E'' then None
         else let neg = str_prefix ''-'' cs;
                  ds = (if neg \<or> str_prefix ''+'' cs then tl cs else cs)
              in if ds = [] \<or> \<not> list_all is_digit ds then None
                 else Some (if neg then - int (digits_val ds) else int (digits_val ds)))"

definition scale10 :: "rat \<Rightarrow> int \<Rightarrow> rat" where
  "scale10 q e = (if 0 \<le> e then q * 10 ^ nat e else q / 10 ^ nat (- e))"

text \<open>\<open>Number(s)\<close> of an unsigned decimal literal: digits, fraction, exponent; else NaN.\<close>

definition unsigned_num :: "string \<Rightarrow> jsnum" where
  "unsigned_num s =
     (if s = ''Infinity'' then PInf
      else let ip = takeWhile is_digit s; r = dropWhile is_digit s;
               dot = str_prefix ''.'' r;
               fp = (if dot then takeWhile is_digit (tl r) else []);
               r2 = (if dot then dropWhile is_digit (tl r) else r)
           in if ip = [] \<and> fp = [] then NaN
              else case exponent_of r2 of
                     None \<Rightarrow> NaN
                   | Some e \<Rightarrow> Fin (scale10 (of_nat (digits_val ip)
                                 + of_nat (digits_val fp) / 10 ^ length fp) e))"

text \<open>The radix literals \<open>0x\<close>, \<open>0o\<close>, \<open>0b\<close>, which take no sign.\<close>

definition digit_in :: "nat \<Rightarrow> char \<Rightarrow> nat option" where
  "digit_in base c =
     (let n = code_of (lower_char c);
          d = (if 48 \<le> n \<and> n \<le> 57 then n - 48 else if 97 \<le> n \<and> n \<le> 102 then n - 87 else 99)
      in if d < base then Some d else None)"

fun radix_val :: "nat \<Rightarrow> nat \<Rightarrow> string \<Rightarrow> nat option" where
  "radix_val base acc [] = Some acc"
| "radix_val base acc (c # cs) =
     (case digit_in base c of None \<Rightarrow> None | Some d \<Rightarrow> radix_val base (base * acc + d) cs)"

definition radix_num :: "string \<Rightarrow> jsnum option" where
  "radix_num s =
     (let p = js_lower (take 2 s); ds = drop 2 s;
          base = (if p = ''0x'' then 16 else if p = ''0o'' then 8 else if p = ''0b'' then 2 else 0)
      in if base = 0 then None
         else Some (if ds = [] then NaN
                    else case radix_val base 0 ds of None \<Rightarrow> NaN | Some n \<Rightarrow> Fin (of_nat n)))"

fun neg_num :: "jsnum \<Rightarrow> jsnum" where
  "neg_num (Fin q) = Fin (- q)"
| "neg_num PInf = NInf"
| "neg_num NInf = PInf"
| "neg_num NaN = NaN"

definition str_to_num :: "string \<Rightarrow> jsnum" where
  "str_to_num s = (case js_trim s of
       [] \<Rightarrow> Fin 0
     | c # cs \<Rightarrow>
         if c = CHR ''-'' then neg_num (unsigned_num cs)
         else if c = CHR ''+'' then unsigned_num cs
         else (case radix_num (c # cs) of Some n \<Rightarrow> n | None \<Rightarrow> unsigned_num (c # cs)))"

text \<open>\<open>Number(v)\<close>.\<close>

fun to_num :: "jsval \<Rightarrow> jsnum" where
  "to_num JUndef = NaN"
| "to_num JNull = Fin 0"
| "to_num (JBool b) = Fin (if b then 1 else 0)"
| "to_num (JNum n) = n"
| "to_num (JStr s) = str_to_num s"
| "to_num (JArr vs) = str_to_num (to_str (JArr vs))"
| "to_num (JObj _) = NaN"
| "to_num (JFun _) = NaN"

fun is_finite_num :: "jsnum \<Rightarrow> bool" where
  "is_finite_num (Fin _) = True" | "is_finite_num _ = False"

text \<open>\<open>Number.isSafeInteger\<close>, on a value (no conversion).\<close>

fun safe_integer :: "jsnum \<Rightarrow> bool" where
  "safe_integer (Fin q) = (of_int \<lfloor>q\<rfloor> = q \<and> \<bar>q\<bar> \<le> 9007199254740991)"
| "safe_integer _ = False"

declare safe_integer.simps(1) [simp del]

lemma safe_integer_Fin [simp]: "safe_integer (Fin q) \<longleftrightarrow> q \<in> \<int> \<and> \<bar>q\<bar> \<le> 9007199254740991"
  by (metis Ints_cases Ints_of_int of_int_floor_cancel safe_integer.simps(1))

lemma code_of_digit_char: "d < 10 \<Longrightarrow> code_of (digit_char d) = 48 + d"
  by (simp add: code_of_def digit_char_def)

lemma digit_char_is_digit: "d < 10 \<Longrightarrow> is_digit (digit_char d)"
  by (simp add: is_digit_def code_of_digit_char)

lemma dec_nat_digits: "c \<in> set (dec_nat n) \<Longrightarrow> is_digit c"
proof (induction n rule: dec_nat.induct)
  case (1 n)
  then show ?case
    by (subst (asm) dec_nat.simps) (auto simp: digit_char_is_digit split: if_splits)
qed

lemma dec_nat_nonempty [simp]: "dec_nat n \<noteq> []"
  by (subst dec_nat.simps) simp

lemma digits_val_append: "digits_val (s @ [c]) = 10 * digits_val s + (code_of c - 48)"
  by (simp add: digits_val_def)

text \<open>Reading a numeral back: decimal rendering loses nothing.\<close>

lemma digits_val_dec_nat: "digits_val (dec_nat n) = n"
proof (induction n rule: dec_nat.induct)
  case (1 n)
  show ?case
  proof (cases "n < 10")
    case True
    then show ?thesis
      by (subst dec_nat.simps) (simp add: digits_val_def code_of_digit_char)
  next
    case False
    with "1.IH" show ?thesis
      by (subst dec_nat.simps) (simp add: digits_val_append code_of_digit_char)
  qed
qed

lemma dec_nat_inj: "dec_nat m = dec_nat n \<Longrightarrow> m = n"
  by (metis digits_val_dec_nat)

lemma colon_not_digit: "\<not> is_digit (CHR '':'')"
  by (simp add: is_digit_def code_of_def)

end
