(* ===== verification/Contracts.thy ===== *)
theory Contracts
  imports Prelude
begin

text \<open>
  The interface a table of transition contracts offers: the edges it declares, the states it
  calls final, and the \<open>nextStates\<close> each contract repeats by hand. The lemmas hold for every
  table that keeps these laws; \<open>Fleet_State\<close> interprets them on the fleet's own table.
\<close>

definition edge :: "('s \<Rightarrow> ('s \<times> 'c) list) \<Rightarrow> 's \<Rightarrow> 's \<Rightarrow> bool" where
  "edge outgoing s t \<longleftrightarrow> t \<in> fst ` set (outgoing s)"

locale contract_table =
  fixes outgoing :: "'s \<Rightarrow> ('s \<times> 'c) list"
    and final :: "'s \<Rightarrow> bool"
    and declared_next :: "'c \<Rightarrow> 's list"
  assumes final_iff: "final s \<longleftrightarrow> outgoing s = []"
    and declared: "(t, c) \<in> set (outgoing s) \<Longrightarrow> set (declared_next c) = fst ` set (outgoing t)"
    and unique: "distinct (map fst (outgoing s))"
begin

lemma no_edge_from_final: "final s \<Longrightarrow> \<not> edge outgoing s t"
  by (simp add: final_iff edge_def)

lemma final_absorbing: "(edge outgoing)\<^sup>*\<^sup>* s t \<Longrightarrow> final s \<Longrightarrow> t = s"
  by (erule converse_rtranclpE) (auto dest: no_edge_from_final)

lemma edge_contract: "edge outgoing s t \<longleftrightarrow> (\<exists>c. map_of (outgoing s) t = Some c)"
  by (force simp: edge_def map_of_eq_Some_iff unique)

lemma declared_edge: "map_of (outgoing s) t = Some c \<Longrightarrow> edge outgoing t u \<longleftrightarrow> u \<in> set (declared_next c)"
  by (metis declared edge_def map_of_SomeD)

lemma closing_contract: "map_of (outgoing s) t = Some c \<Longrightarrow> declared_next c = [] \<longleftrightarrow> final t"
  by (metis declared final_iff image_is_empty map_of_SomeD set_empty)

end

text \<open>
  The interface of a component whose operations keep an invariant, whatever their order: every
  run keeps it, and so does every prefix of a run. In \<open>guarded_steps\<close> only the operations that
  satisfy \<open>ok\<close> promise to keep it; \<open>guarded_runs\<close> starts where it holds.
\<close>

locale guarded_steps =
  fixes step :: "'op \<Rightarrow> 's \<Rightarrow> 's"
    and inv :: "'s \<Rightarrow> bool"
    and ok :: "'op \<Rightarrow> bool"
  assumes runs_step: "ok op \<Longrightarrow> inv s \<Longrightarrow> inv (step op s)"
begin

lemma runs_fold: "list_all ok ops \<Longrightarrow> inv s \<Longrightarrow> inv (fold step ops s)"
  by (induction ops arbitrary: s) (auto intro: runs_step)

end

locale guarded_runs = guarded_steps step inv ok
  for step :: "'op \<Rightarrow> 's \<Rightarrow> 's" and start :: 's and inv :: "'s \<Rightarrow> bool" and ok :: "'op \<Rightarrow> bool" +
  assumes runs_start: "inv start"
begin

lemma runs_run: "list_all ok ops \<Longrightarrow> inv (fold step ops start)"
  by (rule runs_fold [OF _ runs_start])

end

locale guarded_machine =
  fixes step :: "'op \<Rightarrow> 's \<Rightarrow> 's"
    and start :: 's
    and inv :: "'s \<Rightarrow> bool"
  assumes inv_start: "inv start"
    and inv_step: "inv s \<Longrightarrow> inv (step op s)"

sublocale guarded_machine \<subseteq> runs: guarded_runs step start inv "\<lambda>_. True"
  by unfold_locales (auto intro: inv_start inv_step)

context guarded_machine begin

lemma inv_fold: "inv s \<Longrightarrow> inv (fold step ops s)"
  by (rule runs.runs_fold) (simp_all add: list_all_iff)

lemma inv_run: "inv (fold step ops start)"
  by (rule inv_fold [OF inv_start])

end

end
