(* ===== verification/Fleet_State.thy ===== *)
theory Fleet_State
  imports Js_Text Contracts
begin

text \<open>
  The fleet's state machine, \<open>daemon/src/queue/state-machine.mjs\<close>: the eleven named states, the
  table of transition contracts, the projection onto the four queue statuses, the idempotency key
  of a transition and the judgement \<open>applyTransition\<close>, with every refusal as a value. SHA-256 of
  \<open>node:crypto\<close> is a parameter; the theorems hold for every digest function.
\<close>

section \<open>Vocabulary\<close>

datatype fleet_state = READY | CLAIMED | RUNNING | PRODUCED | VERIFYING | WAITING_HUMAN
  | ACCEPTED | REJECTED | RETRYABLE | DEAD_LETTER | CANCELLED

definition fleet_states :: "fleet_state list" where
  "fleet_states = [READY, CLAIMED, RUNNING, PRODUCED, VERIFYING, WAITING_HUMAN,
     ACCEPTED, REJECTED, RETRYABLE, DEAD_LETTER, CANCELLED]"

fun state_name :: "fleet_state \<Rightarrow> string" where
  "state_name READY = ''READY''"
| "state_name CLAIMED = ''CLAIMED''"
| "state_name RUNNING = ''RUNNING''"
| "state_name PRODUCED = ''PRODUCED''"
| "state_name VERIFYING = ''VERIFYING''"
| "state_name WAITING_HUMAN = ''WAITING_HUMAN''"
| "state_name ACCEPTED = ''ACCEPTED''"
| "state_name REJECTED = ''REJECTED''"
| "state_name RETRYABLE = ''RETRYABLE''"
| "state_name DEAD_LETTER = ''DEAD_LETTER''"
| "state_name CANCELLED = ''CANCELLED''"

definition terminal_states :: "fleet_state list" where
  "terminal_states = [ACCEPTED, REJECTED, DEAD_LETTER, CANCELLED]"

definition queue_statuses :: "string list" where
  "queue_statuses = [''queued'', ''claimed'', ''completed'', ''failed'']"

definition actors :: "string list" where
  "actors = [''dispatcher'', ''worker'', ''verifier'', ''supervisor'', ''human'']"

definition authorized_dispositions :: "string list" where
  "authorized_dispositions = [''human-approved'', ''authorized-policy'']"

definition forbidden_tokens :: "string list" where
  "forbidden_tokens = [''push'', ''merge'']"

definition decidable_preconditions :: "string list" where
  "decidable_preconditions = [''verification_receipt_present'', ''authorized_disposition_present'']"

section \<open>Contracts\<close>

record contract =
  actor :: string
  preconditions :: "string list"
  writes :: "string list"
  external_effects :: "string list"
  timeout :: "string option"
  retry_policy :: string
  next_states :: "fleet_state list"

definition cancel_contract :: contract where
  "cancel_contract = \<lparr>actor = ''human'', preconditions = [''human_requested_stop''],
     writes = [''cancellation_record''], external_effects = [], timeout = None,
     retry_policy = ''none'', next_states = []\<rparr>"

fun transitions :: "fleet_state \<Rightarrow> (fleet_state \<times> contract) list" where
  "transitions READY =
     [(CLAIMED, \<lparr>actor = ''dispatcher'',
        preconditions = [''worker_lane_open'', ''no_active_lease''],
        writes = [''lease'', ''attempt_row''],
        external_effects = [], timeout = None,
        retry_policy = ''create_new_attempt'',
        next_states = [RUNNING, RETRYABLE, CANCELLED]\<rparr>),
      (CANCELLED, cancel_contract)]"
| "transitions CLAIMED =
     [(RUNNING, \<lparr>actor = ''worker'',
        preconditions = [''active_lease_matches_attempt'', ''capability_envelope_present''],
        writes = [''attempt_row''],
        external_effects = [''worker_process_started''], timeout = None,
        retry_policy = ''create_new_attempt'',
        next_states = [PRODUCED, RETRYABLE, CANCELLED]\<rparr>),
      (RETRYABLE, \<lparr>actor = ''supervisor'',
        preconditions = [''lease_expired_or_worker_failed''],
        writes = [''attempt_row'', ''failure_reason''],
        external_effects = [], timeout = None,
        retry_policy = ''create_new_attempt'',
        next_states = [READY, DEAD_LETTER, CANCELLED]\<rparr>),
      (CANCELLED, cancel_contract)]"
| "transitions RUNNING =
     [(PRODUCED, \<lparr>actor = ''worker'',
        preconditions = [''active_lease_matches_attempt'', ''capability_allows_write_scope''],
        writes = [''artifact_manifest'', ''execution_receipt''],
        external_effects = [], timeout = Some ''45m'',
        retry_policy = ''create_new_attempt'',
        next_states = [VERIFYING, RETRYABLE, CANCELLED]\<rparr>),
      (RETRYABLE, \<lparr>actor = ''supervisor'',
        preconditions = [''lease_expired_or_worker_failed''],
        writes = [''attempt_row'', ''failure_reason''],
        external_effects = [], timeout = None,
        retry_policy = ''create_new_attempt'',
        next_states = [READY, DEAD_LETTER, CANCELLED]\<rparr>),
      (CANCELLED, cancel_contract)]"
| "transitions PRODUCED =
     [(VERIFYING, \<lparr>actor = ''verifier'',
        preconditions = [''artifact_manifest_present''],
        writes = [''verification_run''],
        external_effects = [], timeout = None,
        retry_policy = ''create_new_attempt'',
        next_states = [ACCEPTED, REJECTED, WAITING_HUMAN, RETRYABLE, CANCELLED]\<rparr>),
      (RETRYABLE, \<lparr>actor = ''supervisor'',
        preconditions = [''lease_expired_or_worker_failed''],
        writes = [''attempt_row'', ''failure_reason''],
        external_effects = [], timeout = None,
        retry_policy = ''create_new_attempt'',
        next_states = [READY, DEAD_LETTER, CANCELLED]\<rparr>),
      (CANCELLED, cancel_contract)]"
| "transitions VERIFYING =
     [(ACCEPTED, \<lparr>actor = ''verifier'',
        preconditions = [''verification_receipt_present'', ''authorized_disposition_present''],
        writes = [''acceptance_record'', ''execution_receipt''],
        external_effects = [], timeout = None,
        retry_policy = ''none'',
        next_states = []\<rparr>),
      (REJECTED, \<lparr>actor = ''verifier'',
        preconditions = [''verification_receipt_present''],
        writes = [''rejection_record'', ''failure_reason''],
        external_effects = [], timeout = None,
        retry_policy = ''none'',
        next_states = []\<rparr>),
      (WAITING_HUMAN, \<lparr>actor = ''verifier'',
        preconditions = [''decision_required_by_human''],
        writes = [''awaiting_approval_row''],
        external_effects = [''human_notification''], timeout = None,
        retry_policy = ''none'',
        next_states = [ACCEPTED, REJECTED, CANCELLED]\<rparr>),
      (RETRYABLE, \<lparr>actor = ''supervisor'',
        preconditions = [''lease_expired_or_worker_failed''],
        writes = [''attempt_row'', ''failure_reason''],
        external_effects = [], timeout = None,
        retry_policy = ''create_new_attempt'',
        next_states = [READY, DEAD_LETTER, CANCELLED]\<rparr>),
      (CANCELLED, cancel_contract)]"
| "transitions WAITING_HUMAN =
     [(ACCEPTED, \<lparr>actor = ''human'',
        preconditions = [''verification_receipt_present'', ''authorized_disposition_present''],
        writes = [''acceptance_record'', ''execution_receipt''],
        external_effects = [], timeout = None,
        retry_policy = ''none'',
        next_states = []\<rparr>),
      (REJECTED, \<lparr>actor = ''human'',
        preconditions = [''human_disposition_present''],
        writes = [''rejection_record'', ''failure_reason''],
        external_effects = [], timeout = None,
        retry_policy = ''none'',
        next_states = []\<rparr>),
      (CANCELLED, cancel_contract)]"
| "transitions RETRYABLE =
     [(READY, \<lparr>actor = ''dispatcher'',
        preconditions = [''retry_budget_remaining'', ''new_attempt_created''],
        writes = [''attempt_row''],
        external_effects = [], timeout = None,
        retry_policy = ''create_new_attempt'',
        next_states = [CLAIMED, CANCELLED]\<rparr>),
      (DEAD_LETTER, \<lparr>actor = ''dispatcher'',
        preconditions = [''retry_budget_exhausted''],
        writes = [''dead_letter_row'', ''failure_reason''],
        external_effects = [''dead_letter_enqueue'', ''human_notification''], timeout = None,
        retry_policy = ''none'',
        next_states = []\<rparr>),
      (CANCELLED, cancel_contract)]"
| "transitions _ = []"

fun state_to_queue_status :: "fleet_state \<Rightarrow> string" where
  "state_to_queue_status READY = ''queued''"
| "state_to_queue_status RETRYABLE = ''queued''"
| "state_to_queue_status CLAIMED = ''claimed''"
| "state_to_queue_status RUNNING = ''claimed''"
| "state_to_queue_status PRODUCED = ''claimed''"
| "state_to_queue_status VERIFYING = ''claimed''"
| "state_to_queue_status WAITING_HUMAN = ''claimed''"
| "state_to_queue_status ACCEPTED = ''completed''"
| "state_to_queue_status REJECTED = ''failed''"
| "state_to_queue_status DEAD_LETTER = ''failed''"
| "state_to_queue_status CANCELLED = ''failed''"

text \<open>\<open>isFleetState\<close>: the state a value names, when it is one of the eleven strings.\<close>

definition state_of :: "jsval \<Rightarrow> fleet_state option" where
  "state_of v = (if is_str v then find (\<lambda>s. state_name s = str_of v) fleet_states else None)"

definition is_fleet_state :: "jsval \<Rightarrow> bool" where
  "is_fleet_state v \<longleftrightarrow> is_str v \<and> List.member (map state_name fleet_states) (str_of v)"

definition transition_contract :: "jsval \<Rightarrow> jsval \<Rightarrow> contract option" where
  "transition_contract from to =
     (case (state_of from, state_of to) of
        (Some s, Some t) \<Rightarrow> map_of (transitions s) t
      | _ \<Rightarrow> None)"

definition to_queue_status :: "jsval \<Rightarrow> string option" where
  "to_queue_status v =
     (case state_of v of
        None \<Rightarrow> None
      | Some s \<Rightarrow> let status = state_to_queue_status s in
                  if List.member queue_statuses status then Some status else None)"

section \<open>The idempotency key\<close>

datatype type_error = TypeError string

definition length_prefixed :: "string \<Rightarrow> string" where
  "length_prefixed part = dec_nat (length part) @ '':'' @ part"

definition key_preimage :: "string list \<Rightarrow> string" where
  "key_preimage parts = concat (map length_prefixed parts)"

text \<open>\<open>v\<close> is a string with a visible character: \<open>idOk\<close>, and the guard of \<open>idempotencyKey\<close>.\<close>

definition id_ok :: "jsval \<Rightarrow> bool" where
  "id_ok v \<longleftrightarrow> is_str v \<and> js_trim (str_of v) \<noteq> []"

definition idempotency_key ::
  "(string \<Rightarrow> string) \<Rightarrow> jsval \<Rightarrow> jsval \<Rightarrow> jsval \<Rightarrow> type_error + string" where
  "idempotency_key sha256hex task_id attempt_id transition =
     (let parts = [task_id, attempt_id, transition] in
      if list_all id_ok parts
      then Inr (take 16 (sha256hex (key_preimage (map str_of parts))))
      else Inl (TypeError
        ''idempotencyKey requires three non-empty strings: taskId, attemptId, transition''))"

section \<open>The judgement\<close>

text \<open>The caller's \<open>appliedKeys\<close>: a \<open>Set\<close>, or any other value, of which only an array counts.\<close>

datatype applied_keys = KeySet "jsval list" | KeyVal jsval

record request =
  rq_state :: jsval
  rq_to :: jsval
  rq_actor :: jsval
  rq_task :: jsval
  rq_attempt_id :: jsval
  rq_attempt :: jsval
  rq_receipt :: jsval
  rq_disposition :: jsval
  rq_grants :: jsval
  rq_applied :: applied_keys

text \<open>One constructor per refusal sentence, with the values the sentence quotes.\<close>

datatype refusal =
    NoIdentity
  | NotFleetStates
  | ForbiddenGrant string
  | DeadLetterNeedsDisposition
  | DeadLetterNeedsNewAttempt
  | NoContract
  | ActorUnknown string
  | ActorWrong string
  | AcceptanceLacks bool bool \<comment> \<open>no receipt, no authorized disposition\<close>

record landed =
  l_task :: jsval
  l_attempt_id :: jsval
  l_attempt :: jsval
  l_from :: fleet_state
  l_state :: fleet_state
  l_actor :: jsval
  l_contract :: contract
  l_key :: string
  l_version :: string
  l_effects :: "string list"

datatype outcome =
    Refused refusal
  | AlreadyApplied landed
  | Applied landed "string list" \<comment> \<open>the deferred preconditions\<close>

definition state_machine_version :: string where
  "state_machine_version = ''fleet-sm-1''"

definition grant_list :: "jsval \<Rightarrow> jsval list" where
  "grant_list grants = (if is_str grants then [grants] else elems grants)"

text \<open>The first forbidden token of the first grant that has one, in the order of the two loops.\<close>

definition forbidden_in :: "jsval \<Rightarrow> string option" where
  "forbidden_in grant =
     find (\<lambda>token. str_includes token (js_lower (to_str grant))) forbidden_tokens"

fun forbidden_grant :: "jsval list \<Rightarrow> string option" where
  "forbidden_grant [] = None"
| "forbidden_grant (g # gs) =
     (case forbidden_in g of Some token \<Rightarrow> Some token | None \<Rightarrow> forbidden_grant gs)"

definition applied_list :: "applied_keys \<Rightarrow> jsval list" where
  "applied_list ks = (case ks of KeySet vs \<Rightarrow> vs | KeyVal v \<Rightarrow> elems v)"

definition authorized :: "jsval \<Rightarrow> bool" where
  "authorized d \<longleftrightarrow> is_str d \<and> List.member authorized_dispositions (str_of d)"

text \<open>The part after the contract is found: actor, acceptance, key, redelivery.\<close>

definition land :: "(string \<Rightarrow> string) \<Rightarrow> request \<Rightarrow> fleet_state \<Rightarrow> fleet_state \<Rightarrow> contract
    \<Rightarrow> type_error + outcome" where
  "land sha rq s t c =
     (case idempotency_key sha (rq_task rq) (rq_attempt_id rq)
             (JStr (state_name s @ ''->'' @ state_name t)) of
        Inl e \<Rightarrow> Inl e
      | Inr key \<Rightarrow>
          let l = \<lparr>l_task = rq_task rq, l_attempt_id = rq_attempt_id rq,
                   l_attempt = rq_attempt rq, l_from = s, l_state = t,
                   l_actor = rq_actor rq, l_contract = c, l_key = key,
                   l_version = state_machine_version, l_effects = external_effects c\<rparr>
          in if List.member (applied_list (rq_applied rq)) (JStr key)
             then Inr (AlreadyApplied l)
             else Inr (Applied l
               (filter (\<lambda>p. \<not> List.member decidable_preconditions p) (preconditions c))))"

definition apply_transition :: "(string \<Rightarrow> string) \<Rightarrow> request \<Rightarrow> type_error + outcome" where
  "apply_transition sha rq =
     (if \<not> id_ok (rq_task rq) \<or> \<not> id_ok (rq_attempt_id rq) then Inr (Refused NoIdentity)
      else case (state_of (rq_state rq), state_of (rq_to rq)) of
        (Some s, Some t) \<Rightarrow>
          (case forbidden_grant (grant_list (rq_grants rq)) of
             Some token \<Rightarrow> Inr (Refused (ForbiddenGrant token))
           | None \<Rightarrow>
             if s = DEAD_LETTER \<and> t = READY
             then Inr (Refused (if id_ok (rq_disposition rq) then DeadLetterNeedsNewAttempt
                                else DeadLetterNeedsDisposition))
             else
               (case transition_contract (rq_state rq) (rq_to rq) of
                  None \<Rightarrow> Inr (Refused NoContract)
                | Some c \<Rightarrow>
                  if \<not> (is_str (rq_actor rq) \<and> List.member actors (str_of (rq_actor rq)))
                  then Inr (Refused (ActorUnknown (actor c)))
                  else if str_of (rq_actor rq) \<noteq> actor c
                  then Inr (Refused (ActorWrong (actor c)))
                  else if t = ACCEPTED \<and>
                          (\<not> id_ok (rq_receipt rq) \<or> \<not> authorized (rq_disposition rq))
                  then Inr (Refused (AcceptanceLacks (\<not> id_ok (rq_receipt rq))
                                                     (\<not> authorized (rq_disposition rq))))
                  else land sha rq s t c))
      | _ \<Rightarrow> Inr (Refused NotFleetStates))"

section \<open>The table keeps its contract\<close>

lemma state_name_inj: "state_name s = state_name t \<longleftrightarrow> s = t"
  by (cases s; cases t) simp_all

lemma set_fleet_states: "s \<in> set fleet_states"
  by (cases s) (simp_all add: fleet_states_def)

lemma state_of_name [simp]: "state_of (JStr (state_name s)) = Some s"
  by (cases s) (simp_all add: state_of_def fleet_states_def)

lemma state_of_Some_iff: "state_of v = Some s \<longleftrightarrow> v = JStr (state_name s)"
proof
  assume "state_of v = Some s"
  then show "v = JStr (state_name s)"
    by (cases v) (auto simp: state_of_def find_Some_iff)
qed simp

lemma is_fleet_state_iff: "is_fleet_state v \<longleftrightarrow> (\<exists>s. state_of v = Some s)"
  unfolding state_of_Some_iff is_fleet_state_def
  by (cases v) (auto simp: set_fleet_states)

definition is_terminal :: "fleet_state \<Rightarrow> bool" where
  "is_terminal s \<longleftrightarrow> List.member terminal_states s"

interpretation fleet: contract_table transitions is_terminal next_states
proof
  show "is_terminal s \<longleftrightarrow> transitions s = []" for s
    by (cases s) (simp_all add: is_terminal_def terminal_states_def)
  show "set (next_states c) = fst ` set (transitions t)" if "(t, c) \<in> set (transitions s)" for t c s
    using that by (cases s) (auto simp: cancel_contract_def)
  show "distinct (map fst (transitions s))" for s
    by (cases s) simp_all
qed

section \<open>The judgement, branch by branch\<close>

lemma id_ok_str: "id_ok v \<Longrightarrow> v = JStr (str_of v)"
  by (cases v) (auto simp: id_ok_def)

lemma state_key_ok [simp]: "id_ok (JStr (state_name s @ CHR ''-'' # CHR ''>'' # state_name t))"
  by (auto simp: id_ok_def js_trim_empty_iff js_ws_def code_of_def)

lemma land_total: "id_ok (rq_task rq) \<Longrightarrow> id_ok (rq_attempt_id rq) \<Longrightarrow> \<exists>out. land sha rq s t c = Inr out"
  by (simp add: land_def idempotency_key_def Let_def)

lemma transition_contract_states:
  "transition_contract (JStr (state_name s)) (JStr (state_name t)) = map_of (transitions s) t"
  by (simp add: transition_contract_def)

lemma forbidden_grant_None_iff: "forbidden_grant gs = None \<longleftrightarrow> (\<forall>g \<in> set gs. forbidden_in g = None)"
  by (induction gs) (auto split: option.splits)

lemma forbidden_in_None_iff:
  "forbidden_in g = None \<longleftrightarrow> (\<forall>token \<in> set forbidden_tokens. \<not> sublist token (js_lower (to_str g)))"
  by (auto simp: forbidden_in_def find_None_iff str_includes_iff)

text \<open>What a request must say for the machine to perform its transition.\<close>

definition performable :: "request \<Rightarrow> fleet_state \<Rightarrow> fleet_state \<Rightarrow> contract \<Rightarrow> bool" where
  "performable rq s t c \<longleftrightarrow>
     id_ok (rq_task rq) \<and> id_ok (rq_attempt_id rq) \<and>
     rq_state rq = JStr (state_name s) \<and> rq_to rq = JStr (state_name t) \<and>
     map_of (transitions s) t = Some c \<and> rq_actor rq = JStr (actor c) \<and>
     (\<forall>g \<in> set (grant_list (rq_grants rq)). forbidden_in g = None) \<and>
     (t = ACCEPTED \<longrightarrow> id_ok (rq_receipt rq) \<and> authorized (rq_disposition rq))"

definition key_parts :: "request \<Rightarrow> fleet_state \<Rightarrow> fleet_state \<Rightarrow> string list" where
  "key_parts rq s t = [str_of (rq_task rq), str_of (rq_attempt_id rq), state_name s @ ''->'' @ state_name t]"

definition transition_key :: "(string \<Rightarrow> string) \<Rightarrow> request \<Rightarrow> fleet_state \<Rightarrow> fleet_state \<Rightarrow> string" where
  "transition_key sha rq s t = take 16 (sha (key_preimage (key_parts rq s t)))"

definition landing :: "(string \<Rightarrow> string) \<Rightarrow> request \<Rightarrow> fleet_state \<Rightarrow> fleet_state \<Rightarrow> contract \<Rightarrow> landed" where
  "landing sha rq s t c =
     \<lparr>l_task = rq_task rq, l_attempt_id = rq_attempt_id rq, l_attempt = rq_attempt rq,
      l_from = s, l_state = t, l_actor = rq_actor rq, l_contract = c,
      l_key = transition_key sha rq s t, l_version = state_machine_version,
      l_effects = external_effects c\<rparr>"

lemma contract_actor_known: "map_of (transitions s) t = Some c \<Longrightarrow> actor c \<in> set actors"
  by (cases s) (auto simp: actors_def cancel_contract_def split: if_splits)

lemma no_dead_letter_return: "map_of (transitions s) t = Some c \<Longrightarrow> \<not> (s = DEAD_LETTER \<and> t = READY)"
  by (cases s) auto

lemma land_eq:
  assumes "id_ok (rq_task rq)" "id_ok (rq_attempt_id rq)"
  shows "land sha rq s t c =
    (if JStr (transition_key sha rq s t) \<in> set (applied_list (rq_applied rq))
     then Inr (AlreadyApplied (landing sha rq s t c))
     else Inr (Applied (landing sha rq s t c)
       (filter (\<lambda>p. p \<notin> set decidable_preconditions) (preconditions c))))"
  using assms by (simp add: land_def idempotency_key_def Let_def landing_def transition_key_def key_parts_def)

text \<open>A performable request lands; every other one is refused.\<close>

lemma apply_performable:
  assumes "performable rq s t c"
  shows "apply_transition sha rq = land sha rq s t c"
proof -
  from assms have c: "map_of (transitions s) t = Some c" by (simp add: performable_def)
  note known = contract_actor_known [OF c] and dead = no_dead_letter_return [OF c]
  have "forbidden_grant (grant_list (rq_grants rq)) = None"
    using assms by (simp add: performable_def forbidden_grant_None_iff)
  with assms c known dead show ?thesis
    by (auto simp: performable_def apply_transition_def transition_contract_states)
qed

lemma apply_not_refused:
  assumes "apply_transition sha rq = Inr out" and "\<forall>r. out \<noteq> Refused r"
  shows "\<exists>s t c. performable rq s t c"
proof -
  from assms obtain s t c where "state_of (rq_state rq) = Some s" "state_of (rq_to rq) = Some t"
      "transition_contract (rq_state rq) (rq_to rq) = Some c"
      "id_ok (rq_task rq)" "id_ok (rq_attempt_id rq)"
      "forbidden_grant (grant_list (rq_grants rq)) = None"
      "is_str (rq_actor rq)" "str_of (rq_actor rq) = actor c"
      "t = ACCEPTED \<longrightarrow> id_ok (rq_receipt rq) \<and> authorized (rq_disposition rq)"
    by (auto simp: apply_transition_def split: if_splits option.splits)
  then have "performable rq s t c"
    by (auto simp: performable_def state_of_Some_iff transition_contract_states
        forbidden_grant_None_iff is_str_iff)
  then show ?thesis by blast
qed

section \<open>The key determines its parts\<close>

lemma digits_colon_split:
  assumes "dec_nat m @ '':'' @ xs = dec_nat n @ '':'' @ ys"
  shows "m = n \<and> xs = ys"
proof -
  have tw: "takeWhile (\<lambda>c. c \<noteq> CHR '':'') (dec_nat k @ '':'' @ zs) = dec_nat k"
    "dropWhile (\<lambda>c. c \<noteq> CHR '':'') (dec_nat k @ '':'' @ zs) = '':'' @ zs" for k zs
    using dec_nat_digits colon_not_digit
    by (auto intro!: takeWhile_append2 [THEN trans] dropWhile_append2 [THEN trans])
  from assms have "dec_nat m = dec_nat n" and "'':'' @ xs = '':'' @ ys"
    by (metis tw(1)) (metis assms tw(2))
  then show ?thesis by (auto dest: dec_nat_inj)
qed

lemma length_prefixed_split:
  assumes "length_prefixed a @ xs = length_prefixed b @ ys"
  shows "a = b \<and> xs = ys"
proof -
  from assms have "length a = length b \<and> a @ xs = b @ ys"
    using digits_colon_split [of "length a" "a @ xs" "length b" "b @ ys"]
    by (simp add: length_prefixed_def)
  then show ?thesis by (metis append_eq_append_conv)
qed

lemma length_prefixed_nonempty: "length_prefixed a \<noteq> []"
  by (simp add: length_prefixed_def)

lemma key_preimage_Cons: "key_preimage (a # as) = length_prefixed a @ key_preimage as"
  by (simp add: key_preimage_def)

lemma to_queue_status_name: "to_queue_status (JStr (state_name s)) = Some (state_to_queue_status s)"
proof -
  have "state_to_queue_status s \<in> set queue_statuses"
    by (cases s) (simp_all add: queue_statuses_def)
  then show ?thesis by (simp add: to_queue_status_def)
qed

section \<open>Properties\<close>

definition sample_request :: request where
  "sample_request = \<lparr>rq_state = JStr ''VERIFYING'', rq_to = JStr ''ACCEPTED'',
     rq_actor = JStr ''verifier'', rq_task = JStr ''t-1'', rq_attempt_id = JStr ''t-1#1'',
     rq_attempt = JInt 1, rq_receipt = JStr ''r-9'', rq_disposition = JStr ''human-approved'',
     rq_grants = JUndef, rq_applied = KeyVal JUndef\<rparr>"

lemma sample_performable:
  "performable sample_request VERIFYING ACCEPTED (the (map_of (transitions VERIFYING) ACCEPTED))"
  by code_simp

text \<open>No one accepts its own work. Whenever \<open>applyTransition\<close> performs a transition into
  ACCEPTED, the request carried a non-blank verification receipt and one of the two authorized
  dispositions, the task came from VERIFYING or WAITING_HUMAN, and the actor was the verifier or a
  human, never the worker.\<close>

theorem accepted_needs_verdict:
  assumes "apply_transition sha rq = Inr (Applied l d)" and "l_state l = ACCEPTED"
  shows "id_ok (rq_receipt rq) \<and> authorized (rq_disposition rq) \<and>
    l_from l \<in> {VERIFYING, WAITING_HUMAN} \<and> rq_actor rq \<in> {JStr ''verifier'', JStr ''human''}"
proof -
  obtain s t c where p: "performable rq s t c"
    using apply_not_refused [OF assms(1)] by blast
  then have "apply_transition sha rq = land sha rq s t c" by (rule apply_performable)
  moreover have "id_ok (rq_task rq)" "id_ok (rq_attempt_id rq)"
    using p by (simp_all add: performable_def)
  ultimately have "l = landing sha rq s t c"
    using assms(1) by (simp add: land_eq split: if_splits)
  with assms(2) p show ?thesis
    by (cases s) (auto simp: landing_def performable_def cancel_contract_def split: if_splits)
qed

theorem accepted_needs_verdict_witness:
  "\<exists>l d. apply_transition id sample_request = Inr (Applied l d) \<and>
     l_from l \<in> {VERIFYING, WAITING_HUMAN}"
proof -
  let ?c = "the (map_of (transitions VERIFYING) ACCEPTED)"
  have "\<exists>d. apply_transition id sample_request = Inr (Applied (landing id sample_request VERIFYING ACCEPTED ?c) d)"
    unfolding apply_performable [OF sample_performable]
    by (subst land_eq) (code_simp, code_simp, simp add: sample_request_def applied_list_def)
  then obtain d where d: "apply_transition id sample_request =
      Inr (Applied (landing id sample_request VERIFYING ACCEPTED ?c) d)" ..
  with accepted_needs_verdict [OF d] show ?thesis by (auto simp: landing_def)
qed

text \<open>The judgement is decided. A transition lands, for the first time or as a redelivery,
  exactly when some contract of the table declares it, its actor is the one named, no grant
  carries a forbidden token, the identifiers are non-blank and an acceptance has its receipt and
  disposition; and it is a redelivery exactly when its key is among the applied ones.\<close>

theorem apply_transition_decides:
  "(\<exists>l d. apply_transition sha rq = Inr (Applied l d)) \<longleftrightarrow>
     (\<exists>s t c. performable rq s t c \<and>
        JStr (transition_key sha rq s t) \<notin> set (applied_list (rq_applied rq)))"
  (is "?applied \<longleftrightarrow> ?fresh")
proof
  assume ?applied
  then obtain l d where l: "apply_transition sha rq = Inr (Applied l d)" by blast
  then obtain s t c where p: "performable rq s t c"
    using apply_not_refused by blast
  then have "id_ok (rq_task rq)" "id_ok (rq_attempt_id rq)" by (simp_all add: performable_def)
  with l p show ?fresh
    by (auto simp: apply_performable land_eq split: if_splits)
next
  assume ?fresh
  then obtain s t c where p: "performable rq s t c"
      "JStr (transition_key sha rq s t) \<notin> set (applied_list (rq_applied rq))" by blast
  then have "id_ok (rq_task rq)" "id_ok (rq_attempt_id rq)" by (simp_all add: performable_def)
  with p show ?applied by (simp add: apply_performable land_eq)
qed

text \<open>\<open>applyTransition\<close> never throws, whatever it is given: the one function it calls that can
  throw is reached only with arguments it accepts.\<close>

theorem apply_transition_never_throws: "\<exists>out. apply_transition sha rq = Inr out"
  by (auto simp: apply_transition_def land_eq split: option.splits)

text \<open>One idempotency key, one transition. The text that is hashed determines the task, the
  attempt and the transition: no two different triples share it, whatever characters they hold.\<close>

theorem key_preimage_injective: "key_preimage xs = key_preimage ys \<longleftrightarrow> xs = ys"
proof
  show "key_preimage xs = key_preimage ys \<Longrightarrow> xs = ys"
  proof (induction xs arbitrary: ys)
    case Nil
    then show ?case
      by (cases ys) (auto simp: key_preimage_Cons key_preimage_def length_prefixed_nonempty)
  next
    case (Cons x xs)
    then obtain y ys' where ys: "ys = y # ys'"
      by (cases ys) (auto simp: key_preimage_def length_prefixed_nonempty)
    with Cons.prems have "x = y \<and> key_preimage xs = key_preimage ys'"
      by (intro length_prefixed_split) (simp add: key_preimage_Cons)
    with Cons.IH ys show ?case by simp
  qed
qed simp

lemma arrow_inj:
  assumes "state_name s @ ''->'' @ state_name t = state_name u @ ''->'' @ state_name v"
  shows "s = u \<and> t = v"
proof -
  have plain: "CHR ''-'' \<notin> set (state_name x)" for x by (cases x) simp_all
  have cut: "takeWhile (\<lambda>c. c \<noteq> CHR ''-'') (state_name x @ ''->'' @ ys) = state_name x" for x ys
    using plain [of x] by (subst takeWhile_append2) auto
  have first: "state_name s = state_name u"
    using arg_cong [OF assms, of "takeWhile (\<lambda>c. c \<noteq> CHR ''-'')"] by (simp only: cut)
  moreover have "state_name t = state_name v" using assms unfolding first by simp
  ultimately show ?thesis by (simp add: state_name_inj)
qed

lemma key_parts_same:
  assumes "performable rq s t c" and "performable rq' s' t' c'"
  shows "key_parts rq' s' t' = key_parts rq s t \<longleftrightarrow>
    rq_task rq' = rq_task rq \<and> rq_attempt_id rq' = rq_attempt_id rq \<and> s' = s \<and> t' = t"
proof
  assume "key_parts rq' s' t' = key_parts rq s t"
  then have "str_of (rq_task rq') = str_of (rq_task rq)" "str_of (rq_attempt_id rq') = str_of (rq_attempt_id rq)"
    and names: "state_name s' @ ''->'' @ state_name t' = state_name s @ ''->'' @ state_name t"
    by (simp_all add: key_parts_def)
  moreover have "id_ok (rq_task rq)" "id_ok (rq_attempt_id rq)" "id_ok (rq_task rq')" "id_ok (rq_attempt_id rq')"
    using assms by (simp_all add: performable_def)
  ultimately show "rq_task rq' = rq_task rq \<and> rq_attempt_id rq' = rq_attempt_id rq \<and> s' = s \<and> t' = t"
    using arrow_inj [OF names] id_ok_str [of "rq_task rq"] id_ok_str [of "rq_task rq'"]
      id_ok_str [of "rq_attempt_id rq"] id_ok_str [of "rq_attempt_id rq'"] by simp
qed (simp add: key_parts_def)

text \<open>C1: a landed transition is recognised when it is delivered again, and nothing else is taken for it
  (\<open>applyTransition\<close>). Once a transition was performed and its key is the one the caller keeps among the applied
  keys, every later request the machine would perform is answered by \<open>alreadyApplied\<close>, with the key, the state and
  the external effects of that landing, exactly when it names the same task, the same attempt and the same transition;
  every other one is performed, under another key. The digest must tell the texts of these keys apart.\<close>

theorem landed_transition_recognised:
  assumes "apply_transition sha rq = Inr (Applied l d)" and "set (applied_list (rq_applied rq')) = {JStr (l_key l)}"
    and "performable rq' s t c"
    and "\<And>u v. take 16 (sha (key_preimage (key_parts rq' s t))) = take 16 (sha (key_preimage (key_parts rq u v))) \<Longrightarrow>
      key_preimage (key_parts rq' s t) = key_preimage (key_parts rq u v)"
  shows "if rq_task rq' = l_task l \<and> rq_attempt_id rq' = l_attempt_id l \<and> s = l_from l \<and> t = l_state l
    then \<exists>l'. apply_transition sha rq' = Inr (AlreadyApplied l') \<and> l_key l' = l_key l \<and> l_state l' = l_state l \<and>
      l_effects l' = l_effects l
    else \<exists>l' d'. apply_transition sha rq' = Inr (Applied l' d') \<and> l_key l' \<noteq> l_key l"
proof -
  obtain u v e where p: "performable rq u v e" using apply_not_refused [OF assms(1)] by blast
  then have ids: "id_ok (rq_task rq)" "id_ok (rq_attempt_id rq)" by (simp_all add: performable_def)
  have l: "l = landing sha rq u v e"
    using assms(1) apply_performable [OF p] by (simp add: land_eq [OF ids] split: if_splits)
  from assms(3) have ids': "id_ok (rq_task rq')" "id_ok (rq_attempt_id rq')" by (simp_all add: performable_def)
  have same_key: "transition_key sha rq' s t = l_key l \<longleftrightarrow>
      rq_task rq' = l_task l \<and> rq_attempt_id rq' = l_attempt_id l \<and> s = l_from l \<and> t = l_state l"
  proof -
    have "transition_key sha rq' s t = transition_key sha rq u v \<longleftrightarrow> key_parts rq' s t = key_parts rq u v"
      unfolding transition_key_def using assms(4) [of u v] by (metis key_preimage_injective)
    then show ?thesis unfolding l using key_parts_same [OF p assms(3)] by (simp add: landing_def)
  qed
  have answer: "apply_transition sha rq' = (if transition_key sha rq' s t = l_key l
      then Inr (AlreadyApplied (landing sha rq' s t c))
      else Inr (Applied (landing sha rq' s t c) (filter (\<lambda>p. p \<notin> set decidable_preconditions) (preconditions c))))"
    unfolding apply_performable [OF assms(3)] land_eq [OF ids'] assms(2) by simp
  show ?thesis
  proof (cases "transition_key sha rq' s t = l_key l")
    case True
    then have same: "rq_task rq' = l_task l \<and> rq_attempt_id rq' = l_attempt_id l \<and> s = l_from l \<and> t = l_state l"
      using same_key by simp
    then have "s = u" "t = v" by (simp_all add: l landing_def)
    then have "c = e" using p assms(3) by (simp add: performable_def)
    then have "l_effects (landing sha rq' s t c) = l_effects l" by (simp add: l landing_def)
    moreover have "l_key (landing sha rq' s t c) = l_key l" "l_state (landing sha rq' s t c) = l_state l"
      using True same by (simp_all add: landing_def)
    ultimately show ?thesis using same answer True by auto
  next
    case False
    have "l_key (landing sha rq' s t c) \<noteq> l_key l" using False by (simp add: landing_def)
    then show ?thesis using same_key answer False by auto
  qed
qed

definition sample_digest :: "string \<Rightarrow> string" where
  "sample_digest x = (if x = key_preimage (key_parts sample_request VERIFYING ACCEPTED) then ''a'' else ''b'')"

definition sample_again :: request where
  "sample_again = sample_request\<lparr>rq_applied := KeySet [JStr ''a'']\<rparr>"

theorem landed_transition_recognised_witness:
  "\<exists>l'. apply_transition sample_digest sample_again = Inr (AlreadyApplied l') \<and> l_key l' = ''a'' \<and> l_state l' = ACCEPTED"
proof -
  let ?c = "the (map_of (transitions VERIFYING) ACCEPTED)"
  let ?l = "landing sample_digest sample_request VERIFYING ACCEPTED ?c"
  have ids: "id_ok (rq_task sample_request)" "id_ok (rq_attempt_id sample_request)"
    using sample_performable by (simp_all add: performable_def)
  have key: "l_key ?l = ''a''" by (simp add: landing_def transition_key_def sample_digest_def)
  have none: "applied_list (rq_applied sample_request) = []" by (simp add: sample_request_def applied_list_def)
  obtain d where d: "apply_transition sample_digest sample_request = Inr (Applied ?l d)"
    unfolding apply_performable [OF sample_performable] by (simp add: land_eq [OF ids] none)
  have same: "key_parts sample_again s t = key_parts sample_request s t" for s t
    by (simp add: sample_again_def key_parts_def)
  have again: "performable sample_again VERIFYING ACCEPTED ?c"
    using sample_performable by (simp add: performable_def sample_again_def)
  have "set (applied_list (rq_applied sample_again)) = {JStr (l_key ?l)}"
    unfolding key by (simp add: sample_again_def applied_list_def)
  moreover have "take 16 (sample_digest (key_preimage (key_parts sample_again VERIFYING ACCEPTED))) =
      take 16 (sample_digest (key_preimage (key_parts sample_request u v))) \<Longrightarrow>
      key_preimage (key_parts sample_again VERIFYING ACCEPTED) = key_preimage (key_parts sample_request u v)" for u v
    by (simp add: same sample_digest_def split: if_splits)
  ultimately have "if rq_task sample_again = l_task ?l \<and> rq_attempt_id sample_again = l_attempt_id ?l \<and> VERIFYING = l_from ?l \<and> ACCEPTED = l_state ?l
    then \<exists>l'. apply_transition sample_digest sample_again = Inr (AlreadyApplied l') \<and> l_key l' = l_key ?l \<and> l_state l' = l_state ?l \<and>
      l_effects l' = l_effects ?l
    else \<exists>l' d'. apply_transition sample_digest sample_again = Inr (Applied l' d') \<and> l_key l' \<noteq> l_key ?l"
    by (rule landed_transition_recognised [OF d _ again])
  then show ?thesis unfolding key by (auto simp: landing_def sample_again_def)
qed

text \<open>The four final states are final: no request from one of them is performed or taken for a redelivery; in
  particular a dead-lettered attempt never returns to READY.\<close>

theorem terminal_states_refuse:
  assumes "List.member terminal_states s" and "rq_state rq = JStr (state_name s)"
  shows "\<exists>r. apply_transition sha rq = Inr (Refused r)"
proof -
  obtain out where out: "apply_transition sha rq = Inr out" using apply_transition_never_throws by blast
  have "\<exists>r. out = Refused r"
  proof (rule ccontr)
    assume "\<nexists>r. out = Refused r"
    then obtain u t c where p: "performable rq u t c" using apply_not_refused [OF out] by blast
    then have "u = s" using assms(2) by (simp add: performable_def state_name_inj)
    then have "edge transitions s t" using p by (auto simp: performable_def fleet.edge_contract)
    then show False using assms(1) fleet.no_edge_from_final [of s t] by (simp add: is_terminal_def)
  qed
  then show ?thesis using out by simp
qed

theorem terminal_states_refuse_witness:
  "\<exists>r. apply_transition id (sample_request\<lparr>rq_state := JStr ''DEAD_LETTER''\<rparr>) = Inr (Refused r)"
  using terminal_states_refuse [of DEAD_LETTER "sample_request\<lparr>rq_state := JStr ''DEAD_LETTER''\<rparr>"]
  by (simp add: terminal_states_def)

text \<open>The hand-written \<open>nextStates\<close> of every contract agree with the table: after a
  transition into a state, the states the contract lists are exactly those the table lets that
  state move to, and the list is empty exactly for a final state.\<close>

theorem next_states_agree:
  assumes "transition_contract (JStr (state_name s)) (JStr (state_name t)) = Some c"
  shows "(\<forall>u. edge transitions t u \<longleftrightarrow> u \<in> set (next_states c)) \<and>
    (next_states c = [] \<longleftrightarrow> List.member terminal_states t)"
  using assms fleet.declared_edge fleet.closing_contract
  by (simp add: transition_contract_states is_terminal_def)

theorem next_states_agree_witness:
  "edge transitions RUNNING PRODUCED \<longleftrightarrow>
     PRODUCED \<in> set (next_states (the (transition_contract (JStr ''CLAIMED'') (JStr ''RUNNING''))))"
proof -
  have "transition_contract (JStr (state_name CLAIMED)) (JStr (state_name RUNNING)) =
      Some (the (transition_contract (JStr ''CLAIMED'') (JStr ''RUNNING'')))"
    by code_simp
  from next_states_agree [OF this] show ?thesis by blast
qed

text \<open>Acceptance passes through verification. No path of the table leads from READY to
  ACCEPTED or REJECTED without visiting VERIFYING.\<close>

theorem no_acceptance_without_verifying:
  assumes "(\<lambda>s t. edge transitions s t \<and> t \<noteq> VERIFYING)\<^sup>*\<^sup>* READY t"
  shows "t \<in> {READY, CLAIMED, RUNNING, PRODUCED, RETRYABLE, DEAD_LETTER, CANCELLED}"
  using assms
proof (induction rule: rtranclp_induct)
  case (step s t)
  then show ?case by (auto simp: edge_def)
qed simp

theorem no_acceptance_without_verifying_witness:
  "(\<lambda>s t. edge transitions s t \<and> t \<noteq> VERIFYING)\<^sup>*\<^sup>* READY CLAIMED \<and>
   CLAIMED \<in> {READY, CLAIMED, RUNNING, PRODUCED, RETRYABLE, DEAD_LETTER, CANCELLED}"
proof -
  have r: "(\<lambda>s t. edge transitions s t \<and> t \<noteq> VERIFYING)\<^sup>*\<^sup>* READY CLAIMED"
    by (rule r_into_rtranclp) (simp add: edge_def)
  with no_acceptance_without_verifying [OF r] show ?thesis by blast
qed

text \<open>The projection onto the queue. Every one of the eleven states, and nothing else, has a
  queue status; it is \<open>completed\<close> or \<open>failed\<close> exactly for the final states and \<open>queued\<close> exactly
  for READY and RETRYABLE, so a row the queue counts as open is never a finished attempt.\<close>

theorem queue_status_faithful:
  "(\<exists>q. to_queue_status v = Some q) = is_fleet_state v \<and>
   (to_queue_status (JStr (state_name s)) \<in> {Some ''completed'', Some ''failed''}
      \<longleftrightarrow> List.member terminal_states s) \<and>
   (to_queue_status (JStr (state_name s)) = Some ''queued'' \<longleftrightarrow> s \<in> {READY, RETRYABLE})"
proof -
  have "(\<exists>q. to_queue_status v = Some q) = is_fleet_state v"
  proof (cases "state_of v")
    case None
    then show ?thesis by (simp add: is_fleet_state_iff to_queue_status_def)
  next
    case (Some s)
    then show ?thesis by (simp add: is_fleet_state_iff state_of_Some_iff to_queue_status_name)
  qed
  then show ?thesis
    by (cases s) (simp_all add: terminal_states_def to_queue_status_name del: state_name.simps)
qed

end
