(* ===== verification/Js_Num.thy ===== *)
theory Js_Num
  imports Js_Text
begin

text \<open>
  Arithmetic and comparison of JavaScript numbers: exact on finite values, with the infinities and
  NaN as the language has them, and the \<open>Math\<close> functions the code calls.
\<close>

fun num_add :: "jsnum \<Rightarrow> jsnum \<Rightarrow> jsnum" where
  "num_add (Fin a) (Fin b) = Fin (a + b)"
| "num_add NaN _ = NaN"
| "num_add _ NaN = NaN"
| "num_add PInf NInf = NaN"
| "num_add NInf PInf = NaN"
| "num_add PInf _ = PInf"
| "num_add NInf _ = NInf"
| "num_add _ PInf = PInf"
| "num_add _ NInf = NInf"

definition num_sub :: "jsnum \<Rightarrow> jsnum \<Rightarrow> jsnum" where
  "num_sub a b = num_add a (neg_num b)"

definition signed_inf :: "rat \<Rightarrow> jsnum" where
  "signed_inf q = (if q > 0 then PInf else if q < 0 then NInf else NaN)"

fun num_mul :: "jsnum \<Rightarrow> jsnum \<Rightarrow> jsnum" where
  "num_mul (Fin a) (Fin b) = Fin (a * b)"
| "num_mul NaN _ = NaN"
| "num_mul _ NaN = NaN"
| "num_mul (Fin a) PInf = signed_inf a"
| "num_mul (Fin a) NInf = signed_inf (- a)"
| "num_mul PInf (Fin b) = signed_inf b"
| "num_mul NInf (Fin b) = signed_inf (- b)"
| "num_mul PInf PInf = PInf"
| "num_mul NInf NInf = PInf"
| "num_mul _ _ = NInf"

text \<open>Division; a zero divisor counts as positive zero.\<close>

fun num_div :: "jsnum \<Rightarrow> jsnum \<Rightarrow> jsnum" where
  "num_div (Fin a) (Fin b) = (if b = 0 then signed_inf a else Fin (a / b))"
| "num_div NaN _ = NaN"
| "num_div _ NaN = NaN"
| "num_div (Fin a) _ = Fin 0"
| "num_div PInf (Fin b) = (if b < 0 then NInf else PInf)"
| "num_div NInf (Fin b) = (if b < 0 then PInf else NInf)"
| "num_div _ _ = NaN"

fun num_lt :: "jsnum \<Rightarrow> jsnum \<Rightarrow> bool" where
  "num_lt (Fin a) (Fin b) = (a < b)"
| "num_lt NaN _ = False"
| "num_lt _ NaN = False"
| "num_lt NInf b = (b \<noteq> NInf)"
| "num_lt PInf _ = False"
| "num_lt (Fin _) b = (b = PInf)"

definition num_le :: "jsnum \<Rightarrow> jsnum \<Rightarrow> bool" where
  "num_le a b \<longleftrightarrow> num_lt a b \<or> (a = b \<and> a \<noteq> NaN)"

fun num_floor :: "jsnum \<Rightarrow> jsnum" where
  "num_floor (Fin q) = Fin (of_int \<lfloor>q\<rfloor>)"
| "num_floor n = n"

text \<open>\<open>Math.round\<close> rounds halves up.\<close>

fun num_round :: "jsnum \<Rightarrow> jsnum" where
  "num_round (Fin q) = Fin (of_int \<lfloor>q + 1 / 2\<rfloor>)"
| "num_round n = n"

definition num_max :: "jsnum \<Rightarrow> jsnum \<Rightarrow> jsnum" where
  "num_max a b = (if a = NaN \<or> b = NaN then NaN else if num_lt a b then b else a)"

definition num_min :: "jsnum \<Rightarrow> jsnum \<Rightarrow> jsnum" where
  "num_min a b = (if a = NaN \<or> b = NaN then NaN else if num_lt b a then b else a)"

text \<open>\<open>n || 0\<close> for a number.\<close>

definition or_zero :: "jsnum \<Rightarrow> jsnum" where
  "or_zero n = (if n = NaN then Fin 0 else n)"

lemma num_le_Fin [simp]: "num_le (Fin a) (Fin b) \<longleftrightarrow> a \<le> b"
  by (auto simp: num_le_def)

lemma num_le_NaN [simp]: "\<not> num_le NaN b" "\<not> num_le a NaN"
  by (cases b; simp add: num_le_def) (cases a; simp add: num_le_def)

lemma num_le_inf [simp]: "num_le (Fin a) PInf" "num_le NInf (Fin a)" "\<not> num_le PInf (Fin a)"
  "\<not> num_le (Fin a) NInf"
  by (auto simp: num_le_def)

lemma num_not_lt: "a \<noteq> NaN \<Longrightarrow> b \<noteq> NaN \<Longrightarrow> \<not> num_lt a b \<longleftrightarrow> num_le b a"
  by (cases a; cases b) (auto simp: num_le_def)

lemma num_not_le: "a \<noteq> NaN \<Longrightarrow> b \<noteq> NaN \<Longrightarrow> \<not> num_le a b \<longleftrightarrow> num_lt b a"
  by (cases a; cases b) (auto simp: num_le_def)

lemma num_lt_le: "num_lt a b \<Longrightarrow> num_le a b"
  by (simp add: num_le_def)

lemma num_lt_irrefl [simp]: "\<not> num_lt a a"
  by (cases a) auto

lemma or_zero_not_NaN [simp]: "or_zero n \<noteq> NaN"
  by (simp add: or_zero_def)

lemma or_zero_Fin [simp]: "or_zero (Fin q) = Fin q"
  by (simp add: or_zero_def)

end
