(* ===== verification/Json_Text.thy ===== *)
theory Json_Text
  imports Js_Num
begin

text \<open>
  \<open>JSON.stringify\<close> and \<open>JSON.parse\<close> on texts of code units below 256: the printer, the reader (a
  recursive descent with its recursion depth as fuel, and the proof that the fuel it is given is
  enough for every text), and the proof that reading a printed value gives it back. An escape of a
  code unit above 255 is outside the model; the order an engine gives to integer-like keys is too.
\<close>

section \<open>Writing\<close>

text \<open>\<open>JSON.stringify\<close>: \<open>None\<close> where it answers \<open>undefined\<close>.\<close>

definition hex_char :: "nat \<Rightarrow> char" where
  "hex_char d = (if d < 10 then char_of (48 + d) else char_of (87 + d))"

definition json_char :: "char \<Rightarrow> string" where
  "json_char c =
     (let n = code_of c in
      if c = CHR 0x22 then [CHR 0x5C, CHR 0x22] else if c = CHR 0x5C then [CHR 0x5C, CHR 0x5C]
      else if n = 8 then [CHR 0x5C, CHR ''b''] else if n = 12 then [CHR 0x5C, CHR ''f'']
      else if n = 10 then [CHR 0x5C, CHR ''n''] else if n = 13 then [CHR 0x5C, CHR ''r'']
      else if n = 9 then [CHR 0x5C, CHR ''t'']
      else if n < 32 then [CHR 0x5C, CHR ''u'', CHR ''0'', CHR ''0'', hex_char (n div 16), hex_char (n mod 16)]
      else [c])"

definition json_quote :: "string \<Rightarrow> string" where
  "json_quote s = [CHR 0x22] @ concat (map json_char s) @ [CHR 0x22]"

fun json_str :: "jsval \<Rightarrow> string option" where
  "json_str JUndef = None"
| "json_str (JFun _) = None"
| "json_str JNull = Some ''null''"
| "json_str (JBool b) = Some (if b then ''true'' else ''false'')"
| "json_str (JNum (Fin q)) = Some (dec_rat q)"
| "json_str (JNum _) = Some ''null''"
| "json_str (JStr s) = Some (json_quote s)"
| "json_str (JArr vs) =
     Some (''['' @ js_join '','' (map (\<lambda>v. case json_str v of None \<Rightarrow> ''null'' | Some s \<Rightarrow> s) vs) @ '']'')"
| "json_str (JObj m) =
     Some (''{'' @ js_join '','' (concat (map (\<lambda>(k, v). case json_str v of None \<Rightarrow> []
        | Some s \<Rightarrow> [json_quote k @ '':'' @ s]) m)) @ ''}'')"

section \<open>Reading\<close>

definition json_ws :: "char \<Rightarrow> bool" where
  "json_ws c \<longleftrightarrow> code_of c = 32 \<or> code_of c = 9 \<or> code_of c = 10 \<or> code_of c = 13"

definition skip_ws :: "string \<Rightarrow> string" where
  "skip_ws s = dropWhile json_ws s"

definition unescape :: "char \<Rightarrow> char option" where
  "unescape c =
     (if c = CHR 0x22 \<or> c = CHR 0x5C \<or> c = CHR ''/'' then Some c
      else if c = CHR ''b'' then Some (char_of (8 :: nat)) else if c = CHR ''f'' then Some (char_of (12 :: nat))
      else if c = CHR ''n'' then Some (char_of (10 :: nat)) else if c = CHR ''r'' then Some (char_of (13 :: nat))
      else if c = CHR ''t'' then Some (char_of (9 :: nat)) else None)"

definition cons_fst :: "'a \<Rightarrow> ('a list \<times> 'b) option \<Rightarrow> ('a list \<times> 'b) option" where
  "cons_fst x = map_option (\<lambda>(xs, r). (x # xs, r))"

text \<open>The characters of a string literal after its opening quote, and what follows its closing one.\<close>

function json_chars :: "string \<Rightarrow> (string \<times> string) option" where
  "json_chars s =
     (case s of
        [] \<Rightarrow> None
      | c # cs \<Rightarrow>
          if c = CHR 0x22 then Some ([], cs)
          else if code_of c < 32 then None
          else if c \<noteq> CHR 0x5C then cons_fst c (json_chars cs)
          else (case cs of
              [] \<Rightarrow> None
            | e # r \<Rightarrow>
                if e = CHR ''u''
                then (case radix_val 16 0 (take 4 r) of
                        None \<Rightarrow> None
                      | Some n \<Rightarrow> if length r < 4 \<or> n > 255 then None else cons_fst (char_of n) (json_chars (drop 4 r)))
                else (case unescape e of None \<Rightarrow> None | Some x \<Rightarrow> cons_fst x (json_chars r))))"
  by pat_completeness auto

termination
  by (relation "measure length") auto

declare json_chars.simps [simp del]

definition json_number :: "string \<Rightarrow> (jsval \<times> string) option" where
  "json_number s =
     (let neg = str_prefix ''-'' s; r = (if neg then tl s else s);
          ip = takeWhile is_digit r; r1 = dropWhile is_digit r;
          dot = str_prefix ''.'' r1;
          fp = (if dot then takeWhile is_digit (tl r1) else []);
          r2 = (if dot then dropWhile is_digit (tl r1) else r1);
          ex = str_prefix ''e'' r2 \<or> str_prefix ''E'' r2;
          r3 = (if ex then tl r2 else r2);
          minus = ex \<and> str_prefix ''-'' r3;
          r4 = (if minus \<or> (ex \<and> str_prefix ''+'' r3) then tl r3 else r3);
          ds = (if ex then takeWhile is_digit r4 else []);
          r5 = (if ex then dropWhile is_digit r4 else r4);
          q = scale10 (of_nat (digits_val ip) + of_nat (digits_val fp) / 10 ^ length fp)
                (if minus then - int (digits_val ds) else int (digits_val ds))
      in if ip = [] \<or> (length ip > 1 \<and> hd ip = CHR ''0'') \<or> (dot \<and> fp = []) \<or> (ex \<and> ds = []) then None
         else Some (JNum (Fin (if neg then - q else q)), r5))"

definition json_word :: "string \<Rightarrow> (jsval \<times> string) option" where
  "json_word s =
     (if str_prefix ''true'' s then Some (JBool True, drop 4 s)
      else if str_prefix ''false'' s then Some (JBool False, drop 5 s)
      else if str_prefix ''null'' s then Some (JNull, drop 4 s)
      else json_number s)"

fun parse_value :: "nat \<Rightarrow> string \<Rightarrow> (jsval \<times> string) option"
  and parse_items :: "nat \<Rightarrow> string \<Rightarrow> (jsval list \<times> string) option"
  and parse_members :: "nat \<Rightarrow> jsmap \<Rightarrow> string \<Rightarrow> (jsmap \<times> string) option" where
  "parse_value 0 s = None"
| "parse_value (Suc n) s =
     (case skip_ws s of
        [] \<Rightarrow> None
      | c # cs \<Rightarrow>
          if c = CHR 0x22 then map_option (\<lambda>(t, r). (JStr t, r)) (json_chars cs)
          else if c = CHR ''['' then
            (if str_prefix '']'' (skip_ws cs) then Some (JArr [], tl (skip_ws cs))
             else map_option (\<lambda>(vs, r). (JArr vs, r)) (parse_items n cs))
          else if c = CHR ''{'' then
            (if str_prefix ''}'' (skip_ws cs) then Some (JObj [], tl (skip_ws cs))
             else map_option (\<lambda>(m, r). (JObj m, r)) (parse_members n [] cs))
          else json_word (c # cs))"
| "parse_items 0 s = None"
| "parse_items (Suc n) s =
     (case parse_value n s of
        None \<Rightarrow> None
      | Some (v, r) \<Rightarrow>
          if str_prefix '']'' (skip_ws r) then Some ([v], tl (skip_ws r))
          else if str_prefix '','' (skip_ws r) then cons_fst v (parse_items n (tl (skip_ws r)))
          else None)"
| "parse_members 0 m s = None"
| "parse_members (Suc n) m s =
     (if \<not> str_prefix [CHR 0x22] (skip_ws s) then None
      else case json_chars (tl (skip_ws s)) of
        None \<Rightarrow> None
      | Some (k, r) \<Rightarrow>
          if \<not> str_prefix '':'' (skip_ws r) then None
          else case parse_value n (tl (skip_ws r)) of
            None \<Rightarrow> None
          | Some (v, r1) \<Rightarrow>
              if str_prefix ''}'' (skip_ws r1) then Some (aset k v m, tl (skip_ws r1))
              else if str_prefix '','' (skip_ws r1) then parse_members n (aset k v m) (tl (skip_ws r1))
              else None)"

text \<open>\<open>JSON.parse\<close>: \<open>None\<close> where it throws.\<close>

definition json_parse :: "string \<Rightarrow> jsval option" where
  "json_parse s =
     (case parse_value (2 * length s + 2) s of
        None \<Rightarrow> None
      | Some (v, r) \<Rightarrow> if skip_ws r = [] then Some v else None)"

section \<open>Reading what was written\<close>

lemma code_hex: "d < 16 \<Longrightarrow> code_of (hex_char d) = (if d < 10 then 48 + d else 87 + d)"
  by (simp add: code_of_def hex_char_def)

lemma hex_digit: "d < 16 \<Longrightarrow> digit_in 16 (hex_char d) = Some d"
  by (simp add: digit_in_def lower_char_def Let_def code_hex)

lemma char_codes: "char_of (code_of c) = c"
  by (simp add: code_of_def)

lemma code_low: "code_of c < 256"
proof -
  have "code_of c = code_of (char_of (code_of c))" by (simp add: char_codes)
  also have "\<dots> = code_of c mod 256" by (simp add: code_of_def)
  finally show ?thesis by (metis mod_less_divisor zero_less_numeral)
qed

lemma code_inj: "code_of c = code_of d \<longleftrightarrow> c = d"
  by (metis char_codes)

lemma json_chars_plain:
  "c \<noteq> CHR 0x22 \<Longrightarrow> c \<noteq> CHR 0x5C \<Longrightarrow> 32 \<le> code_of c \<Longrightarrow> json_chars (c # t) = cons_fst c (json_chars t)"
  by (subst json_chars.simps) simp

lemma json_chars_escape:
  "e \<noteq> CHR ''u'' \<Longrightarrow> unescape e = Some c \<Longrightarrow> json_chars (CHR 0x5C # e # t) = cons_fst c (json_chars t)"
  by (subst json_chars.simps) (simp add: code_of_def)

lemma json_chars_hex:
  assumes "n < 32"
  shows "json_chars (CHR 0x5C # CHR ''u'' # CHR ''0'' # CHR ''0'' # hex_char (n div 16) # hex_char (n mod 16) # t) =
    cons_fst (char_of n) (json_chars t)"
proof -
  have "digit_in 16 (CHR ''0'') = Some 0" by code_simp
  moreover have "n div 16 < 16" "n mod 16 < 16" using assms by auto
  ultimately have "radix_val 16 0 [CHR ''0'', CHR ''0'', hex_char (n div 16), hex_char (n mod 16)] = Some n"
    by (simp add: hex_digit)
  moreover have "\<not> code_of (CHR 0x5C) < 32" by (simp add: code_of_def)
  ultimately show ?thesis using assms by (subst json_chars.simps) simp
qed

lemma json_char_read: "json_chars (json_char c @ t) = cons_fst c (json_chars t)"
proof -
  let ?n = "code_of c"
  consider "c = CHR 0x22 \<or> c = CHR 0x5C" | "?n \<in> {8, 12, 10, 13, 9}" | "?n < 32" "?n \<notin> {8, 12, 10, 13, 9}" |
    "c \<noteq> CHR 0x22" "c \<noteq> CHR 0x5C" "32 \<le> ?n" by fastforce
  then show ?thesis
  proof cases
    case 1
    then show ?thesis by (auto simp: json_char_def Let_def intro!: json_chars_escape) (simp_all add: unescape_def)
  next
    case 2
    then have "c \<in> {char_of (8 :: nat), char_of (12 :: nat), char_of (10 :: nat), char_of (13 :: nat), char_of (9 :: nat)}"
      by (auto dest: arg_cong [of _ _ "char_of :: nat \<Rightarrow> char"] simp: char_codes)
    then show ?thesis
      by (auto simp: json_char_def Let_def code_of_def intro!: json_chars_escape) (simp_all add: unescape_def)
  next
    case 3
    then have "c \<noteq> CHR 0x22" "c \<noteq> CHR 0x5C" by (auto simp: code_of_def)
    then show ?thesis using 3 json_chars_hex [of ?n t] by (simp add: json_char_def Let_def char_codes)
  next
    case 4
    then show ?thesis by (simp add: json_char_def Let_def json_chars_plain)
  qed
qed

lemma json_chars_text: "json_chars (concat (map json_char s) @ CHR 0x22 # rest) = Some (s, rest)"
proof (induction s)
  case Nil
  show ?case by (subst json_chars.simps) simp
next
  case (Cons c s)
  then show ?case by (simp add: json_char_read cons_fst_def)
qed

text \<open>The values whose text is exact: integers, texts, and lists and objects of such values.\<close>

fun json_ok :: "jsval \<Rightarrow> bool" where
  "json_ok JNull = True"
| "json_ok (JBool _) = True"
| "json_ok (JNum (Fin q)) = (of_int \<lfloor>q\<rfloor> = q)"
| "json_ok (JStr _) = True"
| "json_ok (JArr vs) = (\<forall>v \<in> set vs. json_ok v)"
| "json_ok (JObj m) = (wf_map m \<and> (\<forall>(k, v) \<in> set m. json_ok v))"
| "json_ok _ = False"

definition json_text :: "jsval \<Rightarrow> string" where
  "json_text v = (case json_str v of None \<Rightarrow> [] | Some t \<Rightarrow> t)"

definition json_member :: "string \<times> jsval \<Rightarrow> string" where
  "json_member kv = json_quote (fst kv) @ '':'' @ json_text (snd kv)"

lemma json_ok_str: "json_ok v \<Longrightarrow> json_str v = Some (json_text v)"
  by (cases v rule: json_str.cases) (auto simp: json_text_def)

lemma concat_member:
  "\<forall>(k, v) \<in> set m. json_ok v \<Longrightarrow>
     concat (map (\<lambda>(k, v). case json_str v of None \<Rightarrow> [] | Some s \<Rightarrow> [json_quote k @ '':'' @ s]) m) = map json_member m"
  by (induction m) (auto simp: json_member_def json_ok_str)

lemma map_item: "\<forall>v \<in> set vs. json_ok v \<Longrightarrow>
    map (\<lambda>v. case json_str v of None \<Rightarrow> ''null'' | Some s \<Rightarrow> s) vs = map json_text vs"
  by (auto simp: json_ok_str)

lemma json_text_arr: "json_ok (JArr vs) \<Longrightarrow> json_text (JArr vs) = ''['' @ js_join '','' (map json_text vs) @ '']''"
  unfolding json_text_def [of "JArr vs"] json_str.simps option.case by (subst map_item) simp_all

lemma json_text_obj: "json_ok (JObj m) \<Longrightarrow> json_text (JObj m) = ''{'' @ js_join '','' (map json_member m) @ ''}''"
  unfolding json_text_def [of "JObj m"] json_str.simps option.case by (subst concat_member) simp_all

lemma dec_nat_lead: "n > 0 \<Longrightarrow> hd (dec_nat n) \<noteq> CHR ''0''"
proof (induction n rule: dec_nat.induct)
  case (1 n)
  show ?case
  proof (cases "n < 10")
    case True
    then have "code_of (hd (dec_nat n)) = 48 + n" by (subst dec_nat.simps) (simp add: code_of_digit_char)
    moreover have "code_of (CHR ''0'') = 48" by (simp add: code_of_def)
    ultimately show ?thesis using 1(2) by auto
  next
    case False
    then show ?thesis using 1 by (subst dec_nat.simps) auto
  qed
qed

lemma dec_nat_zero: "dec_nat 0 = ''0''"
proof -
  have "digit_char 0 = CHR ''0''" by code_simp
  then show ?thesis by (subst dec_nat.simps) simp
qed

lemma dec_rat_int: "dec_rat (of_int i) = (if i < 0 then ''-'' else []) @ dec_nat (nat \<bar>i\<bar>)"
proof -
  have "frac_digits 30 0 1 = []" by (simp add: numeral_eq_Suc)
  then show ?thesis by (simp add: dec_rat_def Let_def quotient_of_int)
qed

definition num_stop :: "string \<Rightarrow> bool" where
  "num_stop rest \<longleftrightarrow> rest = [] \<or> \<not> is_digit (hd rest) \<and> hd rest \<notin> {CHR ''.'', CHR ''e'', CHR ''E''}"

lemma digits_taken:
  assumes "num_stop rest"
  shows "takeWhile is_digit (dec_nat n @ rest) = dec_nat n" "dropWhile is_digit (dec_nat n @ rest) = rest"
  using assms dec_nat_digits [of _ n]
  by (cases rest; simp add: num_stop_def takeWhile_append2 dropWhile_append2)+

lemma json_number_int:
  assumes "num_stop rest"
  shows "json_number (dec_rat (of_int i) @ rest) = Some (JNum (Fin (of_int i)), rest)"
proof -
  have stop: "\<not> str_prefix ''.'' rest" "\<not> str_prefix ''e'' rest" "\<not> str_prefix ''E'' rest"
    using assms by (cases rest; auto simp: num_stop_def)+
  have lead: "\<not> (length (dec_nat n) > 1 \<and> hd (dec_nat n) = CHR ''0'')" for n
    using dec_nat_lead [of n] by (cases "n = 0") (auto simp: dec_nat_zero)
  have plain: "\<not> str_prefix ''-'' (dec_nat n @ rest)" for n
    using dec_nat_digits [of "hd (dec_nat n)" n] by (cases "dec_nat n") (auto simp: is_digit_def code_of_def)
  have scale: "scale10 q 0 = q" for q by (simp add: scale10_def)
  show ?thesis
    by (cases "i < 0")
      (simp_all add: json_number_def Let_def dec_rat_int plain digits_taken [OF assms] stop lead digits_val_dec_nat scale
        digits_val_def [of "[]"] del: One_nat_def)
qed

text \<open>The first character of a text decides how it is read.\<close>

lemma skip_ws_hd: "s \<noteq> [] \<Longrightarrow> \<not> json_ws (hd s) \<Longrightarrow> skip_ws s = s"
  by (cases s) (simp_all add: skip_ws_def)

lemma ws_marks: "\<not> json_ws (CHR 0x22)" "\<not> json_ws (CHR ''['')" "\<not> json_ws (CHR ''{'')" "\<not> json_ws (CHR '']'')"
  "\<not> json_ws (CHR ''}'')" "\<not> json_ws (CHR '','')" "\<not> json_ws (CHR '':'')"
  by (code_simp, code_simp, code_simp, code_simp, code_simp, code_simp, code_simp)

lemma skip_marks: "skip_ws (CHR 0x22 # s) = CHR 0x22 # s" "skip_ws (CHR ''['' # s) = CHR ''['' # s"
  "skip_ws (CHR ''{'' # s) = CHR ''{'' # s" "skip_ws (CHR '']'' # s) = CHR '']'' # s" "skip_ws (CHR ''}'' # s) = CHR ''}'' # s"
  "skip_ws (CHR '','' # s) = CHR '','' # s" "skip_ws (CHR '':'' # s) = CHR '':'' # s"
  by (simp_all add: skip_ws_def ws_marks)

definition word_head :: "char \<Rightarrow> bool" where
  "word_head c \<longleftrightarrow> is_digit c \<or> c \<in> {CHR ''-'', CHR ''t'', CHR ''f'', CHR ''n''}"

lemma word_head_facts:
  assumes "word_head c"
  shows "\<not> json_ws c" "c \<notin> {CHR 0x22, CHR ''['', CHR ''{'', CHR '']'', CHR ''}'', CHR '',''}"
proof -
  show "\<not> json_ws c" using assms by (auto simp: word_head_def json_ws_def is_digit_def code_of_def)
  show "c \<notin> {CHR 0x22, CHR ''['', CHR ''{'', CHR '']'', CHR ''}'', CHR '',''}"
    using assms by (auto simp: word_head_def is_digit_def code_of_def)
qed

lemma parse_word:
  assumes "t \<noteq> []" "word_head (hd t)"
  shows "parse_value (Suc n) (t @ rest) = json_word (t @ rest)"
proof -
  obtain c cs where t: "t = c # cs" using assms(1) by (cases t) auto
  have "skip_ws (t @ rest) = c # cs @ rest" using word_head_facts [of c] assms(2) by (simp add: t skip_ws_def)
  then show ?thesis using word_head_facts(2) [of c] assms(2) by (simp add: t)
qed

lemma hd_dec_nat: "is_digit (hd (dec_nat n))"
  by (rule dec_nat_digits [of _ n]) simp

lemma word_lit: "word_head (CHR ''n'')" "word_head (CHR ''t'')" "word_head (CHR ''f'')"
  by (simp_all add: word_head_def)

lemma dec_rat_head: "dec_rat (of_int i) \<noteq> []" "word_head (hd (dec_rat (of_int i)))"
  by (auto simp: dec_rat_int word_head_def hd_dec_nat)

lemma parse_atom:
  assumes "json_ok v" "num_stop rest" "\<not> is_str v" "\<not> is_arr v" "\<not> is_plain v"
  shows "parse_value (Suc n) (json_text v @ rest) = Some (v, rest)" "json_text v \<noteq> []" "word_head (hd (json_text v))"
proof -
  have cases: "v = JNull \<or> v = JBool True \<or> v = JBool False \<or> (\<exists>i. v = JNum (Fin (of_int i)))"
  proof (cases v)
    case (JNum n)
    then show ?thesis using assms(1) by (cases n) (auto intro: exI [of _ "\<lfloor>q\<rfloor>" for q])
  qed (use assms in auto)
  have num: "json_word (dec_rat (of_int i) @ rest) = Some (JNum (Fin (of_int i)), rest)" for i
  proof -
    have "hd (dec_rat (of_int i)) \<notin> {CHR ''t'', CHR ''f'', CHR ''n''}"
      using hd_dec_nat [of "nat \<bar>i\<bar>"] by (auto simp: dec_rat_int is_digit_def code_of_def)
    then have "\<not> str_prefix ''true'' (dec_rat (of_int i) @ rest)" "\<not> str_prefix ''false'' (dec_rat (of_int i) @ rest)"
      "\<not> str_prefix ''null'' (dec_rat (of_int i) @ rest)"
      using dec_rat_head(1) [of i] by (cases "dec_rat (of_int i)"; auto)+
    then show ?thesis using json_number_int [OF assms(2)] by (simp add: json_word_def)
  qed
  show "json_text v \<noteq> []" "word_head (hd (json_text v))"
    using cases by (auto simp: json_text_def word_lit dec_rat_head)
  then have read: "parse_value (Suc n) (json_text v @ rest) = json_word (json_text v @ rest)" by (rule parse_word)
  have "json_word (''null'' @ rest) = Some (JNull, rest)" "json_word (''true'' @ rest) = Some (JBool True, rest)"
    "json_word (''false'' @ rest) = Some (JBool False, rest)" by (simp_all add: json_word_def)
  then have "json_word (json_text v @ rest) = Some (v, rest)" using cases num by (auto simp: json_text_def)
  then show "parse_value (Suc n) (json_text v @ rest) = Some (v, rest)" by (simp only: read)
qed

lemma json_quote_text: "json_quote k @ t = CHR 0x22 # concat (map json_char k) @ CHR 0x22 # t"
  by (simp add: json_quote_def)

lemma json_text_str: "json_text (JStr s) = json_quote s"
  by (simp add: json_text_def)

text \<open>The text of a value never starts with white space or a closing bracket.\<close>

lemma json_text_head:
  assumes "json_ok v"
  shows "json_text v \<noteq> []" "\<not> json_ws (hd (json_text v))" "hd (json_text v) \<notin> {CHR '']'', CHR ''}''}"
proof -
  have "json_text v \<noteq> [] \<and> (word_head (hd (json_text v)) \<or> hd (json_text v) \<in> {CHR 0x22, CHR ''['', CHR ''{''})"
  proof (cases "is_str v \<or> is_arr v \<or> is_plain v")
    case True
    then show ?thesis using assms json_text_arr json_text_obj json_quote_text [of _ "[]"]
      by (auto simp: is_str_iff is_arr_iff is_plain_iff json_text_str)
  next
    case False
    then show ?thesis using parse_atom(2,3) [OF assms, of "[]"] by (simp add: num_stop_def)
  qed
  then show "json_text v \<noteq> []" "\<not> json_ws (hd (json_text v))" "hd (json_text v) \<notin> {CHR '']'', CHR ''}''}"
    using word_head_facts ws_marks by auto
qed

lemma json_text_skip: "json_ok v \<Longrightarrow> skip_ws (json_text v @ t) = json_text v @ t"
  using json_text_head(1,2) by (intro skip_ws_hd) auto

lemma json_text_open:
  assumes "json_ok v"
  shows "\<not> str_prefix '']'' (skip_ws (json_text v @ t))"
  using json_text_head [OF assms] unfolding json_text_skip [OF assms] by (cases "json_text v") auto

lemma num_stop_marks: "num_stop (CHR '','' # t)" "num_stop (CHR '']'' # t)" "num_stop (CHR ''}'' # t)"
  by (simp_all add: num_stop_def is_digit_def code_of_def)

definition reads_back :: "jsval \<Rightarrow> bool" where
  "reads_back v \<longleftrightarrow> (\<forall>n rest. num_stop rest \<longrightarrow> length (json_text v) \<le> n \<longrightarrow>
     parse_value n (json_text v @ rest) = Some (v, rest))"

lemma reads_backD: "reads_back v \<Longrightarrow> num_stop rest \<Longrightarrow> length (json_text v) \<le> n \<Longrightarrow>
    parse_value n (json_text v @ rest) = Some (v, rest)"
  by (simp add: reads_back_def)

lemma items_read:
  assumes "vs \<noteq> []" "\<forall>v \<in> set vs. json_ok v \<and> reads_back v" "length (js_join '','' (map json_text vs)) < n"
  shows "parse_items n (js_join '','' (map json_text vs) @ CHR '']'' # rest) = Some (vs, rest)"
  using assms
proof (induction vs arbitrary: n)
  case (Cons v vs)
  obtain m where n: "n = Suc m" using Cons.prems(3) by (cases n) auto
  show ?case
  proof (cases "vs = []")
    case True
    then show ?thesis using Cons.prems reads_backD [OF _ num_stop_marks(2), of v m rest]
      by (simp add: n skip_marks)
  next
    case False
    then obtain v' vs' where vs: "vs = v' # vs'" by (cases vs) auto
    let ?t = "js_join '','' (map json_text vs) @ CHR '']'' # rest"
    have join: "js_join '','' (map json_text (v # vs)) = json_text v @ CHR '','' # js_join '','' (map json_text vs)"
      by (simp add: vs)
    have len: "length (json_text v) + Suc (length (js_join '','' (map json_text vs))) \<le> m"
      using Cons.prems(3) unfolding join n by simp
    then have "parse_value m (json_text v @ CHR '','' # ?t) = Some (v, CHR '','' # ?t)"
      using Cons.prems(2) by (intro reads_backD num_stop_marks) auto
    moreover have "parse_items m ?t = Some (vs, rest)" using Cons.IH False Cons.prems(2) len by auto
    ultimately show ?thesis unfolding join n by (simp add: skip_marks cons_fst_def)
  qed
qed simp

lemma members_read:
  assumes "m \<noteq> []" "\<forall>(k, v) \<in> set m. json_ok v \<and> reads_back v" "wf_map (acc @ m)"
    and "length (js_join '','' (map json_member m)) < n"
  shows "parse_members n acc (js_join '','' (map json_member m) @ CHR ''}'' # rest) = Some (acc @ m, rest)"
  using assms
proof (induction m arbitrary: n acc)
  case (Cons kv m)
  obtain k v where kv: "kv = (k, v)" by (cases kv)
  obtain n' where n: "n = Suc n'" using Cons.prems(4) by (cases n) auto
  have v: "json_ok v" "reads_back v" using Cons.prems(2) by (auto simp: kv)
  have new: "aset k v acc = acc @ [(k, v)]"
    using Cons.prems(3) by (intro length_aset_new) (auto simp: kv wf_map_def akeys_def)
  have member: "json_member (k, v) @ t = CHR 0x22 # concat (map json_char k) @ CHR 0x22 # CHR '':'' # json_text v @ t" for t
    by (simp add: json_member_def json_quote_def)
  have key: "json_chars (concat (map json_char k) @ CHR 0x22 # t) = Some (k, t)" for t by (rule json_chars_text)
  have size: "length (json_text v) \<le> length (json_member kv)" by (simp add: json_member_def kv)
  show ?case
  proof (cases "m = []")
    case True
    have "parse_value n' (json_text v @ CHR ''}'' # rest) = Some (v, CHR ''}'' # rest)"
      using Cons.prems(4) size by (intro reads_backD v num_stop_marks) (simp add: True n)
    then show ?thesis by (simp add: n True member key skip_marks new kv)
  next
    case False
    then obtain kv' m' where m: "m = kv' # m'" by (cases m) auto
    let ?t = "js_join '','' (map json_member m) @ CHR ''}'' # rest"
    have join: "js_join '','' (map json_member (kv # m)) = json_member kv @ CHR '','' # js_join '','' (map json_member m)"
      by (simp add: m)
    have len: "length (json_member kv) + Suc (length (js_join '','' (map json_member m))) \<le> n'"
      using Cons.prems(4) unfolding join n by simp
    have "parse_value n' (json_text v @ CHR '','' # ?t) = Some (v, CHR '','' # ?t)"
      using len size by (intro reads_backD v num_stop_marks) simp
    moreover have "parse_members n' (acc @ [(k, v)]) ?t = Some ((acc @ [(k, v)]) @ m, rest)"
      using False Cons.prems(2,3) len by (intro Cons.IH) (auto simp: kv)
    ultimately show ?thesis unfolding join n append_assoc append_Cons unfolding kv member by (simp add: key skip_marks new kv)
  qed
qed simp

lemma reads_atom: "json_ok v \<Longrightarrow> \<not> is_str v \<Longrightarrow> \<not> is_arr v \<Longrightarrow> \<not> is_plain v \<Longrightarrow> reads_back v"
  unfolding reads_back_def
proof (intro allI impI)
  fix n rest
  assume v: "json_ok v" "\<not> is_str v" "\<not> is_arr v" "\<not> is_plain v" and "num_stop rest" "length (json_text v) \<le> n"
  then obtain m where "n = Suc m" using parse_atom(2) [of v rest] by (cases n) auto
  then show "parse_value n (json_text v @ rest) = Some (v, rest)" using parse_atom(1) v \<open>num_stop rest\<close> by simp
qed

lemma reads_back_ok: "json_ok v \<Longrightarrow> reads_back v"
proof (induction v rule: json_ok.induct)
  case (4 s)
  have "parse_value n (json_text (JStr s) @ rest) = Some (JStr s, rest)" if "length (json_text (JStr s)) \<le> n" for n rest
    using that by (cases n) (simp_all add: json_text_str json_quote_text skip_marks json_chars_text, simp add: json_quote_def)
  then show ?case by (simp add: reads_back_def)
next
  case (5 vs)
  note shape = json_text_arr [OF 5(2)]
  have "parse_value n (json_text (JArr vs) @ rest) = Some (JArr vs, rest)" if n: "length (json_text (JArr vs)) \<le> n" for n rest
  proof -
    obtain n' where n': "n = Suc n'" using n by (cases n) (auto simp: shape)
    have len: "length (js_join '','' (map json_text vs)) < n'" using n by (simp add: shape n')
    show ?thesis
    proof (cases vs)
      case Nil
      then show ?thesis using shape by (simp add: n' skip_marks)
    next
      case (Cons v vs')
      let ?t = "js_join '','' (map json_text vs) @ CHR '']'' # rest"
      have "parse_items n' ?t = Some (vs, rest)" using 5 len by (intro items_read) (auto simp: Cons)
      moreover have "\<exists>t. ?t = json_text v @ t" by (cases vs') (auto simp: Cons)
      then have "\<not> str_prefix '']'' (skip_ws ?t)" using json_text_open [of v] 5(2) by (auto simp: Cons)
      ultimately show ?thesis by (simp add: shape n' skip_marks)
    qed
  qed
  then show ?case by (simp add: reads_back_def)
next
  case (6 m)
  note shape = json_text_obj [OF 6(2)]
  have inner: "json_ok v \<and> reads_back v" if "(k, v) \<in> set m" for k v
    using 6(1) [OF that refl] 6(2) that by auto
  have "parse_value n (json_text (JObj m) @ rest) = Some (JObj m, rest)" if n: "length (json_text (JObj m)) \<le> n" for n rest
  proof -
    obtain n' where n': "n = Suc n'" using n by (cases n) (auto simp: shape)
    have len: "length (js_join '','' (map json_member m)) < n'" using n by (simp add: shape n')
    show ?thesis
    proof (cases m)
      case Nil
      then show ?thesis using shape by (simp add: n' skip_marks)
    next
      case (Cons kv m')
      let ?t = "js_join '','' (map json_member m) @ CHR ''}'' # rest"
      have "parse_members n' [] ?t = Some ([] @ m, rest)" using 6(2) len inner by (intro members_read) (auto simp: Cons)
      moreover have "\<exists>t. ?t = CHR 0x22 # t" by (cases m') (auto simp: Cons json_member_def json_quote_def)
      then have "\<not> str_prefix ''}'' (skip_ws ?t)" by (auto simp: skip_marks)
      ultimately show ?thesis by (simp add: shape n' skip_marks)
    qed
  qed
  then show ?case by (simp add: reads_back_def)
next
  case 1
  then show ?case by (simp add: reads_atom)
next
  case (2 b)
  then show ?case by (simp add: reads_atom)
next
  case (3 q)
  then show ?case by (simp add: reads_atom)
qed simp_all

text \<open>Reading a printed value gives it back.\<close>

lemma json_round_trip: "json_ok v \<Longrightarrow> json_parse (json_text v) = Some v"
  using reads_backD [OF reads_back_ok, of v "[]" "2 * length (json_text v) + 2"]
  by (simp add: json_parse_def num_stop_def skip_ws_def)

lemma json_text_inj: "json_ok v \<Longrightarrow> json_ok w \<Longrightarrow> json_text v = json_text w \<longleftrightarrow> v = w"
  by (metis json_round_trip option.inject)

section \<open>The fuel is enough\<close>

lemma skip_ws_le: "length (skip_ws s) \<le> length s"
  by (simp add: skip_ws_def length_dropWhile_le)

lemma cons_fst_Some: "cons_fst x o1 = Some (xs, r) \<longleftrightarrow> (\<exists>ys. o1 = Some (ys, r) \<and> xs = x # ys)"
  by (auto simp: cons_fst_def)

lemma json_chars_shorter: "json_chars s = Some (t, r) \<Longrightarrow> length r < length s"
proof (induction s arbitrary: t r rule: length_induct)
  case (1 s)
  have step: "length r < length s" if "json_chars s' = Some (t', r)" "length s' < length s" for s' t'
    using 1(1) that by fastforce
  have "(case s of [] \<Rightarrow> None
      | c # cs \<Rightarrow>
          if c = CHR 0x22 then Some ([], cs)
          else if code_of c < 32 then None
          else if c \<noteq> CHR 0x5C then cons_fst c (json_chars cs)
          else (case cs of
              [] \<Rightarrow> None
            | e # r \<Rightarrow>
                if e = CHR ''u''
                then (case radix_val 16 0 (take 4 r) of
                        None \<Rightarrow> None
                      | Some n \<Rightarrow> if length r < 4 \<or> n > 255 then None else cons_fst (char_of n) (json_chars (drop 4 r)))
                else (case unescape e of None \<Rightarrow> None | Some x \<Rightarrow> cons_fst x (json_chars r)))) = Some (t, r)"
    using 1(2) by (subst (asm) json_chars.simps)
  then show ?case
    by (auto simp: cons_fst_Some split: list.splits if_splits option.splits dest!: step)
qed

lemma some_else: "(if P then None else Some (a, b)) = Some (v, r) \<longleftrightarrow> \<not> P \<and> v = a \<and> r = b"
  by auto

lemma length_steps: "length (if P then tl x else x) \<le> length x" "length (if P then dropWhile is_digit x else x) \<le> length x"
  "length (if P then dropWhile is_digit (tl x) else x) \<le> length x"
  using length_dropWhile_le [of is_digit x] length_dropWhile_le [of is_digit "tl x"] by (simp_all, linarith)

lemma digits_shorter: "takeWhile is_digit x \<noteq> [] \<Longrightarrow> length (dropWhile is_digit x) < length x"
  using length_dropWhile_le [of is_digit "tl x"] by (cases x) (auto split: if_splits)

lemma json_number_shorter:
  assumes "json_number s = Some (v, r)"
  shows "length r < length s"
proof -
  define r0 where "r0 = (if str_prefix ''-'' s then tl s else s)"
  define r1 where "r1 = dropWhile is_digit r0"
  define r2 where "r2 = (if str_prefix ''.'' r1 then dropWhile is_digit (tl r1) else r1)"
  define ex where "ex \<longleftrightarrow> str_prefix ''e'' r2 \<or> str_prefix ''E'' r2"
  define r3 where "r3 = (if ex then tl r2 else r2)"
  define r4 where "r4 = (if ex \<and> str_prefix ''-'' r3 \<or> (ex \<and> str_prefix ''+'' r3) then tl r3 else r3)"
  have "takeWhile is_digit r0 \<noteq> []" "r = (if ex then dropWhile is_digit r4 else r4)"
    using assms unfolding json_number_def Let_def some_else r0_def r1_def r2_def ex_def r3_def r4_def by blast+
  then have "length r \<le> length r4" "length r1 < length r0" using digits_shorter length_steps by (simp_all add: r1_def)
  moreover have "length r4 \<le> length r3" "length r3 \<le> length r2" "length r2 \<le> length r1" "length r0 \<le> length s"
    unfolding r4_def r3_def r2_def r0_def by (rule length_steps)+
  ultimately show ?thesis by linarith
qed

lemma json_word_shorter: "json_word s = Some (v, r) \<Longrightarrow> length r < length s"
proof -
  assume w: "json_word s = Some (v, r)"
  have pre: "str_prefix p s \<Longrightarrow> p \<noteq> [] \<Longrightarrow> length (drop (length p) s) < length s" for p
    by (auto simp: str_prefix_iff prefix_def)
  show "length r < length s"
    using w json_number_shorter pre [of "''true''"] pre [of "''false''"] pre [of "''null''"]
    by (auto simp: json_word_def split: if_splits)
qed

lemma parse_shorter:
  "parse_value n s = Some (v, r) \<Longrightarrow> length r < length s"
  "parse_items n s = Some (vs, r) \<Longrightarrow> length r < length s"
  "parse_members n m s = Some (m', r) \<Longrightarrow> length r < length s"
proof (induction n arbitrary: s v vs m m' r)
  case (Suc n)
  {
    case 1
    obtain c cs where s: "skip_ws s = c # cs" using 1 by (cases "skip_ws s") auto
    have le: "length cs < length s" using skip_ws_le [of s] by (simp add: s)
    have tl_le: "length (tl (skip_ws cs)) \<le> length cs" using skip_ws_le [of cs] by simp
    have "length r < length s \<or> length r < length cs \<or> r = tl (skip_ws cs) \<or> length r < length (c # cs)"
      using 1 by (auto simp: s split: if_splits dest: Suc.IH(2,3) json_chars_shorter json_word_shorter)
    then show ?case using le tl_le by auto
  next
    case 2
    obtain v r1 where v: "parse_value n s = Some (v, r1)" using 2 by (auto split: option.splits)
    then have "length r1 < length s" by (rule Suc.IH(1))
    moreover have "length (tl (skip_ws r1)) \<le> length r1" using skip_ws_le [of r1] by simp
    moreover have "r = tl (skip_ws r1) \<or> length r < length (tl (skip_ws r1))"
      using 2 by (auto simp: v cons_fst_Some split: if_splits dest: Suc.IH(2))
    ultimately show ?case by auto
  next
    case 3
    obtain k r1 where k: "json_chars (tl (skip_ws s)) = Some (k, r1)"
      using 3 by (auto split: option.splits if_splits)
    obtain v r2 where v: "parse_value n (tl (skip_ws r1)) = Some (v, r2)"
      using 3 by (auto simp: k split: option.splits if_splits)
    have "length r2 < length (tl (skip_ws r1))" using v by (rule Suc.IH(1))
    moreover have "length r1 < length (tl (skip_ws s))" using k by (rule json_chars_shorter)
    moreover have "length (tl (skip_ws x)) \<le> length x" for x using skip_ws_le [of x] by simp
    moreover have "r = tl (skip_ws r2) \<or> length r < length (tl (skip_ws r2))"
      using 3 by (auto simp: k v split: if_splits dest: Suc.IH(3))
    ultimately show ?case by (meson le_less_trans less_le_trans less_trans)
  }
qed simp_all

text \<open>Twice the length of the text is enough: more fuel changes nothing.\<close>

lemma parse_fuel:
  "2 * length s + 1 \<le> n \<Longrightarrow> n \<le> n' \<Longrightarrow> parse_value n' s = parse_value n s"
  "2 * length s + 2 \<le> n \<Longrightarrow> n \<le> n' \<Longrightarrow> parse_items n' s = parse_items n s"
  "2 * length s + 2 \<le> n \<Longrightarrow> n \<le> n' \<Longrightarrow> parse_members n' m s = parse_members n m s"
proof (induction n arbitrary: n' s m)
  case (Suc n)
  {
    case 1
    then obtain k where n': "n' = Suc k" "n \<le> k" by (cases n') auto
    show ?case
    proof (cases "skip_ws s")
      case (Cons c cs)
      then have "2 * length cs + 2 \<le> n" using 1(1) skip_ws_le [of s] by simp
      then have "parse_items k cs = parse_items n cs" "parse_members k [] cs = parse_members n [] cs"
        using Suc.IH(2,3) n'(2) by blast+
      then show ?thesis by (simp add: Cons n'(1))
    qed (simp add: n')
  next
    case 2
    then obtain k where n': "n' = Suc k" "n \<le> k" by (cases n') auto
    have val: "parse_value k s = parse_value n s" using 2(1) n'(2) by (intro Suc.IH(1)) simp_all
    have rest: "parse_items k (tl (skip_ws r)) = parse_items n (tl (skip_ws r))" if "parse_value n s = Some (v, r)" for v r
      using 2(1) n'(2) parse_shorter(1) [OF that] skip_ws_le [of r] by (intro Suc.IH(2)) simp_all
    show ?case
    proof (cases "parse_value n s")
      case (Some vr)
      then obtain v r where vr: "parse_value n s = Some (v, r)" by (cases vr) auto
      show ?thesis unfolding n' parse_items.simps val vr option.case prod.case rest [OF vr] ..
    qed (simp add: n' val)
  next
    case 3
    then obtain k where n': "n' = Suc k" "n \<le> k" by (cases n') auto
    have val: "parse_value k (tl (skip_ws r)) = parse_value n (tl (skip_ws r))"
      if "json_chars (tl (skip_ws s)) = Some (t, r)" for t r
      using 3(1) n'(2) json_chars_shorter [OF that] skip_ws_le [of r] skip_ws_le [of s] by (intro Suc.IH(1)) simp_all
    have rest: "parse_members k m (tl (skip_ws r1)) = parse_members n m (tl (skip_ws r1))"
      if "json_chars (tl (skip_ws s)) = Some (t, r)" "parse_value n (tl (skip_ws r)) = Some (v, r1)" for t r v r1 m
      using 3(1) n'(2) json_chars_shorter [OF that(1)] parse_shorter(1) [OF that(2)] skip_ws_le [of r] skip_ws_le [of s]
        skip_ws_le [of r1] by (intro Suc.IH(3)) simp_all
    show ?case
    proof (cases "json_chars (tl (skip_ws s))")
      case (Some kr)
      then obtain t r where kr: "json_chars (tl (skip_ws s)) = Some (t, r)" by (cases kr) auto
      show ?thesis
      proof (cases "parse_value n (tl (skip_ws r))")
        case None
        then show ?thesis unfolding n' parse_members.simps kr option.case prod.case val [OF kr] by simp
      next
        case (Some vr)
        then obtain v r1 where vr: "parse_value n (tl (skip_ws r)) = Some (v, r1)" by (cases vr) auto
        show ?thesis unfolding n' parse_members.simps kr option.case prod.case val [OF kr] vr rest [OF kr vr] ..
      qed
    qed (simp add: n')
  }
qed simp_all

lemma json_parse_fuel:
  "2 * length s + 2 \<le> n \<Longrightarrow>
     json_parse s = (case parse_value n s of None \<Rightarrow> None | Some (v, r) \<Rightarrow> if skip_ws r = [] then Some v else None)"
  using parse_fuel(1) [of s "2 * length s + 2" n] by (simp add: json_parse_def)

end
