(* ===== verification/Capability.thy ===== *)
theory Capability
  imports Json_Text "HOL-Library.List_Lexorder" "HOL-Library.Char_ord"
begin

text \<open>
  The capability envelope of an attempt, \<open>daemon/src/queue/capability-envelope.mjs\<close> with the reader
  of tool lists it calls from \<open>daemon/src/runner/tool-flags.mjs\<close>: the default envelope of a lane, the
  validator, the permission check, the spawn options, the approval wall and the hash. An envelope
  is a JavaScript value, so every shape test of the validator is a test of the model. SHA-256 is a
  parameter.
\<close>

section \<open>Tables\<close>

definition capability_keys :: "string list" where
  "capability_keys = [''readPaths'', ''writePaths'', ''allowedTools'', ''networkDestinations'',
     ''secretScopes'', ''budget'', ''maxRuntime'', ''humanOnlyActions'']"

definition human_only_actions :: "string list" where
  "human_only_actions = [''push'', ''merge'', ''tag'', ''deploy'']"

definition human_only_denial_table :: "(string \<times> string list) list" where
  "human_only_denial_table =
    [(''push'', [''Bash(git push:*)'', ''Bash(git remote:*)'', ''Bash(git config:*)'']),
     (''merge'', [''Bash(git merge:*)'']),
     (''tag'', [''Bash(git tag:*)'']),
     (''deploy'', [''Bash(npm publish:*)'', ''Bash(gh release:*)''])]"

definition danger_class_actions :: "(string \<times> string) list" where
  "danger_class_actions =
    [(''force-push'', ''push''), (''push'', ''push''), (''remote-config'', ''push''),
     (''merge'', ''merge''), (''tag'', ''tag''), (''publish'', ''deploy'')]"

definition denial_flag :: string where
  "denial_flag = ''--disallowedTools''"

definition envelope_tokens :: "string list" where
  "envelope_tokens = [''push'', ''merge'']"

definition granting_keys :: "string list" where
  "granting_keys = [''readPaths'', ''writePaths'', ''allowedTools'', ''networkDestinations'',
     ''secretScopes'']"

definition list_keys :: "string list" where
  "list_keys = granting_keys @ [''humanOnlyActions'']"

definition request_actions :: "string list" where
  "request_actions = [''read'', ''write'', ''tool'', ''network'', ''spend'']"

definition envelope_skills :: "string list" where
  "envelope_skills = [''sma-receipt'', ''sma-lesson'', ''sma-ask'', ''sma-browser'']"

definition lane_tools :: "string list" where
  "lane_tools = [''Read'', ''Grep'', ''Glob'', ''Edit'', ''Write'', ''Bash'', ''Skill'']
     @ map (\<lambda>slug. ''Skill('' @ slug @ '')'') envelope_skills"

definition lane_max_runtime :: string where
  "lane_max_runtime = ''45m''"

definition forge_draft_dirs :: "string list" where
  "forge_draft_dirs = [''.claude/agents'', ''.claude/skills'', ''.claude/harness/mcp-requests'']"

definition strs :: "string list \<Rightarrow> jsval" where
  "strs xs = JArr (map JStr xs)"

definition lane_write_paths :: jsmap where
  "lane_write_paths =
    [(''prod'', strs [''.'']), (''research'', strs [''docs'']),
     (''paperwork'', strs [''.planning'', ''docs'']), (''forge'', strs forge_draft_dirs)]"

definition locked_envelope :: jsval where
  "locked_envelope = JObj
    [(''readPaths'', strs []), (''writePaths'', strs []), (''allowedTools'', strs []),
     (''networkDestinations'', strs []), (''secretScopes'', strs []), (''budget'', JInt 0),
     (''maxRuntime'', JStr ''0m''), (''humanOnlyActions'', strs human_only_actions)]"

text \<open>\<open>defaultEnvelope\<close>: the table is read with \<open>LANE_WRITE_PATHS[lane]\<close>, a read that also
  answers the names an object inherits.\<close>

definition default_envelope :: "jsval \<Rightarrow> jsval" where
  "default_envelope lane =
     (let write_paths = (if is_str lane then own_get lane_write_paths (str_of lane) else JUndef) in
      if \<not> truthy write_paths then locked_envelope
      else JObj
        [(''readPaths'', strs [''.'']), (''writePaths'', write_paths),
         (''allowedTools'', strs lane_tools), (''networkDestinations'', strs []),
         (''secretScopes'', strs []), (''budget'', JNull),
         (''maxRuntime'', JStr lane_max_runtime),
         (''humanOnlyActions'', strs human_only_actions)])"

section \<open>Denials and the approval wall\<close>

text \<open>A \<open>Set\<close> built by successive \<open>add\<close> keeps first occurrences; \<open>sort\<close> then orders by code unit.\<close>

definition set_add :: "'a \<Rightarrow> 'a list \<Rightarrow> 'a list" where
  "set_add x xs = (if List.member xs x then xs else xs @ [x])"

definition declared_actions :: "jsval \<Rightarrow> jsval list" where
  "declared_actions envelope = elems (jget envelope ''humanOnlyActions'')"

definition denial_step :: "jsval \<Rightarrow> string list \<times> string list \<Rightarrow> string list \<times> string list" where
  "denial_step raw = (\<lambda>(patterns, unmapped).
     let action = (if is_str raw then js_trim (str_of raw) else []) in
     case (if action \<noteq> [] then map_of human_only_denial_table action else None) of
       None \<Rightarrow> (patterns, unmapped @ [to_str raw])
     | Some mapped \<Rightarrow> (fold set_add mapped patterns, unmapped))"

definition human_only_denials :: "jsval \<Rightarrow> string list \<times> string list" where
  "human_only_denials envelope =
     (case fold denial_step (declared_actions envelope) ([], []) of
        (patterns, unmapped) \<Rightarrow> (sort patterns, unmapped))"

record spawn_options =
  allowed_tools_opt :: "jsval list option"
  disallowed_tools_opt :: "string list option"

definition envelope_spawn_options :: "jsval \<Rightarrow> spawn_options" where
  "envelope_spawn_options envelope =
     (let tools = elems (jget envelope ''allowedTools'');
          patterns = fst (human_only_denials envelope)
      in \<lparr>allowed_tools_opt = (if tools = [] then None else Some tools),
          disallowed_tools_opt = (if patterns = [] then None else Some patterns)\<rparr>)"

text \<open>\<open>toolListInArgs\<close>: the arguments after the first occurrence of the flag, up to the next
  argument that starts with two dashes.\<close>

fun tool_list_in_args :: "string list \<Rightarrow> string \<Rightarrow> string list option" where
  "tool_list_in_args [] flag = None"
| "tool_list_in_args (a # args) flag =
     (if a = flag then Some (takeWhile (\<lambda>v. \<not> str_prefix ''--'' v) args)
      else tool_list_in_args args flag)"

definition denied_list_of_spawn :: "jsval \<Rightarrow> string list option" where
  "denied_list_of_spawn args =
     (if \<not> is_arr args \<or> elems args = [] then None
      else case tool_list_in_args (map to_str (elems args)) denial_flag of
             None \<Rightarrow> Some []
           | Some values \<Rightarrow> if values = [] then None else Some values)"

datatype wall = Blocked | Clear | Unknown

definition wall_of_action :: "string \<Rightarrow> string list \<Rightarrow> wall" where
  "wall_of_action action denied =
     (case map_of human_only_denial_table action of
        None \<Rightarrow> Unknown
      | Some need \<Rightarrow>
          if need = [] then Unknown
          else let have = length (filter (List.member denied) need) in
               if have = length need then Blocked
               else if have = 0
               then (if list_ex (\<lambda>p. list_ex (\<lambda>v. v \<noteq> p \<and> str_includes p v) denied) need
                     then Unknown else Clear)
               else Unknown)"

definition approval_wall ::
  "jsval \<Rightarrow> jsval \<Rightarrow> jsval \<Rightarrow> wall \<times> string option \<times> string option" where
  "approval_wall ticket_class spawn_args lane_envelope =
     (let cls = (if is_str ticket_class then js_trim (str_of ticket_class) else []) in
      case map_of danger_class_actions cls of
        None \<Rightarrow> (Unknown, None, None)
      | Some action \<Rightarrow>
          (case denied_list_of_spawn spawn_args of
             Some denied \<Rightarrow> (wall_of_action action denied, Some action, Some ''spawn-args'')
           | None \<Rightarrow>
               if \<not> is_arr (jget lane_envelope ''humanOnlyActions'') then (Unknown, None, None)
               else (if List.member (declared_actions lane_envelope) (JStr action)
                     then Blocked else Clear, Some action, Some ''lane-envelope'')))"

section \<open>The validator\<close>

datatype env_verdict =
    Valid
  | NotPlain
  | DeclaresToken string string
  | MissingKey string
  | UnknownKey string
  | NotStringList string
  | BadBudget
  | BadRuntime
  | DroppedAction string

definition non_empty_string_list :: "jsval \<Rightarrow> bool" where
  "non_empty_string_list v \<longleftrightarrow>
     is_arr v \<and> list_all (\<lambda>e. is_str e \<and> js_trim (str_of e) \<noteq> []) (elems v)"

definition duration :: "string \<Rightarrow> bool" where
  "duration s \<longleftrightarrow> s \<noteq> [] \<and> (last s = CHR ''m'' \<or> last s = CHR ''h'') \<and>
     butlast s \<noteq> [] \<and> list_all is_digit (butlast s)"

text \<open>The token the first offending entry of the first offending granting key declares.\<close>

definition entry_token :: "jsval \<Rightarrow> string option" where
  "entry_token entry = find (\<lambda>token. str_includes token (js_lower (to_str entry))) envelope_tokens"

fun first_token :: "jsval list \<Rightarrow> string option" where
  "first_token [] = None"
| "first_token (e # es) = (case entry_token e of Some t \<Rightarrow> Some t | None \<Rightarrow> first_token es)"

fun declared_token :: "jsmap \<Rightarrow> string list \<Rightarrow> (string \<times> string) option" where
  "declared_token env [] = None"
| "declared_token env (k # ks) =
     (case first_token (elems (own_get env k)) of
        Some t \<Rightarrow> Some (k, t)
      | None \<Rightarrow> declared_token env ks)"

definition budget_ok :: "jsval \<Rightarrow> bool" where
  "budget_ok b \<longleftrightarrow> b = JNull \<or> (case b of JNum (Fin q) \<Rightarrow> 0 \<le> q | _ \<Rightarrow> False)"

definition validate_envelope :: "jsval \<Rightarrow> env_verdict" where
  "validate_envelope v =
     (case v of
        JObj env \<Rightarrow>
          (case declared_token env granting_keys of
             Some (k, t) \<Rightarrow> DeclaresToken k t
           | None \<Rightarrow>
          (case find (\<lambda>k. \<not> has_own env k) capability_keys of
             Some k \<Rightarrow> MissingKey k
           | None \<Rightarrow>
          (case find (\<lambda>k. \<not> List.member capability_keys k) (akeys env) of
             Some k \<Rightarrow> UnknownKey k
           | None \<Rightarrow>
          (case find (\<lambda>k. \<not> non_empty_string_list (own_get env k)) list_keys of
             Some k \<Rightarrow> NotStringList k
           | None \<Rightarrow>
             if \<not> budget_ok (own_get env ''budget'') then BadBudget
             else if \<not> (is_str (own_get env ''maxRuntime'') \<and>
                         duration (str_of (own_get env ''maxRuntime''))) then BadRuntime
             else (case find (\<lambda>a. \<not> List.member (elems (own_get env ''humanOnlyActions'')) (JStr a))
                        human_only_actions of
                     Some a \<Rightarrow> DroppedAction a
                   | None \<Rightarrow> Valid)))))
      | _ \<Rightarrow> NotPlain)"

section \<open>Paths and permissions\<close>

definition drive_letter :: "string \<Rightarrow> bool" where
  "drive_letter s = (case s of c # d # _ \<Rightarrow> d = CHR '':'' \<and>
       (let n = code_of c in (65 \<le> n \<and> n \<le> 90) \<or> (97 \<le> n \<and> n \<le> 122)) | _ \<Rightarrow> False)"

definition slashed :: "string \<Rightarrow> string" where
  "slashed p = js_trim (map (\<lambda>c. if c = CHR 0x5C then CHR ''/'' else c) p)"

definition path_segments :: "string \<Rightarrow> string list" where
  "path_segments s = filter (\<lambda>w. w \<noteq> [] \<and> w \<noteq> ''.'') (js_split (CHR ''/'') s)"

definition normalize_path :: "jsval \<Rightarrow> string option" where
  "normalize_path p =
     (if \<not> is_str p \<or> js_trim (str_of p) = [] then None
      else let s = slashed (str_of p) in
           if str_prefix ''/'' s \<or> drive_letter s then None
           else let segments = path_segments s in
                if List.member segments ''..'' then None
                else Some (js_join ''/'' segments))"

definition within_declared_path :: "jsval \<Rightarrow> string \<Rightarrow> bool" where
  "within_declared_path base path =
     (case normalize_path base of
        None \<Rightarrow> False
      | Some b \<Rightarrow> b = [] \<or> path = b \<or> str_prefix (b @ ''/'') path)"

definition envelope_allows :: "jsval \<Rightarrow> jsval \<Rightarrow> bool" where
  "envelope_allows env request =
     (if validate_envelope env \<noteq> Valid then False
      else if \<not> is_plain request then False
      else let action = jget request ''action'' in
      if \<not> is_str action \<or> js_trim (str_of action) = [] then False
      else if List.member (declared_actions env) action \<or>
              List.member human_only_actions (str_of action) then False
      else if \<not> List.member request_actions (str_of action) then False
      else if action = JStr ''read'' \<or> action = JStr ''write'' then
        (case normalize_path (jget request ''path'') of
           None \<Rightarrow> False
         | Some path \<Rightarrow>
             list_ex (\<lambda>base. within_declared_path base path)
               (elems (jget env (if action = JStr ''read'' then ''readPaths'' else ''writePaths''))))
      else if action = JStr ''tool'' then
        is_str (jget request ''tool'') \<and>
          List.member (elems (jget env ''allowedTools'')) (jget request ''tool'')
      else if action = JStr ''network'' then
        is_str (jget request ''destination'') \<and>
          List.member (elems (jget env ''networkDestinations'')) (jget request ''destination'')
      else
        (case (jget env ''budget'', jget request ''amount'') of
           (JNum (Fin budget), JNum (Fin amount)) \<Rightarrow> 0 \<le> amount \<and> amount \<le> budget
         | _ \<Rightarrow> False))"

section \<open>The hash\<close>

fun canonical :: "jsval \<Rightarrow> jsval" where
  "canonical (JArr vs) = JArr (map canonical vs)"
| "canonical (JObj m) = JObj (sort_key fst (map (\<lambda>(k, v). (k, canonical v)) m))"
| "canonical v = v"

datatype hash_error = EnvelopeRequired

definition envelope_hash :: "(string \<Rightarrow> string) \<Rightarrow> jsval \<Rightarrow> hash_error + string" where
  "envelope_hash sha256hex env =
     (if \<not> is_plain env then Inl EnvelopeRequired
      else Inr (sha256hex (case json_str (canonical env) of None \<Rightarrow> [] | Some s \<Rightarrow> s)))"

section \<open>What a valid envelope is\<close>

lemma find_None_all: "find P xs = None \<longleftrightarrow> (\<forall>x \<in> set xs. \<not> P x)"
  by (auto simp: find_None_iff)

lemma option_case_Valid:
  "(\<And>k. f k \<noteq> Valid) \<Longrightarrow>
     (case x of None \<Rightarrow> b | Some k \<Rightarrow> f k) = Valid \<longleftrightarrow> x = None \<and> b = Valid"
  by (cases x) auto

lemma first_token_None_iff: "first_token es = None \<longleftrightarrow> (\<forall>e \<in> set es. entry_token e = None)"
  by (induction es) (auto split: option.splits)

lemma declared_token_None_iff:
  "declared_token env ks = None \<longleftrightarrow> (\<forall>k \<in> set ks. first_token (elems (own_get env k)) = None)"
  by (induction ks) (auto split: option.splits)

lemma entry_token_None_iff:
  "entry_token e = None \<longleftrightarrow> (\<forall>token \<in> set envelope_tokens. \<not> sublist token (js_lower (to_str e)))"
  by (simp add: entry_token_def find_None_all str_includes_iff)

lemma validate_Valid_iff:
  "validate_envelope (JObj env) = Valid \<longleftrightarrow>
     declared_token env granting_keys = None \<and>
     set (akeys env) = set capability_keys \<and>
     (\<forall>k \<in> set list_keys. non_empty_string_list (own_get env k)) \<and>
     budget_ok (own_get env ''budget'') \<and>
     is_str (own_get env ''maxRuntime'') \<and> duration (str_of (own_get env ''maxRuntime'')) \<and>
     (\<forall>a \<in> set human_only_actions. JStr a \<in> set (elems (own_get env ''humanOnlyActions'')))"
proof -
  have keys: "find (\<lambda>k. \<not> has_own env k) capability_keys = None \<and>
      find (\<lambda>k. \<not> List.member capability_keys k) (akeys env) = None \<longleftrightarrow>
      set (akeys env) = set capability_keys"
    by (auto simp: find_None_all)
  show ?thesis
    unfolding keys [symmetric]
    by (simp add: validate_envelope_def option_case_Valid split_beta find_None_all conj_ac
        cong: conj_cong)
qed

lemma Valid_obj: "validate_envelope v = Valid \<Longrightarrow> \<exists>env. v = JObj env"
  by (cases v) (auto simp: validate_envelope_def)

lemma Valid_humans:
  "validate_envelope env = Valid \<Longrightarrow> a \<in> set human_only_actions \<Longrightarrow> JStr a \<in> set (declared_actions env)"
  using Valid_obj [of env] by (auto simp: validate_Valid_iff declared_actions_def)

lemma Valid_entry:
  assumes "validate_envelope env = Valid" "k \<in> set granting_keys" "e \<in> set (elems (jget env k))"
    "token \<in> set envelope_tokens"
  shows "\<not> sublist token (js_lower (to_str e))"
proof -
  from assms(1) obtain m where m: "env = JObj m" using Valid_obj by blast
  with assms show ?thesis
    by (auto simp: validate_Valid_iff declared_token_None_iff first_token_None_iff entry_token_None_iff)
qed

section \<open>Paths as lists of segments\<close>

text \<open>The abstract reading of a declared or requested path: relative, with no empty, \<open>.\<close> or \<open>..\<close>
  segment; containment is the prefix order on segment lists.\<close>

definition relative_segments :: "jsval \<Rightarrow> string list option" where
  "relative_segments p =
     (if \<not> is_str p \<or> js_trim (str_of p) = [] then None
      else let s = slashed (str_of p) in
           if str_prefix ''/'' s \<or> drive_letter s \<or> List.member (path_segments s) ''..'' then None
           else Some (path_segments s))"

lemma normalize_path_segments: "normalize_path p = map_option (js_join ''/'') (relative_segments p)"
  by (simp add: normalize_path_def relative_segments_def Let_def)

lemma relative_segments_clean:
  "relative_segments p = Some ws \<Longrightarrow>
     (\<forall>w \<in> set ws. w \<noteq> [] \<and> CHR ''/'' \<notin> set w \<and> w \<noteq> ''.'' \<and> w \<noteq> ''..'')"
  by (auto simp: relative_segments_def path_segments_def Let_def split: if_splits
      dest: js_split_no_sep)

lemma within_declared_segments:
  assumes "relative_segments q = Some ps"
  shows "within_declared_path base (js_join ''/'' ps) \<longleftrightarrow>
    (\<exists>bs. relative_segments base = Some bs \<and> prefix bs ps)"
proof (cases "relative_segments base")
  case None
  then show ?thesis by (simp add: within_declared_path_def normalize_path_segments)
next
  case (Some bs)
  note clean = relative_segments_clean [OF Some] relative_segments_clean [OF assms]
  show ?thesis
  proof (cases "bs = []")
    case True
    with Some show ?thesis by (simp add: within_declared_path_def normalize_path_segments)
  next
    case False
    have "js_join ''/'' bs \<noteq> []" using False clean by (simp add: js_join_empty_iff)
    moreover have "js_join ''/'' ps = js_join ''/'' bs \<or>
        prefix (js_join ''/'' bs @ ''/'') (js_join ''/'' ps) \<longleftrightarrow> prefix bs ps"
      using False clean by (intro js_join_prefix) auto
    ultimately show ?thesis using Some
      by (simp add: within_declared_path_def normalize_path_segments str_prefix_iff)
  qed
qed

section \<open>Denials\<close>

lemma set_set_add [simp]: "set (set_add x xs) = insert x (set xs)"
  by (auto simp: set_add_def)

lemma distinct_set_add: "distinct xs \<Longrightarrow> distinct (set_add x xs)"
  by (simp add: set_add_def)

lemma set_fold_set_add: "set (fold set_add ys xs) = set ys \<union> set xs"
  by (induction ys arbitrary: xs) auto

lemma distinct_fold_set_add: "distinct xs \<Longrightarrow> distinct (fold set_add ys xs)"
  by (induction ys arbitrary: xs) (auto intro: distinct_set_add)

definition mapped_patterns :: "jsval \<Rightarrow> string list" where
  "mapped_patterns raw = (case map_of human_only_denial_table (if is_str raw then js_trim (str_of raw) else [])
      of None \<Rightarrow> [] | Some ps \<Rightarrow> ps)"

lemma denial_step_fst: "set (fst (denial_step raw st)) = set (fst st) \<union> set (mapped_patterns raw)"
proof -
  have "map_of human_only_denial_table [] = None" by (simp add: human_only_denial_table_def)
  then show ?thesis
    by (auto simp: denial_step_def mapped_patterns_def Let_def set_fold_set_add
        split: prod.splits option.splits)
qed

lemma denial_step_distinct: "distinct (fst st) \<Longrightarrow> distinct (fst (denial_step raw st))"
  by (auto simp: denial_step_def Let_def distinct_fold_set_add split: prod.splits option.splits)

lemma denial_fold:
  "distinct (fst st) \<Longrightarrow> distinct (fst (fold denial_step raws st)) \<and>
     set (fst (fold denial_step raws st)) = set (fst st) \<union> (\<Union>raw \<in> set raws. set (mapped_patterns raw))"
  by (induction raws arbitrary: st) (auto simp: denial_step_fst denial_step_distinct)

lemma human_only_denials_patterns:
  "set (fst (human_only_denials env)) = (\<Union>raw \<in> set (declared_actions env). set (mapped_patterns raw))"
  "sorted (fst (human_only_denials env))" "distinct (fst (human_only_denials env))"
  using denial_fold [of "([], [])" "declared_actions env"]
  by (auto simp: human_only_denials_def split: prod.splits)

definition all_denials :: "string list" where
  "all_denials = concat (map snd human_only_denial_table)"

lemma mapped_patterns_sub: "set (mapped_patterns raw) \<subseteq> set all_denials"
  by (force simp: mapped_patterns_def all_denials_def dest: map_of_SomeD [OF sym] split: option.splits)

lemma mapped_patterns_human:
  "(\<Union>a \<in> set human_only_actions. set (mapped_patterns (JStr a))) = set all_denials"
  by code_simp

lemma Valid_denials:
  assumes "validate_envelope env = Valid"
  shows "set (fst (human_only_denials env)) = set all_denials"
proof
  show "set (fst (human_only_denials env)) \<subseteq> set all_denials"
    using mapped_patterns_sub by (auto simp: human_only_denials_patterns(1))
  show "set all_denials \<subseteq> set (fst (human_only_denials env))"
    using Valid_humans [OF assms]
    by (force simp: human_only_denials_patterns(1) simp flip: mapped_patterns_human)
qed

lemma tool_list_in_args_built:
  assumes "flag \<notin> set before" "\<forall>v \<in> set vals. \<not> str_prefix ''--'' v"
    "after = [] \<or> str_prefix ''--'' (hd after)"
  shows "tool_list_in_args (before @ flag # vals @ after) flag = Some vals"
proof -
  have "takeWhile (\<lambda>v. \<not> str_prefix ''--'' v) (vals @ after) = vals"
    using assms(2,3) by (cases after) (auto simp: takeWhile_append)
  with assms(1) show ?thesis by (induction before) auto
qed

lemma denials_not_flags: "p \<in> set all_denials \<Longrightarrow> \<not> str_prefix ''--'' p"
  by (auto simp: all_denials_def human_only_denial_table_def)

lemma wall_all_denied:
  assumes "(cls, action) \<in> set danger_class_actions" "set all_denials \<subseteq> set denied"
  shows "wall_of_action action denied = Blocked"
proof -
  obtain need where need: "map_of human_only_denial_table action = Some need" "need \<noteq> []"
    using assms(1) by (auto simp: danger_class_actions_def human_only_denial_table_def)
  then have "set need \<subseteq> set denied"
    using assms(2) by (force simp: all_denials_def dest: map_of_SomeD)
  then have "filter (List.member denied) need = need" by (auto simp: filter_id_conv)
  with need show ?thesis by (simp add: wall_of_action_def)
qed

section \<open>Order of keys\<close>

lemma canonical_entries:
  assumes "wf_map m" "wf_map m'" "set m = set m'"
  shows "canonical (JObj m) = canonical (JObj m')"
proof -
  let ?f = "\<lambda>(k, v). (k, canonical v)"
  have keys: "map fst (map ?f n) = akeys n" for n
    by (simp add: akeys_def split_beta comp_def)
  have "sort_key fst (map ?f m) = sort_key fst (map ?f m')"
  proof (rule map_sorted_distinct_set_unique [of fst])
    have keyed: "distinct (map ?f n) \<and> inj_on fst (set (map ?f n))" if "wf_map n" for n
    proof -
      have "distinct (map fst (map ?f n))" using that by (simp only: keys wf_map_def)
      then show ?thesis by (simp only: distinct_map)
    qed
    show "inj_on fst (set (sort_key fst (map ?f m)) \<union> set (sort_key fst (map ?f m')))"
      using keyed [OF assms(1)] assms(3) by simp
    show "distinct (map fst (sort_key fst (map ?f m)))" "distinct (map fst (sort_key fst (map ?f m')))"
      using keyed assms by (simp_all only: distinct_map [of fst] distinct_sort set_sort)
  qed (use assms in simp_all)
  then show ?thesis by simp
qed

lemma wf_map_set_eq: "wf_map m \<Longrightarrow> wf_map m' \<Longrightarrow> map_of m = map_of m' \<Longrightarrow> set m = set m'"
  unfolding wf_map_def akeys_def by (metis map_of_inject_set)

section \<open>Properties\<close>

definition paperwork_envelope :: jsval where
  "paperwork_envelope = default_envelope (JStr ''paperwork'')"

lemma visible [simp]: "js_trim ''read'' \<noteq> []" "js_trim ''write'' \<noteq> []" "js_trim ''tool'' \<noteq> []"
  "js_trim ''network'' \<noteq> []" "js_trim ''spend'' \<noteq> []"
  by code_simp+

text \<open>C23: a path permission is a segment prefix. For a valid envelope a read or a write is allowed
  exactly when the verb is not reserved for a human and the requested path is relative, has no
  \<open>..\<close> segment and continues, segment by segment, one of the declared paths: \<open>docs\<close> never admits
  \<open>docs-private\<close>, and no spelling of a path climbs out.\<close>

theorem path_permission:
  assumes "validate_envelope env = Valid" and "verb \<in> {''read'', ''write''}"
  shows "envelope_allows env (JObj [(''action'', JStr verb), (''path'', p)]) \<longleftrightarrow>
    JStr verb \<notin> set (declared_actions env) \<and>
    (\<exists>base \<in> set (elems (jget env (verb @ ''Paths''))). \<exists>bs ps.
       relative_segments base = Some bs \<and> relative_segments p = Some ps \<and>
       prefix bs ps \<and> ''..'' \<notin> set ps)"
proof (cases "relative_segments p")
  case None
  with assms show ?thesis
    by (auto simp: envelope_allows_def own_get_def normalize_path_segments Let_def)
next
  case (Some ps)
  then have clean: "''..'' \<notin> set ps" using relative_segments_clean by blast
  from assms(2) consider "verb = ''read''" | "verb = ''write''" by blast
  then have "envelope_allows env (JObj [(''action'', JStr verb), (''path'', p)]) \<longleftrightarrow>
      JStr verb \<notin> set (declared_actions env) \<and>
      (\<exists>base \<in> set (elems (jget env (verb @ ''Paths''))). within_declared_path base (js_join ''/'' ps))"
    using assms(1) Some
    by cases (simp_all add: envelope_allows_def own_get_def normalize_path_segments list_ex_iff
        human_only_actions_def request_actions_def Let_def)
  then show ?thesis using clean Some by (auto simp: within_declared_segments [OF Some])
qed

theorem path_permission_witness:
  "envelope_allows paperwork_envelope
     (JObj [(''action'', JStr ''write''), (''path'', JStr ''./docs//guide.md'')])"
proof -
  have valid: "validate_envelope paperwork_envelope = Valid" by code_simp
  have "JStr ''docs'' \<in> set (elems (jget paperwork_envelope ''writePaths''))" by code_simp
  moreover have "relative_segments (JStr ''docs'') = Some [''docs'']" by code_simp
  moreover have "relative_segments (JStr ''./docs//guide.md'') = Some [''docs'', ''guide.md'']"
    by code_simp
  moreover have "JStr ''write'' \<notin> set (declared_actions paperwork_envelope)" by code_simp
  ultimately show ?thesis
    using path_permission [OF valid, of "''write''" "JStr ''./docs//guide.md''"] by fastforce
qed

text \<open>C39: the human-only boundary cannot be widened. Whatever the envelope and whatever the request,
  an allowed action is never push, merge, tag or deploy, and an allowed tool or network destination
  contains neither \<open>push\<close> nor \<open>merge\<close> in any letter case.\<close>

theorem human_boundary_holds:
  assumes "envelope_allows env request"
  shows "(\<forall>a \<in> set human_only_actions. jget request ''action'' \<noteq> JStr a) \<and>
    (jget request ''action'' = JStr ''tool'' \<longrightarrow>
       (\<forall>token \<in> set envelope_tokens. \<not> sublist token (js_lower (str_of (jget request ''tool''))))) \<and>
    (jget request ''action'' = JStr ''network'' \<longrightarrow>
       (\<forall>token \<in> set envelope_tokens. \<not> sublist token (js_lower (str_of (jget request ''destination'')))))"
proof -
  from assms have valid: "validate_envelope env = Valid"
    by (auto simp: envelope_allows_def split: if_splits)
  have granted: "\<not> sublist token (js_lower (str_of e))"
    if "k \<in> set granting_keys" "e \<in> set (elems (jget env k))" "is_str e" "token \<in> set envelope_tokens"
    for k e token
    using Valid_entry [OF valid that(1,2,4)] that(3) by (auto simp: is_str_iff)
  show ?thesis
    using assms granted [of "''allowedTools''"] granted [of "''networkDestinations''"]
    by (auto simp: envelope_allows_def Let_def granting_keys_def split: if_splits)
qed

theorem human_boundary_holds_witness:
  "jget (JObj [(''action'', JStr ''tool''), (''tool'', JStr ''Read'')]) ''action'' \<noteq> JStr ''push''"
proof -
  have "envelope_allows paperwork_envelope (JObj [(''action'', JStr ''tool''), (''tool'', JStr ''Read'')])"
    by code_simp
  from human_boundary_holds [OF this] show ?thesis by (simp add: human_only_actions_def)
qed

text \<open>What the validator accepts. An envelope is valid exactly when no granting list names a
  forbidden token, its keys are exactly the eight dimensions, every list holds non-blank strings,
  the budget is null or a finite non-negative number, the runtime is digits and a unit, and all
  four human-only actions are present.\<close>

theorem validator_accepts_exactly:
  "validate_envelope v = Valid \<longleftrightarrow> (\<exists>env. v = JObj env \<and>
     (\<forall>k \<in> set granting_keys. \<forall>e \<in> set (elems (own_get env k)). \<forall>token \<in> set envelope_tokens.
        \<not> sublist token (js_lower (to_str e))) \<and>
     set (akeys env) = set capability_keys \<and>
     (\<forall>k \<in> set list_keys. non_empty_string_list (own_get env k)) \<and>
     budget_ok (own_get env ''budget'') \<and>
     is_str (own_get env ''maxRuntime'') \<and> duration (str_of (own_get env ''maxRuntime'')) \<and>
     (\<forall>a \<in> set human_only_actions. JStr a \<in> set (elems (own_get env ''humanOnlyActions''))))"
proof (cases "\<exists>env. v = JObj env")
  case True
  then show ?thesis
    by (auto simp: validate_Valid_iff declared_token_None_iff first_token_None_iff entry_token_None_iff)
next
  case False
  then show ?thesis by (cases v) (simp_all add: validate_envelope_def)
qed

theorem validator_accepts_exactly_witness:
  "validate_envelope locked_envelope = Valid \<and>
   set (akeys (entries locked_envelope)) = set capability_keys \<and> budget_ok (jget locked_envelope ''budget'')"
proof -
  have "validate_envelope locked_envelope = Valid" by code_simp
  moreover from this obtain env where "locked_envelope = JObj env" "set (akeys env) = set capability_keys"
    "budget_ok (own_get env ''budget'')"
    unfolding validator_accepts_exactly by blast
  ultimately show ?thesis by (metis entries.simps(1) jget.simps(1))
qed

lemma danger_classes:
  "\<forall>x \<in> set danger_class_actions. js_trim (fst x) = fst x \<and>
     map_of danger_class_actions (fst x) = Some (snd x)"
  by code_simp

text \<open>A valid envelope denies every human-only command, and the wall sees it. The spawn options
  of a valid envelope carry all seven denial patterns, sorted and without repetition; and when
  they are the values of the denial flag in the arguments of a run, the approval wall answers
  \<open>Blocked\<close> for every dangerous class, whatever stands around the flag.\<close>

theorem denials_reach_the_wall:
  assumes "validate_envelope env = Valid"
    and "disallowed_tools_opt (envelope_spawn_options env) = Some ps"
    and "denial_flag \<notin> set before" and "after = [] \<or> str_prefix ''--'' (hd after)"
    and "(cls, action) \<in> set danger_class_actions"
  shows "set ps = set all_denials \<and> sorted ps \<and> distinct ps \<and>
    approval_wall (JStr cls) (strs (before @ denial_flag # ps @ after)) lane =
      (Blocked, Some action, Some ''spawn-args'')"
proof -
  have ps: "ps = fst (human_only_denials env)"
    using assms(2) by (auto simp: envelope_spawn_options_def Let_def split: if_splits)
  note set_ps = Valid_denials [OF assms(1), folded ps]
  have listed: "tool_list_in_args (before @ denial_flag # ps @ after) denial_flag = Some ps"
    using assms(3,4) denials_not_flags set_ps by (intro tool_list_in_args_built) auto
  have "all_denials \<noteq> []" by code_simp
  then have nonempty: "ps \<noteq> []" using set_ps by (cases ps) simp_all
  have cls: "js_trim cls = cls" "map_of danger_class_actions cls = Some action"
    using bspec [OF danger_classes assms(5)] by simp_all
  have "map to_str (map JStr xs) = xs" for xs by (induction xs) auto
  then have "denied_list_of_spawn (strs (before @ denial_flag # ps @ after)) = Some ps"
    using listed nonempty by (simp add: denied_list_of_spawn_def strs_def)
  with cls show ?thesis
    using set_ps human_only_denials_patterns(2,3) [of env, folded ps]
      wall_all_denied [OF assms(5), of ps]
    by (simp add: approval_wall_def)
qed

theorem denials_reach_the_wall_witness:
  "approval_wall (JStr ''publish'')
     (strs ([''-p''] @ denial_flag # the (disallowed_tools_opt (envelope_spawn_options paperwork_envelope))
        @ [''--model'', ''x''])) JUndef = (Blocked, Some ''deploy'', Some ''spawn-args'')"
proof -
  have h: "validate_envelope paperwork_envelope = Valid"
    "disallowed_tools_opt (envelope_spawn_options paperwork_envelope) =
       Some (the (disallowed_tools_opt (envelope_spawn_options paperwork_envelope)))"
    by code_simp+
  show ?thesis
    by (rule denials_reach_the_wall [OF h, THEN conjunct2, THEN conjunct2, THEN conjunct2])
       (simp_all add: denial_flag_def danger_class_actions_def)
qed

text \<open>The hash of an envelope does not depend on the order its keys were written in.\<close>

theorem envelope_hash_order:
  assumes "wf_map m" and "wf_map m'" and "map_of m = map_of m'"
  shows "envelope_hash sha (JObj m) = envelope_hash sha (JObj m')"
  using canonical_entries [OF assms(1,2) wf_map_set_eq [OF assms]]
  by (simp add: envelope_hash_def del: canonical.simps)

theorem envelope_hash_order_witness:
  "envelope_hash id (JObj [(''b'', JNull), (''a'', JBool True)]) =
   envelope_hash id (JObj [(''a'', JBool True), (''b'', JNull)])"
  by (rule envelope_hash_order) (auto simp: wf_map_def)

definition inherited_envelope :: "string \<Rightarrow> jsval" where
  "inherited_envelope l = JObj
     [(''readPaths'', strs [''.'']), (''writePaths'', JFun l),
      (''allowedTools'', strs lane_tools), (''networkDestinations'', strs []),
      (''secretScopes'', strs []), (''budget'', JNull),
      (''maxRuntime'', JStr lane_max_runtime),
      (''humanOnlyActions'', strs human_only_actions)]"

lemma default_envelope_inherited: "l \<in> set proto_names \<Longrightarrow> default_envelope (JStr l) = inherited_envelope l"
proof -
  assume l: "l \<in> set proto_names"
  have "\<forall>l \<in> set proto_names. map_of lane_write_paths l = None"
    by (simp add: proto_names_def lane_write_paths_def)
  with l have "own_get lane_write_paths l = JFun l" by (simp add: own_get_def)
  then show ?thesis by (simp add: default_envelope_def inherited_envelope_def)
qed

lemma inherited_envelope_invalid: "validate_envelope (inherited_envelope l) \<noteq> Valid"
proof
  assume "validate_envelope (inherited_envelope l) = Valid"
  then have "non_empty_string_list (own_get (entries (inherited_envelope l)) ''writePaths'')"
    by (simp add: inherited_envelope_def validate_Valid_iff list_keys_def granting_keys_def)
  then show False by (simp add: inherited_envelope_def own_get_def non_empty_string_list_def)
qed

lemma inherited_envelope_tools:
  "allowed_tools_opt (envelope_spawn_options (inherited_envelope l)) = Some (map JStr lane_tools)"
proof -
  have "lane_tools \<noteq> []" by (simp add: lane_tools_def)
  then show ?thesis
    by (simp add: envelope_spawn_options_def inherited_envelope_def own_get_def strs_def Let_def)
qed

text \<open>The default envelope of a lane. For every value but the twelve names a JavaScript object
  inherits, \<open>defaultEnvelope\<close> answers a valid envelope, the locked one unless the value is one of
  the four lanes; for those twelve names, which are no lanes either, the answer is not the locked
  envelope, it fails validation, and its tool list is the full one.\<close>

theorem default_envelope_of_lane:
  "(if is_str lane \<and> str_of lane \<in> set proto_names
    then validate_envelope (default_envelope lane) \<noteq> Valid \<and>
         allowed_tools_opt (envelope_spawn_options (default_envelope lane)) = Some (map JStr lane_tools)
    else validate_envelope (default_envelope lane) = Valid \<and>
         ((\<forall>l \<in> set (akeys lane_write_paths). lane \<noteq> JStr l) \<longrightarrow> default_envelope lane = locked_envelope))"
proof -
  have lanes: "\<forall>l \<in> set (akeys lane_write_paths). validate_envelope (default_envelope (JStr l)) = Valid"
    by code_simp
  have locked: "validate_envelope locked_envelope = Valid" by code_simp
  have other: "default_envelope lane = locked_envelope"
    if "\<forall>l \<in> set (akeys lane_write_paths). lane \<noteq> JStr l" "\<not> (is_str lane \<and> str_of lane \<in> set proto_names)"
  proof -
    have "own_get lane_write_paths (str_of lane) = JUndef" if "is_str lane"
      using that \<open>\<forall>l \<in> set (akeys lane_write_paths). lane \<noteq> JStr l\<close>
        \<open>\<not> (is_str lane \<and> str_of lane \<in> set proto_names)\<close>
      by (intro own_get_absent) (auto simp: is_str_iff map_of_eq_None_iff akeys_def)
    then show ?thesis by (simp add: default_envelope_def Let_def)
  qed
  show ?thesis
  proof (cases "is_str lane \<and> str_of lane \<in> set proto_names")
    case True
    then show ?thesis
      by (auto simp: is_str_iff default_envelope_inherited inherited_envelope_invalid
          inherited_envelope_tools)
  next
    case False
    with lanes locked other show ?thesis by (metis (lifting))
  qed
qed

theorem default_envelope_of_lane_witness:
  "default_envelope (JStr ''night'') = locked_envelope \<and>
   validate_envelope (default_envelope (JStr ''toString'')) \<noteq> Valid"
proof -
  have "''night'' \<notin> set proto_names" "''toString'' \<in> set proto_names" by code_simp+
  moreover have "\<forall>l \<in> set (akeys lane_write_paths). JStr ''night'' \<noteq> JStr l" by code_simp
  ultimately show ?thesis
    using default_envelope_of_lane [of "JStr ''night''"] default_envelope_of_lane [of "JStr ''toString''"] by simp
qed

end
