(* ===== verification/Roles.thy ===== *)
theory Roles
  imports Js_Text
begin

text \<open>
  Who a worker is: \<open>daemon/src/policy/worker-role.mjs\<close> (the role a profile holds and a task asks for)
  and \<open>daemon/src/policy/orchestrator.mjs\<close> (the top of the machine, which takes no tasks). Profiles,
  tasks and the configuration are JavaScript values. The Cyrillic display name of the top is a
  parameter.
\<close>

section \<open>Roles\<close>

definition executor_role :: string where "executor_role = ''executor''"

definition stock_prefix :: string where "stock_prefix = ''sma-''"

definition normalize_role :: "jsval \<Rightarrow> string option" where
  "normalize_role v =
     (if \<not> is_str v then None
      else let trimmed = js_lower (js_trim (str_of v)) in
           if trimmed = [] then None
           else if str_prefix stock_prefix trimmed
           then (let tail = drop (length stock_prefix) trimmed in if tail = [] then None else Some tail)
           else Some trimmed)"

text \<open>\<open>path.split(/[\\/]/).pop()\<close> and \<open>replace(/\.md$/i, '')\<close>.\<close>

definition path_tail :: "string \<Rightarrow> string" where
  "path_tail p = last (js_split (CHR ''/'') (map (\<lambda>c. if c = CHR 0x5C then CHR ''/'' else c) p))"

definition drop_md :: "string \<Rightarrow> string" where
  "drop_md s = (if 3 \<le> length s \<and> js_lower (drop (length s - 3) s) = ''.md''
                then take (length s - 3) s else s)"

definition role_from_definition_path :: "jsval \<Rightarrow> string option" where
  "role_from_definition_path v =
     (if \<not> is_str v \<or> js_trim (str_of v) = [] then None
      else normalize_role (JStr (drop_md (path_tail (str_of v)))))"

definition or_else :: "'a option \<Rightarrow> 'a \<Rightarrow> 'a" where
  "or_else a b = (case a of Some x \<Rightarrow> x | None \<Rightarrow> b)"

definition role_of :: "jsval \<Rightarrow> string" where
  "role_of profile =
     (if \<not> is_object profile then executor_role
      else case normalize_role (jget profile ''role'') of
             Some r \<Rightarrow> r
           | None \<Rightarrow> or_else (role_from_definition_path (jget profile ''roleFile'')) executor_role)"

definition role_wanted :: "jsval \<Rightarrow> string" where
  "role_wanted task =
     (if \<not> is_object task then executor_role
      else or_else (normalize_role (jget task ''role'')) executor_role)"

definition role_is_named :: "jsval \<Rightarrow> bool" where
  "role_is_named task \<longleftrightarrow> is_object task \<and> normalize_role (jget task ''role'') \<noteq> None"

definition holds_role :: "jsval \<Rightarrow> jsval \<Rightarrow> bool" where
  "holds_role profile role \<longleftrightarrow> role_of profile = or_else (normalize_role role) executor_role"

definition is_executor :: "jsval \<Rightarrow> bool" where
  "is_executor profile \<longleftrightarrow> role_of profile = executor_role"

definition pipeline_roles :: "string list" where
  "pipeline_roles = [executor_role, ''planner'']"

definition is_pipeline_role :: "jsval \<Rightarrow> bool" where
  "is_pipeline_role role \<longleftrightarrow> List.member pipeline_roles (or_else (normalize_role role) executor_role)"

section \<open>The orchestrator\<close>

definition orchestrator_id :: string where "orchestrator_id = ''orchestrator''"

definition orchestrator_role :: string where "orchestrator_role = ''orchestrator''"

definition is_orchestrator :: "jsval \<Rightarrow> bool" where
  "is_orchestrator profile \<longleftrightarrow> is_object profile \<and>
     (jget profile ''role'' = JStr orchestrator_role \<or> jget profile ''id'' = JStr orchestrator_id)"

definition config_workers :: "jsval \<Rightarrow> jsval list" where
  "config_workers config = elems (jget config ''workers'')"

definition voice_account :: "jsval \<Rightarrow> jsval" where
  "voice_account config =
     (let own = (if truthy config \<and> truthy (jget config ''orchestrator'')
                 then jget (jget config ''orchestrator'') ''account'' else JUndef)
      in if truthy own then own
         else let workers = filter (\<lambda>w. truthy w \<and> \<not> is_orchestrator w \<and>
                    coalesce (jget w ''provider'') (JStr ''claude'') = JStr ''claude'') (config_workers config)
              in case find (\<lambda>w. jget w ''dayPriorityOwner'' = JBool True) workers of
                   Some w \<Rightarrow> jget w ''account''
                 | None \<Rightarrow> (case workers of [] \<Rightarrow> JNull | w # _ \<Rightarrow> jget w ''account''))"

text \<open>\<open>ensureOrchestrator\<close>: the impostor found in the worker list becomes the block, under the hand
  of an existing block, and leaves the list.\<close>

definition merged_block :: "string \<Rightarrow> jsmap \<Rightarrow> jsmap \<Rightarrow> jsmap" where
  "merged_block display_name lifted existing =
     spread (spread (spread [(''name'', JStr display_name), (''provider'', JStr ''claude'')] lifted) existing)
       [(''id'', JStr orchestrator_id), (''role'', JStr orchestrator_role)]"

definition ensure_orchestrator :: "string \<Rightarrow> jsval \<Rightarrow> jsval" where
  "ensure_orchestrator display_name config =
     (if \<not> is_object config then config
      else let workers = config_workers config;
               impostor = find is_orchestrator workers;
               block = jget config ''orchestrator'';
               existing = is_object block
           in if existing \<and> impostor = None then config
              else let lifted = (case impostor of None \<Rightarrow> [] | Some w \<Rightarrow> adel ''lane'' (entries w));
                       merged = merged_block display_name lifted (if existing then entries block else [])
                   in JObj (spread (spread (entries config) [(''orchestrator'', JObj merged)])
                        (case impostor of
                           None \<Rightarrow> []
                         | Some _ \<Rightarrow> [(''workers'', JArr (filter (\<lambda>w. \<not> is_orchestrator w) workers))])))"

section \<open>Facts\<close>

lemma role_of_not_None [simp]: "or_else (Some r) d = r" "or_else None d = d"
  by (simp_all add: or_else_def)

lemma normalize_role_nonempty: "normalize_role v = Some r \<Longrightarrow> r \<noteq> []"
  by (auto simp: normalize_role_def Let_def split: if_splits)

lemma orchestrator_is_object: "is_orchestrator w \<Longrightarrow> \<exists>m. w = JObj m"
  by (cases w) (auto simp: is_orchestrator_def is_object_def)

lemma own_get_spread_last: "own_get (spread m [(k, v)]) k = v"
  by (simp add: own_get_def spread_def)

lemma own_get_spread_other: "k \<noteq> k' \<Longrightarrow> own_get (spread m [(k', v)]) k = own_get m k"
  by (simp add: own_get_def spread_def)

lemma spread_Nil [simp]: "spread m [] = m"
  by (simp add: spread_def)

text \<open>After the mint no worker is an orchestrator.\<close>

lemma ensure_workers_clean:
  assumes "is_plain config"
  shows "\<forall>w \<in> set (config_workers (ensure_orchestrator name config)). \<not> is_orchestrator w"
proof -
  obtain m where m: "config = JObj m" using assms by (auto simp: is_plain_iff)
  show ?thesis
  proof (cases "find is_orchestrator (config_workers config)")
    case None
    then have "config_workers (ensure_orchestrator name config) = config_workers config"
      using m by (auto simp: ensure_orchestrator_def Let_def config_workers_def own_get_def spread_def)
    with None show ?thesis by (auto simp: find_None_iff)
  next
    case (Some w)
    then show ?thesis using m
      by (simp add: ensure_orchestrator_def Let_def config_workers_def is_object_def own_get_spread_last)
  qed
qed

section \<open>Properties\<close>

text \<open>The top of the machine takes no tasks, and minting it settles. After
  \<open>ensureOrchestrator\<close> on a configuration object the \<open>orchestrator\<close> block exists, no row of
  \<open>workers\<close> is an orchestrator by either spelling, every other worker is still there in its place,
  and a second call changes nothing.\<close>

theorem ensure_orchestrator_settles:
  assumes "is_plain config"
  shows "let c = ensure_orchestrator name config in
    is_object (jget c ''orchestrator'') \<and>
    config_workers c = filter (\<lambda>w. \<not> is_orchestrator w) (config_workers config) \<and>
    ensure_orchestrator name c = c"
proof -
  let ?c = "ensure_orchestrator name config"
  obtain m where m: "config = JObj m" using assms by (auto simp: is_plain_iff)
  have plain: "is_plain ?c"
    using m by (auto simp: ensure_orchestrator_def Let_def split: option.splits)
  have block: "is_object (jget ?c ''orchestrator'')"
    using m by (auto simp: ensure_orchestrator_def Let_def is_object_def own_get_spread_last
        own_get_spread_other split: option.splits)
  note clean = ensure_workers_clean [OF assms, of name]
  then have none: "find is_orchestrator (config_workers ?c) = None"
    by (auto simp: find_None_iff)
  have "config_workers ?c = filter (\<lambda>w. \<not> is_orchestrator w) (config_workers config)"
  proof (cases "find is_orchestrator (config_workers config)")
    case None
    then have "\<forall>w \<in> set (config_workers config). \<not> is_orchestrator w" by (auto simp: find_None_iff)
    then show ?thesis using None m
      by (auto simp: ensure_orchestrator_def Let_def config_workers_def own_get_def spread_def
          filter_id_conv)
  next
    case (Some w)
    then show ?thesis using m
      by (simp add: ensure_orchestrator_def Let_def config_workers_def is_object_def own_get_spread_last)
  qed
  moreover have "ensure_orchestrator name ?c = ?c"
    using block none plain by (simp add: ensure_orchestrator_def [of name ?c] is_object_def)
  ultimately show ?thesis using block by (simp add: Let_def)
qed

definition impostor_config :: jsval where
  "impostor_config = JObj [(''workers'', JArr
     [JObj [(''id'', JStr ''w1'')], JObj [(''id'', JStr ''orchestrator''), (''lane'', JStr ''prod'')]])]"

theorem ensure_orchestrator_settles_witness:
  "config_workers (ensure_orchestrator ''Top'' impostor_config) = [JObj [(''id'', JStr ''w1'')]]"
proof -
  have "is_plain impostor_config" by (simp add: impostor_config_def)
  from ensure_orchestrator_settles [OF this, of "''Top''"] show ?thesis
    by (simp add: Let_def impostor_config_def config_workers_def is_orchestrator_def is_object_def
        own_get_def proto_names_def orchestrator_role_def orchestrator_id_def)
qed

end
