(* ===== verification/Seats.thy ===== *)
theory Seats
  imports Roles Contracts
begin

text \<open>
  The house of running attempts, \<open>daemon/src/queue/in-flight.mjs\<close>: the ceiling, the seats reserved
  for a lane, the register \<open>createInFlight\<close> as a state with one function per method, the
  confirmation of a dead process, and the step of \<open>daemon/src/loop.mjs\<close> by which a tick takes its
  seat. The methods' callers are synchronous, so a run is a sequence of operations.
\<close>

section \<open>The ceiling\<close>

text \<open>\<open>JUndef\<close> is a missing \<open>config\<close>; the guards \<open>config && config.k\<close> are \<open>and_get\<close>.\<close>

definition concurrency_cap :: "jsval \<Rightarrow> int" where
  "concurrency_cap config =
     (case to_num (and_get config ''maxConcurrentAttempts'') of
        Fin q \<Rightarrow> if q > 0 then \<lfloor>q\<rfloor> else 1
      | _ \<Rightarrow> 1)"

definition seat_workers :: "jsval \<Rightarrow> jsval list option" where
  "seat_workers config =
     (let list = jget config ''workers'' in
      if \<not> is_arr list \<or> elems list = [] then None
      else Some (filter (\<lambda>w. truthy w \<and> jget w ''enabled'' \<noteq> JBool False \<and> \<not> is_orchestrator w)
             (elems list)))"

definition worker_seats :: "jsval \<Rightarrow> int option" where
  "worker_seats config = map_option (\<lambda>ws. int (length ws)) (seat_workers config)"

definition seat_ceiling :: "jsval \<Rightarrow> int" where
  "seat_ceiling config =
     (case worker_seats config of
        None \<Rightarrow> concurrency_cap config
      | Some by_workers \<Rightarrow> min (concurrency_cap config) by_workers)"

definition task_lanes :: "string list" where
  "task_lanes = [''prod'', ''research'', ''paperwork'', ''forge'']"

definition lane_seats_default :: jsmap where
  "lane_seats_default = [(''paperwork'', JInt 1)]"

text \<open>The loop over the lanes: \<open>taken\<close> and \<open>out\<close> are its variables; \<open>break\<close> ends the recursion.\<close>

fun reserve_lanes :: "jsmap \<Rightarrow> string list option \<Rightarrow> int \<Rightarrow> string list \<Rightarrow> int
    \<Rightarrow> (string \<times> int) list \<Rightarrow> (string \<times> int) list" where
  "reserve_lanes table working roof [] taken out = out"
| "reserve_lanes table working roof (lane # lanes) taken out =
     (if \<not> has_own table lane \<or> (case working of None \<Rightarrow> False | Some ws \<Rightarrow> \<not> List.member ws lane)
      then reserve_lanes table working roof lanes taken out
      else case to_num (own_get table lane) of
        Fin q \<Rightarrow>
          if \<lfloor>q\<rfloor> < 1 then reserve_lanes table working roof lanes taken out
          else let room = roof - 1 - taken in
               if room \<le> 0 then out
               else let got = min \<lfloor>q\<rfloor> room in
                    reserve_lanes table working roof lanes (taken + got) (aset lane got out)
      | _ \<Rightarrow> reserve_lanes table working roof lanes taken out)"

definition lane_reservations :: "jsval \<Rightarrow> string list option \<Rightarrow> (string \<times> int) list" where
  "lane_reservations config working =
     (let roof = seat_ceiling config in
      if roof < 2 then []
      else let named = and_get config ''laneSeats'';
               table = (if is_plain named then entries named else lane_seats_default)
           in reserve_lanes table working roof task_lanes 0 [])"

section \<open>The register\<close>

record seat =
  seat_task :: jsval
  seat_attempt :: jsval
  seat_worker :: jsval
  seat_lane :: jsval

record in_flight =
  seats :: "(string \<times> seat) list"
  busy :: "(string \<times> (jsval \<times> string)) list"
  counter :: nat

definition create_in_flight :: in_flight where
  "create_in_flight = \<lparr>seats = [], busy = [], counter = 0\<rparr>"

text \<open>\<open>typeof v === 'string' && v !== ''\<close>.\<close>

definition named :: "jsval \<Rightarrow> bool" where
  "named v \<longleftrightarrow> is_str v \<and> str_of v \<noteq> []"

definition house_size :: "in_flight \<Rightarrow> int" where
  "house_size h = int (length (seats h))"

definition busy_workers :: "in_flight \<Rightarrow> string list" where
  "busy_workers h = remdups (filter (\<lambda>w. w \<noteq> []) (map (\<lambda>(_, (_, w)). w) (busy h)))"

definition held_seats :: "in_flight \<Rightarrow> (jsval \<times> jsval) list" where
  "held_seats h = map (\<lambda>(_, s). (coalesce (seat_task s) JNull, coalesce (seat_worker s) JNull)) (seats h)"

definition held_by :: "in_flight \<Rightarrow> string \<Rightarrow> int" where
  "held_by h l = int (length (filter (\<lambda>(_, s). seat_lane s = JStr l) (seats h)))"

definition held_back :: "in_flight \<Rightarrow> (string \<times> int) list \<Rightarrow> int" where
  "held_back h reserved = (\<Sum>(l, n) \<leftarrow> reserved. max 0 (n - held_by h l))"

definition floor_cap :: "jsnum \<Rightarrow> int" where
  "floor_cap cap = (case cap of Fin q \<Rightarrow> if q > 0 then \<lfloor>q\<rfloor> else 1 | _ \<Rightarrow> 1)"

definition seat_token :: "nat \<Rightarrow> string" where
  "seat_token n = ''seat-'' @ dec_nat n"

definition take_seat :: "jsval \<Rightarrow> in_flight \<Rightarrow> string \<times> in_flight" where
  "take_seat lane h =
     (let n = counter h + 1; token = seat_token n in
      (token, h\<lparr>counter := n, seats := aset token
         \<lparr>seat_task = JNull, seat_attempt = JNull, seat_worker = JNull, seat_lane = lane\<rparr> (seats h)\<rparr>))"

text \<open>\<open>reserve(cap, {reserved, lane})\<close>; \<open>None\<close> for a \<open>reserved\<close> that is no \<open>Map\<close>.\<close>

definition reserve :: "jsnum \<Rightarrow> (string \<times> int) list option \<Rightarrow> jsval \<Rightarrow> in_flight
    \<Rightarrow> string option \<times> in_flight" where
  "reserve cap reserved lane_opt h =
     (let roof = floor_cap cap in
      if house_size h \<ge> roof then (None, h)
      else let table = (case reserved of None \<Rightarrow> [] | Some t \<Rightarrow> t);
               lane = (if named lane_opt then lane_opt else JNull);
               refused =
                 (if lane = JNull then house_size h \<ge> roof - held_back h table
                  else let own = (case map_of table (str_of lane) of None \<Rightarrow> 0 | Some n \<Rightarrow> n)
                       in own \<le> 0 \<or> held_by h (str_of lane) \<ge> own)
           in if refused then (None, h)
              else (case take_seat lane h of (token, h') \<Rightarrow> (Some token, h')))"

definition name_seat :: "jsval \<Rightarrow> jsval \<Rightarrow> jsval \<Rightarrow> jsval \<Rightarrow> seat \<Rightarrow> seat" where
  "name_seat task worker attempt lane s =
     (let s1 = (if named task then s\<lparr>seat_task := task\<rparr> else s);
          s2 = (if named lane \<and> \<not> truthy (seat_lane s1) then s1\<lparr>seat_lane := lane\<rparr> else s1);
          s3 = (if named attempt then s2\<lparr>seat_attempt := attempt\<rparr> else s2)
      in if named worker then s3\<lparr>seat_worker := worker\<rparr> else s3)"

definition seat_name :: "string \<Rightarrow> jsval \<Rightarrow> jsval \<Rightarrow> jsval \<Rightarrow> jsval \<Rightarrow> in_flight \<Rightarrow> in_flight" where
  "seat_name token task worker attempt lane h =
     (case map_of (seats h) token of
        None \<Rightarrow> h
      | Some s \<Rightarrow>
          let s' = name_seat task worker attempt lane s in
          h\<lparr>seats := aset token s' (seats h),
            busy := (if named worker then aset token (seat_task s', str_of worker) (busy h) else busy h)\<rparr>)"

definition release :: "jsval \<Rightarrow> in_flight \<Rightarrow> in_flight" where
  "release token h =
     (if \<not> is_str token then h
      else h\<lparr>seats := adel (str_of token) (seats h), busy := adel (str_of token) (busy h)\<rparr>)"

definition release_attempt :: "jsval \<Rightarrow> in_flight \<Rightarrow> bool \<times> in_flight" where
  "release_attempt attempt h =
     (if \<not> named attempt then (False, h)
      else case find (\<lambda>(_, s). seat_attempt s = attempt) (seats h) of
             None \<Rightarrow> (False, h)
           | Some (token, _) \<Rightarrow> (True, h\<lparr>seats := adel token (seats h)\<rparr>))"

section \<open>A confirmed death gives the seat back\<close>

text \<open>The registry of process handles as the code asks it: each question absent, or its answer for
  the task at hand. \<open>alive\<close> answers true, false, or something that is neither.\<close>

record registry =
  ask_alive :: "jsval option"
  ask_has :: "jsval option"
  ask_stopped :: "jsval option"

definition process_gone :: "registry \<Rightarrow> bool" where
  "process_gone r \<longleftrightarrow>
     (case ask_alive r of Some p \<Rightarrow> p = JBool False | None \<Rightarrow> False) \<or>
     (case ask_has r of
        Some p \<Rightarrow> p \<noteq> JBool True
      | None \<Rightarrow> (case ask_stopped r of Some p \<Rightarrow> p \<noteq> JBool True | None \<Rightarrow> False))"

definition confirm_process_gone :: "registry option \<Rightarrow> jsval \<Rightarrow> in_flight \<Rightarrow> bool \<times> in_flight" where
  "confirm_process_gone registry attempt h =
     (case registry of
        None \<Rightarrow> (False, h)
      | Some r \<Rightarrow> let gone = process_gone r in
          (gone, if gone \<and> named attempt then snd (release_attempt attempt h) else h))"

section \<open>A tick takes its seat\<close>

fun lane_seat :: "int \<Rightarrow> (string \<times> int) list \<Rightarrow> string list \<Rightarrow> in_flight
    \<Rightarrow> (string \<times> string) option \<times> in_flight" where
  "lane_seat n reserved [] h = (None, h)"
| "lane_seat n reserved (lane # lanes) h =
     (if \<not> List.member (akeys reserved) lane then lane_seat n reserved lanes h
      else case reserve (Fin (of_int n)) (Some reserved) (JStr lane) h of
             (Some token, h') \<Rightarrow> (Some (token, lane), h')
           | (None, h') \<Rightarrow> lane_seat n reserved lanes h')"

text \<open>The seat and the lanes the claim is then restricted to; \<open>None\<close> is an idle pass.\<close>

definition tick_seat :: "jsval \<Rightarrow> string list \<Rightarrow> in_flight
    \<Rightarrow> (string \<times> string list) option \<times> in_flight" where
  "tick_seat config lanes h =
     (let n = seat_ceiling config; reserved = lane_reservations config (Some lanes) in
      if n < 1 then (None, h)
      else case reserve (Fin (of_int n)) (Some reserved) JUndef h of
             (Some token, h') \<Rightarrow> (Some (token, lanes), h')
           | (None, h') \<Rightarrow>
               (case lane_seat n reserved lanes h' of
                  (Some (token, lane), h'') \<Rightarrow> (Some (token, [lane]), h'')
                | (None, h'') \<Rightarrow> (None, h'')))"

section \<open>Runs of the register\<close>

datatype seat_op =
    Take "string list"
  | Name string jsval jsval jsval jsval
  | Release jsval
  | Confirm registry jsval

fun seat_step :: "jsval \<Rightarrow> seat_op \<Rightarrow> in_flight \<Rightarrow> in_flight" where
  "seat_step config (Take lanes) h = snd (tick_seat config lanes h)"
| "seat_step config (Name token task worker attempt lane) h = seat_name token task worker attempt lane h"
| "seat_step config (Release token) h = release token h"
| "seat_step config (Confirm r attempt) h = snd (confirm_process_gone (Some r) attempt h)"


section \<open>Facts about the reservations\<close>

definition reserved_total :: "(string \<times> int) list \<Rightarrow> int" where
  "reserved_total t = (\<Sum>(l, n) \<leftarrow> t. n)"

lemma reserved_total_aset_new:
  "k \<notin> set (akeys t) \<Longrightarrow> reserved_total (aset k v t) = reserved_total t + v"
  by (simp add: reserved_total_def length_aset_new)

definition reserve_ok :: "int \<Rightarrow> string set \<Rightarrow> (string \<times> int) list \<Rightarrow> bool" where
  "reserve_ok room ls t \<longleftrightarrow> wf_map t \<and> set (akeys t) \<subseteq> ls \<and> (\<forall>(l, n) \<in> set t. 1 \<le> n) \<and> reserved_total t \<le> room"

lemma reserve_lanes_ok:
  assumes "reserve_ok (roof - 1) ls out" "taken = reserved_total out" "distinct lanes"
    "set lanes \<inter> set (akeys out) = {}"
    "\<forall>l \<in> set lanes. (case working of None \<Rightarrow> True | Some ws \<Rightarrow> l \<in> set ws) \<longrightarrow> l \<in> ls"
  shows "reserve_ok (roof - 1) ls (reserve_lanes table working roof lanes taken out)"
  using assms
proof (induction table working roof lanes taken out rule: reserve_lanes.induct)
  case (1 table working roof taken out)
  then show ?case by simp
next
  case (2 table working roof lane lanes taken out)
  show ?case
  proof (cases "has_own table lane \<and> (case working of None \<Rightarrow> True | Some ws \<Rightarrow> lane \<in> set ws)")
    case False
    have "reserve_ok (roof - 1) ls (reserve_lanes table working roof lanes taken out)"
      by (rule "2.IH"(1)) (use False "2.prems" in \<open>auto split: option.splits\<close>)
    with False show ?thesis by (auto split: option.splits)
  next
    case True
    then have cond: "\<not> (\<not> has_own table lane \<or> (case working of None \<Rightarrow> False | Some ws \<Rightarrow> \<not> List.member ws lane))"
      by (auto split: option.splits)
    have new: "lane \<notin> set (akeys out)" using "2.prems"(4) by auto
    show ?thesis
    proof (cases "to_num (own_get table lane)")
      case (Fin q)
      show ?thesis
      proof (cases "\<lfloor>q\<rfloor> < 1")
        case True
        have "reserve_ok (roof - 1) ls (reserve_lanes table working roof lanes taken out)"
          by (rule "2.IH"(2) [OF cond Fin True]) (use "2.prems" in auto)
        with True Fin cond show ?thesis by (simp only: reserve_lanes.simps if_False jsnum.case if_True)
      next
        case q: False
        define got where "got = min \<lfloor>q\<rfloor> (roof - 1 - taken)"
        show ?thesis
        proof (cases "roof - 1 - taken \<le> 0")
          case True
          with q Fin cond "2.prems"(1) show ?thesis by (simp only: reserve_lanes.simps if_False jsnum.case Let_def if_True)
        next
          case False
          have "lane \<in> ls" using True "2.prems"(5) by auto
          moreover have "1 \<le> got" "got \<le> roof - 1 - taken" using q False by (auto simp: got_def)
          ultimately have ok: "reserve_ok (roof - 1) ls (aset lane got out)"
            using "2.prems"(1,2) new by (auto simp: reserve_ok_def reserved_total_aset_new dest!: subsetD [OF set_aset_sub])
          have "reserve_ok (roof - 1) ls (reserve_lanes table working roof lanes (taken + got) (aset lane got out))"
            by (rule "2.IH"(3) [OF cond Fin q refl False, folded got_def, OF refl])
              (use "2.prems" ok new in \<open>auto simp: reserved_total_aset_new\<close>)
          with False q Fin cond show ?thesis
            by (simp only: reserve_lanes.simps if_False jsnum.case Let_def got_def)
        qed
      qed
    qed (use "2.IH"(4-) cond "2.prems" in \<open>auto simp: reserve_lanes.simps\<close>)
  qed
qed

lemma distinct_task_lanes: "distinct task_lanes" "[] \<notin> set task_lanes"
  by (simp_all add: task_lanes_def)

lemma lane_reservations_ok:
  "reserve_ok (max 0 (seat_ceiling config - 1)) (set task_lanes \<inter> set lanes)
     (lane_reservations config (Some lanes))"
proof (cases "seat_ceiling config < 2")
  case True
  then show ?thesis by (simp add: lane_reservations_def reserve_ok_def reserved_total_def)
next
  case False
  then have eq: "max 0 (seat_ceiling config - 1) = seat_ceiling config - 1" by simp
  show ?thesis
    unfolding lane_reservations_def Let_def eq
    using False by (auto intro!: reserve_lanes_ok simp: distinct_task_lanes)
      (simp_all add: reserve_ok_def reserved_total_def)
qed

definition shortfall :: "(string \<Rightarrow> int) \<Rightarrow> (string \<times> int) list \<Rightarrow> int" where
  "shortfall f t = (\<Sum>(l, n) \<leftarrow> t. max 0 (n - f l))"

lemma shortfall_simps [simp]:
  "shortfall f [] = 0" "shortfall f ((l, n) # t) = max 0 (n - f l) + shortfall f t"
  by (simp_all add: shortfall_def)

lemma shortfall_nonneg: "0 \<le> shortfall f t"
  by (induction t) auto


lemma shortfall_cong: "\<forall>l \<in> set (akeys t). f l = g l \<Longrightarrow> shortfall f t = shortfall g t"
  by (induction t) auto

lemma shortfall_drop:
  assumes "wf_map t" "\<forall>l. g l = f l - of_bool (v = JStr l)"
  shows "shortfall g t \<le> shortfall f t + of_bool (\<exists>l \<in> set (akeys t). v = JStr l)"
  using assms
proof (induction t)
  case (Cons ln t)
  obtain l n where ln: "ln = (l, n)" by (cases ln)
  show ?case
  proof (cases "v = JStr l")
    case True
    with Cons.prems ln have "shortfall g t = shortfall f t"
      by (intro shortfall_cong) (auto simp: wf_map_def)
    moreover have "g l = f l - 1" using True Cons.prems(2) by simp
    ultimately show ?thesis using True ln by simp
  next
    case False
    with Cons ln show ?thesis by (auto simp: wf_map_def)
  qed
qed simp

lemma shortfall_take:
  assumes "wf_map t" "map_of t l = Some n" "f l < n" "\<forall>k. g k = f k + of_bool (k = l)"
  shows "shortfall g t + 1 = shortfall f t"
  using assms
proof (induction t)
  case (Cons kn t)
  obtain k m where kn: "kn = (k, m)" by (cases kn)
  show ?case
  proof (cases "k = l")
    case True
    with Cons.prems kn have "shortfall g t = shortfall f t"
      by (intro shortfall_cong) (auto simp: wf_map_def)
    moreover have "g l = f l + 1" "m = n" using True kn Cons.prems by auto
    ultimately show ?thesis using True kn Cons.prems(3) by simp
  next
    case False
    with Cons kn show ?thesis by (auto simp: wf_map_def)
  qed
qed simp


lemma held_back_shortfall: "held_back h t = shortfall (held_by h) t"
  by (simp add: held_back_def shortfall_def)

section \<open>The invariant of the house\<close>

definition house_inv :: "in_flight \<Rightarrow> bool" where
  "house_inv h \<longleftrightarrow> wf_map (seats h) \<and> (\<forall>t \<in> set (akeys (seats h)). \<exists>k. k \<le> counter h \<and> t = seat_token k)"

definition cap_inv :: "jsval \<Rightarrow> in_flight \<Rightarrow> bool" where
  "cap_inv config h \<longleftrightarrow> house_inv h \<and> house_size h \<le> max 0 (seat_ceiling config)"


lemma held_by_count: "held_by h l = int (count_if (\<lambda>s. seat_lane s = JStr l) (seats h))"
  by (simp add: held_by_def count_if_def)

lemma house_size_count: "house_size h = int (count_if (\<lambda>_. True) (seats h))"
  by (simp add: house_size_def count_if_all)

lemma seat_token_inj: "seat_token m = seat_token n \<longleftrightarrow> m = n"
  by (auto simp: seat_token_def dec_nat_inj)

lemma fresh_token: "house_inv h \<Longrightarrow> seat_token (counter h + 1) \<notin> set (akeys (seats h))"
  by (fastforce simp: house_inv_def seat_token_inj)

lemma take_seat_facts:
  assumes "house_inv h" "take_seat lane h = (token, h')"
  shows "house_inv h'" "house_size h' = house_size h + 1"
    "held_by h' l = held_by h l + of_bool (lane = JStr l)"
    "token \<notin> set (akeys (seats h))" "token \<in> set (akeys (seats h'))"
proof -
  have h': "seats h' = aset token \<lparr>seat_task = JNull, seat_attempt = JNull, seat_worker = JNull,
      seat_lane = lane\<rparr> (seats h)" "counter h' = counter h + 1" "token = seat_token (counter h + 1)"
    using assms(2) by (auto simp: take_seat_def Let_def)
  show new: "token \<notin> set (akeys (seats h))" using fresh_token [OF assms(1)] h' by simp
  have "\<exists>k \<le> counter h'. t = seat_token k" if "t \<in> set (akeys (seats h'))" for t
    using that assms(1) h' by (auto simp: house_inv_def intro: le_SucI)
  then show "house_inv h'" using assms(1) h' by (simp add: house_inv_def)
  show "house_size h' = house_size h + 1" "held_by h' l = held_by h l + of_bool (lane = JStr l)"
    "token \<in> set (akeys (seats h'))"
    using new h' by (simp_all add: house_size_count held_by_count count_if_new)
qed

lemma lost_seat_facts:
  assumes "house_inv h" "seats h' = adel token (seats h)" "counter h' = counter h"
  shows "house_inv h'"
    "house_size h' + of_bool (token \<in> set (akeys (seats h))) = house_size h"
    "wf_map t \<Longrightarrow> house_size h' + held_back h' t \<le> house_size h + held_back h t"
proof -
  show "house_inv h'" using assms by (auto simp: house_inv_def)
  have wf: "wf_map (seats h)" using assms(1) by (simp add: house_inv_def)
  show size: "house_size h' + of_bool (token \<in> set (akeys (seats h))) = house_size h"
  proof (cases "map_of (seats h) token")
    case None
    then have "token \<notin> set (akeys (seats h))" by (auto simp: set_akeys_dom)
    then show ?thesis using assms(2) by (simp add: house_size_count adel_absent)
  next
    case (Some s)
    then have "token \<in> set (akeys (seats h))" by (auto simp: set_akeys_dom)
    then show ?thesis using count_if_adel [OF wf Some, of "\<lambda>_. True"] assms(2)
      by (simp add: house_size_count)
  qed
  assume t: "wf_map t"
  show "house_size h' + held_back h' t \<le> house_size h + held_back h t"
  proof (cases "map_of (seats h) token")
    case None
    then have "seats h' = seats h" using assms(2) by (simp add: adel_absent set_akeys_dom domIff)
    then show ?thesis by (simp add: house_size_def held_back_def held_by_def)
  next
    case (Some s)
    have "held_by h' l = held_by h l - of_bool (seat_lane s = JStr l)" for l
      using count_if_adel [OF wf Some, of "\<lambda>s. seat_lane s = JStr l"] assms(2)
      by (auto simp: held_by_count)
    then have "shortfall (held_by h') t \<le> shortfall (held_by h) t + of_bool (\<exists>l \<in> set (akeys t). seat_lane s = JStr l)"
      by (intro shortfall_drop t) simp
    also have "\<dots> \<le> shortfall (held_by h) t + 1" by simp
    finally have "held_back h' t \<le> held_back h t + 1" by (simp add: held_back_shortfall)
    moreover have "token \<in> set (akeys (seats h))" using Some by (auto simp: set_akeys_dom)
    ultimately show ?thesis using size by simp
  qed
qed

lemma named_seat_facts:
  assumes "house_inv h"
  shows "house_inv (seat_name token task worker attempt lane h)"
    "house_size (seat_name token task worker attempt lane h) = house_size h"
    "l \<noteq> [] \<Longrightarrow> held_by h l \<le> held_by (seat_name token task worker attempt lane h) l"
proof -
  define h' where "h' = seat_name token task worker attempt lane h"
  have wf: "wf_map (seats h)" using assms by (simp add: house_inv_def)
  have "house_inv h' \<and> house_size h' = house_size h \<and> (l \<noteq> [] \<longrightarrow> held_by h l \<le> held_by h' l)"
  proof (cases "map_of (seats h) token")
    case None
    then show ?thesis using assms by (simp add: h'_def seat_name_def)
  next
    case (Some s)
    define s' where "s' = name_seat task worker attempt lane s"
    have seats: "seats h' = aset token s' (seats h)" "counter h' = counter h"
      using Some by (simp_all add: h'_def seat_name_def s'_def Let_def)
    have old: "token \<in> set (akeys (seats h))" using Some by (auto simp: set_akeys_dom)
    have "house_inv h'" using assms seats old by (auto simp: house_inv_def)
    moreover have "house_size h' = house_size h"
      using seats old by (simp add: house_size_def length_aset_old)
    moreover have "l \<noteq> [] \<longrightarrow> (seat_lane s = JStr l \<longrightarrow> seat_lane s' = JStr l)"
      by (auto simp: s'_def name_seat_def Let_def)
    then have "l \<noteq> [] \<longrightarrow> held_by h l \<le> held_by h' l"
      using count_if_old [OF wf Some, of "\<lambda>s. seat_lane s = JStr l" s'] seats
      by (auto simp: held_by_count of_bool_def split: if_splits)
    ultimately show ?thesis by simp
  qed
  then show "house_inv (seat_name token task worker attempt lane h)"
    "house_size (seat_name token task worker attempt lane h) = house_size h"
    "l \<noteq> [] \<Longrightarrow> held_by h l \<le> held_by (seat_name token task worker attempt lane h) l"
    by (simp_all add: h'_def)
qed

lemma release_attempt_cases:
  assumes "house_inv h" "release_attempt attempt h = (freed, h')"
  obtains (kept) "\<not> freed" "h' = h" "\<not> named attempt \<or> (\<forall>(t, s) \<in> set (seats h). seat_attempt s \<noteq> attempt)"
  | (lost) token s where "freed" "map_of (seats h) token = Some s" "seat_attempt s = attempt" "named attempt"
      "h' = h\<lparr>seats := adel token (seats h)\<rparr>"
proof (cases "named attempt \<and> find (\<lambda>(_, s). seat_attempt s = attempt) (seats h) \<noteq> None")
  case True
  then obtain token s where f: "find (\<lambda>(_, s). seat_attempt s = attempt) (seats h) = Some (token, s)" by auto
  from f have in_set: "(token, s) \<in> set (seats h)" "seat_attempt s = attempt"
    by (force simp: find_Some_iff in_set_conv_nth)+
  moreover have "map_of (seats h) token = Some s"
    using in_set(1) assms(1) by (simp add: house_inv_def wf_map_def akeys_def)
  ultimately show ?thesis using that(2) True f assms(2) by (simp add: release_attempt_def)
next
  case False
  then have none: "\<not> named attempt \<or> find (\<lambda>(_, s). seat_attempt s = attempt) (seats h) = None" using False by blast
  then have "\<not> freed" "h' = h" using assms(2) by (auto simp: release_attempt_def split: if_splits)
  moreover have "\<not> named attempt \<or> (\<forall>(t, s) \<in> set (seats h). seat_attempt s \<noteq> attempt)"
    using none by (auto simp: find_None_iff)
  ultimately show ?thesis using that(1) by blast
qed

lemma lost_seat_steps:
  assumes "house_inv h"
  shows "house_inv (release token h)" "house_inv (snd (confirm_process_gone r attempt h))"
    "house_size (release token h) \<le> house_size h"
    "house_size (snd (confirm_process_gone r attempt h)) \<le> house_size h"
    "wf_map t \<Longrightarrow> house_size (release token h) + held_back (release token h) t \<le> house_size h + held_back h t"
    "wf_map t \<Longrightarrow> house_size (snd (confirm_process_gone r attempt h)) +
       held_back (snd (confirm_process_gone r attempt h)) t \<le> house_size h + held_back h t"
proof -
  define good where "good h' \<longleftrightarrow> house_inv h' \<and> house_size h' \<le> house_size h \<and>
      (wf_map t \<longrightarrow> house_size h' + held_back h' t \<le> house_size h + held_back h t)" for h'
  have self: "good h" using assms by (simp add: good_def)
  have less: "good h'" if "seats h' = adel k (seats h)" "counter h' = counter h" for h' k
  proof -
    have "house_size h' \<le> house_size h"
      using lost_seat_facts(2) [OF assms that] by (simp add: of_bool_def split: if_splits)
    then show ?thesis using lost_seat_facts(1,3) [OF assms that] by (simp add: good_def)
  qed
  have "good (release token h)"
    using self by (auto simp: release_def intro!: less)
  moreover have "good (snd (release_attempt attempt h))"
  proof (cases "release_attempt attempt h")
    case (Pair freed h')
    then show ?thesis by (cases rule: release_attempt_cases [OF assms Pair]) (auto intro: self less)
  qed
  then have "good (snd (confirm_process_gone r attempt h))"
    using self by (simp add: confirm_process_gone_def Let_def split: option.split)
  ultimately show "house_inv (release token h)" "house_inv (snd (confirm_process_gone r attempt h))"
    "house_size (release token h) \<le> house_size h"
    "house_size (snd (confirm_process_gone r attempt h)) \<le> house_size h"
    "wf_map t \<Longrightarrow> house_size (release token h) + held_back (release token h) t \<le> house_size h + held_back h t"
    "wf_map t \<Longrightarrow> house_size (snd (confirm_process_gone r attempt h)) +
       held_back (snd (confirm_process_gone r attempt h)) t \<le> house_size h + held_back h t"
    by (simp_all add: good_def)
qed

section \<open>What the tick's two questions answer\<close>

lemma floor_cap_int: "1 \<le> n \<Longrightarrow> floor_cap (Fin (of_int n)) = n"
  by (simp add: floor_cap_def)

lemma reserve_shared:
  "1 \<le> n \<Longrightarrow> reserve (Fin (of_int n)) (Some t) JUndef h =
     (if n \<le> house_size h + held_back h t then (None, h)
      else (Some (fst (take_seat JNull h)), snd (take_seat JNull h)))"
  using shortfall_nonneg [of "held_by h" t]
  by (simp add: reserve_def floor_cap_int Let_def named_def held_back_shortfall split_beta)

lemma reserve_own:
  assumes "1 \<le> n" "l \<noteq> []" "map_of t l = Some k" "1 \<le> k"
  shows "reserve (Fin (of_int n)) (Some t) (JStr l) h =
     (if n \<le> house_size h \<or> k \<le> held_by h l then (None, h)
      else (Some (fst (take_seat (JStr l) h)), snd (take_seat (JStr l) h)))"
  using assms by (auto simp: reserve_def floor_cap_int Let_def named_def split_beta)

lemma reserved_key:
  "l \<in> set (akeys (lane_reservations config (Some lanes))) \<Longrightarrow>
     l \<noteq> [] \<and> l \<in> set lanes \<and> (\<exists>k. map_of (lane_reservations config (Some lanes)) l = Some k \<and> 1 \<le> k)"
  using lane_reservations_ok [of config lanes] distinct_task_lanes(2)
  by (fastforce simp: reserve_ok_def set_akeys_dom dest: map_of_SomeD)

definition lane_open :: "int \<Rightarrow> (string \<times> int) list \<Rightarrow> in_flight \<Rightarrow> string \<Rightarrow> bool" where
  "lane_open n t h l \<longleftrightarrow> house_size h < n \<and> (\<exists>k. map_of t l = Some k \<and> held_by h l < k)"

lemma lane_seat_none:
  assumes "1 \<le> n" "t = lane_reservations config (Some ls)"
  shows "lane_seat n t lanes h = (None, h') \<longleftrightarrow> h' = h \<and> (\<forall>l \<in> set lanes. \<not> lane_open n t h l)"
proof (induction lanes)
  case (Cons l lanes)
  show ?case
  proof (cases "l \<in> set (akeys t)")
    case True
    then obtain k where k: "l \<noteq> []" "map_of t l = Some k" "1 \<le> k" using reserved_key assms(2) by blast
    show ?thesis using Cons.IH True k reserve_own [OF assms(1) k(1) k(2) k(3), of h]
      by (auto simp: lane_open_def split: if_splits)
  next
    case False
    then have "map_of t l = None" by (auto simp: set_akeys_dom)
    then show ?thesis using Cons.IH False by (simp add: lane_open_def)
  qed
qed auto

lemma lane_seat_some:
  assumes "1 \<le> n" "t = lane_reservations config (Some ls)"
  shows "lane_seat n t lanes h = (Some (token, l), h') \<Longrightarrow>
     l \<in> set lanes \<and> lane_open n t h l \<and> take_seat (JStr l) h = (token, h')"
proof (induction lanes)
  case (Cons m lanes)
  show ?case
  proof (cases "m \<in> set (akeys t)")
    case True
    then obtain k where k: "m \<noteq> []" "map_of t m = Some k" "1 \<le> k" using reserved_key assms(2) by blast
    show ?thesis using Cons True k reserve_own [OF assms(1) k(1) k(2) k(3), of h]
      by (auto simp: lane_open_def split: if_splits)
  next
    case False
    with Cons show ?thesis by simp
  qed
qed simp

lemma tick_seat_cases:
  assumes "tick_seat config lanes h = (answer, h')"
  obtains (idle) "answer = None" "h' = h" "seat_ceiling config < 1 \<or>
        seat_ceiling config \<le> house_size h + held_back h (lane_reservations config (Some lanes)) \<and>
        (\<forall>l \<in> set lanes. \<not> lane_open (seat_ceiling config) (lane_reservations config (Some lanes)) h l)"
  | (shared) token where "answer = Some (token, lanes)" "take_seat JNull h = (token, h')"
      "house_size h + held_back h (lane_reservations config (Some lanes)) < seat_ceiling config"
  | (own) token l where "answer = Some (token, [l])" "take_seat (JStr l) h = (token, h')" "l \<in> set lanes"
      "seat_ceiling config \<le> house_size h + held_back h (lane_reservations config (Some lanes))"
      "lane_open (seat_ceiling config) (lane_reservations config (Some lanes)) h l"
proof -
  define n where "n = seat_ceiling config"
  define t where "t = lane_reservations config (Some lanes)"
  show ?thesis
  proof (cases "n < 1")
    case True
    then show ?thesis using assms idle by (simp add: tick_seat_def n_def)
  next
    case False
    then have n: "1 \<le> n" by simp
    show ?thesis
    proof (cases "n \<le> house_size h + held_back h t")
      case small: False
      then show ?thesis using assms False shared [of "fst (take_seat JNull h)"] reserve_shared [OF n, of t h]
        by (auto simp: tick_seat_def Let_def n_def t_def)
    next
      case True
      have eq: "(answer, h') = (case lane_seat n t lanes h of
            (Some (token, lane), h'') \<Rightarrow> (Some (token, [lane]), h'') | (None, h'') \<Rightarrow> (None, h''))"
        using assms True False reserve_shared [OF n, of t h] by (simp add: tick_seat_def Let_def n_def t_def)
      obtain a h2 where ls: "lane_seat n t lanes h = (a, h2)" by (cases "lane_seat n t lanes h")
      show ?thesis
      proof (cases a)
        case None
        then have "h2 = h" "\<forall>l \<in> set lanes. \<not> lane_open n t h l"
          using ls lane_seat_none [OF n t_def] by auto
        then show ?thesis using idle True ls None eq by (simp add: n_def t_def)
      next
        case (Some b)
        obtain token l where b: "b = (token, l)" by (cases b)
        then have "l \<in> set lanes" "lane_open n t h l" "take_seat (JStr l) h = (token, h2)"
          using ls Some lane_seat_some [OF n t_def] by auto
        then show ?thesis using own True ls Some b eq by (simp add: n_def t_def)
      qed
    qed
  qed
qed

lemma take_shared_pool:
  assumes "house_inv h" "take_seat JNull h = (token, h')"
  shows "held_back h' t = held_back h t"
  unfolding held_back_shortfall by (rule shortfall_cong) (simp add: take_seat_facts(3) [OF assms])

lemma take_own_pool:
  assumes "house_inv h" "take_seat (JStr l) h = (token, h')" "wf_map t" "lane_open n t h l"
  shows "held_back h' t + 1 = held_back h t"
proof -
  obtain k where "map_of t l = Some k" "held_by h l < k" using assms(4) by (auto simp: lane_open_def)
  then show ?thesis unfolding held_back_shortfall
    by (rule shortfall_take [OF assms(3)]) (auto simp: take_seat_facts(3) [OF assms(1,2)])
qed

lemma create_in_flight_inv: "house_inv create_in_flight" "house_size create_in_flight = 0"
  "held_by create_in_flight l = 0"
  by (simp_all add: house_inv_def create_in_flight_def house_size_def held_by_def)

lemma tick_seat_cap: "cap_inv config h \<Longrightarrow> cap_inv config (snd (tick_seat config lanes h))"
proof -
  assume inv: "cap_inv config h"
  obtain answer h' where t: "tick_seat config lanes h = (answer, h')" by (cases "tick_seat config lanes h")
  have h: "house_inv h" using inv by (simp add: cap_inv_def)
  from t show ?thesis
  proof (cases rule: tick_seat_cases)
    case (shared token)
    then show ?thesis using t take_seat_facts(1,2) [OF h shared(2)] shortfall_nonneg
      by (simp add: cap_inv_def held_back_shortfall max_def) (smt (verit) shortfall_nonneg)
  next
    case (own token l)
    then show ?thesis using t take_seat_facts(1,2) [OF h own(2)]
      by (simp add: cap_inv_def lane_open_def le_max_iff_disj)
  qed (use inv t in simp)
qed

interpretation house: guarded_machine "seat_step config" create_in_flight "cap_inv config"
proof
  show "cap_inv config create_in_flight" by (simp add: cap_inv_def create_in_flight_inv)
  fix h op assume inv: "cap_inv config h"
  then have h: "house_inv h" by (simp add: cap_inv_def)
  show "cap_inv config (seat_step config op h)"
  proof (cases op)
    case (Take lanes)
    then show ?thesis using tick_seat_cap inv by simp
  next
    case (Name token task worker attempt lane)
    then show ?thesis using inv named_seat_facts(1,2) [OF h] by (simp add: cap_inv_def)
  next
    case (Release token)
    then show ?thesis using inv lost_seat_steps(1,3) [OF h, of token]
      by (auto simp: cap_inv_def)
  next
    case (Confirm r attempt)
    then show ?thesis using inv lost_seat_steps(2,4) [OF h, of "Some r" attempt]
      by (auto simp: cap_inv_def)
  qed
qed

lemma pool_reservations: "wf_map (lane_reservations config (Some lanes))"
  using lane_reservations_ok [of config lanes] by (simp add: reserve_ok_def)




section \<open>Properties\<close>

text \<open>C33: whatever ticks, namings, releases and confirmed deaths happen, in any order and with any
  working lanes, the running attempts are never more than the ceiling of the configuration.\<close>

theorem seats_never_exceed_ceiling:
  "house_size (fold (seat_step config) ops create_in_flight) \<le> max 0 (seat_ceiling config)"
  using house.inv_run [of config ops] by (simp add: cap_inv_def)




definition two_seats :: jsval where
  "two_seats = JObj [(''maxConcurrentAttempts'', JInt 2)]"


text \<open>A seat the tick took from the shared pool leaves every lane's reservation as it was and
  claims for all working lanes; a seat taken from a lane's reservation is a seat that lane still had
  free and narrows the claim to that one lane. Either way nobody held the seat before.\<close>

theorem reserved_seat_narrows_claim:
  assumes "house_inv h" "tick_seat config lanes h = (Some (token, ls), h')"
  shows "token \<notin> set (akeys (seats h)) \<and> house_size h' = house_size h + 1 \<and>
    (let t = lane_reservations config (Some lanes) in
       ls = lanes \<and> held_back h' t = held_back h t \<and> house_size h + held_back h t < seat_ceiling config \<or>
       (\<exists>l k. ls = [l] \<and> l \<in> set lanes \<and> map_of t l = Some k \<and> held_by h' l = held_by h l + 1 \<and>
          held_by h' l \<le> k \<and> held_back h' t + 1 = held_back h t))"
  using assms(2)
proof (cases rule: tick_seat_cases)
  case (shared token')
  then show ?thesis using take_seat_facts [OF assms(1) shared(2)] take_shared_pool [OF assms(1) shared(2)] by simp
next
  case (own token' l)
  then show ?thesis using take_seat_facts [OF assms(1) own(2)]
      take_own_pool [OF assms(1) own(2) pool_reservations own(5)] by (auto simp: lane_open_def Let_def)
qed simp

theorem reserved_seat_narrows_claim_witness:
  "\<exists>token ls h'. tick_seat two_seats [''paperwork''] create_in_flight = (Some (token, ls), h') \<and>
     token \<notin> set (akeys (seats create_in_flight))"
proof -
  have "tick_seat two_seats [''paperwork''] create_in_flight =
      (Some (''seat-1'', [''paperwork'']), snd (take_seat JNull create_in_flight))" by code_simp
  from reserved_seat_narrows_claim [OF create_in_flight_inv(1) this] this show ?thesis by blast
qed

text \<open>A seat is given back on a confirmed death only: no registry, or a registry whose answers do
  not prove the process gone, changes nothing; proof frees the one seat of exactly that attempt and
  leaves the list of busy workers alone.\<close>

theorem only_confirmed_death_frees:
  assumes "house_inv h" "confirm_process_gone r attempt h = (gone, h')"
  shows "(gone \<longleftrightarrow> (\<exists>registry. r = Some registry \<and> process_gone registry)) \<and> busy h' = busy h \<and>
    (if gone \<and> named attempt \<and> (\<exists>(t, s) \<in> set (seats h). seat_attempt s = attempt)
     then \<exists>t s. map_of (seats h) t = Some s \<and> seat_attempt s = attempt \<and> seats h' = adel t (seats h)
     else h' = h)"
proof -
  obtain freed h2 where ra: "release_attempt attempt h = (freed, h2)" by (cases "release_attempt attempt h")
  have eq: "(gone, h') = (case r of None \<Rightarrow> (False, h)
      | Some x \<Rightarrow> (process_gone x, if process_gone x \<and> named attempt then h2 else h))"
    using assms(2) ra by (cases r) (auto simp: confirm_process_gone_def Let_def)
  from assms(1) ra show ?thesis
  proof (cases rule: release_attempt_cases)
    case kept
    then show ?thesis using eq by (cases r) auto
  next
    case (lost token s)
    then show ?thesis using eq map_of_SomeD [OF lost(2)] by (cases r) (auto split: if_splits)
  qed
qed

definition one_run :: in_flight where
  "one_run = fold (seat_step two_seats)
     [Take [''prod''], Name ''seat-1'' (JStr ''t'') (JStr ''w'') (JStr ''a'') JNull] create_in_flight"

definition answers_dead :: registry where
  "answers_dead = \<lparr>ask_alive = Some (JBool False), ask_has = None, ask_stopped = None\<rparr>"

theorem only_confirmed_death_frees_witness:
  "process_gone answers_dead \<and> busy (snd (confirm_process_gone (Some answers_dead) (JStr ''a'') one_run)) = busy one_run \<and>
   seats (snd (confirm_process_gone (Some answers_dead) (JStr ''a'') one_run)) = []"
proof -
  have inv: "house_inv one_run" unfolding one_run_def using house.inv_run [of two_seats] unfolding cap_inv_def by blast
  have "busy (snd (confirm_process_gone (Some answers_dead) (JStr ''a'') one_run)) = busy one_run"
    using only_confirmed_death_frees [OF inv prod.collapse [symmetric]] by blast
  then show ?thesis by (intro conjI) (code_simp, assumption, code_simp)
qed

end
