(* ===== verification/Routing.thy ===== *)
theory Routing
  imports Roles Js_Num
begin

text \<open>
  Routing, \<open>daemon/src/policy/routing.mjs\<close>: which worker takes a task, or why nobody does, and when
  the paid channel is used. The clock's local hour, the window predicate and the money rule are
  arguments. What the code writes to the journal is returned as a list of notes; the human sentence
  \<open>reason\<close> is left out, its code \<open>reasonCode\<close> is kept.
\<close>

section \<open>Vocabulary\<close>

definition default_lane_routing :: jsval where
  "default_lane_routing = JObj
     [(''prod'', JObj [(''provider'', JStr ''claude'')]), (''research'', JObj [(''provider'', JStr ''codex'')]),
      (''paperwork'', JObj [(''provider'', JStr ''codex'')]), (''forge'', JObj [(''provider'', JStr ''claude'')])]"

definition default_active_hours :: jsval where
  "default_active_hours = JObj [(''start'', JInt 9), (''end'', JInt 22)]"

text \<open>The keys of \<open>DISPATCH_REASONS\<close> in \<open>daemon/src/front/journal.mjs\<close>.\<close>

definition dispatch_reasons :: "string list" where
  "dispatch_reasons =
     [''per_task_override'', ''per_worker_override'', ''lane_default'', ''api_fallback_requested'',
      ''api_fallback'', ''window_exhausted'', ''day_priority_protected'', ''worker_busy'',
      ''role_unavailable'', ''wait_for_window'', ''budget_stop'', ''api_cap_unset'', ''budget_declined'']"

definition within_active_hours :: "nat \<Rightarrow> jsval \<Rightarrow> bool" where
  "within_active_hours hour active_hours =
     (let ah = coalesce active_hours default_active_hours in
      num_le (to_num (jget ah ''start'')) (Fin (of_nat hour)) \<and>
      num_lt (Fin (of_nat hour)) (to_num (jget ah ''end'')))"

fun first_defined :: "jsval list \<Rightarrow> jsval" where
  "first_defined [] = JUndef"
| "first_defined (v # vs) = (if is_nullish v then first_defined vs else v)"

section \<open>The seams\<close>

datatype journal_note = Journal jsval jsval jsval jsmap | Unknown_reason jsval

text \<open>\<open>rd_budget\<close> is the money seam asked with the task and \<open>allClosed\<close>: absent, or its answer,
  \<open>None\<close> when it throws. \<open>rd_sink\<close> and \<open>rd_unknown\<close> say that a sink is a function.\<close>

record route_deps =
  rd_workers :: "jsval list"
  rd_window :: "jsval \<Rightarrow> bool"
  rd_hour :: nat
  rd_config :: jsval
  rd_budget :: "(jsval \<Rightarrow> bool \<Rightarrow> jsval option) option"
  rd_sink :: bool
  rd_unknown :: bool
  rd_busy :: "jsval list"

record route =
  r_worker :: jsval
  r_provider :: jsval
  r_model :: jsval
  r_effort :: jsval
  r_api :: bool
  r_code :: jsval

definition journal_decision :: "route_deps \<Rightarrow> jsval \<Rightarrow> jsval \<Rightarrow> jsmap \<Rightarrow> journal_note list" where
  "journal_decision d task code details =
     (if \<not> rd_sink d then []
      else if \<not> truthy task \<or> \<not> truthy (jget task ''id'') then []
      else if \<not> List.member dispatch_reasons (to_str code)
           then (if rd_unknown d then [Unknown_reason code] else [])
      else [Journal (jget task ''id'') (jget task ''attempt'') code details])"

definition ask_budget :: "route_deps \<Rightarrow> jsval \<Rightarrow> bool \<Rightarrow> jsval option" where
  "ask_budget d task all_closed =
     (case rd_budget d of
        None \<Rightarrow> None
      | Some seam \<Rightarrow>
          (case seam task all_closed of
             None \<Rightarrow> None
           | Some v \<Rightarrow> if is_object v \<and> is_bool (jget v ''fallback'') then Some v else None))"

section \<open>The decision\<close>

definition lane_default :: "route_deps \<Rightarrow> jsval \<Rightarrow> jsval" where
  "lane_default d task =
     (let routing = coalesce (jget (coalesce (rd_config d) (JObj [])) ''laneRouting'') default_lane_routing
      in coalesce (jget routing (to_str (jget task ''lane''))) (JObj []))"

definition target_provider :: "route_deps \<Rightarrow> jsval \<Rightarrow> jsval" where
  "target_provider d task =
     coalesce (first_defined [jget task ''provider'', jget (lane_default d task) ''provider'']) JNull"

definition or_null :: "jsval list \<Rightarrow> jsval" where
  "or_null vs = coalesce (first_defined vs) JNull"

definition api_route :: "route_deps \<Rightarrow> jsval \<Rightarrow> string \<Rightarrow> route" where
  "api_route d task code =
     \<lparr>r_worker = JNull, r_provider = JStr ''api'',
      r_model = or_null [jget task ''model'', jget (lane_default d task) ''model''],
      r_effort = or_null [jget task ''effort'', jget (lane_default d task) ''effort''],
      r_api = True, r_code = JStr code\<rparr>"

definition no_route :: "jsval \<Rightarrow> jsval \<Rightarrow> route" where
  "no_route provider code =
     \<lparr>r_worker = JNull, r_provider = provider, r_model = JNull, r_effort = JNull, r_api = False, r_code = code\<rparr>"

text \<open>The branch of a task that names the paid channel itself.\<close>

definition api_requested :: "route_deps \<Rightarrow> jsval \<Rightarrow> route \<times> journal_note list" where
  "api_requested d task =
     (let details = [(''lane'', jget task ''lane''), (''provider'', JStr ''api'')];
          go = (api_route d task ''api_fallback_requested'',
                journal_decision d task (JStr ''api_fallback_requested'') details)
      in case ask_budget d task True of
           None \<Rightarrow> go
         | Some verdict \<Rightarrow>
             if jget verdict ''fallback'' = JBool False
             then (no_route JNull (jget verdict ''reason''),
                   journal_decision d task (jget verdict ''reason'') details)
             else go)"

definition role_holders :: "route_deps \<Rightarrow> jsval \<Rightarrow> jsval list" where
  "role_holders d task =
     filter (\<lambda>w. \<not> is_orchestrator w \<and> holds_role w (JStr (role_wanted task))) (rd_workers d)"

definition role_held :: "route_deps \<Rightarrow> jsval \<Rightarrow> bool" where
  "role_held d task \<longleftrightarrow> rd_workers d = [] \<or>
     (if role_is_named task
      then list_ex (\<lambda>w. truthy w \<and> jget w ''enabled'' \<noteq> JBool False) (role_holders d task)
      else role_holders d task \<noteq> [])"

text \<open>What the filter of the candidates says of one worker, its two side remarks included.\<close>

datatype seat_word = Passed | Day_priority | Busy | Eligible

definition consider_worker :: "route_deps \<Rightarrow> jsval \<Rightarrow> jsval \<Rightarrow> seat_word" where
  "consider_worker d task w =
     (if is_orchestrator w then Passed
      else if \<not> holds_role w (JStr (role_wanted task)) then Passed
      else if \<not> truthy w \<or> jget w ''enabled'' = JBool False then Passed
      else if truthy (target_provider d task) \<and> jget w ''provider'' \<noteq> target_provider d task then Passed
      else if within_active_hours (rd_hour d)
                (coalesce (jget (coalesce (rd_config d) (JObj [])) ''activeHours'') default_active_hours) \<and>
              (jget w ''dayPriorityOwner'' = JBool True \<or>
               jget (jget w ''account'') ''dayPriorityOwner'' = JBool True)
      then (if rd_window d w then Day_priority else Passed)
      else if \<not> rd_window d w then Passed
      else if List.member (rd_busy d) (jget w ''id'') then Busy
      else Eligible)"

text \<open>No candidate: the paid channel when the money rule says so, otherwise the reason of waiting.\<close>

definition no_candidate :: "route_deps \<Rightarrow> jsval \<Rightarrow> route \<times> journal_note list" where
  "no_candidate d task =
     (let words = map (consider_worker d task) (rd_workers d);
          held_by_day = List.member words Day_priority;
          held_by_busy = List.member words Busy;
          verdict = (if \<not> held_by_day \<and> \<not> held_by_busy then ask_budget d task True else None);
          answered = (\<lambda>b. case verdict of None \<Rightarrow> False | Some v \<Rightarrow> jget v ''fallback'' = JBool b)
      in if answered True
         then (api_route d task ''api_fallback'',
               journal_decision d task (JStr ''api_fallback'')
                 [(''lane'', jget task ''lane''), (''provider'', JStr ''api'')])
         else let reason = (case verdict of None \<Rightarrow> JUndef | Some v \<Rightarrow> jget v ''reason'');
                  refusal = (if answered False \<and> is_str reason \<and> reason \<noteq> JStr [] then Some reason else None);
                  code = (if held_by_day then JStr ''day_priority_protected''
                          else if held_by_busy then JStr ''worker_busy''
                          else case refusal of Some r \<Rightarrow> r | None \<Rightarrow> JStr ''window_exhausted'')
              in (no_route (target_provider d task) code,
                  journal_decision d task code
                    [(''lane'', jget task ''lane''), (''provider'', coalesce (target_provider d task) JUndef)]))"

definition chosen_code :: "route_deps \<Rightarrow> jsval \<Rightarrow> jsval \<Rightarrow> string" where
  "chosen_code d task chosen =
     (if jget task ''provider'' \<noteq> JUndef \<or> jget task ''model'' \<noteq> JUndef \<or> jget task ''effort'' \<noteq> JUndef
      then ''per_task_override''
      else if jget chosen ''model'' \<noteq> JUndef \<or> jget chosen ''effort'' \<noteq> JUndef \<or>
              jget chosen ''provider'' \<noteq> jget (lane_default d task) ''provider''
      then ''per_worker_override''
      else ''lane_default'')"

definition chosen_route :: "route_deps \<Rightarrow> jsval \<Rightarrow> jsval \<Rightarrow> route \<times> journal_note list" where
  "chosen_route d task chosen =
     (let pick = (\<lambda>k. or_null [jget task k, jget chosen k, jget (lane_default d task) k]);
          code = JStr (chosen_code d task chosen)
      in (\<lparr>r_worker = jget chosen ''id'', r_provider = pick ''provider'', r_model = pick ''model'',
           r_effort = pick ''effort'', r_api = False, r_code = code\<rparr>,
          journal_decision d task code
            [(''lane'', jget task ''lane''), (''workerId'', jget chosen ''id''),
             (''role'', JStr (role_of chosen)), (''provider'', coalesce (pick ''provider'') JUndef)]))"

definition resolve_route :: "route_deps \<Rightarrow> jsval \<Rightarrow> route \<times> journal_note list" where
  "resolve_route d task =
     (if jget task ''provider'' = JStr ''api'' then api_requested d task
      else if \<not> role_held d task
      then (no_route (target_provider d task) (JStr ''role_unavailable''),
            journal_decision d task (JStr ''role_unavailable'')
              [(''lane'', jget task ''lane''), (''role'', JStr (role_wanted task))])
      else case filter (\<lambda>w. consider_worker d task w = Eligible) (rd_workers d) of
             [] \<Rightarrow> no_candidate d task
           | chosen # _ \<Rightarrow> chosen_route d task chosen)"

section \<open>Facts\<close>

lemma eligible_holds_role:
  assumes "w \<in> set (rd_workers d)" "consider_worker d task w = Eligible"
  shows "role_held d task"
proof -
  have "\<not> is_orchestrator w" "holds_role w (JStr (role_wanted task))" "truthy w" "jget w ''enabled'' \<noteq> JBool False"
    using assms(2) by (auto simp: consider_worker_def split: if_splits)
  then show ?thesis using assms(1)
    by (auto simp: role_held_def role_holders_def list_ex_iff filter_empty_conv)
qed

lemma find_filter_hd: "find P xs = (case filter P xs of [] \<Rightarrow> None | x # _ \<Rightarrow> Some x)"
  by (induction xs) auto

lemma no_candidate_route:
  "\<exists>details. snd (no_candidate d task) = journal_decision d task (r_code (fst (no_candidate d task))) details"
  "r_worker (fst (no_candidate d task)) = JNull"
  by (auto simp: no_candidate_def api_route_def no_route_def Let_def split: option.splits)

lemma member_image: "c \<in> set (map f xs) \<longleftrightarrow> (\<exists>x \<in> set xs. f x = c)"
  by auto

lemma no_candidate_api:
  "r_api (fst (no_candidate d task)) \<longleftrightarrow>
     (\<forall>w \<in> set (rd_workers d). consider_worker d task w \<noteq> Day_priority \<and> consider_worker d task w \<noteq> Busy) \<and>
     (\<exists>v. ask_budget d task True = Some v \<and> jget v ''fallback'' = JBool True)"
  by (cases "ask_budget d task True")
    (auto simp: no_candidate_def api_route_def no_route_def Let_def member_image simp del: set_map)

lemma api_requested_route:
  "\<exists>details. snd (api_requested d task) = journal_decision d task (r_code (fst (api_requested d task))) details"
  "r_worker (fst (api_requested d task)) = JNull"
  "r_api (fst (api_requested d task)) \<longleftrightarrow>
     (\<forall>v. ask_budget d task True = Some v \<longrightarrow> jget v ''fallback'' \<noteq> JBool False)"
  by (auto simp: api_requested_def api_route_def no_route_def Let_def split: option.splits)

lemma chosen_route_facts:
  "\<exists>details. snd (chosen_route d task w) = journal_decision d task (r_code (fst (chosen_route d task w))) details"
  "r_worker (fst (chosen_route d task w)) = jget w ''id''" "\<not> r_api (fst (chosen_route d task w))"
  by (auto simp: chosen_route_def Let_def)

section \<open>Properties\<close>

text \<open>A task that does not name the paid channel goes to the first worker of the list whom every
  gate of the code lets through, and to nobody when there is none; the check that some worker holds
  the wanted role never turns an eligible worker away. \<open>consider_worker\<close> is \<open>Eligible\<close> for a worker
  who is no orchestrator, holds the role, is switched on, serves the wanted provider, is not
  protected by the founder's hours, has an open window and runs nothing.\<close>

theorem first_eligible_worker_takes:
  assumes "jget task ''provider'' \<noteq> JStr ''api''"
  shows "(case find (\<lambda>w. consider_worker d task w = Eligible) (rd_workers d) of
      Some w \<Rightarrow> fst (resolve_route d task) = fst (chosen_route d task w) \<and>
        r_worker (fst (resolve_route d task)) = jget w ''id'' \<and>
        \<not> is_orchestrator w \<and> holds_role w (JStr (role_wanted task)) \<and> jget w ''enabled'' \<noteq> JBool False \<and>
        rd_window d w \<and> jget w ''id'' \<notin> set (rd_busy d)
    | None \<Rightarrow> r_worker (fst (resolve_route d task)) = JNull)"
proof (cases "find (\<lambda>w. consider_worker d task w = Eligible) (rd_workers d)")
  case None
  then have "filter (\<lambda>w. consider_worker d task w = Eligible) (rd_workers d) = []"
    by (simp add: find_None_iff filter_empty_conv)
  then show ?thesis using assms None no_candidate_route(2) by (simp add: resolve_route_def no_route_def)
next
  case (Some w)
  then obtain ws where ws: "filter (\<lambda>w. consider_worker d task w = Eligible) (rd_workers d) = w # ws"
    by (auto simp: find_filter_hd split: list.splits)
  then have "w \<in> set (rd_workers d)" "consider_worker d task w = Eligible"
    by (auto dest!: arg_cong [where f = set])
  then have "role_held d task" "\<not> is_orchestrator w \<and> holds_role w (JStr (role_wanted task)) \<and>
      jget w ''enabled'' \<noteq> JBool False \<and> rd_window d w \<and> jget w ''id'' \<notin> set (rd_busy d)"
    by (auto intro: eligible_holds_role) (auto simp: consider_worker_def split: if_splits)
  with Some ws assms show ?thesis by (simp add: resolve_route_def chosen_route_facts)
qed

definition two_workers :: route_deps where
  "two_workers = \<lparr>rd_workers =
      [JObj [(''id'', JStr ''a''), (''provider'', JStr ''claude''), (''dayPriorityOwner'', JBool True)],
       JObj [(''id'', JStr ''b''), (''provider'', JStr ''claude'')]],
     rd_window = (\<lambda>_. True), rd_hour = 10, rd_config = JUndef, rd_budget = None, rd_sink = True,
     rd_unknown = False, rd_busy = []\<rparr>"

definition prod_task :: jsval where
  "prod_task = JObj [(''id'', JStr ''t''), (''lane'', JStr ''prod'')]"

theorem first_eligible_worker_takes_witness:
  "jget prod_task ''provider'' \<noteq> JStr ''api'' \<and> r_worker (fst (resolve_route two_workers prod_task)) = JStr ''b''"
proof -
  have free: "jget prod_task ''provider'' \<noteq> JStr ''api''" by code_simp
  have f: "find (\<lambda>w. consider_worker two_workers prod_task w = Eligible) (rd_workers two_workers) =
      Some (JObj [(''id'', JStr ''b''), (''provider'', JStr ''claude'')])" by code_simp
  have "r_worker (fst (resolve_route two_workers prod_task)) =
      jget (JObj [(''id'', JStr ''b''), (''provider'', JStr ''claude'')]) ''id''"
    using first_eligible_worker_takes [OF free, of two_workers] unfolding f option.case by blast
  also have "\<dots> = JStr ''b''" by code_simp
  finally show ?thesis using free by simp
qed

text \<open>Money is the last resort. The paid channel is used in two cases only: the task itself asked
  for it and the money rule did not refuse; or some worker could hold the role, no worker is eligible,
  none was passed over merely because the founder's hours protect it or because it is busy, and the
  money rule said yes.\<close>

theorem paid_channel_is_last:
  "r_api (fst (resolve_route d task)) \<longleftrightarrow>
     (if jget task ''provider'' = JStr ''api''
      then (case ask_budget d task True of None \<Rightarrow> True | Some v \<Rightarrow> jget v ''fallback'' \<noteq> JBool False)
      else role_held d task \<and>
        list_all (\<lambda>w. consider_worker d task w = Passed) (rd_workers d) \<and>
        (case ask_budget d task True of None \<Rightarrow> False | Some v \<Rightarrow> jget v ''fallback'' = JBool True))"
proof (cases "jget task ''provider'' = JStr ''api''")
  case True
  then show ?thesis by (simp add: resolve_route_def api_requested_route split: option.split)
next
  case False
  show ?thesis
  proof (cases "filter (\<lambda>w. consider_worker d task w = Eligible) (rd_workers d)")
    case Nil
    then have "\<forall>w \<in> set (rd_workers d). consider_worker d task w \<noteq> Eligible" by (simp add: filter_empty_conv)
    then have "(\<forall>w \<in> set (rd_workers d). consider_worker d task w \<noteq> Day_priority \<and> consider_worker d task w \<noteq> Busy)
        \<longleftrightarrow> list_all (\<lambda>w. consider_worker d task w = Passed) (rd_workers d)"
      by (auto simp: list_all_iff) (metis seat_word.exhaust)
    then show ?thesis using False Nil
      by (auto simp: resolve_route_def no_candidate_api no_route_def split: option.split)
  next
    case (Cons w ws)
    then have "w \<in> set (rd_workers d)" "consider_worker d task w = Eligible"
      by (auto dest!: arg_cong [where f = set])
    then have "\<not> list_all (\<lambda>w. consider_worker d task w = Passed) (rd_workers d)"
      by (auto simp: list_all_iff intro!: bexI [of _ w])
    then show ?thesis using False Cons
      by (auto simp: resolve_route_def chosen_route_facts no_route_def)
  qed
qed

text \<open>Every decision leaves at most one note, about this task, and its code is the \<open>reasonCode\<close>
  the caller gets; with a sink, a task that has an id and a code of the vocabulary there is exactly
  one note.\<close>

theorem one_note_per_decision:
  "let (r, notes) = resolve_route d task in
     if rd_sink d \<and> truthy task \<and> truthy (jget task ''id'') \<and> to_str (r_code r) \<in> set dispatch_reasons
     then \<exists>details. notes = [Journal (jget task ''id'') (jget task ''attempt'') (r_code r) details]
     else notes = [] \<or> notes = [Unknown_reason (r_code r)]"
proof -
  have "\<exists>details. snd (resolve_route d task) = journal_decision d task (r_code (fst (resolve_route d task))) details"
    by (auto simp: resolve_route_def api_requested_route no_candidate_route chosen_route_facts no_route_def
        split: list.splits)
  then show ?thesis by (auto simp: journal_decision_def Let_def split_beta)
qed

end
