(* ===== verification/Money.thy ===== *)
theory Money
  imports Js_Num
begin

text \<open>
  The money of the paid channel: the account names and the month's spending of
  \<open>daemon/src/policy/spend.mjs\<close>, the cap \<open>apiCapUsd\<close> of \<open>daemon/src/config.mjs\<close>, the rule
  \<open>shouldApiFallback\<close> of \<open>daemon/src/policy/budget.mjs\<close> and the seam \<open>daemon/src/main.mjs\<close> binds it
  with. The usage reader and the start of the local month are arguments.
\<close>

section \<open>Whose spending counts\<close>

definition account_name_of :: "jsval \<Rightarrow> jsval \<Rightarrow> jsval" where
  "account_name_of account fallback =
     (if is_str account then account else js_or (and_get account ''name'') fallback)"

text \<open>The loop that drops absent names and repetitions; \<open>seen\<close> is its set.\<close>

fun fresh_names :: "jsval list \<Rightarrow> jsval list \<Rightarrow> jsval list" where
  "fresh_names seen [] = []"
| "fresh_names seen (name # names) =
     (if is_nullish name \<or> List.member seen name then fresh_names seen names
      else name # fresh_names (name # seen) names)"

text \<open>A worker row that is null or undefined throws (\<open>w.account\<close>): \<open>None\<close>.\<close>

definition spend_account_names :: "jsval \<Rightarrow> jsval list option" where
  "spend_account_names config =
     (let workers = elems (jget config ''workers'');
          api = js_or (and_get (jget config ''budget'') ''apiAccountName'') (JStr ''api'')
      in if list_ex is_nullish workers then None
         else Some (fresh_names []
           (map (\<lambda>w. account_name_of (jget w ''account'') (jget w ''id'')) workers @
            (if truthy api then [api] else []))))"

section \<open>The month's spending\<close>

text \<open>A usage reader answers for an account and a window, or throws (\<open>None\<close>).\<close>

type_synonym usage_reader = "jsval \<Rightarrow> jsnum \<Rightarrow> jsval option"

fun spend_loop :: "usage_reader \<Rightarrow> jsnum \<Rightarrow> jsval list \<Rightarrow> jsnum \<Rightarrow> jsval list \<Rightarrow> jsnum" where
  "spend_loop reader window seen acc [] = acc"
| "spend_loop reader window seen acc (name # names) =
     (if is_nullish name \<or> List.member seen name then spend_loop reader window seen acc names
      else spend_loop reader window (name # seen)
             (case reader name window of
                Some u \<Rightarrow> num_add acc (or_zero (to_num (and_get u ''apiCostUsd'')))
              | None \<Rightarrow> acc) names)"

definition api_spend_usd :: "usage_reader option \<Rightarrow> jsval \<Rightarrow> jsnum \<Rightarrow> jsnum" where
  "api_spend_usd reader account_names window =
     (case reader of None \<Rightarrow> Fin 0
      | Some r \<Rightarrow> spend_loop r window [] (Fin 0) (elems account_names))"

definition month_to_date_api_spend_usd ::
    "(jsnum \<Rightarrow> jsnum) \<Rightarrow> usage_reader option \<Rightarrow> jsval \<Rightarrow> jsnum \<Rightarrow> jsnum" where
  "month_to_date_api_spend_usd start_of_month reader account_names now =
     api_spend_usd reader account_names (num_max (Fin 0) (num_sub now (start_of_month now)))"

definition round2_usd :: "jsnum \<Rightarrow> jsnum" where
  "round2_usd n = num_div (num_round (num_mul (or_zero n) (Fin 100))) (Fin 100)"

section \<open>The rule\<close>

definition api_cap_usd :: "jsval \<Rightarrow> jsnum" where
  "api_cap_usd budget =
     (let b = (if is_object budget then budget else JObj []);
          raw = (if jget b ''monthlyApiCapUsd'' \<noteq> JUndef then jget b ''monthlyApiCapUsd''
                 else jget b ''monthlyApiCapEur'')
      in or_zero (to_num raw))"

definition all_closed_signal :: "jsval \<Rightarrow> bool" where
  "all_closed_signal windows =
     (case windows of JBool b \<Rightarrow> b | _ \<Rightarrow> truthy (and_get windows ''allClosed''))"

definition default_at :: "jsval list \<Rightarrow> nat \<Rightarrow> jsval \<Rightarrow> jsval" where
  "default_at vs i v = (if i < length vs \<and> vs ! i \<noteq> JUndef then vs ! i else v)"

definition task_ceiling :: "jsval \<Rightarrow> jsval \<Rightarrow> jsnum" where
  "task_ceiling task budget =
     or_zero (to_num (coalesce (coalesce (jget task ''apiCostCeilingUsd'') (jget budget ''perTaskCeilingUsd'')) (JInt 0)))"

definition spend_names :: "jsval \<Rightarrow> jsval \<Rightarrow> jsval" where
  "spend_names budget account_names =
     (if is_arr account_names \<and> elems account_names \<noteq> [] then account_names
      else JArr [coalesce (jget budget ''apiAccountName'') (JStr ''api'')])"

definition warning :: "jsval \<Rightarrow> jsnum \<Rightarrow> jsnum \<Rightarrow> jsval" where
  "warning budget spent cap =
     (let pcts = elems (jget budget ''warnPct'');
          low = default_at pcts 0 (JInt 70); high = default_at pcts 1 (JInt 90);
          pct = num_div (num_mul (Fin 100) spent) cap
      in if num_le (to_num high) pct then high else if num_le (to_num low) pct then low else JUndef)"

definition money_verdict :: "bool \<Rightarrow> string \<Rightarrow> jsmap \<Rightarrow> jsval" where
  "money_verdict fallback reason rest =
     JObj ([(''fallback'', JBool fallback), (''reason'', JStr reason)] @ rest)"

definition should_api_fallback ::
    "(jsnum \<Rightarrow> jsnum) \<Rightarrow> usage_reader option \<Rightarrow> jsval \<Rightarrow> jsval \<Rightarrow> jsval \<Rightarrow> jsval \<Rightarrow> jsnum \<Rightarrow> jsval" where
  "should_api_fallback start_of_month reader task windows budget account_names now =
     (let cap = api_cap_usd budget; limit = task_ceiling task budget in
      if \<not> num_lt (Fin 0) cap then money_verdict False ''api_cap_unset'' []
      else if \<not> all_closed_signal windows then money_verdict False ''wait_for_window'' []
      else let spent = round2_usd (month_to_date_api_spend_usd start_of_month reader
                          (spend_names budget account_names) now);
               warn = warning budget spent cap;
               rest = (if warn \<noteq> JUndef then [(''warn'', warn)] else []) @ [(''spentUsd'', JNum spent)]
           in if num_le cap spent then money_verdict False ''budget_stop'' rest
              else if num_lt cap (num_add spent limit) then money_verdict False ''budget_stop'' rest
              else money_verdict True ''api_fallback'' rest)"

text \<open>The seam as \<open>main.mjs\<close> binds it: \<open>None\<close> when computing the names throws.\<close>

definition money_seam ::
    "(jsnum \<Rightarrow> jsnum) \<Rightarrow> usage_reader option \<Rightarrow> jsval \<Rightarrow> jsnum \<Rightarrow> jsval \<Rightarrow> bool \<Rightarrow> jsval option" where
  "money_seam start_of_month reader config now task all_closed =
     map_option
       (\<lambda>names. should_api_fallback start_of_month reader task (JBool all_closed)
          (coalesce (jget config ''budget'') (JObj [])) (JArr names) now)
       (spend_account_names config)"

section \<open>Facts\<close>

lemma fresh_names_facts:
  "distinct (fresh_names seen names) \<and>
   set (fresh_names seen names) = {n \<in> set names. \<not> is_nullish n \<and> n \<notin> set seen}"
  by (induction seen names rule: fresh_names.induct) auto

text \<open>What one account costs: zero when its reader throws.\<close>

definition account_cost :: "usage_reader \<Rightarrow> jsnum \<Rightarrow> jsval \<Rightarrow> jsnum" where
  "account_cost reader window name =
     (case reader name window of
        Some u \<Rightarrow> or_zero (to_num (and_get u ''apiCostUsd'')) | None \<Rightarrow> Fin 0)"

fun fin_of :: "jsnum \<Rightarrow> rat" where
  "fin_of (Fin q) = q" | "fin_of _ = 0"

lemma fin_of_finite: "is_finite_num n \<Longrightarrow> Fin (fin_of n) = n"
  by (cases n) auto

lemma num_add_zero [simp]: "num_add n (Fin 0) = n"
  by (cases n) auto

lemma spend_loop_step:
  "(case reader name window of
      Some u \<Rightarrow> num_add acc (or_zero (to_num (and_get u ''apiCostUsd''))) | None \<Rightarrow> acc) =
   num_add acc (account_cost reader window name)"
  by (simp add: account_cost_def split: option.split)

lemma spend_loop_sum:
  assumes "list_all (\<lambda>n. is_finite_num (account_cost reader window n)) names"
  shows "spend_loop reader window seen (Fin q) names =
     Fin (q + (\<Sum>n \<in> {n \<in> set names. \<not> is_nullish n \<and> n \<notin> set seen}. fin_of (account_cost reader window n)))"
  using assms
proof (induction names arbitrary: seen q)
  case (Cons name names)
  show ?case
  proof (cases "is_nullish name \<or> name \<in> set seen")
    case True
    then have "{n \<in> set (name # names). \<not> is_nullish n \<and> n \<notin> set seen} =
        {n \<in> set names. \<not> is_nullish n \<and> n \<notin> set seen}" by auto
    then show ?thesis using Cons True by simp
  next
    case False
    then have set_eq: "{n \<in> set (name # names). \<not> is_nullish n \<and> n \<notin> set seen} =
        insert name {n \<in> set names. \<not> is_nullish n \<and> n \<notin> set (name # seen)}" by auto
    have "account_cost reader window name = Fin (fin_of (account_cost reader window name))"
      using Cons.prems by (simp add: fin_of_finite)
    then have "spend_loop reader window seen (Fin q) (name # names) =
        spend_loop reader window (name # seen) (Fin (q + fin_of (account_cost reader window name))) names"
      using False by (simp only: spend_loop.simps spend_loop_step) (metis List.member_iff num_add.simps(1))
    then show ?thesis unfolding set_eq using Cons by simp
  qed
qed simp

lemma round2_not_NaN: "round2_usd n \<noteq> NaN"
  by (cases "or_zero n") (auto simp: round2_usd_def or_zero_def signed_inf_def split: if_splits)

lemma api_cap_not_NaN: "api_cap_usd budget \<noteq> NaN"
  by (simp add: api_cap_usd_def Let_def)

lemma money_verdict_get:
  "jget (money_verdict b r rest) ''fallback'' = JBool b" "jget (money_verdict b r rest) ''reason'' = JStr r"
  by (simp_all add: money_verdict_def own_get_def)

lemma money_verdict_object: "is_object (money_verdict b r rest)"
  by (simp add: money_verdict_def is_object_def)

lemma money_says:
  "is_object (should_api_fallback start reader task windows budget names now)"
  "jget (should_api_fallback start reader task windows budget names now) ''fallback'' =
     JBool (num_lt (Fin 0) (api_cap_usd budget) \<and> all_closed_signal windows \<and>
       num_lt (round2_usd (month_to_date_api_spend_usd start reader (spend_names budget names) now)) (api_cap_usd budget) \<and>
       \<not> num_lt (api_cap_usd budget)
           (num_add (round2_usd (month_to_date_api_spend_usd start reader (spend_names budget names) now)) (task_ceiling task budget)))"
  by (auto simp: should_api_fallback_def Let_def money_verdict_get money_verdict_object
      num_not_le [OF api_cap_not_NaN round2_not_NaN, symmetric])

section \<open>Properties\<close>

text \<open>The month's spending counts every account once. Whatever repetitions and gaps the list of
  names has, and in whatever order, the sum is the sum of what each account named in it costs, when
  every answer is finite; an account whose reader throws counts zero.\<close>

theorem each_account_counted_once:
  assumes "list_all (\<lambda>n. is_finite_num (account_cost reader window n)) names"
  shows "api_spend_usd (Some reader) (JArr names) window =
     Fin (\<Sum>n \<in> {n \<in> set names. \<not> is_nullish n}. fin_of (account_cost reader window n))"
  using spend_loop_sum [OF assms, of "[]" 0] by (simp add: api_spend_usd_def)

definition sample_reader :: usage_reader where
  "sample_reader name window =
     (if name = JStr ''api'' then Some (JObj [(''apiCostUsd'', JInt 7)])
      else if name = JStr ''a'' then Some (JObj [(''apiCostUsd'', JInt 2)]) else None)"

theorem each_account_counted_once_witness:
  "api_spend_usd (Some sample_reader) (JArr [JStr ''a'', JNull, JStr ''api'', JStr ''a'']) (Fin 0) = Fin 9"
proof -
  let ?names = "[JStr ''a'', JNull, JStr ''api'', JStr ''a'']"
  have "list_all (\<lambda>n. is_finite_num (account_cost sample_reader (Fin 0) n)) ?names" by code_simp
  moreover have "{n \<in> set ?names. \<not> is_nullish n} = {JStr ''a'', JStr ''api''}" by (auto simp: is_nullish_def)
  moreover have "fin_of (account_cost sample_reader (Fin 0) (JStr ''a'')) = 2"
    "fin_of (account_cost sample_reader (Fin 0) (JStr ''api'')) = 7" by code_simp+
  ultimately show ?thesis using each_account_counted_once [of sample_reader "Fin 0" ?names] by simp
qed

text \<open>The money rule says yes exactly when the paid channel has a cap above zero, every window is
  closed, the month's spending as it is printed is below the cap and stays within the cap when the
  ceiling of this task is added; every other answer is a no that names its reason.\<close>

theorem money_rule_decides:
  "let cap = api_cap_usd budget;
       spent = round2_usd (month_to_date_api_spend_usd start reader (spend_names budget names) now);
       v = should_api_fallback start reader task windows budget names now
   in (jget v ''fallback'' = JBool True \<longleftrightarrow>
         num_lt (Fin 0) cap \<and> all_closed_signal windows \<and> num_lt spent cap \<and>
         \<not> num_lt cap (num_add spent (task_ceiling task budget))) \<and>
      jget v ''reason'' =
        JStr (if \<not> num_lt (Fin 0) cap then ''api_cap_unset''
              else if \<not> all_closed_signal windows then ''wait_for_window''
              else if jget v ''fallback'' = JBool True then ''api_fallback'' else ''budget_stop'')"
  using num_not_le [OF api_cap_not_NaN round2_not_NaN]
  by (auto simp: should_api_fallback_def Let_def money_verdict_get)

text \<open>The names the rule sums over are the accounts of all workers and the paid channel's own,
  each once; the seam answers for every configuration whose worker rows are not null.\<close>

theorem spend_names_complete:
  "case spend_account_names config of
     None \<Rightarrow> list_ex is_nullish (elems (jget config ''workers''))
   | Some names \<Rightarrow> distinct names \<and>
       set names = {n. \<not> is_nullish n \<and>
         (n \<in> (\<lambda>w. account_name_of (jget w ''account'') (jget w ''id'')) ` set (elems (jget config ''workers'')) \<or>
          n = js_or (and_get (jget config ''budget'') ''apiAccountName'') (JStr ''api''))}"
proof -
  have "truthy (js_or a (JStr ''api''))" for a by (simp add: js_or_def)
  then show ?thesis
    by (auto simp: spend_account_names_def Let_def fresh_names_facts split: option.split)
qed

end
