(* ===== verification/Windows.thy ===== *)
theory Windows
  imports Js_Num
begin

text \<open>
  The subscription windows, \<open>daemon/src/policy/windows.mjs\<close>: how a reading of the provider is
  judged, which of two readings is believed, when a refusal stands and when it is lifted, and
  whether an account may work. Of \<open>scripts/sma/lib/config-dir.mjs\<close>: when two configuration
  directories or two account ids are the same. The JSON files are a map from path to parsed value;
  \<open>Date.parse\<close>, \<open>toISOString\<close> and the two functions of \<open>node:path\<close> are arguments.
\<close>

record win_env =
  we_parse :: "string \<Rightarrow> jsnum"
  we_iso :: "jsnum \<Rightarrow> string"
  we_join :: "string list \<Rightarrow> string"
  we_dirname :: "string \<Rightarrow> string"

type_synonym store = "string \<rightharpoonup> jsval"

text \<open>\<open>readJsonSafe\<close>: \<open>null\<close> for a file that is missing or does not parse.\<close>

definition read_json_safe :: "store \<Rightarrow> string \<Rightarrow> jsval" where
  "read_json_safe st path = (case st path of Some v \<Rightarrow> v | None \<Rightarrow> JNull)"

section \<open>The same directory, the same account\<close>

definition strip_slashes :: "string \<Rightarrow> string" where
  "strip_slashes s = rev (dropWhile (\<lambda>c. c = CHR ''/'') (rev s))"

definition normalize_config_dir :: "jsval \<Rightarrow> string option" where
  "normalize_config_dir dir =
     (if \<not> is_str dir then None
      else let trimmed = js_trim (str_of dir) in
           if trimmed = [] then None
           else let slashed = strip_slashes (map (\<lambda>c. if c = CHR 0x5C then CHR ''/'' else c) trimmed)
                in if slashed = [] then None else Some (js_lower slashed))"

definition same_config_dir :: "jsval \<Rightarrow> jsval \<Rightarrow> bool" where
  "same_config_dir a b =
     (case (normalize_config_dir a, normalize_config_dir b) of (Some x, Some y) \<Rightarrow> x = y | _ \<Rightarrow> False)"

definition normalize_account_uuid :: "jsval \<Rightarrow> string option" where
  "normalize_account_uuid uuid =
     (if \<not> is_str uuid then None
      else let trimmed = js_lower (js_trim (str_of uuid)) in if trimmed = [] then None else Some trimmed)"

definition same_account_uuid :: "jsval \<Rightarrow> jsval \<Rightarrow> bool" where
  "same_account_uuid a b =
     (case (normalize_account_uuid a, normalize_account_uuid b) of (Some x, Some y) \<Rightarrow> x = y | _ \<Rightarrow> False)"

definition str_suffix :: "string \<Rightarrow> string \<Rightarrow> bool" where
  "str_suffix s t = str_prefix (rev s) (rev t)"

definition account_file_candidates :: "win_env \<Rightarrow> jsval \<Rightarrow> string list" where
  "account_file_candidates env config_dir =
     (let dir = (if is_str config_dir then js_trim (str_of config_dir) else []) in
      if dir = [] then []
      else we_join env [dir, ''.claude.json''] #
           (case normalize_config_dir (JStr dir) of
              Some n \<Rightarrow> if str_suffix ''/.claude'' n then [we_join env [we_dirname env dir, ''.claude.json'']] else []
            | None \<Rightarrow> []))"

definition uuid_from_file :: "store \<Rightarrow> string \<Rightarrow> string option" where
  "uuid_from_file st file =
     (let parsed = read_json_safe st file;
          account = (if is_object parsed then jget parsed ''oauthAccount'' else JNull)
      in normalize_account_uuid (if is_object account then jget account ''accountUuid'' else JNull))"

fun first_uuid :: "store \<Rightarrow> string list \<Rightarrow> jsval" where
  "first_uuid st [] = JNull"
| "first_uuid st (file # files) =
     (case uuid_from_file st file of Some u \<Rightarrow> JStr u | None \<Rightarrow> first_uuid st files)"

definition read_account_uuid :: "win_env \<Rightarrow> store \<Rightarrow> jsval \<Rightarrow> jsval" where
  "read_account_uuid env st config_dir = first_uuid st (account_file_candidates env config_dir)"

section \<open>Readings\<close>

datatype window = Five_hour | Week

fun window_keys :: "window \<Rightarrow> string list" where
  "window_keys Five_hour = [''five_hour'', ''five_hours'', ''fiveHour'']"
| "window_keys Week = [''seven_day'', ''week'', ''weekly'', ''seven_days'']"

definition canonical_window :: "jsval \<Rightarrow> window option" where
  "canonical_window limit_type =
     (let nm = (if is_str limit_type then js_trim (str_of limit_type) else []) in
      if nm = [] then None
      else if List.member (window_keys Five_hour) nm then Some Five_hour
      else if List.member (window_keys Week) nm then Some Week
      else None)"

definition name_of :: "jsval \<Rightarrow> jsval" where
  "name_of account = (if is_str account then account else jget account ''name'')"

definition config_dir_of :: "jsval \<Rightarrow> jsval" where
  "config_dir_of account =
     (if \<not> is_object account then JNull
      else if is_str (jget account ''configDir'') \<and> js_trim (str_of (jget account ''configDir'')) \<noteq> []
           then jget account ''configDir'' else JNull)"

definition to_ms :: "win_env \<Rightarrow> jsval \<Rightarrow> jsnum" where
  "to_ms env reset_at =
     (case reset_at of
        JNum n \<Rightarrow> n
      | _ \<Rightarrow> let t = we_parse env (to_str reset_at) in if is_finite_num t then t else NaN)"

text \<open>The fraction, and which scale it was read on.\<close>

definition utilization_fraction :: "jsval \<Rightarrow> jsnum option \<times> string" where
  "utilization_fraction v =
     (if is_nullish v \<or> v = JStr [] \<or> is_bool v then (None, ''absent'')
      else case to_num v of
             Fin n \<Rightarrow> if n < 0 then (None, ''out-of-range'')
                     else if n \<le> 1 then (Some (Fin n), ''fraction'')
                     else if n \<le> 100 then (Some (Fin (n / 100)), ''percent'')
                     else (None, ''out-of-range'')
           | _ \<Rightarrow> (None, ''absent''))"

definition trimmed_str :: "jsval \<Rightarrow> string" where
  "trimmed_str v = (if is_str v then js_trim (str_of v) else [])"

definition reading_says_exhausted :: "jsval \<Rightarrow> bool" where
  "reading_says_exhausted reading =
     (if \<not> is_object reading then False
      else if (case fst (utilization_fraction (jget reading ''utilization'')) of
                 Some f \<Rightarrow> num_le (Fin 1) f | None \<Rightarrow> False) then True
      else let status = js_lower (trimmed_str (jget reading ''status'')) in
           if status = [] then False else \<not> str_prefix ''allowed'' status)"

record fact =
  f_status :: string
  f_resets :: "jsnum option"
  f_pct :: "jsnum option"
  f_observed :: "string option"
  f_said :: "string option"
  f_terminal :: bool

definition unknown_fact :: fact where
  "unknown_fact = \<lparr>f_status = ''unknown'', f_resets = None, f_pct = None, f_observed = None,
     f_said = None, f_terminal = False\<rparr>"

definition percent_of :: "jsnum \<Rightarrow> jsnum" where
  "percent_of fraction = num_max (Fin 0) (num_min (Fin 100) (num_round (num_mul fraction (Fin 100))))"

definition fact_of_reading :: "jsnum \<Rightarrow> jsval \<Rightarrow> fact" where
  "fact_of_reading reset_ms one =
     \<lparr>f_status = (if reading_says_exhausted one then ''exhausted'' else ''open''),
      f_resets = Some reset_ms,
      f_pct = map_option percent_of (fst (utilization_fraction (jget one ''utilization''))),
      f_observed = (if is_str (jget one ''at'') then Some (str_of (jget one ''at'')) else None),
      f_said = (if trimmed_str (jget one ''status'') = [] then None
                else Some (trimmed_str (jget one ''status''))),
      f_terminal = False\<rparr>"

fun first_fact :: "win_env \<Rightarrow> jsnum \<Rightarrow> jsval \<Rightarrow> string list \<Rightarrow> fact" where
  "first_fact env now observed [] = unknown_fact"
| "first_fact env now observed (key # keys) =
     (let one = jget observed key in
      if \<not> is_object one then first_fact env now observed keys
      else let reset_ms = to_ms env (jget one ''resetsAt'') in
           if \<not> is_finite_num reset_ms \<or> num_le reset_ms now then first_fact env now observed keys
           else fact_of_reading reset_ms one)"

definition observed_of :: "jsval \<Rightarrow> jsval option" where
  "observed_of rec = (if truthy rec \<and> is_object (jget rec ''observed'') then Some (jget rec ''observed'') else None)"

definition fact_of :: "win_env \<Rightarrow> jsnum \<Rightarrow> jsval \<Rightarrow> window \<Rightarrow> fact" where
  "fact_of env now rec w =
     (case observed_of rec of None \<Rightarrow> unknown_fact | Some all \<Rightarrow> first_fact env now all (window_keys w))"

section \<open>Whose reading is believed\<close>

definition win_path :: "win_env \<Rightarrow> string \<Rightarrow> string \<Rightarrow> string" where
  "win_path env data_dir file = we_join env [data_dir, ''windows'', file]"

definition terminal_windows_file :: string where "terminal_windows_file = ''_terminal.json''"

definition terminal_record_for :: "win_env \<Rightarrow> store \<Rightarrow> jsval \<Rightarrow> string \<Rightarrow> jsval" where
  "terminal_record_for env st config_dir data_dir =
     (if \<not> truthy config_dir then JNull
      else let rec = read_json_safe st (win_path env data_dir terminal_windows_file) in
           if \<not> truthy rec then JNull
           else if same_config_dir (jget rec ''configDir'') config_dir then rec
           else if \<not> truthy (jget rec ''accountUuid'') then JNull
           else if same_account_uuid (jget rec ''accountUuid'') (read_account_uuid env st config_dir)
                then rec else JNull)"

definition from_terminal :: "fact \<Rightarrow> fact" where
  "from_terminal f = (if f_status f = ''unknown'' then f else f\<lparr>f_terminal := True\<rparr>)"

text \<open>\<open>observedAt ? Date.parse(observedAt) : NaN\<close>.\<close>

definition seen_ms :: "win_env \<Rightarrow> fact \<Rightarrow> jsnum" where
  "seen_ms env f = (case f_observed f of Some (c # cs) \<Rightarrow> we_parse env (c # cs) | _ \<Rightarrow> NaN)"

definition fresher_of :: "win_env \<Rightarrow> fact \<Rightarrow> fact \<Rightarrow> fact" where
  "fresher_of env own borrowed =
     (if f_status own = ''exhausted'' then own
      else if f_status borrowed = ''unknown'' then own
      else if f_status own = ''unknown'' then from_terminal borrowed
      else let theirs = seen_ms env borrowed in
           if \<not> is_finite_num theirs then own
           else let ours = seen_ms env own in
                if is_finite_num ours \<and> num_le theirs ours then own else from_terminal borrowed)"

section \<open>A refusal that stands\<close>

record win_state =
  ws_account :: jsval
  ws_fact :: "window \<Rightarrow> fact"
  ws_closed_until :: jsval

definition standing_close :: "win_env \<Rightarrow> jsnum \<Rightarrow> jsval \<Rightarrow> (window \<Rightarrow> fact) \<Rightarrow> (window \<times> jsnum) option" where
  "standing_close env now rec own =
     (if \<not> truthy rec \<or> is_nullish (jget rec ''resetAt'') then None
      else let reset_ms = to_ms env (jget rec ''resetAt'') in
           if \<not> is_finite_num reset_ms \<or> num_le reset_ms now then None
           else case canonical_window (jget rec ''closedWindow'') of
                  None \<Rightarrow> None
                | Some w \<Rightarrow>
                    let fact = own w;
                        seen = seen_ms env fact;
                        closed = (if is_str (jget rec ''closedAt'') then we_parse env (str_of (jget rec ''closedAt'')) else NaN);
                        lifted = f_status fact = ''open'' \<and> f_said fact \<noteq> None \<and>
                                 is_finite_num seen \<and> is_finite_num closed \<and> num_lt closed seen
                    in if lifted then None else Some (w, reset_ms))"

definition exhausted_by :: "fact \<Rightarrow> jsnum \<Rightarrow> fact" where
  "exhausted_by f reset_ms =
     f\<lparr>f_terminal := False, f_status := ''exhausted'',
       f_resets := (if f_status f \<noteq> ''unknown'' \<and> f_resets f \<noteq> None then f_resets f else Some reset_ms)\<rparr>"

definition account_record :: "win_env \<Rightarrow> store \<Rightarrow> string \<Rightarrow> jsval \<Rightarrow> jsval" where
  "account_record env st data_dir account_name =
     (if data_dir = [] then JNull
      else read_json_safe st (win_path env data_dir (to_str account_name @ ''.json'')))"

definition window_state :: "win_env \<Rightarrow> store \<Rightarrow> string \<Rightarrow> jsval \<Rightarrow> jsnum \<Rightarrow> win_state" where
  "window_state env st data_dir account now =
     (let rec = account_record env st data_dir (name_of account);
          own = fact_of env now rec;
          terminal = (if data_dir = [] then JNull else terminal_record_for env st (config_dir_of account) data_dir);
          merged = (if truthy terminal then (\<lambda>w. fresher_of env (own w) (fact_of env now terminal w)) else own)
      in case standing_close env now rec own of
           None \<Rightarrow> \<lparr>ws_account = name_of account, ws_fact = merged, ws_closed_until = JUndef\<rparr>
         | Some (w, reset_ms) \<Rightarrow>
             \<lparr>ws_account = name_of account, ws_fact = merged(w := exhausted_by (merged w) reset_ms),
              ws_closed_until = jget rec ''resetAt''\<rparr>)"

definition is_open :: "win_env \<Rightarrow> win_state option \<Rightarrow> jsnum \<Rightarrow> bool" where
  "is_open env state now =
     (case state of
        None \<Rightarrow> True
      | Some s \<Rightarrow>
          if \<not> is_nullish (ws_closed_until s) \<and> is_finite_num (to_ms env (ws_closed_until s)) \<and>
             num_lt now (to_ms env (ws_closed_until s)) then False
          else if f_status (ws_fact s Five_hour) = ''exhausted'' then False
          else if f_status (ws_fact s Week) = ''exhausted'' then False
          else True)"

section \<open>What the screen shows of the terminal\<close>

definition values_of :: "jsval \<Rightarrow> jsval list" where
  "values_of v = (case v of JObj m \<Rightarrow> map snd m | JArr vs \<Rightarrow> vs | _ \<Rightarrow> [])"

fun last_seen :: "win_env \<Rightarrow> jsval list \<Rightarrow> string option \<Rightarrow> jsnum \<Rightarrow> string option" where
  "last_seen env [] best best_ms = best"
| "last_seen env (one # rest) best best_ms =
     (let stamp = (if truthy one \<and> is_str (jget one ''at'') then Some (str_of (jget one ''at'')) else None);
          ms = (case stamp of Some (c # cs) \<Rightarrow> we_parse env (c # cs) | _ \<Rightarrow> NaN)
      in if is_finite_num ms \<and> num_lt best_ms ms then last_seen env rest stamp ms
         else last_seen env rest best best_ms)"

definition last_seen_at :: "win_env \<Rightarrow> jsval \<Rightarrow> string option" where
  "last_seen_at env rec =
     (let best = last_seen env (case observed_of rec of Some all \<Rightarrow> values_of all | None \<Rightarrow> []) None NInf in
      case best of
        Some (c # cs) \<Rightarrow> best
      | _ \<Rightarrow> if truthy rec \<and> is_str (jget rec ''at'') then Some (str_of (jget rec ''at'')) else None)"

record terminal_view =
  tv_observed :: bool
  tv_observed_at :: "string option"
  tv_fact :: "window \<Rightarrow> fact"

definition terminal_window_state :: "win_env \<Rightarrow> store \<Rightarrow> string \<Rightarrow> jsnum \<Rightarrow> terminal_view" where
  "terminal_window_state env st data_dir now =
     (let rec = (if data_dir = [] then JNull else read_json_safe st (win_path env data_dir terminal_windows_file))
      in \<lparr>tv_observed = (case observed_of rec of Some all \<Rightarrow> values_of all \<noteq> [] | None \<Rightarrow> False),
          tv_observed_at = last_seen_at env rec,
          tv_fact = fact_of env now rec\<rparr>)"

section \<open>Writing a refusal and a reading\<close>

text \<open>The record is answered and written; \<open>None\<close> writes nothing.\<close>

definition mark_window_closed ::
    "win_env \<Rightarrow> string \<Rightarrow> jsval \<Rightarrow> jsval \<Rightarrow> jsval \<Rightarrow> jsnum \<Rightarrow> store \<Rightarrow> jsval option \<times> store" where
  "mark_window_closed env data_dir account_name reset_at limit_type now st =
     (case canonical_window limit_type of
        None \<Rightarrow> (None, st)
      | Some w \<Rightarrow>
          let path = win_path env data_dir (to_str account_name @ ''.json'');
              previous = js_or (read_json_safe st path) (JObj []);
              rec = JObj (spread (entries previous)
                [(''accountName'', account_name), (''resetAt'', reset_at),
                 (''closedWindow'', JStr (case w of Five_hour \<Rightarrow> ''fiveHour'' | Week \<Rightarrow> ''week'')),
                 (''closedAt'', JStr (we_iso env now))])
          in (Some rec, st(path \<mapsto> rec)))"

definition mark_window_observed ::
    "win_env \<Rightarrow> string \<Rightarrow> jsval \<Rightarrow> jsval \<Rightarrow> jsnum \<Rightarrow> store \<Rightarrow> jsval option \<times> store" where
  "mark_window_observed env data_dir account_name observation now st =
     (let o1 = (if is_object observation then observation else JObj []);
          limit_type = trimmed_str (jget o1 ''limitType'');
          resets_at = to_ms env (jget o1 ''resetsAt'')
      in if data_dir = [] \<or> \<not> truthy account_name \<or> limit_type = [] then (None, st)
         else if \<not> is_finite_num resets_at then (None, st)
         else let path = win_path env data_dir (to_str account_name @ ''.json'');
                  previous = js_or (read_json_safe st path) (JObj []);
                  one = JObj ([(''resetsAt'', JNum resets_at)] @
                    (case fst (utilization_fraction (jget o1 ''utilization'')) of
                       Some f \<Rightarrow> [(''utilization'', JNum f)] | None \<Rightarrow> []) @
                    (if is_str (jget o1 ''status'') \<and> jget o1 ''status'' \<noteq> JStr []
                     then [(''status'', jget o1 ''status'')] else []) @
                    (if jget o1 ''usingOverage'' = JBool True then [(''usingOverage'', JBool True)] else []) @
                    [(''at'', JStr (we_iso env now))]);
                  rec = JObj (spread (entries previous)
                    [(''accountName'', account_name),
                     (''observed'', JObj (aset limit_type one (entries (jget previous ''observed''))))])
              in (Some rec, st(path \<mapsto> rec)))"

section \<open>Facts\<close>

lemma own_get_spread_new: "wf_map b \<Longrightarrow> map_of b k = Some v \<Longrightarrow> own_get (spread a b) k = v"
  by (simp add: own_get_def map_of_spread)

lemma own_get_spread_old: "wf_map b \<Longrightarrow> map_of b k = None \<Longrightarrow> own_get (spread a b) k = own_get a k"
  by (simp add: own_get_def map_of_spread map_add_def)

text \<open>When the terminal's reading of a window replaces the account's own.\<close>

definition borrowed_wins :: "win_env \<Rightarrow> fact \<Rightarrow> fact \<Rightarrow> bool" where
  "borrowed_wins env own borrowed \<longleftrightarrow>
     f_status own \<noteq> ''exhausted'' \<and> f_status borrowed \<noteq> ''unknown'' \<and>
     (f_status own = ''unknown'' \<or>
      is_finite_num (seen_ms env borrowed) \<and>
        \<not> (is_finite_num (seen_ms env own) \<and> num_le (seen_ms env borrowed) (seen_ms env own)))"

lemma fresher_of_wins:
  "fresher_of env own borrowed = (if borrowed_wins env own borrowed then from_terminal borrowed else own)"
  by (simp add: fresher_of_def borrowed_wins_def Let_def)

lemma from_terminal_status [simp]: "f_status (from_terminal f) = f_status f"
  by (simp add: from_terminal_def)

lemma exhausted_by_status [simp]: "f_status (exhausted_by f r) = ''exhausted''"
  by (simp add: exhausted_by_def)

lemma standing_close_reset:
  assumes "standing_close env now rec own = Some (w, r)"
  shows "\<not> is_nullish (jget rec ''resetAt'')" "is_finite_num (to_ms env (jget rec ''resetAt''))"
    "\<not> num_le (to_ms env (jget rec ''resetAt'')) now"
  using assms by (auto simp: standing_close_def Let_def split: if_splits option.splits)

definition terminal_of :: "win_env \<Rightarrow> store \<Rightarrow> string \<Rightarrow> jsval \<Rightarrow> jsval" where
  "terminal_of env st data_dir account =
     (if data_dir = [] then JNull else terminal_record_for env st (config_dir_of account) data_dir)"

lemma both_windows: "(\<forall>w. P w) \<longleftrightarrow> P Five_hour \<and> P Week"
  by (metis window.exhaust)

lemma canonical_stored:
  "canonical_window (JStr ''fiveHour'') = Some Five_hour" "canonical_window (JStr ''week'') = Some Week"
  by code_simp+

text \<open>A moment of reset that is unreadable or already behind.\<close>

definition passed :: "win_env \<Rightarrow> jsnum \<Rightarrow> jsval \<Rightarrow> bool" where
  "passed env now v \<longleftrightarrow> \<not> is_finite_num (to_ms env v) \<or> num_le (to_ms env v) now"

definition all_passed :: "win_env \<Rightarrow> jsnum \<Rightarrow> jsval \<Rightarrow> bool" where
  "all_passed env now rec \<longleftrightarrow> passed env now (jget rec ''resetAt'') \<and>
     list_all (\<lambda>key. passed env now (jget (jget (jget rec ''observed'') key) ''resetsAt''))
       (window_keys Five_hour @ window_keys Week)"

lemma passed_facts: "all_passed env now rec \<Longrightarrow> fact_of env now rec w = unknown_fact"
  by (cases w) (auto simp: all_passed_def passed_def fact_of_def observed_of_def Let_def)

section \<open>Properties\<close>

text \<open>An account may work exactly when no refusal stands against it, neither window is exhausted by
  its own reading, and no reading borrowed from the terminal that is believed for a window calls that
  window exhausted. A reading of the terminal never outweighs an own refusal.\<close>

theorem open_exactly_when:
  "let rec = account_record env st data_dir (name_of account);
       own = fact_of env (Fin now) rec;
       terminal = terminal_of env st data_dir account
   in is_open env (Some (window_state env st data_dir account (Fin now))) (Fin now) \<longleftrightarrow>
      standing_close env (Fin now) rec own = None \<and>
      (\<forall>w. f_status (own w) \<noteq> ''exhausted'' \<and>
        \<not> (truthy terminal \<and> borrowed_wins env (own w) (fact_of env (Fin now) terminal w) \<and>
           f_status (fact_of env (Fin now) terminal w) = ''exhausted''))"
proof -
  define rec where "rec = account_record env st data_dir (name_of account)"
  define own where "own = fact_of env (Fin now) rec"
  define terminal where "terminal = terminal_of env st data_dir account"
  define merged where "merged = (if truthy terminal
      then (\<lambda>w. fresher_of env (own w) (fact_of env (Fin now) terminal w)) else own)"
  have merged: "f_status (merged w) = ''exhausted'' \<longleftrightarrow> f_status (own w) = ''exhausted'' \<or>
      truthy terminal \<and> borrowed_wins env (own w) (fact_of env (Fin now) terminal w) \<and>
      f_status (fact_of env (Fin now) terminal w) = ''exhausted''" for w
    by (auto simp: merged_def fresher_of_wins borrowed_wins_def)
  show ?thesis
  proof (cases "standing_close env (Fin now) rec own")
    case None
    then have "window_state env st data_dir account (Fin now) =
        \<lparr>ws_account = name_of account, ws_fact = merged, ws_closed_until = JUndef\<rparr>"
      by (simp add: window_state_def Let_def rec_def own_def terminal_def terminal_of_def merged_def)
    then show ?thesis using None merged
      by (auto simp: is_open_def is_nullish_def both_windows rec_def own_def terminal_def Let_def)
  next
    case (Some wr)
    obtain w r where wr: "wr = (w, r)" by (cases wr)
    from Some wr have "window_state env st data_dir account (Fin now) =
        \<lparr>ws_account = name_of account, ws_fact = merged(w := exhausted_by (merged w) r),
         ws_closed_until = jget rec ''resetAt''\<rparr>"
      by (simp add: window_state_def Let_def rec_def own_def terminal_def terminal_of_def merged_def)
    then have "\<not> is_open env (Some (window_state env st data_dir account (Fin now))) (Fin now)"
      by (cases w) (auto simp: is_open_def)
    then show ?thesis using Some by (simp add: rec_def own_def Let_def)
  qed
qed

text \<open>A refusal that names one of the two windows closes the account until its reset: after
  \<open>markWindowClosed\<close> the account is not open at any moment before the reset, when no reading of that
  window in its file was seen after the refusal. The hypotheses on \<open>Date.parse\<close> are that it reads back
  what \<open>toISOString\<close> wrote.\<close>

theorem refusal_closes_until_reset:
  assumes "canonical_window limit_type = Some w" "to_ms env reset_at = Fin r" "now < r"
    and "we_parse env (we_iso env (Fin t)) = Fin t" "data_dir \<noteq> []" "\<not> is_nullish reset_at"
    and "\<not> num_lt (Fin t) (seen_ms env (fact_of env (Fin now) (account_record env st data_dir (name_of account)) w))"
  shows "let st' = snd (mark_window_closed env data_dir (name_of account) reset_at limit_type (Fin t) st)
    in \<not> is_open env (Some (window_state env st' data_dir account (Fin now))) (Fin now)"
proof -
  define previous where "previous = account_record env st data_dir (name_of account)"
  define path where "path = win_path env data_dir (to_str (name_of account) @ ''.json'')"
  define news where "news = [(''accountName'', name_of account), (''resetAt'', reset_at),
      (''closedWindow'', JStr (case w of Five_hour \<Rightarrow> ''fiveHour'' | Week \<Rightarrow> ''week'')),
      (''closedAt'', JStr (we_iso env (Fin t)))]"
  define rec where "rec = JObj (spread (entries (js_or previous (JObj []))) news)"
  define st' where "st' = st(path \<mapsto> rec)"
  have mark: "mark_window_closed env data_dir (name_of account) reset_at limit_type (Fin t) st = (Some rec, st')"
    using assms(1,5)
    by (simp add: mark_window_closed_def Let_def rec_def st'_def news_def previous_def path_def account_record_def)
  have wf: "wf_map news" by (simp add: news_def wf_map_def)
  have get: "jget rec ''resetAt'' = reset_at" "jget rec ''closedAt'' = JStr (we_iso env (Fin t))"
    "jget rec ''closedWindow'' = JStr (case w of Five_hour \<Rightarrow> ''fiveHour'' | Week \<Rightarrow> ''week'')"
    unfolding rec_def jget.simps by (rule own_get_spread_new [OF wf]; simp add: news_def)+
  have "jget rec ''observed'' = own_get (entries (js_or previous (JObj []))) ''observed''"
    unfolding rec_def jget.simps by (rule own_get_spread_old [OF wf]) (simp add: news_def)
  also have "\<dots> = (if truthy previous then jget previous ''observed'' else JUndef)"
    by (cases previous) (auto simp: js_or_def own_get_def proto_names_def)
  finally have "observed_of rec = observed_of previous"
    by (auto simp: observed_of_def rec_def is_object_def)
  then have facts: "fact_of env (Fin now) rec = fact_of env (Fin now) previous"
    by (simp add: fact_of_def fun_eq_iff)
  have reread: "canonical_window (JStr (case w of Five_hour \<Rightarrow> ''fiveHour'' | Week \<Rightarrow> ''week'')) = Some w"
    by (cases w) (simp_all add: canonical_stored)
  have "account_record env st' data_dir (name_of account) = rec"
    using assms(5) by (simp add: account_record_def st'_def path_def read_json_safe_def)
  moreover have "standing_close env (Fin now) rec (fact_of env (Fin now) rec) \<noteq> None"
  proof -
    have "\<not> num_lt (Fin t) (seen_ms env (fact_of env (Fin now) rec w))"
      using assms(7) facts by (simp add: previous_def)
    then show ?thesis using assms(2,3,4,6) reread
      by (simp add: standing_close_def get Let_def) (simp add: rec_def)
  qed
  ultimately show ?thesis
    using open_exactly_when [of env st' data_dir account now] by (simp add: mark Let_def)
qed

definition plain_env :: win_env where
  "plain_env = \<lparr>we_parse = (\<lambda>_. Fin 5), we_iso = (\<lambda>_. ''t''), we_join = concat, we_dirname = id\<rparr>"

theorem refusal_closes_until_reset_witness:
  "\<not> is_open plain_env (Some (window_state plain_env
       (snd (mark_window_closed plain_env ''d'' (JStr ''a'') (JInt 9) (JStr ''five_hour'') (Fin 5) Map.empty))
       ''d'' (JStr ''a'') (Fin 6))) (Fin 6)"
proof -
  have own: "name_of (JStr ''a'') = JStr ''a''" by code_simp
  have "canonical_window (JStr ''five_hour'') = Some Five_hour" by code_simp
  moreover have "to_ms plain_env (JInt 9) = Fin 9" by (simp add: to_ms_def)
  moreover have "fact_of plain_env (Fin 6) (account_record plain_env Map.empty ''d'' (JStr ''a'')) Five_hour = unknown_fact"
    by (simp add: account_record_def read_json_safe_def fact_of_def observed_of_def)
  then have "\<not> num_lt (Fin 5) (seen_ms plain_env
      (fact_of plain_env (Fin 6) (account_record plain_env Map.empty ''d'' (JStr ''a'')) Five_hour))"
    by (simp add: seen_ms_def unknown_fact_def)
  ultimately show ?thesis
    using refusal_closes_until_reset [of "JStr ''five_hour''" Five_hour plain_env "JInt 9" 9 6 5 "''d''"
        Map.empty "JStr ''a''"]
    by (simp add: own plain_env_def is_nullish_def Let_def)
qed

text \<open>No account is closed for ever: at a moment when every reset named in its own file and in the
  terminal's file is behind or unreadable, the account is open, whatever else the files say.\<close>

theorem passed_resets_reopen:
  assumes "all_passed env (Fin now) (account_record env st data_dir (name_of account))"
    and "all_passed env (Fin now) (terminal_of env st data_dir account)"
  shows "is_open env (Some (window_state env st data_dir account (Fin now))) (Fin now)"
proof -
  have "standing_close env (Fin now) (account_record env st data_dir (name_of account)) own = None" for own
    using assms(1) by (auto simp: standing_close_def all_passed_def passed_def Let_def)
  then show ?thesis
    using open_exactly_when [of env st data_dir account now]
    by (simp add: Let_def passed_facts [OF assms(1)] passed_facts [OF assms(2)] unknown_fact_def)
qed

theorem passed_resets_reopen_witness:
  "is_open plain_env (Some (window_state plain_env
       (snd (mark_window_closed plain_env ''d'' (JStr ''a'') (JInt 9) (JStr ''five_hour'') (Fin 5) Map.empty))
       ''d'' (JStr ''a'') (Fin 9))) (Fin 9)"
  by (rule passed_resets_reopen) code_simp+

end
