(* ===== verification/Liveness.thy ===== *)
theory Liveness
  imports Js_Num
begin

text \<open>
  The sweep over claimed rows, \<open>daemon/src/queue/liveness.mjs\<close>: who is dead, who is renewed, who is
  left alone, and the cooldown. The registry of processes, the queue adapter, the ledger and the
  clock are operations on an arbitrary world \<open>'w\<close>, so that a later question may be answered
  differently from an earlier one. What the sweep does to them is recorded as a list of events; the
  prose \<open>detail\<close> of a journal entry is left out.
\<close>

section \<open>Constants and small functions\<close>

definition default_expire_ms :: rat where "default_expire_ms = 900000"
definition base_cooldown_ms :: nat where "base_cooldown_ms = 120000"
definition max_cooldown_ms :: nat where "max_cooldown_ms = 1800000"
definition max_attempt_lifetime_ms :: rat where "max_attempt_lifetime_ms = 4 * 60 * 60 * 1000"
definition kill_confirm_wait_ms :: rat where "kill_confirm_wait_ms = 2000"
definition kill_confirm_poll_ms :: rat where "kill_confirm_poll_ms = 50"

definition compute_cooldown_ms :: "nat \<Rightarrow> nat" where
  "compute_cooldown_ms n =
     (if n < 2 then 0 else min (base_cooldown_ms * 2 ^ (n - 2)) max_cooldown_ms)"

definition count_no_progress :: "jsval \<Rightarrow> nat" where
  "count_no_progress attempts =
     length (filter (\<lambda>a. truthy a \<and> jget a ''outcome'' = JStr ''failed'') (elems attempts))"

section \<open>The world asked\<close>

text \<open>A call answers a value or throws (\<open>None\<close>). \<open>se_fail\<close> answers whether the queue's \<open>fail\<close>
  resolved.\<close>

record 'w seams =
  se_alive :: "(jsval \<Rightarrow> 'w \<Rightarrow> jsval option \<times> 'w) option"
  se_stop :: "(jsval \<Rightarrow> 'w \<Rightarrow> jsval option \<times> 'w) option"
  se_sleep :: "'w \<Rightarrow> bool \<times> 'w"
  se_touch :: "(jsval \<Rightarrow> 'w \<Rightarrow> jsval option \<times> 'w) option"
  se_fail :: "jsval \<Rightarrow> string \<Rightarrow> 'w \<Rightarrow> bool \<times> 'w"
  se_attempts :: "jsval \<Rightarrow> 'w \<Rightarrow> jsval"
  se_clock :: "'w \<Rightarrow> rat"
  se_journal :: bool

datatype probe = Alive | Gone | Broken | Silent

definition probe_process :: "'w seams \<Rightarrow> jsval \<Rightarrow> 'w \<Rightarrow> probe \<times> 'w" where
  "probe_process se task w =
     (case se_alive se of
        None \<Rightarrow> (Silent, w)
      | Some ask \<Rightarrow>
          (case ask task w of
             (None, w') \<Rightarrow> (Broken, w')
           | (Some v, w') \<Rightarrow>
               (if v = JBool True then Alive else if v = JBool False then Gone
                else if v = JStr ''probe_broken'' then Broken else Silent, w')))"

definition fail_reason_for :: "probe \<Rightarrow> bool \<Rightarrow> string" where
  "fail_reason_for p over_ceiling =
     (if over_ceiling then ''attempt_lifetime_exceeded''
      else if p = Gone then ''worker_process_gone'' else ''liveness_killed'')"

text \<open>The loop that looks again after a stop: \<open>n\<close> looks left.\<close>

fun confirm_loop :: "'w seams \<Rightarrow> jsval \<Rightarrow> nat \<Rightarrow> 'w \<Rightarrow> bool \<times> 'w" where
  "confirm_loop se task 0 w = (case probe_process se task w of (p, w') \<Rightarrow> (p \<noteq> Alive, w'))"
| "confirm_loop se task (Suc n) w =
     (case probe_process se task w of (p, w') \<Rightarrow>
        if p \<noteq> Alive then (True, w')
        else case se_sleep se w' of (slept, w'') \<Rightarrow>
          if slept then confirm_loop se task n w''
          else (case probe_process se task w'' of (q, w3) \<Rightarrow> (q \<noteq> Alive, w3)))"

definition kill_looks :: nat where
  "kill_looks = max 1 (nat \<lceil>kill_confirm_wait_ms / kill_confirm_poll_ms\<rceil>)"

definition confirm_kill :: "'w seams \<Rightarrow> jsval \<Rightarrow> 'w \<Rightarrow> bool \<times> 'w" where
  "confirm_kill se task w = confirm_loop se task kill_looks w"

section \<open>The sweep\<close>

datatype live_event =
    Renewal jsval bool
  | Stop_called jsval
  | Requeue jsval string
  | Journal_line string jsval jsval jsmap

record 'w sweep =
  sw_world :: 'w
  sw_events :: "live_event list"
  sw_audited :: nat
  sw_requeued :: nat
  sw_throttled :: nat
  sw_renewed :: nat
  sw_probe_broken :: nat
  sw_kill_unconfirmed :: nat

definition renew_lease :: "'w seams \<Rightarrow> jsval \<Rightarrow> 'w sweep \<Rightarrow> bool \<times> 'w sweep" where
  "renew_lease se task s =
     (case se_touch se of
        None \<Rightarrow> (False, s)
      | Some touch \<Rightarrow>
          (case touch task (sw_world s) of (answer, w') \<Rightarrow>
             let ok = (case answer of None \<Rightarrow> False | Some v \<Rightarrow> v \<noteq> JBool False)
             in (ok, s\<lparr>sw_world := w', sw_events := sw_events s @ [Renewal task ok]\<rparr>)))"

definition journal_line :: "'w seams \<Rightarrow> string \<Rightarrow> jsval \<Rightarrow> jsmap \<Rightarrow> 'w sweep \<Rightarrow> 'w sweep" where
  "journal_line se kind r details s =
     (if se_journal se
      then s\<lparr>sw_events := sw_events s @ [Journal_line kind (jget r ''id'') (coalesce (jget r ''attempt'') JNull) details]\<rparr>
      else s)"

definition last_touch :: "jsval \<Rightarrow> jsval" where
  "last_touch r = coalesce (coalesce (jget r ''leaseRenewedAt'') (jget r ''claimedAt'')) (JInt 0)"

definition silent_ms :: "'w seams \<Rightarrow> jsval \<Rightarrow> 'w sweep \<Rightarrow> jsnum" where
  "silent_ms se r s = num_sub (Fin (se_clock se (sw_world s))) (to_num (last_touch r))"

definition lifetime_ms :: "'w seams \<Rightarrow> jsval \<Rightarrow> 'w sweep \<Rightarrow> jsnum" where
  "lifetime_ms se r s =
     num_sub (Fin (se_clock se (sw_world s))) (to_num (coalesce (jget r ''claimedAt'') (last_touch r)))"

text \<open>The stop of the handle: \<open>None\<close> when there is no \<open>stop\<close> or it threw.\<close>

definition stop_handle :: "'w seams \<Rightarrow> jsval \<Rightarrow> 'w sweep \<Rightarrow> bool option \<times> 'w sweep" where
  "stop_handle se task s =
     (case se_stop se of
        None \<Rightarrow> (None, s)
      | Some stop \<Rightarrow>
          (case stop task (sw_world s) of (answer, w') \<Rightarrow>
             (map_option (\<lambda>v. v = JBool True) answer,
              s\<lparr>sw_world := w', sw_events := sw_events s @ [Stop_called task]\<rparr>)))"

definition confirmed_gone :: "'w seams \<Rightarrow> jsval \<Rightarrow> bool option \<Rightarrow> 'w sweep \<Rightarrow> bool \<times> 'w sweep" where
  "confirmed_gone se task killed s =
     (if killed = Some True
      then (case confirm_kill se task (sw_world s) of (gone, w') \<Rightarrow> (gone, s\<lparr>sw_world := w'\<rparr>))
      else (True, s))"

text \<open>The row is declared dead and given back; \<open>None\<close> when \<open>fail\<close> rejects and the sweep with it.\<close>

definition declare_dead :: "'w seams \<Rightarrow> rat \<Rightarrow> jsval \<Rightarrow> string \<Rightarrow> bool option \<Rightarrow> jsnum \<Rightarrow> jsnum
    \<Rightarrow> 'w sweep \<Rightarrow> 'w sweep option" where
  "declare_dead se expire r reason killed silent lifetime s =
     (let task = jget r ''id'';
          no_progress = count_no_progress (se_attempts se task (sw_world s)) + 1;
          cooldown = compute_cooldown_ms no_progress;
          s1 = journal_line se ''liveness.attempt_dead'' r
                 [(''silentMs'', JNum silent), (''lifetimeMs'', JNum lifetime), (''expireMs'', JNum (Fin expire)),
                  (''reason'', JStr reason), (''noProgressRuns'', JInt (int no_progress)),
                  (''cooldownMs'', JInt (int cooldown))] s;
          s2 = (case killed of
                  None \<Rightarrow> s1
                | Some True \<Rightarrow> journal_line se ''liveness.attempt_killed'' r [(''killed'', JBool True)] s1
                | Some False \<Rightarrow> journal_line se ''liveness.attempt_orphaned'' r [(''killed'', JBool False)] s1)
      in case se_fail se task reason (sw_world s2) of (resolved, w') \<Rightarrow>
           if \<not> resolved then None
           else Some (s2\<lparr>sw_world := w', sw_events := sw_events s2 @ [Requeue task reason],
                  sw_requeued := sw_requeued s2 + 1,
                  sw_throttled := sw_throttled s2 + (if cooldown > 0 then 1 else 0)\<rparr>))"

text \<open>A claimed row whose lease is over.\<close>

definition judge_row :: "'w seams \<Rightarrow> rat \<Rightarrow> jsval \<Rightarrow> 'w sweep \<Rightarrow> 'w sweep option" where
  "judge_row se expire r s0 =
     (let task = jget r ''id'' in
      case probe_process se task (sw_world s0) of (alive, w1) \<Rightarrow>
      let s = s0\<lparr>sw_world := w1\<rparr>;
          silent = silent_ms se r s; lifetime = lifetime_ms se r s;
          over = num_lt (Fin max_attempt_lifetime_ms) lifetime
      in if alive = Alive \<and> \<not> over
         then (case renew_lease se task s of (ok, s1) \<Rightarrow>
                 Some ((journal_line se ''liveness.lease_renewed_alive'' r
                   [(''silentMs'', JNum silent), (''lifetimeMs'', JNum lifetime), (''renewed'', JBool ok)] s1)
                   \<lparr>sw_renewed := sw_renewed s1 + 1\<rparr>))
         else if alive = Broken \<and> \<not> over
         then (case renew_lease se task s of (ok, s1) \<Rightarrow>
                 Some ((journal_line se ''liveness.probe_unavailable'' r
                   [(''silentMs'', JNum silent), (''lifetimeMs'', JNum lifetime), (''leaseHeld'', JBool ok)] s1)
                   \<lparr>sw_probe_broken := sw_probe_broken s1 + 1\<rparr>))
         else
           (let reason = fail_reason_for alive over in
            case stop_handle se task s of (killed, s2) \<Rightarrow>
            (case confirmed_gone se task killed s2 of (gone, s3) \<Rightarrow>
               if \<not> gone
               then (case renew_lease se task s3 of (ok, s4) \<Rightarrow>
                       Some ((journal_line se ''liveness.kill_unconfirmed'' r
                         [(''reason'', JStr reason), (''silentMs'', JNum silent), (''lifetimeMs'', JNum lifetime),
                          (''leaseHeld'', JBool ok)] s4)
                         \<lparr>sw_kill_unconfirmed := sw_kill_unconfirmed s4 + 1\<rparr>))
               else declare_dead se expire r reason killed silent lifetime s3)))"

definition sweep_row :: "'w seams \<Rightarrow> rat \<Rightarrow> jsval \<Rightarrow> 'w sweep \<Rightarrow> 'w sweep option" where
  "sweep_row se expire r s =
     (if jget r ''status'' = JStr ''completed'' \<or> jget r ''status'' = JStr ''failed'' then Some s
      else let s' = s\<lparr>sw_audited := sw_audited s + 1\<rparr> in
           if jget r ''status'' \<noteq> JStr ''claimed'' then Some s'
           else if num_le (silent_ms se r s') (Fin expire) then Some s'
           else judge_row se expire r s')"

fun sweep_rows :: "'w seams \<Rightarrow> rat \<Rightarrow> jsval list \<Rightarrow> 'w sweep \<Rightarrow> 'w sweep option" where
  "sweep_rows se expire [] s = Some s"
| "sweep_rows se expire (r # rs) s =
     (case sweep_row se expire r s of None \<Rightarrow> None | Some s' \<Rightarrow> sweep_rows se expire rs s')"

definition liveness_sweep :: "'w seams \<Rightarrow> rat \<Rightarrow> jsval list \<Rightarrow> 'w \<Rightarrow> 'w sweep option" where
  "liveness_sweep se expire rows w =
     sweep_rows se expire rows
       \<lparr>sw_world = w, sw_events = [], sw_audited = 0, sw_requeued = 0, sw_throttled = 0, sw_renewed = 0,
        sw_probe_broken = 0, sw_kill_unconfirmed = 0\<rparr>"

section \<open>What a step leaves alone\<close>

fun event_task :: "live_event \<Rightarrow> jsval" where
  "event_task (Renewal t _) = t"
| "event_task (Stop_called t) = t"
| "event_task (Requeue t _) = t"
| "event_task (Journal_line _ t _ _) = t"

definition requeued_ids :: "live_event list \<Rightarrow> jsval list" where
  "requeued_ids evs = concat (map (\<lambda>e. case e of Requeue t _ \<Rightarrow> [t] | _ \<Rightarrow> []) evs)"

lemma requeued_ids_simps [simp]: "requeued_ids [] = []" "requeued_ids (a @ b) = requeued_ids a @ requeued_ids b"
  "requeued_ids [Renewal t ok] = []" "requeued_ids [Stop_called t] = []" "requeued_ids [Requeue t reason] = [t]"
  "requeued_ids [Journal_line k t att d] = []"
  by (simp_all add: requeued_ids_def)

lemma requeued_ids_iff: "t \<in> set (requeued_ids evs) \<longleftrightarrow> (\<exists>reason. Requeue t reason \<in> set evs)"
  by (auto simp: requeued_ids_def split: live_event.splits)

text \<open>Nothing is requeued or counted, and every new event is about the task.\<close>

definition quiet :: "jsval \<Rightarrow> 'w sweep \<Rightarrow> 'w sweep \<Rightarrow> bool" where
  "quiet task s s' \<longleftrightarrow>
     (\<exists>evs. sw_events s' = sw_events s @ evs \<and> requeued_ids evs = [] \<and> list_all (\<lambda>e. event_task e = task) evs) \<and>
     sw_audited s' = sw_audited s \<and> sw_requeued s' = sw_requeued s \<and> sw_throttled s' = sw_throttled s \<and>
     sw_renewed s' = sw_renewed s \<and> sw_probe_broken s' = sw_probe_broken s \<and>
     sw_kill_unconfirmed s' = sw_kill_unconfirmed s"

lemma quiet_refl [simp]: "quiet task s s"
  by (auto simp: quiet_def)

lemma quiet_trans: "quiet task s1 s2 \<Longrightarrow> quiet task s2 s3 \<Longrightarrow> quiet task s1 s3"
  by (fastforce simp: quiet_def)

lemma quiet_world [simp]: "quiet task s (s\<lparr>sw_world := w\<rparr>)"
  by (auto simp: quiet_def)

lemma quiet_renew: "renew_lease se task s = (ok, s') \<Longrightarrow> quiet task s s'"
  by (auto simp: renew_lease_def quiet_def Let_def split: option.splits prod.splits)

lemma quiet_journal: "quiet (jget r ''id'') s (journal_line se kind r details s)"
  by (auto simp: journal_line_def quiet_def)

lemma quiet_stop: "stop_handle se task s = (killed, s') \<Longrightarrow> quiet task s s'"
  by (auto simp: stop_handle_def quiet_def split: option.splits prod.splits)

lemma quiet_confirmed: "confirmed_gone se task killed s = (gone, s') \<Longrightarrow> quiet task s s'"
  by (auto simp: confirmed_gone_def split: if_splits prod.splits)

lemmas quiet_steps = quiet_renew quiet_journal quiet_stop quiet_confirmed quiet_trans

text \<open>The two ways a row that is judged can end.\<close>

definition spared :: "jsval \<Rightarrow> 'w sweep \<Rightarrow> 'w sweep \<Rightarrow> bool" where
  "spared task s s' \<longleftrightarrow> (\<exists>q. quiet task s q \<and>
     (s' = q\<lparr>sw_renewed := sw_renewed q + 1\<rparr> \<or> s' = q\<lparr>sw_probe_broken := sw_probe_broken q + 1\<rparr> \<or>
      s' = q\<lparr>sw_kill_unconfirmed := sw_kill_unconfirmed q + 1\<rparr>))"

definition given_back :: "jsval \<Rightarrow> 'w sweep \<Rightarrow> 'w sweep \<Rightarrow> bool" where
  "given_back task s s' \<longleftrightarrow> (\<exists>q w reason n. quiet task s q \<and> n \<le> 1 \<and>
     s' = q\<lparr>sw_world := w, sw_events := sw_events q @ [Requeue task reason],
            sw_requeued := sw_requeued q + 1, sw_throttled := sw_throttled q + n\<rparr>)"

lemma declare_dead_given_back:
  assumes "declare_dead se expire r reason killed silent lifetime s = Some s'" "quiet (jget r ''id'') s0 s"
  shows "given_back (jget r ''id'') s0 s'"
proof -
  define n where "n = count_no_progress (se_attempts se (jget r ''id'') (sw_world s)) + 1"
  define d where "d = [(''silentMs'', JNum silent), (''lifetimeMs'', JNum lifetime), (''expireMs'', JNum (Fin expire)),
      (''reason'', JStr reason), (''noProgressRuns'', JInt (int n)), (''cooldownMs'', JInt (int (compute_cooldown_ms n)))]"
  define s1 where "s1 = journal_line se ''liveness.attempt_dead'' r d s"
  define s2 where "s2 = (case killed of None \<Rightarrow> s1
      | Some True \<Rightarrow> journal_line se ''liveness.attempt_killed'' r [(''killed'', JBool True)] s1
      | Some False \<Rightarrow> journal_line se ''liveness.attempt_orphaned'' r [(''killed'', JBool False)] s1)"
  have "quiet (jget r ''id'') s s1" unfolding s1_def by (rule quiet_journal)
  moreover have "quiet (jget r ''id'') s1 s2"
    by (auto simp: s2_def quiet_journal split: option.split bool.split)
  ultimately have q: "quiet (jget r ''id'') s0 s2" using assms(2) by (blast intro: quiet_trans)
  obtain ok w' where f: "se_fail se (jget r ''id'') reason (sw_world s2) = (ok, w')"
    by (cases "se_fail se (jget r ''id'') reason (sw_world s2)")
  have "declare_dead se expire r reason killed silent lifetime s =
      (case se_fail se (jget r ''id'') reason (sw_world s2) of (resolved, w') \<Rightarrow>
           if \<not> resolved then None
           else Some (s2\<lparr>sw_world := w', sw_events := sw_events s2 @ [Requeue (jget r ''id'') reason],
                  sw_requeued := sw_requeued s2 + 1,
                  sw_throttled := sw_throttled s2 + (if compute_cooldown_ms n > 0 then 1 else 0)\<rparr>))"
    unfolding declare_dead_def Let_def s2_def s1_def d_def n_def by (rule refl)
  with assms(1) f have "ok" "s' = s2\<lparr>sw_world := w', sw_events := sw_events s2 @ [Requeue (jget r ''id'') reason],
      sw_requeued := sw_requeued s2 + 1,
      sw_throttled := sw_throttled s2 + (if compute_cooldown_ms n > 0 then 1 else 0)\<rparr>"
    by (auto split: if_splits)
  with q show ?thesis unfolding given_back_def by fastforce
qed

lemma spared_journal:
  assumes "renew_lease se (jget r ''id'') s = (ok, s1)" "quiet (jget r ''id'') s0 s"
  shows "spared (jget r ''id'') s0 ((journal_line se kind r d s1)\<lparr>sw_renewed := sw_renewed s1 + 1\<rparr>)"
    "spared (jget r ''id'') s0 ((journal_line se kind r d s1)\<lparr>sw_probe_broken := sw_probe_broken s1 + 1\<rparr>)"
    "spared (jget r ''id'') s0 ((journal_line se kind r d s1)\<lparr>sw_kill_unconfirmed := sw_kill_unconfirmed s1 + 1\<rparr>)"
proof -
  have "quiet (jget r ''id'') s0 (journal_line se kind r d s1)"
    using assms by (blast intro: quiet_steps)
  moreover have "sw_renewed (journal_line se kind r d s1) = sw_renewed s1"
    "sw_probe_broken (journal_line se kind r d s1) = sw_probe_broken s1"
    "sw_kill_unconfirmed (journal_line se kind r d s1) = sw_kill_unconfirmed s1"
    by (simp_all add: journal_line_def)
  ultimately show "spared (jget r ''id'') s0 ((journal_line se kind r d s1)\<lparr>sw_renewed := sw_renewed s1 + 1\<rparr>)"
    "spared (jget r ''id'') s0 ((journal_line se kind r d s1)\<lparr>sw_probe_broken := sw_probe_broken s1 + 1\<rparr>)"
    "spared (jget r ''id'') s0 ((journal_line se kind r d s1)\<lparr>sw_kill_unconfirmed := sw_kill_unconfirmed s1 + 1\<rparr>)"
    unfolding spared_def by metis+
qed

lemma judge_row_cases:
  assumes "judge_row se expire r s0 = Some s'"
  obtains (spared) "spared (jget r ''id'') s0 s'"
  | (dead) alive w1 killed s2 s3 where
      "given_back (jget r ''id'') s0 s'"
      "probe_process se (jget r ''id'') (sw_world s0) = (alive, w1)"
      "alive = Alive \<or> alive = Broken \<longrightarrow>
         num_lt (Fin max_attempt_lifetime_ms) (lifetime_ms se r (s0\<lparr>sw_world := w1\<rparr>))"
      "stop_handle se (jget r ''id'') (s0\<lparr>sw_world := w1\<rparr>) = (killed, s2)"
      "confirmed_gone se (jget r ''id'') killed s2 = (True, s3)"
proof -
  define task where "task = jget r ''id''"
  obtain alive w1 where probe: "probe_process se task (sw_world s0) = (alive, w1)"
    by (cases "probe_process se task (sw_world s0)")
  define s where "s = s0\<lparr>sw_world := w1\<rparr>"
  define over where "over = num_lt (Fin max_attempt_lifetime_ms) (lifetime_ms se r s)"
  obtain ok s1 where ren: "renew_lease se task s = (ok, s1)" by (cases "renew_lease se task s")
  obtain killed s2 where st: "stop_handle se task s = (killed, s2)" by (cases "stop_handle se task s")
  obtain gone s3 where conf: "confirmed_gone se task killed s2 = (gone, s3)"
    by (cases "confirmed_gone se task killed s2")
  obtain ok' s4 where ren': "renew_lease se task s3 = (ok', s4)" by (cases "renew_lease se task s3")
  note eqs = assms [unfolded judge_row_def, folded task_def, unfolded probe prod.case Let_def, folded s_def,
      folded over_def, unfolded ren st conf ren' prod.case]
  have q: "quiet task s0 s" by (simp add: s_def)
  consider (renew) "alive = Alive" "\<not> over" | (broken) "alive = Broken" "\<not> over"
    | (judged) "\<not> (alive = Alive \<and> \<not> over)" "\<not> (alive = Broken \<and> \<not> over)" by blast
  then show ?thesis
  proof cases
    case renew
    with eqs have "s' = (journal_line se ''liveness.lease_renewed_alive'' r
        [(''silentMs'', JNum (silent_ms se r s)), (''lifetimeMs'', JNum (lifetime_ms se r s)), (''renewed'', JBool ok)] s1)
        \<lparr>sw_renewed := sw_renewed s1 + 1\<rparr>" by simp
    then show ?thesis using spared spared_journal(1) ren q unfolding task_def by blast
  next
    case broken
    with eqs have "s' = (journal_line se ''liveness.probe_unavailable'' r
        [(''silentMs'', JNum (silent_ms se r s)), (''lifetimeMs'', JNum (lifetime_ms se r s)), (''leaseHeld'', JBool ok)] s1)
        \<lparr>sw_probe_broken := sw_probe_broken s1 + 1\<rparr>" by simp
    then show ?thesis using spared spared_journal(2) ren q unfolding task_def by blast
  next
    case judged
    have q3: "quiet task s0 s3" using q st conf by (blast intro: quiet_steps)
    show ?thesis
    proof (cases gone)
      case False
      have "Some ((journal_line se ''liveness.kill_unconfirmed'' r
          [(''reason'', JStr (fail_reason_for alive over)), (''silentMs'', JNum (silent_ms se r s)),
           (''lifetimeMs'', JNum (lifetime_ms se r s)), (''leaseHeld'', JBool ok')] s4)
          \<lparr>sw_kill_unconfirmed := sw_kill_unconfirmed s4 + 1\<rparr>) = Some s'"
        using eqs by (simp only: judged False if_False if_True not_False_eq_True)
      then have "s' = (journal_line se ''liveness.kill_unconfirmed'' r
          [(''reason'', JStr (fail_reason_for alive over)), (''silentMs'', JNum (silent_ms se r s)),
           (''lifetimeMs'', JNum (lifetime_ms se r s)), (''leaseHeld'', JBool ok')] s4)
          \<lparr>sw_kill_unconfirmed := sw_kill_unconfirmed s4 + 1\<rparr>" by simp
      then show ?thesis using spared spared_journal(3) ren' q3 unfolding task_def by blast
    next
      case True
      have "declare_dead se expire r (fail_reason_for alive over) killed (silent_ms se r s)
          (lifetime_ms se r s) s3 = Some s'"
        using eqs by (simp only: judged True if_False simp_thms)
      then have "given_back task s0 s'" using declare_dead_given_back q3 unfolding task_def by blast
      moreover have "alive = Alive \<or> alive = Broken \<longrightarrow>
          num_lt (Fin max_attempt_lifetime_ms) (lifetime_ms se r (s0\<lparr>sw_world := w1\<rparr>))"
        using judged unfolding over_def s_def by blast
      moreover have "confirmed_gone se task killed s2 = (True, s3)" using conf True by simp
      ultimately show ?thesis
        using dead [of alive w1 killed s2 s3] probe st unfolding task_def s_def by blast
    qed
  qed
qed

definition open_row :: "jsval \<Rightarrow> bool" where
  "open_row r \<longleftrightarrow> jget r ''status'' \<noteq> JStr ''completed'' \<and> jget r ''status'' \<noteq> JStr ''failed''"

lemma sweep_row_eq:
  "sweep_row se expire r s =
     (let s' = s\<lparr>sw_audited := sw_audited s + of_bool (open_row r)\<rparr> in
      if jget r ''status'' = JStr ''claimed'' \<and> \<not> num_le (silent_ms se r s') (Fin expire)
      then judge_row se expire r s' else Some s')"
  by (simp add: sweep_row_def open_row_def Let_def del: One_nat_def)

lemma sweep_row_cases:
  assumes "sweep_row se expire r s = Some s'"
  obtains (passed) "s' = s\<lparr>sw_audited := sw_audited s + of_bool (open_row r)\<rparr>"
  | (judged) "jget r ''status'' = JStr ''claimed''" "judge_row se expire r (s\<lparr>sw_audited := sw_audited s + 1\<rparr>) = Some s'"
proof -
  define s1 where "s1 = s\<lparr>sw_audited := sw_audited s + of_bool (open_row r)\<rparr>"
  show ?thesis
  proof (cases "jget r ''status'' = JStr ''claimed'' \<and> \<not> num_le (silent_ms se r s1) (Fin expire)")
    case True
    then have "s1 = s\<lparr>sw_audited := sw_audited s + 1\<rparr>" by (simp add: s1_def open_row_def)
    with True assms judged show ?thesis by (simp add: sweep_row_eq flip: s1_def)
  next
    case False
    then have "sweep_row se expire r s = Some s1" unfolding sweep_row_eq Let_def s1_def by (rule if_not_P)
    then show ?thesis using assms passed s1_def by simp
  qed
qed

text \<open>A property of the state that every row keeps is kept by the whole sweep.\<close>

lemma sweep_rows_keep:
  assumes "sweep_rows se expire rows s = Some s'" "P s"
    "\<And>r s s'. r \<in> set rows \<Longrightarrow> P s \<Longrightarrow> sweep_row se expire r s = Some s' \<Longrightarrow> P s'"
  shows "P s'"
  using assms
proof (induction rows arbitrary: s)
  case (Cons r rows)
  from Cons.prems(1) obtain s1 where s1: "sweep_row se expire r s = Some s1" "sweep_rows se expire rows s1 = Some s'"
    by (auto split: option.splits)
  have "P s1" by (rule Cons.prems(3) [OF _ Cons.prems(2) s1(1)]) simp
  then show ?case by (rule Cons.IH [OF s1(2)]) (use Cons.prems(3) in auto)
qed simp

definition not_requeued :: "jsval \<Rightarrow> 'w sweep \<Rightarrow> bool" where
  "not_requeued task s \<longleftrightarrow> task \<notin> set (requeued_ids (sw_events s))"

lemma not_requeued_spared: "spared t s s' \<Longrightarrow> not_requeued task s \<Longrightarrow> not_requeued task s'"
  by (auto simp: spared_def quiet_def not_requeued_def)

lemma not_requeued_given: "given_back t s s' \<Longrightarrow> t \<noteq> task \<Longrightarrow> not_requeued task s \<Longrightarrow> not_requeued task s'"
  by (auto simp: given_back_def quiet_def not_requeued_def)

lemma always_alive_never_gone:
  assumes "se_alive se = Some ask" "\<forall>w. fst (ask task w) = Some (JBool True)"
  shows "fst (probe_process se task w) = Alive" "\<not> fst (confirm_kill se task w)"
proof -
  show probe: "fst (probe_process se task w) = Alive" for w
    using assms(1) assms(2) [rule_format, of w] by (auto simp: probe_process_def split: prod.split option.split)
  have "\<not> fst (confirm_loop se task n w)" for n w
  proof (induction n arbitrary: w)
    case 0
    then show ?case using probe [of w] by (auto split: prod.split)
  next
    case (Suc n)
    then show ?case using probe by (auto split: prod.split) (metis fst_conv)+
  qed
  then show "\<not> fst (confirm_kill se task w)" by (simp add: confirm_kill_def)
qed

section \<open>Properties\<close>

text \<open>C2: one task, one process. While the process of a task answers alive to every question and the
  stop of its handle reports success, the sweep never gives the task back to the queue, over the
  lifetime ceiling or not, whatever the clock, the adapter and the other rows do.\<close>

theorem living_process_never_doubled:
  assumes "se_alive se = Some ask" "\<forall>w. fst (ask task w) = Some (JBool True)"
    and "se_stop se = Some stop" "\<forall>w. fst (stop task w) = Some (JBool True)"
    and "liveness_sweep se expire rows w = Some s"
  shows "task \<notin> set (requeued_ids (sw_events s))"
proof -
  note alive = always_alive_never_gone [OF assms(1,2)]
  have "not_requeued task s"
  proof (rule sweep_rows_keep [OF assms(5) [unfolded liveness_sweep_def]])
    fix r :: jsval and s s' :: "'a sweep"
    assume inv: "not_requeued task s" and row: "sweep_row se expire r s = Some s'"
    from row show "not_requeued task s'"
    proof (cases rule: sweep_row_cases)
      case passed
      then show ?thesis using inv by (auto simp: not_requeued_def)
    next
      case judged
      have inv': "not_requeued task (s\<lparr>sw_audited := sw_audited s + 1\<rparr>)" using inv by (simp add: not_requeued_def)
      from judged(2) show ?thesis
      proof (cases rule: judge_row_cases)
        case spared
        then show ?thesis using inv' not_requeued_spared by blast
      next
        case (dead al w1 killed s2 s3)
        have "jget r ''id'' \<noteq> task"
        proof
          assume id: "jget r ''id'' = task"
          then have "killed = Some True"
            using dead(4) assms(3) assms(4) [rule_format, of w1]
            by (auto simp: stop_handle_def split: prod.splits)
          then show False using dead(5) alive(2) [of "sw_world s2"] id
            by (auto simp: confirmed_gone_def split: prod.splits)
        qed
        then show ?thesis using dead(1) inv' not_requeued_given by blast
      qed
    qed
  qed (simp add: not_requeued_def)
  then show ?thesis by (simp add: not_requeued_def)
qed

definition stuck_seams :: "unit seams" where
  "stuck_seams = \<lparr>se_alive = Some (\<lambda>_ w. (Some (JBool True), w)), se_stop = Some (\<lambda>_ w. (Some (JBool True), w)),
     se_sleep = (\<lambda>w. (True, w)), se_touch = None, se_fail = (\<lambda>_ _ w. (True, w)), se_attempts = (\<lambda>_ _. JArr []),
     se_clock = (\<lambda>_. 20000000), se_journal = True\<rparr>"

definition stuck_row :: jsval where
  "stuck_row = JObj [(''id'', JStr ''t''), (''status'', JStr ''claimed''), (''claimedAt'', JInt 1)]"

theorem living_process_never_doubled_witness:
  "(case liveness_sweep stuck_seams default_expire_ms [stuck_row] () of
      Some s \<Rightarrow> JStr ''t'' \<notin> set (requeued_ids (sw_events s)) \<and> sw_kill_unconfirmed s = 1
    | None \<Rightarrow> False)"
proof -
  obtain s where s: "liveness_sweep stuck_seams default_expire_ms [stuck_row] () = Some s" "sw_kill_unconfirmed s = 1"
  proof -
    have "map_option sw_kill_unconfirmed (liveness_sweep stuck_seams default_expire_ms [stuck_row] ()) = Some 1"
      by code_simp
    then show ?thesis using that by auto
  qed
  have "JStr ''t'' \<notin> set (requeued_ids (sw_events s))"
    by (rule living_process_never_doubled [where se = stuck_seams and ask = "\<lambda>_ w. (Some (JBool True), w)"
          and stop = "\<lambda>_ w. (Some (JBool True), w)", OF _ _ _ _ s(1)]) (simp_all add: stuck_seams_def)
  with s show ?thesis by simp
qed

text \<open>Silence is no verdict. A task whose process answers alive, or whose probe cannot be carried
  out at all, is never given back while the clock stands within the lifetime ceiling of every row of
  that task, however long the worker has been silent.\<close>

theorem silent_worker_is_spared:
  assumes "se_alive se = Some ask" "\<forall>w. fst (ask task w) = Some (JBool True) \<or> fst (ask task w) = None"
    and "\<forall>r w. r \<in> set rows \<and> jget r ''id'' = task \<longrightarrow>
      \<not> num_lt (Fin max_attempt_lifetime_ms)
        (num_sub (Fin (se_clock se w)) (to_num (coalesce (jget r ''claimedAt'') (last_touch r))))"
    and "liveness_sweep se expire rows w0 = Some s"
  shows "task \<notin> set (requeued_ids (sw_events s))"
proof -
  have probe: "fst (probe_process se task w) \<in> {Alive, Broken}" for w
    using assms(1) assms(2) [rule_format, of w] by (auto simp: probe_process_def split: prod.splits option.splits)
  have "not_requeued task s"
  proof (rule sweep_rows_keep [OF assms(4) [unfolded liveness_sweep_def]])
    fix r :: jsval and s s' :: "'a sweep"
    assume r: "r \<in> set rows" and inv: "not_requeued task s" and row: "sweep_row se expire r s = Some s'"
    from row show "not_requeued task s'"
    proof (cases rule: sweep_row_cases)
      case passed
      then show ?thesis using inv by (auto simp: not_requeued_def)
    next
      case judged
      have inv': "not_requeued task (s\<lparr>sw_audited := sw_audited s + 1\<rparr>)" using inv by (simp add: not_requeued_def)
      from judged(2) show ?thesis
      proof (cases rule: judge_row_cases)
        case spared
        then show ?thesis using inv' not_requeued_spared by blast
      next
        case (dead al w1 killed s2 s3)
        have "jget r ''id'' \<noteq> task"
        proof
          assume id: "jget r ''id'' = task"
          then have "al = Alive \<or> al = Broken" using dead(2) probe by (metis fst_conv insertE singletonD)
          then show False using dead(3) assms(3) r id unfolding lifetime_ms_def by blast
        qed
        then show ?thesis using dead(1) inv' not_requeued_given by blast
      qed
    qed
  qed (simp add: not_requeued_def)
  then show ?thesis by (simp add: not_requeued_def)
qed

theorem silent_worker_is_spared_witness:
  "(case liveness_sweep (stuck_seams\<lparr>se_clock := (\<lambda>_. 2000000)\<rparr>) default_expire_ms [stuck_row] () of
      Some s \<Rightarrow> JStr ''t'' \<notin> set (requeued_ids (sw_events s)) | None \<Rightarrow> False)"
proof -
  let ?se = "stuck_seams\<lparr>se_clock := (\<lambda>_. 2000000)\<rparr>"
  have "liveness_sweep ?se default_expire_ms [stuck_row] () \<noteq> None" by code_simp
  then obtain s where s: "liveness_sweep ?se default_expire_ms [stuck_row] () = Some s" by auto
  have "\<not> num_lt (Fin max_attempt_lifetime_ms)
      (num_sub (Fin 2000000) (to_num (coalesce (jget stuck_row ''claimedAt'') (last_touch stuck_row))))" by code_simp
  then have "JStr ''t'' \<notin> set (requeued_ids (sw_events s))"
    by (intro silent_worker_is_spared [where se = ?se, OF _ _ _ s]) (auto simp: stuck_seams_def)
  with s show ?thesis by simp
qed

definition claimed_ids :: "jsval list \<Rightarrow> jsval list" where
  "claimed_ids rows = map (\<lambda>r. jget r ''id'') (filter (\<lambda>r. jget r ''status'' = JStr ''claimed'') rows)"

text \<open>How the counters move over one row.\<close>

lemma sweep_row_counts:
  assumes "sweep_row se expire r s = Some s'"
  shows "sw_audited s' = sw_audited s + of_bool (open_row r)"
    and "(\<exists>ids. requeued_ids (sw_events s') = requeued_ids (sw_events s) @ ids \<and>
       subseq ids (claimed_ids [r]) \<and> sw_requeued s' = sw_requeued s + length ids \<and>
       sw_throttled s' \<le> sw_throttled s + length ids \<and>
       sw_renewed s' + sw_probe_broken s' + sw_kill_unconfirmed s' + length ids \<le>
       sw_renewed s + sw_probe_broken s + sw_kill_unconfirmed s + length (claimed_ids [r]))"
proof -
  have "sw_audited s' = sw_audited s + of_bool (open_row r) \<and>
    (\<exists>ids. requeued_ids (sw_events s') = requeued_ids (sw_events s) @ ids \<and>
       subseq ids (claimed_ids [r]) \<and> sw_requeued s' = sw_requeued s + length ids \<and>
       sw_throttled s' \<le> sw_throttled s + length ids \<and>
       sw_renewed s' + sw_probe_broken s' + sw_kill_unconfirmed s' + length ids \<le>
       sw_renewed s + sw_probe_broken s + sw_kill_unconfirmed s + length (claimed_ids [r]))"
    using assms
  proof (cases rule: sweep_row_cases)
    case passed
    then show ?thesis by (auto intro!: exI [of _ "[]"])
  next
    case judged
    have audit: "open_row r" and ids: "claimed_ids [r] = [jget r ''id'']"
      using judged(1) by (simp_all add: open_row_def claimed_ids_def)
    from judged(2) show ?thesis
    proof (cases rule: judge_row_cases)
      case spared
      then show ?thesis using audit ids
        by (auto simp: spared_def quiet_def intro!: exI [of _ "[]"])
    next
      case dead
      then show ?thesis using audit ids
        by (auto simp: given_back_def quiet_def intro!: exI [of _ "[jget r ''id'']"])
    qed
  qed
  then show "sw_audited s' = sw_audited s + of_bool (open_row r)"
    and "(\<exists>ids. requeued_ids (sw_events s') = requeued_ids (sw_events s) @ ids \<and>
       subseq ids (claimed_ids [r]) \<and> sw_requeued s' = sw_requeued s + length ids \<and>
       sw_throttled s' \<le> sw_throttled s + length ids \<and>
       sw_renewed s' + sw_probe_broken s' + sw_kill_unconfirmed s' + length ids \<le>
       sw_renewed s + sw_probe_broken s + sw_kill_unconfirmed s + length (claimed_ids [r]))"
    by blast+
qed

lemma sweep_rows_counts:
  assumes "sweep_rows se expire rows s = Some s'"
  shows "sw_audited s' = sw_audited s + length (filter open_row rows)"
    and "(\<exists>ids. requeued_ids (sw_events s') = requeued_ids (sw_events s) @ ids \<and>
       subseq ids (claimed_ids rows) \<and> sw_requeued s' = sw_requeued s + length ids \<and>
       sw_throttled s' \<le> sw_throttled s + length ids \<and>
       sw_renewed s' + sw_probe_broken s' + sw_kill_unconfirmed s' + length ids \<le>
       sw_renewed s + sw_probe_broken s + sw_kill_unconfirmed s + length (claimed_ids rows))"
  using assms
proof (induction rows arbitrary: s)
  case Nil
  { case 1 then show ?case by simp next case 2 then show ?case by auto }
next
  case (Cons r rows)
  {
    case 1
    then obtain s1 where s1: "sweep_row se expire r s = Some s1" "sweep_rows se expire rows s1 = Some s'"
      by (auto split: option.splits)
    show ?case using Cons.IH(1) [OF s1(2)] sweep_row_counts(1) [OF s1(1)] by simp
  next
    case 2
    then obtain s1 where s1: "sweep_row se expire r s = Some s1" "sweep_rows se expire rows s1 = Some s'"
      by (auto split: option.splits)
    have split: "claimed_ids (r # rows) = claimed_ids [r] @ claimed_ids rows" by (simp add: claimed_ids_def)
    obtain a where a: "requeued_ids (sw_events s1) = requeued_ids (sw_events s) @ a" "subseq a (claimed_ids [r])"
      "sw_requeued s1 = sw_requeued s + length a" "sw_throttled s1 \<le> sw_throttled s + length a"
      "sw_renewed s1 + sw_probe_broken s1 + sw_kill_unconfirmed s1 + length a \<le>
       sw_renewed s + sw_probe_broken s + sw_kill_unconfirmed s + length (claimed_ids [r])"
      using sweep_row_counts(2) [OF s1(1)] by blast
    obtain b where b: "requeued_ids (sw_events s') = requeued_ids (sw_events s1) @ b" "subseq b (claimed_ids rows)"
      "sw_requeued s' = sw_requeued s1 + length b" "sw_throttled s' \<le> sw_throttled s1 + length b"
      "sw_renewed s' + sw_probe_broken s' + sw_kill_unconfirmed s' + length b \<le>
       sw_renewed s1 + sw_probe_broken s1 + sw_kill_unconfirmed s1 + length (claimed_ids rows)"
      using Cons.IH(2) [OF s1(2)] by blast
    have "subseq (a @ b) (claimed_ids (r # rows))" unfolding split using a(2) b(2) by (rule list_emb_append_mono)
    then show ?case using a b split by (intro exI [of _ "a @ b"]) simp
  }
qed

text \<open>The sweep accounts for every row. It audits exactly the rows that are neither completed nor
  failed; the tasks it gives back are claimed rows of the list, in the list's order, each row at most
  once; \<open>requeued\<close> counts them, and together with \<open>renewed\<close>, \<open>probeBroken\<close> and \<open>killUnconfirmed\<close>
  never exceeds the number of claimed rows.\<close>

theorem sweep_accounts:
  assumes "liveness_sweep se expire rows w = Some s"
  shows "sw_audited s = length (filter open_row rows) \<and>
    subseq (requeued_ids (sw_events s)) (claimed_ids rows) \<and>
    sw_requeued s = length (requeued_ids (sw_events s)) \<and> sw_throttled s \<le> sw_requeued s \<and>
    sw_renewed s + sw_probe_broken s + sw_kill_unconfirmed s + sw_requeued s \<le> length (claimed_ids rows)"
  using sweep_rows_counts [OF assms [unfolded liveness_sweep_def]] by auto

theorem sweep_accounts_witness:
  "(case liveness_sweep (stuck_seams\<lparr>se_alive := None\<rparr>) default_expire_ms [stuck_row, stuck_row] () of
      Some s \<Rightarrow> subseq (requeued_ids (sw_events s)) [JStr ''t'', JStr ''t''] \<and> sw_requeued s = 2
    | None \<Rightarrow> False)"
proof -
  let ?run = "liveness_sweep (stuck_seams\<lparr>se_alive := None\<rparr>) default_expire_ms [stuck_row, stuck_row] ()"
  have "map_option sw_requeued ?run = Some 2" by code_simp
  then obtain s where s: "?run = Some s" "sw_requeued s = 2" by auto
  have "claimed_ids [stuck_row, stuck_row] = [JStr ''t'', JStr ''t'']" by code_simp
  with sweep_accounts [OF s(1)] s show ?thesis by simp
qed

lemmas cooldown_defs = compute_cooldown_ms_def base_cooldown_ms_def max_cooldown_ms_def

text \<open>The cooldown after failures without progress: none before the second, then two minutes
  doubling with every further one, never shorter for more failures and never longer than half an
  hour.\<close>

theorem cooldown_bounded:
  "compute_cooldown_ms 0 = 0 \<and> compute_cooldown_ms 1 = 0 \<and> compute_cooldown_ms 2 = 120000 \<and>
   mono compute_cooldown_ms \<and> range compute_cooldown_ms = {0, 120000, 240000, 480000, 960000, 1800000}"
proof -
  have mono: "mono compute_cooldown_ms"
  proof
    fix m n :: nat assume "m \<le> n"
    then have "(2::nat) ^ (m - 2) \<le> 2 ^ (n - 2)" by (intro power_increasing) auto
    then have "min (base_cooldown_ms * 2 ^ (m - 2)) max_cooldown_ms \<le> min (base_cooldown_ms * 2 ^ (n - 2)) max_cooldown_ms"
      by (intro min.mono mult_left_mono) auto
    with \<open>m \<le> n\<close> show "compute_cooldown_ms m \<le> compute_cooldown_ms n"
      by (auto simp: compute_cooldown_ms_def)
  qed
  have vals: "compute_cooldown_ms 0 = 0" "compute_cooldown_ms 1 = 0" "compute_cooldown_ms 2 = 120000"
    "compute_cooldown_ms 3 = 240000" "compute_cooldown_ms 4 = 480000" "compute_cooldown_ms 5 = 960000"
    by (simp_all add: cooldown_defs)
  have top6: "compute_cooldown_ms n = 1800000" if "6 \<le> n" for n
  proof -
    have "compute_cooldown_ms 6 \<le> compute_cooldown_ms n" by (rule monoD [OF mono that])
    moreover have "compute_cooldown_ms 6 = 1800000" by (simp add: cooldown_defs)
    moreover have "compute_cooldown_ms n \<le> 1800000" by (simp add: compute_cooldown_ms_def max_cooldown_ms_def)
    ultimately show ?thesis by simp
  qed
  have "range compute_cooldown_ms = {0, 120000, 240000, 480000, 960000, 1800000}"
  proof (intro equalityI subsetI)
    fix x assume "x \<in> range compute_cooldown_ms"
    then obtain n where x: "x = compute_cooldown_ms n" by auto
    have "n = 0 \<or> n = 1 \<or> n = 2 \<or> n = 3 \<or> n = 4 \<or> n = 5 \<or> 6 \<le> n" by arith
    then show "x \<in> {0, 120000, 240000, 480000, 960000, 1800000}" using x vals top6 [of n] by (elim disjE) simp_all
  next
    fix x assume "x \<in> {0, 120000, 240000, 480000, 960000, 1800000 :: nat}"
    then show "x \<in> range compute_cooldown_ms" using vals top6 [of 6] by (metis insert_iff emptyE order_refl rangeI)
  qed
  then show ?thesis using mono vals by blast
qed

end
