(* ===== verification/Breaker.thy ===== *)
theory Breaker
  imports Js_Num
begin

text \<open>
  The circuit breaker over rule fires, \<open>scripts/sma/lib/breaker.mjs\<close>: which rules may be tripped,
  the two-pointer search for a loop, the markers, the one note of a skip and the re-arming. The
  options are a JavaScript object; the directory of markers is a map from file name to marker, the
  journal a list of appended events; \<open>Date.parse\<close> and \<open>toISOString\<close> are arguments. \<open>listMarkers\<close>
  (a directory listing for the screen) is left out.
\<close>

definition default_breaker_threshold :: rat where "default_breaker_threshold = 10"
definition default_breaker_window_ms :: rat where "default_breaker_window_ms = 1800000"

section \<open>Rules and events\<close>

definition is_breakable_rule :: "jsval \<Rightarrow> bool" where
  "is_breakable_rule rule_id =
     (if \<not> is_str rule_id \<or> js_trim (str_of rule_id) = [] then False
      else let id = js_lower (js_trim (str_of rule_id)) in
           \<not> str_prefix ''sma-'' id \<and> \<not> str_prefix ''sec-'' id \<and>
           \<not> str_includes id ''guard'' \<and> \<not> str_includes id ''security'')"

definition compensating_control_for :: "string \<Rightarrow> string" where
  "compensating_control_for rule_id =
     (if str_prefix ''gate-'' (js_lower rule_id)
      then ''advisory tier only; soft-deny tier + security guard unaffected''
      else ''note stays in corpus; gates + security guard unaffected'')"

definition name_char :: "char \<Rightarrow> bool" where
  "name_char c \<longleftrightarrow> (let n = code_of c in
     65 \<le> n \<and> n \<le> 90 \<or> 97 \<le> n \<and> n \<le> 122 \<or> 48 \<le> n \<and> n \<le> 57 \<or>
     c = CHR ''.'' \<or> c = CHR ''_'' \<or> c = CHR ''-'')"

definition safe_name :: "string \<Rightarrow> string" where
  "safe_name rule_id = (let s = strip_dashes (dash_runs name_char False rule_id) in if s = [] then ''rule'' else s)"

definition rule_id_of :: "jsval \<Rightarrow> string option" where
  "rule_id_of e =
     (let d = jget e ''detail'' in
      if \<not> truthy e \<or> \<not> is_object d then None
      else if jget e ''type'' = JStr ''reflex'' \<and> truthy (jget d ''noteId'') then Some (to_str (jget d ''noteId''))
      else if jget e ''type'' = JStr ''gate'' \<and> truthy (jget d ''gateId'') then Some (to_str (jget d ''gateId''))
      else None)"

definition target_of :: "jsval \<Rightarrow> string" where
  "target_of e =
     (if is_str (jget e ''scope'') \<and> jget e ''scope'' \<noteq> JStr [] then str_of (jget e ''scope'')
      else if is_str (jget (jget e ''detail'') ''target'') then str_of (jget (jget e ''detail'') ''target'')
      else [])"

section \<open>The search for a loop\<close>

text \<open>\<open>while (ts[right] - ts[left] > windowMs) left++\<close>; past the end the difference is NaN.\<close>

function advance :: "rat list \<Rightarrow> rat \<Rightarrow> nat \<Rightarrow> nat \<Rightarrow> nat" where
  "advance ts w right left =
     (if left < length ts \<and> ts ! right - ts ! left > w then advance ts w right (left + 1) else left)"
  by pat_completeness auto
termination by (relation "measure (\<lambda>(ts, w, right, left). length ts - left)") auto

declare advance.simps [simp del]

function scan :: "rat list \<Rightarrow> rat \<Rightarrow> rat \<Rightarrow> nat \<Rightarrow> nat \<Rightarrow> (int \<times> nat \<times> nat) option" where
  "scan ts threshold w right left =
     (if right < length ts
      then let left' = advance ts w right left; count = int right - int left' + 1 in
           if of_int count \<ge> threshold then Some (count, left', right)
           else scan ts threshold w (right + 1) left'
      else None)"
  by pat_completeness auto
termination by (relation "measure (\<lambda>(ts, threshold, w, right, left). length ts - right)") auto

declare scan.simps [simp del]

record fire_group =
  fg_rule :: string
  fg_target :: string
  fg_ts :: "rat list"

definition loop_key :: "string \<Rightarrow> string \<Rightarrow> string" where
  "loop_key rule target = rule @ [CHR 0x00] @ target"

definition event_ms :: "(string \<Rightarrow> jsnum) \<Rightarrow> jsval \<Rightarrow> rat option" where
  "event_ms parse e = (case parse (to_str (jget e ''ts'')) of Fin q \<Rightarrow> Some q | _ \<Rightarrow> None)"

definition add_fire :: "(string \<Rightarrow> jsnum) \<Rightarrow> jsval \<Rightarrow> (string \<times> fire_group) list \<Rightarrow> (string \<times> fire_group) list" where
  "add_fire parse e groups =
     (case rule_id_of e of
        None \<Rightarrow> groups
      | Some [] \<Rightarrow> groups
      | Some rule \<Rightarrow>
          (case event_ms parse e of
             None \<Rightarrow> groups
           | Some t \<Rightarrow>
               let key = loop_key rule (target_of e);
                   g = (case map_of groups key of Some g \<Rightarrow> g
                        | None \<Rightarrow> \<lparr>fg_rule = rule, fg_target = target_of e, fg_ts = []\<rparr>)
               in aset key (g\<lparr>fg_ts := fg_ts g @ [t]\<rparr>) groups))"

record trip =
  tr_rule :: string
  tr_target :: string
  tr_count :: int
  tr_first :: string
  tr_last :: string

definition group_scan :: "rat \<Rightarrow> rat \<Rightarrow> fire_group \<Rightarrow> (int \<times> nat \<times> nat) option" where
  "group_scan threshold w g = scan (sort (fg_ts g)) threshold w 0 0"

definition group_trip :: "(rat \<Rightarrow> string) \<Rightarrow> rat \<Rightarrow> rat \<Rightarrow> fire_group \<Rightarrow> trip list" where
  "group_trip stamp threshold w g =
     (let ts = sort (fg_ts g) in
      case group_scan threshold w g of
        None \<Rightarrow> []
      | Some (count, l, r) \<Rightarrow>
          [\<lparr>tr_rule = fg_rule g, tr_target = fg_target g, tr_count = count,
            tr_first = stamp (ts ! l), tr_last = stamp (ts ! r)\<rparr>])"

text \<open>A left end past the list (a negative window) makes \<open>toISOString\<close> throw, and the whole search
  answer \<open>[]\<close>.\<close>

definition left_past :: "rat \<Rightarrow> rat \<Rightarrow> fire_group \<Rightarrow> bool" where
  "left_past threshold w g =
     (case group_scan threshold w g of Some (_, l, _) \<Rightarrow> l \<ge> length (fg_ts g) | None \<Rightarrow> False)"

definition detect_loops ::
    "(string \<Rightarrow> jsnum) \<Rightarrow> (rat \<Rightarrow> string) \<Rightarrow> jsval list \<Rightarrow> rat \<Rightarrow> rat \<Rightarrow> trip list" where
  "detect_loops parse stamp events threshold w =
     (let groups = map snd (fold (add_fire parse) events []) in
      if list_ex (left_past threshold w) groups then []
      else concat (map (group_trip stamp threshold w) groups))"

section \<open>Markers\<close>

type_synonym markers = "(string \<times> jsval) list"

text \<open>\<open>Number.isFinite(v) ? v : d\<close>.\<close>

definition finite_or :: "jsval \<Rightarrow> rat \<Rightarrow> rat" where
  "finite_or v d = (case v of JNum (Fin q) \<Rightarrow> q | _ \<Rightarrow> d)"

definition marker_file :: "string \<Rightarrow> string" where
  "marker_file rule_id = safe_name rule_id @ ''.json''"

definition is_tripped :: "jsval \<Rightarrow> string \<Rightarrow> markers \<Rightarrow> bool" where
  "is_tripped breaker_dir rule_id ms \<longleftrightarrow> truthy breaker_dir \<and> has_own ms (marker_file rule_id)"

definition str_or :: "jsval \<Rightarrow> string \<Rightarrow> jsval" where
  "str_or v d = (if is_str v then v else JStr d)"

definition marker_of :: "(rat \<Rightarrow> string) \<Rightarrow> jsval \<Rightarrow> rat \<Rightarrow> rat \<Rightarrow> trip \<Rightarrow> jsval" where
  "marker_of stamp opts w now t =
     JObj [(''ruleId'', JStr (tr_rule t)), (''target'', JStr (tr_target t)), (''tripCount'', JInt (tr_count t)),
       (''windowMs'', JNum (Fin w)), (''firstTs'', JStr (tr_first t)), (''lastTs'', JStr (tr_last t)),
       (''disabledAt'', JStr (stamp now)), (''by'', str_or (jget opts ''by'') ''breaker''),
       (''compensatingControl'', JStr (compensating_control_for (tr_rule t))), (''reviewRequired'', JBool True)]"

definition trip_event :: "jsval \<Rightarrow> trip \<Rightarrow> jsval" where
  "trip_event opts t =
     JObj [(''type'', JStr ''breaker-trip''),
       (''actors'', JArr [js_or (jget opts ''terminalId'') (str_or (jget opts ''by'') ''breaker'')]),
       (''scope'', JStr (tr_rule t)),
       (''detail'', JObj [(''ruleId'', JStr (tr_rule t)), (''tripCount'', JInt (tr_count t)),
          (''compensatingControl'', JStr (compensating_control_for (tr_rule t)))])]"

record breaker_state =
  bs_markers :: markers
  bs_journal :: "jsval list"

definition journal_if :: "jsval \<Rightarrow> jsval \<Rightarrow> breaker_state \<Rightarrow> breaker_state" where
  "journal_if opts e s = (if truthy (jget opts ''journalDir'') then s\<lparr>bs_journal := bs_journal s @ [e]\<rparr> else s)"

definition write_marker :: "(rat \<Rightarrow> string) \<Rightarrow> jsval \<Rightarrow> rat \<Rightarrow> rat \<Rightarrow> trip \<Rightarrow> breaker_state
    \<Rightarrow> jsval option \<times> breaker_state" where
  "write_marker stamp opts w now t s =
     (if \<not> truthy (jget opts ''breakerDir'') then (None, s)
      else let m = marker_of stamp opts w now t in
           (Some m, journal_if opts (trip_event opts t)
                      (s\<lparr>bs_markers := aset (marker_file (tr_rule t)) m (bs_markers s)\<rparr>)))"

fun trip_all :: "(rat \<Rightarrow> string) \<Rightarrow> jsval \<Rightarrow> rat \<Rightarrow> rat \<Rightarrow> trip list \<Rightarrow> breaker_state
    \<Rightarrow> jsval list \<times> breaker_state" where
  "trip_all stamp opts w now [] s = ([], s)"
| "trip_all stamp opts w now (t # ts) s =
     (if \<not> is_breakable_rule (JStr (tr_rule t)) then trip_all stamp opts w now ts s
      else if is_tripped (jget opts ''breakerDir'') (tr_rule t) (bs_markers s) then trip_all stamp opts w now ts s
      else case write_marker stamp opts w now t s of (m, s1) \<Rightarrow>
             (case trip_all stamp opts w now ts s1 of (ms, s2) \<Rightarrow>
                ((case m of Some x \<Rightarrow> x # ms | None \<Rightarrow> ms), s2)))"

definition recent_event :: "(string \<Rightarrow> jsnum) \<Rightarrow> rat \<Rightarrow> rat \<Rightarrow> jsval \<Rightarrow> bool" where
  "recent_event parse now w e =
     (case parse (to_str (and_get e ''ts'')) of Fin t \<Rightarrow> t \<ge> now - w | _ \<Rightarrow> True)"

text \<open>The reader answers a value or throws; an answer whose \<open>events\<close> is no array ends the pass.\<close>

definition journal_events :: "jsval option \<Rightarrow> jsval list" where
  "journal_events answer =
     (case answer of
        None \<Rightarrow> []
      | Some r \<Rightarrow> if is_arr r then elems r else elems (js_or (and_get r ''events'') (JArr [])))"

definition detect_and_trip ::
    "(string \<Rightarrow> jsnum) \<Rightarrow> (rat \<Rightarrow> string) \<Rightarrow> rat \<Rightarrow> jsval \<Rightarrow> jsval option \<Rightarrow> breaker_state \<Rightarrow> jsval list \<times> breaker_state" where
  "detect_and_trip parse stamp date_now opts answer s =
     (let threshold = finite_or (jget opts ''threshold'') default_breaker_threshold;
          w = finite_or (jget opts ''windowMs'') default_breaker_window_ms;
          now = finite_or (jget opts ''now'') date_now;
          recent = filter (recent_event parse now w) (journal_events answer)
      in trip_all stamp opts w now (detect_loops parse stamp recent threshold w) s)"

text \<open>\<open>seen.keys\<close> is the memory of one session: the skip of a rule is journaled the first time.\<close>

definition record_skip_once :: "string \<Rightarrow> jsval \<Rightarrow> (string \<times> nat) list \<Rightarrow> jsval list
    \<Rightarrow> bool \<times> (string \<times> nat) list \<times> jsval list" where
  "record_skip_once rule_id opts keys journal =
     (let key = ''breaker-skip:'' @ rule_id in
      case map_of keys key of
        Some (Suc n) \<Rightarrow> (False, aset key (Suc n + 1) keys, journal)
      | _ \<Rightarrow> (True, aset key 1 keys,
          if truthy (jget opts ''journalDir'') \<and> truthy (jget opts ''terminalId'')
          then journal @ [JObj [(''type'', JStr ''breaker-skip''), (''actors'', JArr [jget opts ''terminalId'']),
                 (''scope'', JStr rule_id), (''detail'', JObj [(''ruleId'', JStr rule_id)])]]
          else journal))"

definition re_arm :: "string \<Rightarrow> jsval \<Rightarrow> breaker_state \<Rightarrow> bool \<times> breaker_state" where
  "re_arm rule_id opts s =
     (if \<not> truthy (jget opts ''breakerDir'') then (False, s)
      else if \<not> has_own (bs_markers s) (marker_file rule_id) then (False, s)
      else (True, journal_if opts
             (JObj [(''type'', JStr ''breaker-rearm''),
                (''actors'', JArr [js_or (jget opts ''terminalId'') (JStr ''unknown'')]),
                (''scope'', JStr rule_id),
                (''detail'', JObj [(''ruleId'', JStr rule_id), (''by'', str_or (jget opts ''by'') ''unknown'')])])
             (s\<lparr>bs_markers := adel (marker_file rule_id) (bs_markers s)\<rparr>)))"

section \<open>The search is exact\<close>

definition dense :: "rat list \<Rightarrow> rat \<Rightarrow> rat \<Rightarrow> bool" where
  "dense ts threshold w \<longleftrightarrow>
     (\<exists>i j. i \<le> j \<and> j < length ts \<and> threshold \<le> of_nat (j - i + 1) \<and> ts ! j - ts ! i \<le> w)"

lemma advance_facts:
  assumes "0 \<le> w" "right < length ts" "left \<le> right"
  shows "left \<le> advance ts w right left \<and> advance ts w right left \<le> right \<and>
    ts ! right - ts ! advance ts w right left \<le> w \<and>
    (\<forall>l. left \<le> l \<and> l < advance ts w right left \<longrightarrow> w < ts ! right - ts ! l)"
  using assms
proof (induction ts w right left rule: advance.induct)
  case (1 ts w right left)
  show ?case
  proof (cases "left < length ts \<and> ts ! right - ts ! left > w")
    case True
    then have eq: "advance ts w right left = advance ts w right (left + 1)" by (subst advance.simps) simp
    have "left \<noteq> right" using True "1.prems"(1) by auto
    then have "left + 1 \<le> right" using "1.prems"(3) by simp
    then have IH: "left + 1 \<le> advance ts w right (left + 1) \<and> advance ts w right (left + 1) \<le> right \<and>
        ts ! right - ts ! advance ts w right (left + 1) \<le> w \<and>
        (\<forall>l. left + 1 \<le> l \<and> l < advance ts w right (left + 1) \<longrightarrow> w < ts ! right - ts ! l)"
      by (intro "1.IH" True "1.prems"(1,2))
    have "w < ts ! right - ts ! l" if "left \<le> l" "l < advance ts w right (left + 1)" for l
      using that IH True by (cases "l = left") auto
    then show ?thesis unfolding eq using IH by auto
  next
    case False
    then have "advance ts w right left = left" by (subst advance.simps) auto
    moreover have "\<not> (ts ! right - ts ! left > w)" using False "1.prems" by auto
    ultimately show ?thesis using "1.prems" by auto
  qed
qed

lemma scan_exact:
  assumes "sorted ts" "0 \<le> w" "left \<le> right" "\<forall>j l. right \<le> j \<and> j < length ts \<and> l < left \<longrightarrow> w < ts ! j - ts ! l"
  shows "(case scan ts threshold w right left of
      None \<Rightarrow> \<not> (\<exists>i j. right \<le> j \<and> i \<le> j \<and> j < length ts \<and> threshold \<le> of_nat (j - i + 1) \<and> ts ! j - ts ! i \<le> w)
    | Some (count, l, r) \<Rightarrow> l \<le> r \<and> r < length ts \<and> count = int (r - l + 1) \<and> threshold \<le> of_int count \<and>
        ts ! r - ts ! l \<le> w)"
  using assms
proof (induction ts threshold w right left rule: scan.induct)
  case (1 ts threshold w right left)
  show ?case
  proof (cases "right < length ts")
    case False
    then show ?thesis by (subst scan.simps) auto
  next
    case True
    define l where "l = advance ts w right left"
    have adv: "left \<le> l" "l \<le> right" "ts ! right - ts ! l \<le> w"
      "\<forall>k. left \<le> k \<and> k < l \<longrightarrow> w < ts ! right - ts ! k"
      using advance_facts [OF "1.prems"(2) True "1.prems"(3)] by (simp_all add: l_def)
    have count: "int right - int l + 1 = int (right - l + 1)" using adv(2) by simp
    have below: "w < ts ! j - ts ! k" if "right \<le> j" "j < length ts" "k < l" for j k
    proof (cases "k < left")
      case True
      then show ?thesis using "1.prems"(4) that by blast
    next
      case False
      then have "w < ts ! right - ts ! k" using adv(4) that(3) by simp
      moreover have "ts ! right \<le> ts ! j" using "1.prems"(1) that by (simp add: sorted_nth_mono)
      ultimately show ?thesis by simp
    qed
    show ?thesis
    proof (cases "threshold \<le> of_int (int right - int l + 1)")
      case yes: True
      then have "scan ts threshold w right left = Some (int right - int l + 1, l, right)"
        unfolding l_def by (subst scan.simps) (simp only: True Let_def if_True)
      then show ?thesis
        unfolding option.case prod.case by (intro conjI adv(2,3) True count yes | simp only: option.case prod.case)+
    next
      case no: False
      then have eq: "scan ts threshold w right left = scan ts threshold w (right + 1) l"
        unfolding l_def by (subst scan.simps) (simp only: True Let_def if_True if_False)
      have IH: "(case scan ts threshold w (right + 1) l of
          None \<Rightarrow> \<not> (\<exists>i j. right + 1 \<le> j \<and> i \<le> j \<and> j < length ts \<and> threshold \<le> of_nat (j - i + 1) \<and> ts ! j - ts ! i \<le> w)
        | Some (count, l, r) \<Rightarrow> l \<le> r \<and> r < length ts \<and> count = int (r - l + 1) \<and> threshold \<le> of_int count \<and>
            ts ! r - ts ! l \<le> w)"
      proof (rule "1.IH" [OF True l_def refl])
        show "\<not> threshold \<le> of_int (int right - int l + 1)" by (rule no)
        show "sorted ts" "0 \<le> w" by (rule "1.prems")+
        show "l \<le> right + 1" using adv(2) by simp
        show "\<forall>j k. right + 1 \<le> j \<and> j < length ts \<and> k < l \<longrightarrow> w < ts ! j - ts ! k"
          using below by (meson add_leD1)
      qed
      have short: "\<not> (threshold \<le> of_nat (right - i + 1) \<and> ts ! right - ts ! i \<le> w)" if "i \<le> right" for i
      proof (cases "i < l")
        case True
        then show ?thesis using below [of right i] \<open>right < length ts\<close> by simp
      next
        case False
        then have "(of_nat (right - i + 1) :: rat) \<le> of_nat (right - l + 1)" by simp
        moreover have "of_int (int right - int l + 1) = (of_nat (right - l + 1) :: rat)" unfolding count by simp
        ultimately show ?thesis using no by linarith
      qed
      show ?thesis
      proof (cases "scan ts threshold w (right + 1) l")
        case None
        have "\<not> (\<exists>i j. right \<le> j \<and> i \<le> j \<and> j < length ts \<and> threshold \<le> of_nat (j - i + 1) \<and> ts ! j - ts ! i \<le> w)"
        proof (intro notI, elim exE conjE)
          fix i j assume "right \<le> j" "i \<le> j" "j < length ts" "threshold \<le> of_nat (j - i + 1)" "ts ! j - ts ! i \<le> w"
          then show False using IH None short [of i] by (cases "j = right") auto
        qed
        then show ?thesis using eq None by simp
      next
        case (Some x)
        then show ?thesis using IH eq by simp
      qed
    qed
  qed
qed

section \<open>The groups are the fires of one rule on one target\<close>

definition fire_key :: "(string \<Rightarrow> jsnum) \<Rightarrow> jsval \<Rightarrow> (string \<times> rat) option" where
  "fire_key parse e =
     (case rule_id_of e of
        Some (c # cs) \<Rightarrow> map_option (\<lambda>t. (loop_key (c # cs) (target_of e), t)) (event_ms parse e)
      | _ \<Rightarrow> None)"

text \<open>The moments of the fires with one key, in the order of the events.\<close>

definition fire_times :: "(string \<Rightarrow> jsnum) \<Rightarrow> jsval list \<Rightarrow> string \<Rightarrow> rat list" where
  "fire_times parse events k = map snd (filter (\<lambda>(k', _). k' = k) (List.map_filter (fire_key parse) events))"

definition group_ts :: "(string \<times> fire_group) list \<Rightarrow> string \<Rightarrow> rat list" where
  "group_ts groups k = (case map_of groups k of None \<Rightarrow> [] | Some g \<Rightarrow> fg_ts g)"

definition keyed :: "(string \<times> fire_group) list \<Rightarrow> bool" where
  "keyed groups \<longleftrightarrow> wf_map groups \<and> (\<forall>k g. map_of groups k = Some g \<longrightarrow> k = loop_key (fg_rule g) (fg_target g))"

lemma add_fire_ts:
  "group_ts (add_fire parse e groups) k =
     group_ts groups k @ (case fire_key parse e of Some (k', t) \<Rightarrow> if k' = k then [t] else [] | None \<Rightarrow> [])"
  by (auto simp: add_fire_def fire_key_def group_ts_def Let_def split: option.splits list.splits)

lemma fire_times_Cons:
  "fire_times parse (e # es) k =
     (case fire_key parse e of Some (k', t) \<Rightarrow> if k' = k then [t] else [] | None \<Rightarrow> []) @ fire_times parse es k"
  by (auto simp: fire_times_def List.map_filter_simps split: option.splits)

lemma fold_add_fire_ts:
  "group_ts (fold (add_fire parse) es groups) k = group_ts groups k @ fire_times parse es k"
proof (induction es arbitrary: groups)
  case Nil
  then show ?case by (simp add: fire_times_def List.map_filter_simps)
next
  case (Cons e es)
  then show ?case by (simp add: fire_times_Cons add_fire_ts)
qed

lemma add_fire_keyed: "keyed groups \<Longrightarrow> keyed (add_fire parse e groups)"
  by (auto simp: add_fire_def keyed_def Let_def split: option.splits list.splits if_splits)

lemma fold_add_fire_keyed: "keyed groups \<Longrightarrow> keyed (fold (add_fire parse) es groups)"
  by (induction es arbitrary: groups) (auto intro: add_fire_keyed)

lemma group_scan_exact:
  assumes "0 \<le> w"
  shows "group_scan threshold w g \<noteq> None \<longleftrightarrow> dense (sort (fg_ts g)) threshold w" "\<not> left_past threshold w g"
    "group_scan threshold w g = Some (count, l, r) \<Longrightarrow> threshold \<le> of_int count"
proof -
  define ts where "ts = sort (fg_ts g)"
  have exact: "(case scan ts threshold w 0 0 of
      None \<Rightarrow> \<not> (\<exists>i j. 0 \<le> j \<and> i \<le> j \<and> j < length ts \<and> threshold \<le> of_nat (j - i + 1) \<and> ts ! j - ts ! i \<le> w)
    | Some (count, l, r) \<Rightarrow> l \<le> r \<and> r < length ts \<and> count = int (r - l + 1) \<and> threshold \<le> of_int count \<and>
        ts ! r - ts ! l \<le> w)"
    by (rule scan_exact) (simp_all add: ts_def assms)
  have scan: "group_scan threshold w g = scan ts threshold w 0 0" by (simp add: group_scan_def ts_def)
  show "\<not> left_past threshold w g" "group_scan threshold w g = Some (count, l, r) \<Longrightarrow> threshold \<le> of_int count"
    using exact by (auto simp: scan left_past_def ts_def split: option.splits)
  show "group_scan threshold w g \<noteq> None \<longleftrightarrow> dense (sort (fg_ts g)) threshold w"
  proof (cases "scan ts threshold w 0 0")
    case None
    have "\<not> dense ts threshold w" using exact unfolding None option.case dense_def by blast
    then show ?thesis using None by (simp add: scan ts_def)
  next
    case (Some x)
    obtain c l r where x: "x = (c, l, r)" by (cases x)
    have "l \<le> r" "r < length ts" "c = int (r - l + 1)" "threshold \<le> of_int c" "ts ! r - ts ! l \<le> w"
      using exact unfolding Some x option.case prod.case by blast+
    moreover from this have "threshold \<le> of_nat (r - l + 1)" by (simp only: of_int_of_nat_eq)
    ultimately have "dense ts threshold w" unfolding dense_def by blast
    with Some scan show ?thesis by (simp add: ts_def)
  qed
qed

lemma detect_loops_eq:
  "0 \<le> w \<Longrightarrow> detect_loops parse stamp events threshold w =
     concat (map (\<lambda>(k, g). group_trip stamp threshold w g) (fold (add_fire parse) events []))"
  by (auto simp: detect_loops_def Let_def list_ex_iff group_scan_exact(2) comp_def case_prod_unfold)

section \<open>What a pass may write\<close>

definition only_added :: "markers \<Rightarrow> markers \<Rightarrow> jsval list \<Rightarrow> bool" where
  "only_added old new ms \<longleftrightarrow>
     list_all (\<lambda>m. is_breakable_rule (jget m ''ruleId'')) ms \<and>
     (\<forall>file m. map_of new file = Some m \<longleftrightarrow>
        map_of old file = Some m \<or>
        map_of old file = None \<and> m \<in> set ms \<and> file = marker_file (str_of (jget m ''ruleId'')))"

lemma marker_rule [simp]: "jget (marker_of stamp opts w now t) ''ruleId'' = JStr (tr_rule t)"
  by (simp add: marker_of_def own_get_def)

lemma trip_all_only_added:
  "trip_all stamp opts w now ts s = (ms, s') \<Longrightarrow> only_added (bs_markers s) (bs_markers s') ms \<and>
     (\<forall>m \<in> set ms. map_of (bs_markers s) (marker_file (str_of (jget m ''ruleId''))) = None)"
proof (induction ts arbitrary: s ms s')
  case Nil
  then show ?case by (auto simp: only_added_def)
next
  case (Cons t ts)
  show ?case
  proof (cases "\<not> is_breakable_rule (JStr (tr_rule t)) \<or>
      is_tripped (jget opts ''breakerDir'') (tr_rule t) (bs_markers s)")
    case True
    with Cons.prems have "trip_all stamp opts w now ts s = (ms, s')" by (auto split: if_splits)
    then show ?thesis by (rule Cons.IH)
  next
    case False
    obtain m s1 where wm: "write_marker stamp opts w now t s = (m, s1)" by (cases "write_marker stamp opts w now t s")
    obtain ms1 s2 where rest: "trip_all stamp opts w now ts s1 = (ms1, s2)" by (cases "trip_all stamp opts w now ts s1")
    have IH: "only_added (bs_markers s1) (bs_markers s2) ms1"
      "\<forall>m \<in> set ms1. map_of (bs_markers s1) (marker_file (str_of (jget m ''ruleId''))) = None"
      using Cons.IH [OF rest] by auto
    from Cons.prems False wm rest have res: "s' = s2" "ms = (case m of Some x \<Rightarrow> x # ms1 | None \<Rightarrow> ms1)"
      by (auto split: if_splits)
    show ?thesis
    proof (cases "truthy (jget opts ''breakerDir'')")
      case no_dir: False
      then have "m = None" "s1 = s" using wm by (auto simp: write_marker_def)
      then show ?thesis using IH res by simp
    next
      case dir: True
      then have m: "m = Some (marker_of stamp opts w now t)"
        and s1: "bs_markers s1 = aset (marker_file (tr_rule t)) (marker_of stamp opts w now t) (bs_markers s)"
        using wm by (auto simp: write_marker_def Let_def journal_if_def)
      have free: "map_of (bs_markers s) (marker_file (tr_rule t)) = None"
        using False dir by (auto simp: is_tripped_def set_akeys_dom)
      show ?thesis
        using IH False m s1 free res by (auto simp: only_added_def split: if_splits)
    qed
  qed
qed

section \<open>Properties\<close>

text \<open>C40: the two-pointer search is exact. For a window that is not negative, a rule on a target is
  reported as a loop exactly when at least \<open>threshold\<close> of its fires lie within one window, whatever
  the order of the events; and every reported count reaches the threshold.\<close>

theorem loops_found_exactly:
  assumes "0 \<le> w"
  shows "((\<exists>t \<in> set (detect_loops parse stamp events threshold w). loop_key (tr_rule t) (tr_target t) = k) \<longleftrightarrow>
       dense (sort (fire_times parse events k)) threshold w) \<and>
     list_all (\<lambda>t. threshold \<le> of_int (tr_count t)) (detect_loops parse stamp events threshold w)"
proof -
  define groups where "groups = fold (add_fire parse) events []"
  have key: "keyed groups" unfolding groups_def by (rule fold_add_fire_keyed) (simp add: keyed_def)
  then have dist: "distinct (map fst groups)" by (simp add: keyed_def wf_map_def akeys_def)
  have ts: "group_ts groups k = fire_times parse events k" for k
    unfolding groups_def by (simp add: fold_add_fire_ts) (simp add: group_ts_def)
  have trips: "detect_loops parse stamp events threshold w = concat (map (\<lambda>(k, g). group_trip stamp threshold w g) groups)"
    unfolding groups_def by (rule detect_loops_eq [OF assms])
  have one: "(\<exists>t \<in> set (group_trip stamp threshold w g). loop_key (tr_rule t) (tr_target t) = k) \<longleftrightarrow>
      loop_key (fg_rule g) (fg_target g) = k \<and> dense (sort (fg_ts g)) threshold w" for g
    using group_scan_exact(1) [OF assms, of threshold g]
    by (cases "group_scan threshold w g") (auto simp: group_trip_def Let_def)
  have "(\<exists>t \<in> set (detect_loops parse stamp events threshold w). loop_key (tr_rule t) (tr_target t) = k) \<longleftrightarrow>
      (\<exists>k' g. (k', g) \<in> set groups \<and> loop_key (fg_rule g) (fg_target g) = k \<and> dense (sort (fg_ts g)) threshold w)"
    unfolding trips using one by fastforce
  also have "\<dots> \<longleftrightarrow> (\<exists>g. map_of groups k = Some g \<and> dense (sort (fg_ts g)) threshold w)"
    using key dist by (auto simp: keyed_def map_of_eq_Some_iff)
  also have "\<dots> \<longleftrightarrow> dense (sort (group_ts groups k)) threshold w"
    by (auto simp: group_ts_def dense_def split: option.split)
  finally have first: "(\<exists>t \<in> set (detect_loops parse stamp events threshold w). loop_key (tr_rule t) (tr_target t) = k) \<longleftrightarrow>
      dense (sort (fire_times parse events k)) threshold w" unfolding ts .
  have "threshold \<le> of_int (tr_count t)" if "t \<in> set (group_trip stamp threshold w g)" for t g
    using that group_scan_exact(3) [OF assms, of threshold g]
    by (cases "group_scan threshold w g") (auto simp: group_trip_def Let_def)
  then have "list_all (\<lambda>t. threshold \<le> of_int (tr_count t)) (detect_loops parse stamp events threshold w)"
    unfolding trips list_all_iff by fastforce
  with first show ?thesis by simp
qed

definition fire_of :: "string \<Rightarrow> string \<Rightarrow> jsval" where
  "fire_of note ts = JObj [(''type'', JStr ''reflex''), (''ts'', JStr ts), (''scope'', JStr ''f''),
     (''detail'', JObj [(''noteId'', JStr note)])]"

definition fires :: "jsval list" where
  "fires = [fire_of ''a'' ''9'', fire_of ''b'' ''1'', fire_of ''a'' ''5'', fire_of ''a'' ''1'']"

theorem loops_found_exactly_witness:
  "dense (sort (fire_times str_to_num fires (loop_key ''a'' ''f''))) 2 4 \<and>
   list_all (\<lambda>t. 2 \<le> (of_int (tr_count t) :: rat)) (detect_loops str_to_num (\<lambda>_. ''t'') fires 2 4)"
proof -
  have "list_ex (\<lambda>t. loop_key (tr_rule t) (tr_target t) = loop_key ''a'' ''f'')
      (detect_loops str_to_num (\<lambda>_. ''t'') fires 2 4)" by code_simp
  then show ?thesis using loops_found_exactly [of 4 str_to_num "\<lambda>_. ''t''" fires 2 "loop_key ''a'' ''f''"]
    by (simp add: list_ex_iff)
qed

text \<open>The fence around the safety rules. A pass of the breaker leaves every existing marker as it
  is, adds exactly the markers it answers, each under the file of its rule where there was none, and
  each for a rule that may be tripped: never for one that names a guard or security, or begins with
  \<open>SMA-\<close> or \<open>SEC-\<close>.\<close>

theorem only_breakable_rules_marked:
  "let (ms, s') = detect_and_trip parse stamp date_now opts answer s in
     only_added (bs_markers s) (bs_markers s') ms"
  using trip_all_only_added [OF prod.collapse [symmetric]]
  by (simp add: detect_and_trip_def Let_def split_beta)

text \<open>The file name of a marker forgets which rule it is for. A pass that trips the breakable rule
  \<open>#SMA-01\<close> makes \<open>isTripped\<close> answer yes for the safety rule \<open>SMA-01\<close>, and re-arming \<open>SMA-01\<close>
  removes the marker of the other rule.\<close>

theorem marker_name_collision:
  "let opts = JObj [(''breakerDir'', JStr ''d''), (''threshold'', JInt 2), (''now'', JInt 9)];
       (ms, s) = detect_and_trip str_to_num (\<lambda>_. ''t'') 0 opts
         (Some (JArr [fire_of ''#SMA-01'' ''9'', fire_of ''#SMA-01'' ''8'']))
         \<lparr>bs_markers = [], bs_journal = []\<rparr>
   in \<not> is_breakable_rule (JStr ''SMA-01'') \<and> is_tripped (JStr ''d'') ''SMA-01'' (bs_markers s) \<and>
      map (\<lambda>m. jget m ''ruleId'') ms = [JStr ''#SMA-01''] \<and>
      fst (re_arm ''SMA-01'' opts s) \<and> bs_markers (snd (re_arm ''SMA-01'' opts s)) = []"
  by code_simp

end
