(* ===== verification/Ledger.thy ===== *)
theory Ledger
  imports Capability Js_Num
begin

text \<open>
  The ledger of attempts, \<open>daemon/src/queue/attempt-ledger.mjs\<close>: recording a row, reading a task's
  rows back, folding them into one record per attempt, and the number a new attempt may carry. The
  ledger directory is a map from file name to the rows appended to it; \<open>Date.parse\<close>,
  \<open>toISOString\<close> and SHA-256 are arguments. The journal and log files of the same module, appends and
  reads of prose, are not modelled.
\<close>

section \<open>Vocabulary\<close>

definition allowed_attempt_keys :: "string list" where
  "allowed_attempt_keys =
    [''taskId'', ''attempt'', ''workerId'', ''provider'', ''startedAt'', ''endedAt'', ''outcome'',
     ''failureReason'', ''receiptRef'', ''failureDetail'', ''policyVersion'', ''memorySnapshotHash'',
     ''planHash'', ''harnessVersion'', ''stateMachineVersion'', ''idempotencyKey'',
     ''capabilityEnvelopeHash'', ''sessionId'', ''reconstructed'', ''base'', ''branch'',
     ''worktreePath'', ''materialized'', ''provisionMs'', ''cleanup'', ''files'', ''deletions'',
     ''filesOverflow'', ''deletionsOverflow'', ''personalLayer'', ''mcpConfig'', ''spawn'',
     ''sessionStart'', ''closed'', ''memoryHarvest'', ''runDir'', ''parity'', ''sync'', ''turnCap'',
     ''turnsUsed'', ''turnKinds'', ''conflictsWith'']"

definition terminal_outcomes :: "string list" where
  "terminal_outcomes = [''completed'', ''failed'']"

definition stamp_keys :: "string list" where
  "stamp_keys = [''startedAt'', ''endedAt'']"

definition is_terminal_outcome :: "jsval \<Rightarrow> bool" where
  "is_terminal_outcome v \<longleftrightarrow> is_str v \<and> List.member terminal_outcomes (str_of v)"

definition iso_stamp :: "(string \<Rightarrow> jsnum) \<Rightarrow> (rat \<Rightarrow> string) \<Rightarrow> jsval \<Rightarrow> string option" where
  "iso_stamp parse stamp v =
     (case v of
        JNum (Fin q) \<Rightarrow> Some (stamp q)
      | JStr s \<Rightarrow> (case parse s of Fin q \<Rightarrow> Some (stamp q) | _ \<Rightarrow> None)
      | _ \<Rightarrow> None)"

section \<open>One record per attempt\<close>

definition stamp_ms :: "(string \<Rightarrow> jsnum) \<Rightarrow> jsval \<Rightarrow> jsnum" where
  "stamp_ms parse v = (case v of JNum n \<Rightarrow> (if is_finite_num n then n else NaN) | JStr s \<Rightarrow> parse s | _ \<Rightarrow> NaN)"

definition pick_stamp :: "(string \<Rightarrow> jsnum) \<Rightarrow> jsval \<Rightarrow> jsval \<Rightarrow> bool \<Rightarrow> jsval" where
  "pick_stamp parse a b want_earlier =
     (let ma = stamp_ms parse a; mb = stamp_ms parse b in
      if \<not> is_finite_num ma then b
      else if \<not> is_finite_num mb then a
      else if (if want_earlier then num_le ma mb else num_le mb ma) then a else b)"

datatype attempt_key = Numbered rat | Unnumbered nat

definition empty_value :: "jsval \<Rightarrow> bool" where
  "empty_value v \<longleftrightarrow> is_nullish v \<or> v = JStr []"

definition merge_row :: "(string \<Rightarrow> jsnum) \<Rightarrow> jsmap \<Rightarrow> jsmap \<Rightarrow> jsmap" where
  "merge_row parse prev row =
     (let next0 = fold (\<lambda>(k, v) m. if empty_value v then m else aset k v m) row prev;
          pick = (\<lambda>k earlier m. if \<not> is_nullish (own_get prev k) \<and> \<not> is_nullish (own_get row k)
                     then aset k (pick_stamp parse (own_get prev k) (own_get row k) earlier) m else m)
      in pick ''endedAt'' False (pick ''startedAt'' True next0))"

record fold_state =
  fs_merged :: "(attempt_key \<times> jsmap) list"
  fs_seen :: "(attempt_key \<times> (string list \<times> nat)) list"
  fs_unnumbered :: nat

definition row_key :: "jsval \<Rightarrow> nat \<Rightarrow> attempt_key \<times> nat" where
  "row_key row unnumbered =
     (case jget row ''attempt'' of JNum (Fin n) \<Rightarrow> (Numbered n, unnumbered)
      | _ \<Rightarrow> (Unnumbered unnumbered, unnumbered + 1))"

definition tally_row :: "jsval \<Rightarrow> string list \<times> nat \<Rightarrow> string list \<times> nat" where
  "tally_row row t =
     (case t of (outcomes, n) \<Rightarrow>
        (let o1 = jget row ''outcome'' in
         if is_terminal_outcome o1 \<and> \<not> List.member outcomes (str_of o1) then outcomes @ [str_of o1] else outcomes,
         n + 1))"

definition fold_row :: "(string \<Rightarrow> jsnum) \<Rightarrow> jsval \<Rightarrow> fold_state \<Rightarrow> fold_state" where
  "fold_row parse row s =
     (if \<not> is_object row then s
      else case row_key row (fs_unnumbered s) of (key, unnumbered) \<Rightarrow>
        let tally = (case map_of (fs_seen s) key of Some t \<Rightarrow> t | None \<Rightarrow> ([], 0));
            rec = (case map_of (fs_merged s) key of
                     None \<Rightarrow> entries row
                   | Some prev \<Rightarrow> merge_row parse prev (entries row))
        in \<lparr>fs_merged = aset key rec (fs_merged s), fs_seen = aset key (tally_row row tally) (fs_seen s),
            fs_unnumbered = unnumbered\<rparr>)"

definition mark_conflict :: "(attempt_key \<times> (string list \<times> nat)) list \<Rightarrow> attempt_key \<Rightarrow> jsmap \<Rightarrow> jsmap" where
  "mark_conflict seen key rec =
     (case map_of seen key of
        Some (outcomes, n) \<Rightarrow>
          if length outcomes > 1
          then aset ''conflict'' (JObj [(''outcomes'', JArr (map JStr outcomes)), (''rows'', JInt (int n))]) rec
          else rec
      | None \<Rightarrow> rec)"

definition fold_records :: "(string \<Rightarrow> jsnum) \<Rightarrow> jsval list \<Rightarrow> (attempt_key \<times> jsmap) list" where
  "fold_records parse rows =
     (let s = fold (fold_row parse) rows \<lparr>fs_merged = [], fs_seen = [], fs_unnumbered = 0\<rparr>
      in map (\<lambda>(key, rec). (key, mark_conflict (fs_seen s) key rec)) (fs_merged s))"

definition fold_attempt_rows :: "(string \<Rightarrow> jsnum) \<Rightarrow> jsval \<Rightarrow> jsval list" where
  "fold_attempt_rows parse rows = map (\<lambda>(_, rec). JObj rec) (fold_records parse (elems rows))"

section \<open>The number of a new attempt\<close>

definition ended_step :: "jsval \<Rightarrow> int \<Rightarrow> int" where
  "ended_step rec ended =
     (if \<not> is_terminal_outcome (jget rec ''outcome'') then ended
      else case to_num (jget rec ''attempt'') of
             Fin n \<Rightarrow> if n > of_int ended then \<lfloor>n\<rfloor> else ended
           | _ \<Rightarrow> ended)"

definition next_attempt_number :: "(string \<Rightarrow> jsnum) \<Rightarrow> jsval \<Rightarrow> jsval \<Rightarrow> int" where
  "next_attempt_number parse rows proposed =
     (let wanted = (case to_num proposed of Fin q \<Rightarrow> if q \<ge> 1 then \<lfloor>q\<rfloor> else 1 | _ \<Rightarrow> 1);
          ended = fold ended_step (fold_attempt_rows parse rows) 0
      in if wanted > ended then wanted else ended + 1)"

section \<open>Recording and reading\<close>

type_synonym ledger = "string \<rightharpoonup> jsval list"

definition safe_char :: "char \<Rightarrow> bool" where
  "safe_char c \<longleftrightarrow> (let n = code_of c in
     65 \<le> n \<and> n \<le> 90 \<or> 97 \<le> n \<and> n \<le> 122 \<or> 48 \<le> n \<and> n \<le> 57 \<or>
     c = CHR ''.'' \<or> c = CHR ''_'' \<or> c = CHR ''-'')"

definition safe_id :: "string \<Rightarrow> string" where
  "safe_id s = map (\<lambda>c. if safe_char c then c else CHR ''_'') s"

definition ledger_file :: "string \<Rightarrow> string" where
  "ledger_file task_id = safe_id task_id @ ''.jsonl''"

text \<open>The numeric order of the rows; a missing number counts as zero and the sort is stable. A number that cannot be
  read makes the comparison \<open>NaN\<close>, which leaves the order to the engine; here it counts as zero.\<close>

definition attempt_order :: "jsval \<Rightarrow> rat" where
  "attempt_order row = (case to_num (coalesce (jget row ''attempt'') (JInt 0)) of Fin q \<Rightarrow> q | _ \<Rightarrow> 0)"

text \<open>\<open>None\<close> when the sort throws: it reads a field of every row as soon as there are two, and a line of the
  file may be the JSON text \<open>null\<close>. The rows of a file are the parsed lines.\<close>

definition readable :: "jsval list \<Rightarrow> bool" where
  "readable rows \<longleftrightarrow> \<not> (2 \<le> length rows \<and> List.member rows JNull)"

definition read_attempts :: "ledger \<Rightarrow> string \<Rightarrow> jsval list option" where
  "read_attempts st task_id =
     (case st (ledger_file task_id) of
        None \<Rightarrow> Some []
      | Some rows \<Rightarrow> if readable rows then Some (sort_key attempt_order rows) else None)"

datatype ledger_error = Ledger_dir_required | Attempt_required | Task_id_required

definition allowed_row :: "jsval \<Rightarrow> jsmap" where
  "allowed_row attempt =
     map (\<lambda>k. (k, jget attempt k)) (filter (\<lambda>k. jget attempt k \<noteq> JUndef) allowed_attempt_keys)"

definition stamp_row :: "(string \<Rightarrow> jsnum) \<Rightarrow> (rat \<Rightarrow> string) \<Rightarrow> string \<Rightarrow> jsmap \<Rightarrow> jsmap" where
  "stamp_row parse stamp k row =
     (if own_get row k = JUndef then row
      else case iso_stamp parse stamp (own_get row k) of None \<Rightarrow> adel k row | Some v \<Rightarrow> aset k (JStr v) row)"

definition hash_row :: "(string \<Rightarrow> string) \<Rightarrow> jsval \<Rightarrow> jsmap \<Rightarrow> jsmap" where
  "hash_row sha attempt row =
     (if own_get row ''capabilityEnvelopeHash'' = JUndef \<and> jget attempt ''capabilityEnvelope'' \<noteq> JUndef
      then (case envelope_hash sha (jget attempt ''capabilityEnvelope'') of
              Inl _ \<Rightarrow> row | Inr h \<Rightarrow> aset ''capabilityEnvelopeHash'' (JStr h) row)
      else row)"

definition conflict_row :: "ledger \<Rightarrow> string \<Rightarrow> jsmap \<Rightarrow> jsmap" where
  "conflict_row st task_id row0 =
     (let row = adel ''conflictsWith'' row0 in
      if is_finite_num (case own_get row ''attempt'' of JNum n \<Rightarrow> n | _ \<Rightarrow> NaN) \<and>
         is_terminal_outcome (own_get row ''outcome'')
      then (case read_attempts st task_id of
              None \<Rightarrow> row
            | Some rows \<Rightarrow>
                (case find (\<lambda>r. truthy r \<and> jget r ''attempt'' = own_get row ''attempt'' \<and>
                         is_terminal_outcome (jget r ''outcome'') \<and> jget r ''outcome'' \<noteq> own_get row ''outcome'')
                       rows of
                   Some r \<Rightarrow> aset ''conflictsWith'' (jget r ''outcome'') row
                 | None \<Rightarrow> row))
      else row)"

definition record_attempt ::
    "(string \<Rightarrow> jsnum) \<Rightarrow> (rat \<Rightarrow> string) \<Rightarrow> (string \<Rightarrow> string) \<Rightarrow> string \<Rightarrow> jsval \<Rightarrow> jsval \<Rightarrow> ledger
     \<Rightarrow> (ledger_error + jsval) \<times> ledger" where
  "record_attempt parse stamp sha now_iso ledger_dir attempt st =
     (if \<not> truthy ledger_dir then (Inl Ledger_dir_required, st)
      else if \<not> is_object attempt then (Inl Attempt_required, st)
      else if \<not> is_str (jget attempt ''taskId'') \<or> jget attempt ''taskId'' = JStr [] then (Inl Task_id_required, st)
      else let task_id = str_of (jget attempt ''taskId'');
               row1 = fold (stamp_row parse stamp) stamp_keys (allowed_row attempt);
               row2 = conflict_row st task_id (hash_row sha attempt row1);
               row = JObj (aset ''recordedAt'' (coalesce (jget attempt ''recordedAt'') (JStr now_iso)) row2);
               file = ledger_file task_id
           in (Inr row, st(file \<mapsto> (case st file of None \<Rightarrow> [] | Some rows \<Rightarrow> rows) @ [row])))"

text \<open>The last closure written by a person, if any.\<close>

definition closure_of :: "jsval \<Rightarrow> jsval" where
  "closure_of rows =
     fold (\<lambda>row best.
        let closed = (if is_object row then jget row ''closed'' else JNull) in
        if \<not> is_object closed then best
        else if \<not> is_str (jget closed ''at'') \<or> js_trim (str_of (jget closed ''at'')) = [] then best
        else closed) (elems rows) JNull"

section \<open>What a fold keeps\<close>

abbreviation fold_rows :: "(string \<Rightarrow> jsnum) \<Rightarrow> jsval list \<Rightarrow> fold_state" where
  "fold_rows parse rows \<equiv> fold (fold_row parse) rows \<lparr>fs_merged = [], fs_seen = [], fs_unnumbered = 0\<rparr>"

lemma fold_entries_other:
  "k \<notin> fst ` set row \<Longrightarrow> own_get (fold (\<lambda>(k, v) m. if empty_value v then m else aset k v m) row prev) k = own_get prev k"
  by (induction row arbitrary: prev) (auto simp: own_get_aset)

lemma fold_entries_last:
  assumes "wf_map row" "map_of row k = Some v" "\<not> empty_value v"
  shows "own_get (fold (\<lambda>(k, v) m. if empty_value v then m else aset k v m) row prev) k = v"
  using assms
proof (induction row arbitrary: prev)
  case (Cons kv row)
  obtain k' v' where kv: "kv = (k', v')" by (cases kv)
  show ?case
  proof (cases "k' = k")
    case True
    then have "k \<notin> fst ` set row" using Cons.prems(1) kv by (simp add: wf_map_def akeys_def)
    then show ?thesis using Cons.prems(2,3) True kv by (simp add: fold_entries_other own_get_aset)
  next
    case False
    then show ?thesis using Cons kv by (simp add: wf_map_def)
  qed
qed simp

lemma merge_row_last:
  assumes "wf_map row" "map_of row k = Some v" "\<not> empty_value v" "k \<notin> set stamp_keys"
  shows "own_get (merge_row parse prev row) k = v"
  using fold_entries_last [OF assms(1-3)] assms(4)
  by (simp add: merge_row_def Let_def own_get_aset stamp_keys_def)

definition numbered :: "rat \<Rightarrow> jsval \<Rightarrow> bool" where
  "numbered n row \<longleftrightarrow> is_object row \<and> jget row ''attempt'' = JNum (Fin n)"

lemma row_key_numbered: "is_object row \<Longrightarrow> fst (row_key row u) = Numbered n \<longleftrightarrow> numbered n row"
  by (auto simp: row_key_def numbered_def split: jsval.split jsnum.split)

lemma fold_row_other:
  assumes "\<not> numbered n row"
  shows "map_of (fs_merged (fold_row parse row s)) (Numbered n) = map_of (fs_merged s) (Numbered n)"
    "map_of (fs_seen (fold_row parse row s)) (Numbered n) = map_of (fs_seen s) (Numbered n)"
  using assms row_key_numbered [of row "fs_unnumbered s" n]
  by (auto simp: fold_row_def Let_def split: prod.split)

lemma fold_rows_other:
  "list_all (\<lambda>r. \<not> numbered n r) rows \<Longrightarrow>
     map_of (fs_merged (fold (fold_row parse) rows s)) (Numbered n) = map_of (fs_merged s) (Numbered n)"
  by (induction rows arbitrary: s) (auto simp: fold_row_other)

lemma fold_row_numbered:
  assumes "numbered n row"
  shows "map_of (fs_merged (fold_row parse row s)) (Numbered n) =
      Some (case map_of (fs_merged s) (Numbered n) of None \<Rightarrow> entries row
            | Some prev \<Rightarrow> merge_row parse prev (entries row))"
    "map_of (fs_seen (fold_row parse row s)) (Numbered n) =
      Some (tally_row row (case map_of (fs_seen s) (Numbered n) of Some t \<Rightarrow> t | None \<Rightarrow> ([], 0)))"
  using assms by (auto simp: fold_row_def Let_def row_key_def numbered_def)

lemma fold_records_lookup:
  "map_of (fold_records parse rows) key =
     map_option (mark_conflict (fs_seen (fold_rows parse rows)) key) (map_of (fs_merged (fold_rows parse rows)) key)"
proof -
  have "map_of (map (\<lambda>(key, rec). (key, f key rec)) m) key = map_option (f key) (map_of m key)" for f m
    by (induction m) auto
  then show ?thesis by (simp add: fold_records_def Let_def)
qed

lemma mark_conflict_other: "k \<noteq> ''conflict'' \<Longrightarrow> own_get (mark_conflict seen key rec) k = own_get rec k"
  by (simp add: mark_conflict_def own_get_aset split: option.split prod.split)

text \<open>A row decides every field it fills, the two time stamps apart, and keeps the others; only the rows of
  one number make its record, in their order.\<close>

lemma fold_entries_kept:
  assumes "wf_map row" "\<And>v. map_of row k = Some v \<Longrightarrow> empty_value v"
  shows "own_get (fold (\<lambda>(k, v) m. if empty_value v then m else aset k v m) row prev) k = own_get prev k"
  using assms
proof (induction row arbitrary: prev)
  case (Cons kv row)
  obtain k' v' where kv: "kv = (k', v')" by (cases kv)
  have wf: "wf_map row" using Cons.prems(1) by (simp add: kv wf_map_def)
  show ?case
  proof (cases "k' = k")
    case True
    then have "k \<notin> fst ` set row" using Cons.prems(1) kv by (simp add: wf_map_def akeys_def)
    then show ?thesis using Cons.prems(2) [of v'] True kv by (simp add: fold_entries_other)
  next
    case False
    then show ?thesis using Cons.IH [OF wf] Cons.prems(2) kv by (auto simp: own_get_aset)
  qed
qed simp

lemma merge_row_kept:
  "wf_map row \<Longrightarrow> (\<And>v. map_of row k = Some v \<Longrightarrow> empty_value v) \<Longrightarrow> k \<notin> set stamp_keys \<Longrightarrow>
     own_get (merge_row parse prev row) k = own_get prev k"
  using fold_entries_kept [of row k prev] by (auto simp: merge_row_def Let_def own_get_aset stamp_keys_def)

definition add_row :: "(string \<Rightarrow> jsnum) \<Rightarrow> jsval \<Rightarrow> jsmap option \<Rightarrow> jsmap option" where
  "add_row parse row prev = Some (case prev of None \<Rightarrow> entries row | Some m \<Rightarrow> merge_row parse m (entries row))"

lemma record_of_rows:
  "map_of (fs_merged (fold (fold_row parse) rows s)) (Numbered n) =
     fold (add_row parse) (filter (numbered n) rows) (map_of (fs_merged s) (Numbered n))"
proof (induction rows arbitrary: s)
  case (Cons row rows)
  then show ?case by (cases "numbered n row") (simp_all add: fold_row_other fold_row_numbered add_row_def)
qed simp

lemma numbered_order: "numbered n r \<Longrightarrow> attempt_order r = n"
  by (simp add: numbered_def attempt_order_def coalesce_def is_nullish_def)

lemma read_numbered:
  assumes "read_attempts st t = Some rows" "st (ledger_file t) = Some file"
  shows "filter (numbered n) rows = filter (numbered n) file"
proof -
  have pick: "filter (numbered n) xs = filter (numbered n) (filter (\<lambda>r. attempt_order r = n) xs)" for xs
    using numbered_order by (induction xs) auto
  have "rows = sort_key attempt_order file"
    using assms by (simp add: read_attempts_def split: if_splits)
  then have "filter (numbered n) rows = filter (numbered n) (filter (\<lambda>r. attempt_order r = n) (sort_key attempt_order file))"
    using pick by (simp only:)
  also have "\<dots> = filter (numbered n) (filter (\<lambda>r. attempt_order r = n) file)" by (simp only: sort_key_stable)
  also have "\<dots> = filter (numbered n) file" by (rule pick [symmetric])
  finally show ?thesis .
qed

definition final_record :: "rat \<Rightarrow> jsmap \<Rightarrow> bool" where
  "final_record n m \<longleftrightarrow> own_get m ''attempt'' = JNum (Fin n) \<and> is_terminal_outcome (own_get m ''outcome'')"

lemma terminal_filled: "is_terminal_outcome v \<Longrightarrow> \<not> empty_value v"
  by (auto simp: is_terminal_outcome_def is_str_iff terminal_outcomes_def empty_value_def is_nullish_def)

lemma row_entry: "own_get m k = v \<Longrightarrow> k \<notin> set proto_names \<Longrightarrow> v \<noteq> JUndef \<Longrightarrow> map_of m k = Some v"
  using own_get_own [of m k] own_get_absent [of m k] by (cases "map_of m k") simp_all

lemma outcome_keys: "''attempt'' \<notin> set proto_names" "''outcome'' \<notin> set proto_names"
  "''attempt'' \<notin> set stamp_keys" "''outcome'' \<notin> set stamp_keys"
  by (simp_all add: proto_names_def stamp_keys_def)

lemma numbered_object: "numbered n row \<Longrightarrow> \<exists>r. row = JObj r"
  by (cases row) (simp_all add: numbered_def is_object_def)

lemma numbered_entry: "numbered n (JObj r) \<Longrightarrow> map_of r ''attempt'' = Some (JNum (Fin n))"
  by (intro row_entry) (simp_all add: numbered_def outcome_keys)

lemma terminal_defined: "is_terminal_outcome v \<Longrightarrow> v \<noteq> JUndef"
  using terminal_filled by (auto simp: empty_value_def is_nullish_def)

lemma filled_num: "\<not> empty_value (JNum x)"
  by (simp add: empty_value_def is_nullish_def)

lemma added_final:
  assumes "numbered n row" "wf_map (entries row)"
    and "is_terminal_outcome (jget row ''outcome'') \<or> empty_value (jget row ''outcome'') \<and> (\<exists>m. prev = Some m \<and> final_record n m)"
  shows "\<exists>m. add_row parse row prev = Some m \<and> final_record n m"
proof -
  obtain r where r: "row = JObj r" using numbered_object [OF assms(1)] by blast
  have num: "map_of r ''attempt'' = Some (JNum (Fin n))" using numbered_entry assms(1) r by simp
  have wf: "wf_map r" using assms(2) by (simp add: r)
  have att: "own_get (merge_row parse m r) ''attempt'' = JNum (Fin n)" for m
    by (rule merge_row_last [OF wf num filled_num outcome_keys(3)])
  show ?thesis
  proof (cases "is_terminal_outcome (own_get r ''outcome'')")
    case True
    have out: "map_of r ''outcome'' = Some (own_get r ''outcome'')"
      using terminal_defined [OF True] outcome_keys(2) by (intro row_entry) simp_all
    have kept: "own_get (merge_row parse m r) ''outcome'' = own_get r ''outcome''" for m
      by (rule merge_row_last [OF wf out terminal_filled [OF True] outcome_keys(4)])
    show ?thesis
      by (cases prev) (simp_all only: add_row_def r entries.simps option.case final_record_def option.inject ex_simps simp_thms
          att kept True own_get_own [OF num])
  next
    case False
    then obtain m where m: "prev = Some m" "final_record n m" and gap: "empty_value (own_get r ''outcome'')"
      using assms(3) unfolding r jget.simps by blast
    have "own_get (merge_row parse m r) ''outcome'' = own_get m ''outcome''"
      by (rule merge_row_kept [OF wf _ outcome_keys(4)]) (use gap own_get_own in metis)
    then show ?thesis using m(2) att [of m] by (simp add: m(1) add_row_def r final_record_def)
  qed
qed

lemma rows_final:
  assumes "\<forall>r \<in> set rows. numbered n r \<and> wf_map (entries r) \<and> (is_terminal_outcome (jget r ''outcome'') \<or> empty_value (jget r ''outcome''))"
    and "\<exists>m. prev = Some m \<and> final_record n m"
  shows "\<exists>m. fold (add_row parse) rows prev = Some m \<and> final_record n m"
  using assms
proof (induction rows arbitrary: prev)
  case (Cons r rows)
  then have "\<exists>m. add_row parse r prev = Some m \<and> final_record n m" by (intro added_final) auto
  with Cons show ?case by simp
qed simp

lemma fold_attempt_rows_mem:
  "map_of (fold_records parse rows) key = Some rec \<Longrightarrow> JObj rec \<in> set (fold_attempt_rows parse (JArr rows))"
  by (force simp: fold_attempt_rows_def dest: map_of_SomeD)

section \<open>The next number\<close>

lemma ended_mono: "ended \<le> ended_step rec ended"
  by (auto simp: ended_step_def split: jsnum.split) linarith

lemma fold_ended_mono: "ended \<le> fold ended_step recs ended"
  by (induction recs arbitrary: ended) (auto intro: order_trans ended_mono)

lemma fold_ended_above:
  assumes "rec \<in> set recs" "is_terminal_outcome (jget rec ''outcome'')" "to_num (jget rec ''attempt'') = Fin n"
  shows "n < of_int (fold ended_step recs ended + 1)"
  using assms(1)
proof (induction recs arbitrary: ended)
  case (Cons r recs)
  show ?case
  proof (cases "r = rec")
    case True
    have "\<lfloor>n\<rfloor> \<le> ended_step rec ended" using assms(2,3) by (auto simp: ended_step_def) linarith
    also have "\<dots> \<le> fold ended_step recs (ended_step rec ended)" by (rule fold_ended_mono)
    finally show ?thesis using True by simp linarith
  next
    case False
    then show ?thesis using Cons by simp
  qed
qed simp

lemma next_above:
  assumes "rec \<in> set (fold_attempt_rows parse rows)" "is_terminal_outcome (jget rec ''outcome'')"
    "to_num (jget rec ''attempt'') = Fin n"
  shows "n < of_int (next_attempt_number parse rows proposed)"
proof -
  have "n < of_int (fold ended_step (fold_attempt_rows parse rows) 0 + 1)" by (rule fold_ended_above [OF assms])
  also have "\<dots> \<le> (of_int (next_attempt_number parse rows proposed) :: rat)"
    unfolding of_int_le_iff by (simp add: next_attempt_number_def Let_def)
  finally show ?thesis .
qed

lemma record_attempt_row:
  assumes "record_attempt parse stamp sha now_iso ledger_dir attempt st = (Inr row, st')"
  shows "is_plain row" "wf_map (entries row)"
    "st' (ledger_file (str_of (jget attempt ''taskId''))) =
       Some ((case st (ledger_file (str_of (jget attempt ''taskId''))) of None \<Rightarrow> [] | Some rows \<Rightarrow> rows) @ [row])"
proof -
  have "distinct allowed_attempt_keys" by code_simp
  then have "wf_map (allowed_row attempt)"
    by (simp add: allowed_row_def wf_map_def akeys_def comp_def)
  moreover have "wf_map (stamp_row parse stamp k m)" if "wf_map m" for k m
    using that by (simp add: stamp_row_def split: option.split)
  ultimately have "wf_map (fold (stamp_row parse stamp) stamp_keys (allowed_row attempt))"
    by (simp add: stamp_keys_def)
  moreover have "wf_map (hash_row sha attempt m)" if "wf_map m" for m
    using that by (simp add: hash_row_def split: sum.split)
  moreover have "wf_map (conflict_row st task m)" if "wf_map m" for task m
    using that by (simp add: conflict_row_def Let_def split: option.split)
  ultimately show "is_plain row" "wf_map (entries row)"
    "st' (ledger_file (str_of (jget attempt ''taskId''))) =
       Some ((case st (ledger_file (str_of (jget attempt ''taskId''))) of None \<Rightarrow> [] | Some rows \<Rightarrow> rows) @ [row])"
    using assms by (auto simp: record_attempt_def Let_def split: if_splits)
qed

definition outcomes_of :: "fold_state \<Rightarrow> rat \<Rightarrow> string list" where
  "outcomes_of s n = (case map_of (fs_seen s) (Numbered n) of Some (os, _) \<Rightarrow> os | None \<Rightarrow> [])"

lemma fold_row_outcomes:
  "set (outcomes_of (fold_row parse row s) n) = set (outcomes_of s n) \<union>
     (if numbered n row \<and> is_terminal_outcome (jget row ''outcome'') then {str_of (jget row ''outcome'')} else {})"
proof (cases "numbered n row")
  case True
  then show ?thesis
    by (auto simp: outcomes_of_def fold_row_numbered tally_row_def Let_def split: option.split prod.split)
next
  case False
  then show ?thesis by (simp add: outcomes_of_def fold_row_other)
qed

lemma fold_outcomes:
  assumes "r \<in> set rows" "numbered n r" "is_terminal_outcome (jget r ''outcome'')"
  shows "str_of (jget r ''outcome'') \<in> set (outcomes_of (fold (fold_row parse) rows s) n)"
proof -
  have mono: "set (outcomes_of s n) \<subseteq> set (outcomes_of (fold (fold_row parse) rs s) n)" for rs s
  proof (induction rs arbitrary: s)
    case (Cons x rs)
    have "set (outcomes_of s n) \<subseteq> set (outcomes_of (fold_row parse x s) n)" by (simp add: fold_row_outcomes)
    also have "\<dots> \<subseteq> set (outcomes_of (fold (fold_row parse) rs (fold_row parse x s)) n)" by (rule Cons.IH)
    finally show ?case by simp
  qed simp
  show ?thesis
    using assms(1)
  proof (induction rows arbitrary: s)
    case (Cons x rows)
    show ?case
    proof (cases "x = r")
      case True
      then have "str_of (jget r ''outcome'') \<in> set (outcomes_of (fold_row parse x s) n)"
        using assms(2,3) by (simp add: fold_row_outcomes)
      then show ?thesis using mono by auto
    next
      case False
      then show ?thesis using Cons by simp
    qed
  qed simp
qed

lemma fold_rows_keys:
  assumes "r \<in> set rows" "numbered n r"
  shows "map_of (fs_merged (fold (fold_row parse) rows s)) (Numbered n) \<noteq> None"
proof -
  have keep: "map_of (fs_merged s) (Numbered n) \<noteq> None \<Longrightarrow>
      map_of (fs_merged (fold (fold_row parse) rs s)) (Numbered n) \<noteq> None" for rs s
  proof (induction rs arbitrary: s)
    case (Cons x rs)
    have "map_of (fs_merged (fold_row parse x s)) (Numbered n) \<noteq> None"
      using Cons.prems by (cases "numbered n x") (simp_all add: fold_row_numbered fold_row_other)
    then show ?case using Cons.IH by simp
  qed simp
  show ?thesis
    using assms(1)
  proof (induction rows arbitrary: s)
    case (Cons x rows)
    show ?case
    proof (cases "x = r")
      case True
      then have "map_of (fs_merged (fold_row parse x s)) (Numbered n) \<noteq> None"
        using assms(2) by (simp add: fold_row_numbered)
      then show ?thesis using keep by simp
    next
      case False
      then show ?thesis using Cons by simp
    qed
  qed simp
qed

lemma fold_rows_wf: "wf_map (fs_merged s) \<Longrightarrow> wf_map (fs_merged (fold (fold_row parse) rows s))"
proof (induction rows arbitrary: s)
  case (Cons x rows)
  have "wf_map (fs_merged (fold_row parse x s))"
    using Cons.prems by (auto simp: fold_row_def Let_def split: prod.split)
  then show ?case using Cons.IH by simp
qed simp

section \<open>Properties\<close>

text \<open>C27: the number of a concluded attempt is never handed out again. Take any row of a task's ledger that carries
  a number and a final outcome, such that no later row of the same number says an outcome that is not final:
  then the number the next attempt of that task gets, read from this ledger and whatever the queue proposes, is
  strictly greater. (A later row of the number with an outcome that is not final reopens it; a ledger with a
  \<open>null\<close> line among others cannot be read.)\<close>

theorem concluded_number_never_reused:
  assumes "st (ledger_file t) = Some (before @ row # after)" "read_attempts st t = Some rows"
    and "numbered n row" "is_terminal_outcome (jget row ''outcome'')"
    and "\<forall>r \<in> set after. numbered n r \<longrightarrow> is_terminal_outcome (jget r ''outcome'') \<or> empty_value (jget r ''outcome'')"
    and "\<forall>r \<in> set (row # after). wf_map (entries r)"
  shows "n < of_int (next_attempt_number parse (JArr rows) proposed)"
proof -
  have "map_of (fs_merged (fold_rows parse rows)) (Numbered n) =
      fold (add_row parse) (filter (numbered n) after) (add_row parse row (fold (add_row parse) (filter (numbered n) before) None))"
    using assms(3) read_numbered [OF assms(2,1), of n] by (simp add: record_of_rows)
  moreover have "\<exists>m. add_row parse row (fold (add_row parse) (filter (numbered n) before) None) = Some m \<and> final_record n m"
    using assms(3,4,6) by (intro added_final) simp_all
  then have "\<exists>m. fold (add_row parse) (filter (numbered n) after)
      (add_row parse row (fold (add_row parse) (filter (numbered n) before) None)) = Some m \<and> final_record n m"
    using assms(5,6) by (intro rows_final) auto
  ultimately obtain m where m: "map_of (fs_merged (fold_rows parse rows)) (Numbered n) = Some m" "final_record n m" by auto
  define rec where "rec = mark_conflict (fs_seen (fold_rows parse rows)) (Numbered n) m"
  have "map_of (fold_records parse rows) (Numbered n) = Some rec" by (simp add: fold_records_lookup m(1) rec_def)
  moreover have "own_get rec ''attempt'' = JNum (Fin n)" "is_terminal_outcome (own_get rec ''outcome'')"
    using m(2) by (simp_all add: final_record_def rec_def mark_conflict_other)
  ultimately show ?thesis using fold_attempt_rows_mem by (intro next_above [of "JObj rec"]) simp_all
qed

definition closing_row :: jsval where
  "closing_row = JObj [(''taskId'', JStr ''t''), (''attempt'', JInt 2), (''outcome'', JStr ''failed'')]"

definition silent_row :: jsval where
  "silent_row = JObj [(''taskId'', JStr ''t''), (''attempt'', JInt 2), (''runDir'', JStr ''d'')]"

theorem concluded_number_never_reused_witness:
  "\<exists>rows. read_attempts [ledger_file ''t'' \<mapsto> [silent_row, closing_row, silent_row]] ''t'' = Some rows \<and>
     (2::rat) < of_int (next_attempt_number str_to_num (JArr rows) (JInt 1))"
proof -
  have "read_attempts [ledger_file ''t'' \<mapsto> [silent_row, closing_row, silent_row]] ''t'' \<noteq> None" by code_simp
  then obtain rows where rows: "read_attempts [ledger_file ''t'' \<mapsto> [silent_row, closing_row, silent_row]] ''t'' = Some rows" by blast
  have "numbered 2 closing_row" "is_terminal_outcome (jget closing_row ''outcome'')" "empty_value (jget silent_row ''outcome'')"
    "wf_map (entries closing_row)" "wf_map (entries silent_row)"
    by (simp add: numbered_def closing_row_def is_object_def own_get_def, code_simp, code_simp, code_simp, code_simp)
  then have "(2::rat) < of_int (next_attempt_number str_to_num (JArr rows) (JInt 1))"
    by (intro concluded_number_never_reused [of _ _ "[silent_row]" closing_row "[silent_row]", OF _ rows]) simp_all
  then show ?thesis using rows by blast
qed

text \<open>A disagreement about an outcome is named, not hidden. Folding gives one record per attempt
  number; when two rows of the same number carry different final outcomes, the record of that number
  lists both under \<open>conflict\<close>.\<close>

theorem conflicting_outcomes_named:
  assumes "r1 \<in> set rows" "numbered n r1" "is_terminal_outcome (jget r1 ''outcome'')"
    and "r2 \<in> set rows" "numbered n r2" "is_terminal_outcome (jget r2 ''outcome'')"
    and "jget r1 ''outcome'' \<noteq> jget r2 ''outcome''"
  shows "wf_map (fold_records parse rows) \<and>
    (\<exists>rec os k. map_of (fold_records parse rows) (Numbered n) = Some rec \<and>
       own_get rec ''conflict'' = JObj [(''outcomes'', JArr (map JStr os)), (''rows'', JInt (int k))] \<and>
       jget r1 ''outcome'' \<in> JStr ` set os \<and> jget r2 ''outcome'' \<in> JStr ` set os)"
proof -
  define s where "s = fold_rows parse rows"
  have "wf_map (fs_merged s)" unfolding s_def by (rule fold_rows_wf) simp
  then have wf: "wf_map (fold_records parse rows)"
    by (simp add: fold_records_def Let_def wf_map_def akeys_def comp_def case_prod_unfold flip: s_def)
  have in_os: "str_of (jget r ''outcome'') \<in> set (outcomes_of s n)"
    if "r \<in> set rows" "numbered n r" "is_terminal_outcome (jget r ''outcome'')" for r
    unfolding s_def using that by (rule fold_outcomes)
  have str: "jget r ''outcome'' = JStr (str_of (jget r ''outcome''))" if "is_terminal_outcome (jget r ''outcome'')" for r
    using that by (auto simp: is_terminal_outcome_def is_str_iff)
  have two: "str_of (jget r1 ''outcome'') \<noteq> str_of (jget r2 ''outcome'')" using assms(7) str assms(3,6) by metis
  obtain t where t: "map_of (fs_seen s) (Numbered n) = Some t"
    using in_os [OF assms(1-3)] by (cases "map_of (fs_seen s) (Numbered n)") (simp_all add: outcomes_of_def)
  obtain os k where "t = (os, k)" by (cases t)
  with t have seen: "map_of (fs_seen s) (Numbered n) = Some (os, k)" "outcomes_of s n = os"
    by (simp_all add: outcomes_of_def)
  have "length os > 1"
  proof (rule ccontr)
    assume "\<not> length os > 1"
    then show False using in_os [OF assms(1-3)] in_os [OF assms(4-6)] two seen(2)
      by (cases os) auto
  qed
  moreover obtain m where "map_of (fs_merged s) (Numbered n) = Some m"
    using fold_rows_keys [OF assms(1,2)] by (auto simp: s_def)
  ultimately have "map_of (fold_records parse rows) (Numbered n) =
      Some (aset ''conflict'' (JObj [(''outcomes'', JArr (map JStr os)), (''rows'', JInt (int k))]) m)"
    using seen(1) by (simp add: fold_records_lookup mark_conflict_def flip: s_def)
  moreover have "jget r1 ''outcome'' \<in> JStr ` set os" "jget r2 ''outcome'' \<in> JStr ` set os"
    using in_os [OF assms(1-3)] in_os [OF assms(4-6)] str [OF assms(3)] str [OF assms(6)]
    unfolding seen(2) by (auto intro: rev_image_eqI)
  ultimately show ?thesis using wf by (blast intro: own_get_aset_same)
qed

definition two_hands :: "jsval list" where
  "two_hands = [JObj [(''attempt'', JInt 1), (''outcome'', JStr ''failed'')],
     JObj [(''attempt'', JInt 1), (''outcome'', JStr ''completed'')]]"

theorem conflicting_outcomes_named_witness:
  "\<exists>rec os k. map_of (fold_records str_to_num two_hands) (Numbered 1) = Some rec \<and>
     own_get rec ''conflict'' = JObj [(''outcomes'', JArr (map JStr os)), (''rows'', JInt (int k))] \<and>
     JStr ''failed'' \<in> JStr ` set os"
proof -
  have f: "numbered 1 (two_hands ! 0)" "is_terminal_outcome (jget (two_hands ! 0) ''outcome'')"
    "numbered 1 (two_hands ! 1)" "is_terminal_outcome (jget (two_hands ! 1) ''outcome'')"
    "jget (two_hands ! 0) ''outcome'' \<noteq> jget (two_hands ! 1) ''outcome''"
    "jget (two_hands ! 0) ''outcome'' = JStr ''failed''" by code_simp+
  have "two_hands ! 0 \<in> set two_hands" "two_hands ! 1 \<in> set two_hands" by (simp_all add: two_hands_def)
  from conflicting_outcomes_named [OF this(1) f(1,2) this(2) f(3,4,5), of str_to_num] f(6)
  show ?thesis by metis
qed

end
