(* ===== verification/Ladder.thy ===== *)
theory Ladder
  imports Js_Num
begin

text \<open>
  The ladder of a rule's enforcement, \<open>scripts/sma/lib/ladder.mjs\<close>: how fires are classified and
  counted, which change of tier the numbers propose, and how proposals are written into the ladder
  file. \<open>Date.parse\<close> and the fixture check are arguments; the file is a value, the journal a list.
  The fix registry (\<open>registerFix\<close>, \<open>applyFix\<close>), which runs shell commands, is not modelled.
\<close>

section \<open>Tiers\<close>

definition ladder_tiers :: "string list" where
  "ladder_tiers = [''note'', ''warn'', ''soft-deny'', ''auto-fix'']"

definition default_tier :: string where "default_tier = ''warn''"

definition day_ms :: rat where "day_ms = 86400000"

definition default_thresholds :: jsmap where
  "default_thresholds =
     [(''window'', JStr ''30d''), (''minFires'', JInt 5), (''promoteIgnoredBroke'', JInt 2),
      (''greenAppliesForAutofix'', JInt 3), (''demoteFires'', JInt 8), (''demoteSpanDays'', JInt 14)]"

record ladder =
  la_version :: jsval
  la_rules :: "jsval list"

definition read_ladder :: "jsval \<Rightarrow> ladder" where
  "read_ladder raw =
     (if \<not> is_object raw then \<lparr>la_version = JInt 1, la_rules = []\<rparr>
      else \<lparr>la_version = (case jget raw ''version'' of JNum (Fin q) \<Rightarrow> JNum (Fin q) | _ \<Rightarrow> JInt 1),
            la_rules = elems (jget raw ''rules'')\<rparr>)"

definition rule_row :: "ladder \<Rightarrow> jsval \<Rightarrow> jsval option" where
  "rule_row l rule = find (\<lambda>r. truthy r \<and> jget r ''ruleId'' = rule) (la_rules l)"

definition bump_up :: "string \<Rightarrow> string" where
  "bump_up tier = (if tier = ''retired'' then ''note'' else if tier = ''note'' then ''warn'' else tier)"

definition tier_of :: "ladder \<Rightarrow> jsval \<Rightarrow> bool \<Rightarrow> string" where
  "tier_of l rule re_arm =
     (let named = (case rule_row l rule of Some row \<Rightarrow> if is_str (jget row ''tier'') then str_of (jget row ''tier'') else default_tier
                   | None \<Rightarrow> default_tier);
          tier = (if \<not> List.member ladder_tiers named \<and> named \<noteq> ''retired'' then default_tier else named)
      in if re_arm \<and> (tier = ''note'' \<or> tier = ''retired'') then bump_up tier else tier)"

section \<open>Fires\<close>

definition target_class_of :: "jsval \<Rightarrow> string" where
  "target_class_of scope =
     (let s = to_str (coalesce scope (JStr [])) in
      if CHR ''/'' \<notin> set s then s
      else let segs = filter (\<lambda>x. x \<noteq> []) (js_split (CHR ''/'') s) in
           if segs = [] then s
           else if CHR ''.'' \<in> set (last segs)
                then (let j = js_join ''/'' (butlast segs) in if j = [] then s else j)
                else js_join ''/'' segs)"

definition scope_intersects :: "jsval \<Rightarrow> jsval \<Rightarrow> bool" where
  "scope_intersects a b =
     (let sa = to_str (coalesce a (JStr [])); sb = to_str (coalesce b (JStr [])) in
      if sa = [] \<or> sb = [] then False
      else if sa = sb then True
      else let ca = target_class_of (JStr sa); cb = target_class_of (JStr sb) in
           if ca \<noteq> [] \<and> cb \<noteq> [] \<and> ca = cb then True
           else str_prefix cb sa \<or> str_prefix ca sb)"

definition fire_identity :: "jsval \<Rightarrow> jsval \<times> string" where
  "fire_identity e =
     (let d = js_or (jget e ''detail'') (JObj []) in
      if jget e ''type'' = JStr ''reflex'' then (coalesce (jget d ''noteId'') JNull, ''reflex'')
      else if jget e ''type'' = JStr ''gate'' then (coalesce (jget d ''gateId'') JNull, ''gate'')
      else (JNull, []))"

definition ref_of :: "jsval \<Rightarrow> string" where
  "ref_of e = to_str (coalesce (jget e ''terminal'') (JStr ''?'')) @ ''#'' @ to_str (coalesce (jget e ''seq'') (JStr []))"

record fire =
  fi_rule :: jsval
  fi_kind :: string
  fi_scope :: jsval
  fi_class :: string
  fi_ts :: jsval
  fi_ms :: rat
  fi_seq :: jsval
  fi_terminal :: jsval
  fi_ref :: string

definition ms_of :: "(string \<Rightarrow> jsnum) \<Rightarrow> jsval \<Rightarrow> rat option" where
  "ms_of parse v = (case parse (to_str v) of Fin q \<Rightarrow> Some q | _ \<Rightarrow> None)"

definition fire_of_event :: "(string \<Rightarrow> jsnum) \<Rightarrow> jsval \<Rightarrow> fire option" where
  "fire_of_event parse e =
     (if \<not> truthy e \<or> (jget e ''type'' \<noteq> JStr ''reflex'' \<and> jget e ''type'' \<noteq> JStr ''gate'') then None
      else case fire_identity e of (rule, kind) \<Rightarrow>
        if \<not> truthy rule then None
        else map_option (\<lambda>ms. \<lparr>fi_rule = rule, fi_kind = kind, fi_scope = coalesce (jget e ''scope'') (JStr []),
               fi_class = target_class_of (jget e ''scope''), fi_ts = jget e ''ts'', fi_ms = ms,
               fi_seq = jget e ''seq'', fi_terminal = jget e ''terminal'', fi_ref = ref_of e\<rparr>)
             (ms_of parse (jget e ''ts'')))"

definition incident_of :: "(string \<Rightarrow> jsnum) \<Rightarrow> jsval \<Rightarrow> (jsval \<times> rat) option" where
  "incident_of parse e =
     (if truthy e \<and> (jget e ''type'' = JStr ''incident'' \<or> jget e ''type'' = JStr ''gate-override'')
      then map_option (Pair (coalesce (coalesce (jget e ''scope'') (and_get (jget e ''detail'') ''scope'')) (JStr [])))
             (ms_of parse (jget e ''ts''))
      else None)"

definition miss_of :: "(string \<Rightarrow> jsnum) \<Rightarrow> jsval \<Rightarrow> (jsval \<times> rat) option" where
  "miss_of parse r =
     (if truthy r \<and> jget r ''verdict'' = JStr ''miss''
      then map_option (Pair (coalesce (jget r ''domain'') (JStr ''unknown'')))
             (ms_of parse (coalesce (jget r ''scoredAt'') (jget r ''ts'')))
      else None)"

datatype fire_class = Heeded | Ignored_ok | Ignored_broke | Unobserved

definition class_of_fire ::
    "rat \<Rightarrow> jsnum \<Rightarrow> jsval \<Rightarrow> fire list \<Rightarrow> (jsval \<times> rat) list \<Rightarrow> (jsval \<times> rat) list \<Rightarrow> fire \<Rightarrow> fire_class" where
  "class_of_fire horizon now domains fires incidents misses f =
     (let horizon_end = fi_ms f + horizon;
          domain = jget domains (to_str (fi_rule f));
          by_incident = list_ex (\<lambda>(scope, ms). ms > fi_ms f \<and> ms \<le> horizon_end \<and> scope_intersects (fi_scope f) scope) incidents;
          by_miss = \<not> is_nullish domain \<and>
            list_ex (\<lambda>(d, ms). ms > fi_ms f \<and> ms \<le> horizon_end \<and> d = domain) misses
      in if by_incident \<or> by_miss then Ignored_broke
         else if num_lt now (Fin horizon_end) then Unobserved
         else if list_ex (\<lambda>g. fi_rule g = fi_rule f \<and> fi_class g = fi_class f \<and> fi_ms g > fi_ms f) fires then Ignored_ok
         else Heeded)"

definition classify_fires ::
    "(string \<Rightarrow> jsnum) \<Rightarrow> jsval \<Rightarrow> jsval \<Rightarrow> jsnum \<Rightarrow> rat \<Rightarrow> jsval \<Rightarrow> (fire \<times> fire_class) list" where
  "classify_fires parse events ledgers now horizon domains =
     (let fires = List.map_filter (fire_of_event parse) (elems events);
          incidents = List.map_filter (incident_of parse) (elems events);
          misses = List.map_filter (miss_of parse) (elems ledgers)
      in map (\<lambda>f. (f, class_of_fire horizon now domains fires incidents misses f)) fires)"

section \<open>The numbers of a rule\<close>

record rule_stat =
  st_rule :: jsval
  st_kind :: string
  st_fires :: nat
  st_heeded :: nat
  st_ignored_ok :: nat
  st_ignored_broke :: nat
  st_unobserved :: nat
  st_refs :: "string list"
  st_min :: jsnum
  st_max :: jsnum

definition in_window :: "(string \<Rightarrow> jsnum) \<Rightarrow> rat option \<Rightarrow> jsnum \<Rightarrow> fire \<Rightarrow> bool" where
  "in_window parse window now f =
     (case (window, now) of
        (Some w, Fin n) \<Rightarrow> w = 0 \<or> (case ms_of parse (fi_ts f) of None \<Rightarrow> True | Some t \<Rightarrow> n - w \<le> t)
      | _ \<Rightarrow> True)"

definition count_fire :: "(string \<Rightarrow> jsnum) \<Rightarrow> fire \<times> fire_class \<Rightarrow> rule_stat \<Rightarrow> rule_stat" where
  "count_fire parse c r =
     (case c of (f, cl) \<Rightarrow>
        let r1 = r\<lparr>st_fires := st_fires r + 1, st_heeded := st_heeded r + of_bool (cl = Heeded),
              st_ignored_ok := st_ignored_ok r + of_bool (cl = Ignored_ok),
              st_ignored_broke := st_ignored_broke r + of_bool (cl = Ignored_broke),
              st_unobserved := st_unobserved r + of_bool (cl = Unobserved),
              st_refs := (if fi_ref f \<noteq> [] \<and> length (st_refs r) < 50 then st_refs r @ [fi_ref f] else st_refs r)\<rparr>
        in case ms_of parse (fi_ts f) of
             None \<Rightarrow> r1
           | Some t \<Rightarrow> r1\<lparr>st_min := num_min (st_min r1) (Fin t), st_max := num_max (st_max r1) (Fin t)\<rparr>)"

definition fresh_stat :: "fire \<Rightarrow> rule_stat" where
  "fresh_stat f = \<lparr>st_rule = fi_rule f, st_kind = fi_kind f, st_fires = 0, st_heeded = 0, st_ignored_ok = 0,
     st_ignored_broke = 0, st_unobserved = 0, st_refs = [], st_min = PInf, st_max = NInf\<rparr>"

text \<open>A rule named like a property every object inherits finds that property instead of a fresh row
  and the count throws: \<open>None\<close>.\<close>

fun benefit_loop :: "(string \<Rightarrow> jsnum) \<Rightarrow> rat option \<Rightarrow> jsnum \<Rightarrow> (fire \<times> fire_class) list
    \<Rightarrow> (string \<times> rule_stat) list \<Rightarrow> (string \<times> rule_stat) list option" where
  "benefit_loop parse window now [] rows = Some rows"
| "benefit_loop parse window now (c # cs) rows =
     (if \<not> truthy (fi_rule (fst c)) \<or> \<not> in_window parse window now (fst c)
      then benefit_loop parse window now cs rows
      else let key = to_str (fi_rule (fst c)) in
        case map_of rows key of
          Some r \<Rightarrow> benefit_loop parse window now cs (aset key (count_fire parse c r) rows)
        | None \<Rightarrow>
            if List.member proto_names key then None
            else benefit_loop parse window now cs (aset key (count_fire parse c (fresh_stat (fst c))) rows))"

definition benefit_stats ::
    "(string \<Rightarrow> jsnum) \<Rightarrow> (fire \<times> fire_class) list \<Rightarrow> rat option \<Rightarrow> jsnum \<Rightarrow> (string \<times> rule_stat) list option" where
  "benefit_stats parse classified window now = benefit_loop parse window now classified []"

definition span_days :: "rule_stat \<Rightarrow> rat" where
  "span_days r = (case (st_min r, st_max r) of (Fin a, Fin b) \<Rightarrow> (b - a) / day_ms | _ \<Rightarrow> 0)"

section \<open>What the numbers propose\<close>

record proposal =
  pr_rule :: jsval
  pr_kind :: string
  pr_from :: string
  pr_to :: string
  pr_reason :: string
  pr_refused :: bool
  pr_evidence :: jsval
  pr_fixture :: "(bool \<times> bool) option"

text \<open>\<open>Gate_candidate\<close> asks a human to write a gate and changes no tier.\<close>

datatype advice = Tier_change proposal | Gate_candidate jsval jsval

definition evidence_row :: "jsval \<Rightarrow> rule_stat \<Rightarrow> jsval" where
  "evidence_row window s =
     JObj [(''window'', window), (''fires'', JInt (int (st_fires s))), (''heeded'', JInt (int (st_heeded s))),
       (''ignoredOk'', JInt (int (st_ignored_ok s))), (''ignoredBroke'', JInt (int (st_ignored_broke s))),
       (''journalRefs'', JArr (map JStr (take 20 (st_refs s))))]"

definition at_least :: "rat \<Rightarrow> jsmap \<Rightarrow> string \<Rightarrow> bool" where
  "at_least q t k \<longleftrightarrow> num_le (to_num (own_get t k)) (Fin q)"

definition zero_benefit :: "jsmap \<Rightarrow> rule_stat \<Rightarrow> bool" where
  "zero_benefit t s \<longleftrightarrow> at_least (of_nat (st_fires s)) t ''demoteFires'' \<and> at_least (span_days s) t ''demoteSpanDays'' \<and>
     st_heeded s = 0 \<and> st_ignored_broke s = 0"

definition green_applies :: "ladder \<Rightarrow> jsval \<Rightarrow> rat" where
  "green_applies l rule =
     (case rule_row l rule of
        None \<Rightarrow> 0
      | Some row \<Rightarrow> (case jget (jget row ''fix'') ''greenApplies'' of JNum (Fin q) \<Rightarrow> q | _ \<Rightarrow> 0))"

definition signs_off :: "jsval \<Rightarrow> bool" where
  "signs_off fx \<longleftrightarrow> truthy fx \<and> (jget fx ''fixtureTrips'' = JBool False \<or> jget fx ''compensated'' = JBool True)"

definition change :: "rule_stat \<Rightarrow> jsval \<Rightarrow> string \<Rightarrow> string \<Rightarrow> string \<Rightarrow> advice" where
  "change s ev from to reason =
     Tier_change \<lparr>pr_rule = st_rule s, pr_kind = st_kind s, pr_from = from, pr_to = to, pr_reason = reason,
       pr_refused = False, pr_evidence = JArr [ev], pr_fixture = None\<rparr>"

text \<open>One rule; \<open>fixture\<close> is what the check answers for it, \<open>null\<close> when there is none or it throws.\<close>

definition propose_for :: "ladder \<Rightarrow> jsmap \<Rightarrow> (jsval \<Rightarrow> jsval) \<Rightarrow> rule_stat \<Rightarrow> advice option" where
  "propose_for l t fixture s =
     (if \<not> truthy (st_rule s) then None
      else let rule = st_rule s; tier = tier_of l rule False; ev = evidence_row (own_get t ''window'') s in
        if (tier = ''note'' \<or> tier = ''retired'') \<and> st_ignored_broke s \<ge> 1
        then Some (change s ev tier (bump_up tier) ''ignored-broke re-arm'')
        else if tier = ''warn'' \<and> at_least (of_nat (st_fires s)) t ''minFires'' \<and>
                at_least (of_nat (st_ignored_broke s)) t ''promoteIgnoredBroke''
        then (if st_kind s = ''gate''
              then Some (change s ev ''warn'' ''soft-deny'' ''measured ignored-broke'')
              else Some (Gate_candidate rule (JArr [ev])))
        else if tier = ''soft-deny''
        then (if at_least (green_applies l rule) t ''greenAppliesForAutofix''
              then Some (change s ev ''soft-deny'' ''auto-fix'' ''green fix applies'') else None)
        else if tier = ''warn'' \<and> zero_benefit t s
        then Some (change s ev ''warn'' ''note'' ''measured zero benefit'')
        else if tier = ''note'' \<and> zero_benefit t s
        then (let fx = fixture rule in
              if signs_off fx
              then Some (Tier_change \<lparr>pr_rule = rule, pr_kind = st_kind s, pr_from = ''note'', pr_to = ''retired'',
                     pr_reason = ''zero benefit + fixture signed off'', pr_refused = False, pr_evidence = JArr [ev],
                     pr_fixture = Some (truthy (jget fx ''fixtureTrips''), truthy (jget fx ''compensated''))\<rparr>)
              else Some (Tier_change \<lparr>pr_rule = rule, pr_kind = st_kind s, pr_from = ''note'', pr_to = ''retired'',
                     pr_reason = ''zero benefit'', pr_refused = True, pr_evidence = JArr [ev], pr_fixture = None\<rparr>))
        else None)"

definition propose_tier_changes ::
    "ladder \<Rightarrow> (string \<times> rule_stat) list \<Rightarrow> (jsval \<Rightarrow> jsval) \<Rightarrow> jsval \<Rightarrow> advice list" where
  "propose_tier_changes l stats fixture thresholds =
     List.map_filter (propose_for l (spread default_thresholds (entries thresholds)) fixture) (map snd stats)"

section \<open>Writing the ladder\<close>

definition fresh_row :: "jsval \<Rightarrow> proposal \<Rightarrow> jsval" where
  "fresh_row now p = JObj [(''ruleId'', pr_rule p), (''kind'', JStr (pr_kind p)), (''tier'', JStr default_tier),
     (''since'', now), (''evidence'', JArr []), (''history'', JArr [])]"

definition fixture_entry :: "jsval \<Rightarrow> proposal \<Rightarrow> jsmap" where
  "fixture_entry now p =
     (case pr_fixture p of None \<Rightarrow> []
      | Some (trips, compensated) \<Rightarrow>
          [(''fixtureCheck'', JObj [(''at'', now), (''fixtureTrips'', JBool trips), (''compensated'', JBool compensated)])])"

definition changed_row :: "jsval \<Rightarrow> proposal \<Rightarrow> jsval \<Rightarrow> jsval" where
  "changed_row now p row =
     JObj (spread (entries row)
       ([(''tier'', JStr (pr_to p)), (''since'', now),
         (''history'', JArr (elems (jget row ''history'') @
            [JObj [(''from'', JStr (pr_from p)), (''to'', JStr (pr_to p)), (''at'', now), (''evidence'', pr_evidence p)]])),
         (''evidence'', JArr (elems (jget row ''evidence'') @ elems (pr_evidence p)))] @ fixture_entry now p))"

fun update_first :: "('a \<Rightarrow> bool) \<Rightarrow> ('a \<Rightarrow> 'a) \<Rightarrow> 'a list \<Rightarrow> 'a list" where
  "update_first P f [] = []"
| "update_first P f (x # xs) = (if P x then f x # xs else x # update_first P f xs)"

definition change_event :: "jsval \<Rightarrow> proposal \<Rightarrow> jsval" where
  "change_event terminal p =
     JObj [(''type'', JStr ''ladder-change''), (''actors'', JArr [terminal]), (''scope'', pr_rule p),
       (''detail'', JObj [(''ruleId'', pr_rule p), (''from'', JStr (pr_from p)), (''to'', JStr (pr_to p)),
          (''reason'', JStr (pr_reason p))])]"

record apply_state =
  ap_ladder :: ladder
  ap_applied :: nat
  ap_journal :: "jsval list"

definition apply_one :: "jsval \<Rightarrow> bool \<Rightarrow> jsval \<Rightarrow> advice \<Rightarrow> apply_state \<Rightarrow> apply_state" where
  "apply_one now journaling terminal a s =
     (case a of
        Gate_candidate _ _ \<Rightarrow> s
      | Tier_change p \<Rightarrow>
          if pr_refused p \<or> \<not> truthy (pr_rule p) \<or> pr_to p = [] then s
          else let l = ap_ladder s;
                   rules = (if rule_row l (pr_rule p) = None then la_rules l @ [fresh_row now p] else la_rules l);
                   rules' = update_first (\<lambda>r. truthy r \<and> jget r ''ruleId'' = pr_rule p) (changed_row now p) rules
               in \<lparr>ap_ladder = l\<lparr>la_rules := rules'\<rparr>, ap_applied = ap_applied s + 1,
                   ap_journal = (if journaling then ap_journal s @ [change_event terminal p] else ap_journal s)\<rparr>)"

text \<open>The ladder answered, the number applied, the journal, and the file after the call.\<close>

definition apply_proposals :: "jsval \<Rightarrow> bool \<Rightarrow> jsval \<Rightarrow> advice list \<Rightarrow> jsval \<Rightarrow> apply_state \<times> jsval" where
  "apply_proposals now journaling terminal proposals file =
     (let s = fold (apply_one now journaling terminal) proposals
                \<lparr>ap_ladder = read_ladder file, ap_applied = 0, ap_journal = []\<rparr>
      in (s, if ap_applied s > 0
             then JObj [(''version'', la_version (ap_ladder s)), (''rules'', JArr (la_rules (ap_ladder s)))]
             else file))"

section \<open>Facts\<close>

definition tier_edge :: "string \<Rightarrow> string \<Rightarrow> bool" where
  "tier_edge a b \<longleftrightarrow> (a, b) \<in>
     {(''note'', ''warn''), (''retired'', ''note''), (''warn'', ''soft-deny''), (''soft-deny'', ''auto-fix''),
      (''warn'', ''note''), (''note'', ''retired'')}"

fun advice_rule :: "advice \<Rightarrow> jsval" where
  "advice_rule (Tier_change p) = pr_rule p"
| "advice_rule (Gate_candidate rule _) = rule"

fun applies :: "jsval \<Rightarrow> advice \<Rightarrow> bool" where
  "applies rule (Tier_change p) \<longleftrightarrow> \<not> pr_refused p \<and> truthy (pr_rule p) \<and> pr_to p \<noteq> [] \<and> pr_rule p = rule"
| "applies rule (Gate_candidate _ _) \<longleftrightarrow> False"

definition sound_change :: "ladder \<Rightarrow> (jsval \<Rightarrow> jsval) \<Rightarrow> proposal \<Rightarrow> bool" where
  "sound_change l fixture p \<longleftrightarrow>
     pr_from p = tier_of l (pr_rule p) False \<and> tier_edge (pr_from p) (pr_to p) \<and>
     (pr_to p = ''soft-deny'' \<longrightarrow> pr_kind p = ''gate'') \<and>
     (pr_to p = ''retired'' \<and> \<not> pr_refused p \<longrightarrow> signs_off (fixture (pr_rule p)))"

lemma tier_edges:
  "tier_edge ''note'' ''warn''" "tier_edge ''retired'' ''note''" "tier_edge ''warn'' ''soft-deny''"
  "tier_edge ''soft-deny'' ''auto-fix''" "tier_edge ''warn'' ''note''" "tier_edge ''note'' ''retired''"
  by (simp_all only: tier_edge_def insert_iff simp_thms)

lemma bump_up_tiers: "bump_up ''note'' = ''warn''" "bump_up ''retired'' = ''note''"
  by code_simp+

lemma propose_for_cases:
  assumes "propose_for l t fixture s = Some a"
  obtains (rearm) ev r tier where "a = change s ev tier (bump_up tier) r" "tier = ''note'' \<or> tier = ''retired''"
      "tier_of l (st_rule s) False = tier"
  | (gate) ev r where "a = change s ev ''warn'' ''soft-deny'' r" "tier_of l (st_rule s) False = ''warn''" "st_kind s = ''gate''"
  | (candidate) ev where "a = Gate_candidate (st_rule s) ev"
  | (greened) ev r where "a = change s ev ''soft-deny'' ''auto-fix'' r" "tier_of l (st_rule s) False = ''soft-deny''"
  | (quiet) ev r where "a = change s ev ''warn'' ''note'' r" "tier_of l (st_rule s) False = ''warn''"
  | (retire) ev r refused fx where "a = Tier_change \<lparr>pr_rule = st_rule s, pr_kind = st_kind s, pr_from = ''note'',
         pr_to = ''retired'', pr_reason = r, pr_refused = refused, pr_evidence = ev, pr_fixture = fx\<rparr>"
      "tier_of l (st_rule s) False = ''note''" "\<not> refused \<Longrightarrow> signs_off (fixture (st_rule s))"
  using assms unfolding propose_for_def Let_def
  by (cases "tier_of l (st_rule s) False = ''note''"; cases "tier_of l (st_rule s) False = ''retired''";
      cases "tier_of l (st_rule s) False = ''warn''"; cases "tier_of l (st_rule s) False = ''soft-deny''";
      simp split: if_splits; blast dest: sym)

lemma propose_for_sound:
  assumes "propose_for l t fixture s = Some a"
  shows "advice_rule a = st_rule s" "a = Tier_change p \<Longrightarrow> sound_change l fixture p"
    "a = Tier_change p \<Longrightarrow> pr_kind p = st_kind s"
proof -
  have "advice_rule a = st_rule s \<and> (a = Tier_change p \<longrightarrow> sound_change l fixture p \<and> pr_kind p = st_kind s)"
    using assms
    by (cases rule: propose_for_cases) (auto simp: change_def sound_change_def tier_edges bump_up_tiers)
  then show "advice_rule a = st_rule s" "a = Tier_change p \<Longrightarrow> sound_change l fixture p"
    "a = Tier_change p \<Longrightarrow> pr_kind p = st_kind s" by auto
qed

lemma propose_distinct:
  "distinct (map st_rule ss) \<Longrightarrow> distinct (map advice_rule (List.map_filter (propose_for l t fixture) ss))"
proof (induction ss)
  case (Cons s ss)
  have "advice_rule ` set (List.map_filter (propose_for l t fixture) ss) \<subseteq> st_rule ` set ss"
    by (force simp: List.map_filter_def dest: propose_for_sound(1))
  then have new: "st_rule s \<notin> advice_rule ` set (List.map_filter (propose_for l t fixture) ss)"
    using Cons.prems by auto
  show ?case
  proof (cases "propose_for l t fixture s")
    case (Some a)
    then have "advice_rule a = st_rule s" by (rule propose_for_sound(1))
    then show ?thesis using Some Cons new by (simp add: List.map_filter_simps)
  qed (use Cons in \<open>simp add: List.map_filter_simps\<close>)
qed (simp add: List.map_filter_simps)

lemma find_update_same:
  "\<forall>x. P x \<longrightarrow> P (f x) \<Longrightarrow> find P (update_first P f xs) = map_option f (find P xs)"
  by (induction xs) auto

lemma find_update_other:
  "\<forall>x. P x \<longrightarrow> \<not> Q x \<and> \<not> Q (f x) \<Longrightarrow> find Q (update_first P f xs) = find Q xs"
  by (induction xs) auto

lemma find_append_none: "find P (xs @ ys) = (case find P xs of None \<Rightarrow> find P ys | Some x \<Rightarrow> Some x)"
  by (induction xs) auto

lemma changed_row_facts:
  assumes "jget row ''ruleId'' = rule" "truthy rule"
  shows "jget (changed_row now p row) ''ruleId'' = rule" "truthy (changed_row now p row)"
    "jget (changed_row now p row) ''tier'' = JStr (pr_to p)"
proof -
  obtain m where m: "row = JObj m" using assms jget_cases_obj [of row "''ruleId''"] by force
  let ?b = "[(''tier'', JStr (pr_to p)), (''since'', now),
         (''history'', JArr (elems (jget row ''history'') @
            [JObj [(''from'', JStr (pr_from p)), (''to'', JStr (pr_to p)), (''at'', now), (''evidence'', pr_evidence p)]])),
         (''evidence'', JArr (elems (jget row ''evidence'') @ elems (pr_evidence p)))] @ fixture_entry now p"
  have keys: "akeys ?b = [''tier'', ''since'', ''history'', ''evidence''] @ (if pr_fixture p = None then [] else [''fixtureCheck''])"
    by (simp add: fixture_entry_def akeys_def split: option.split prod.split)
  then have wf: "wf_map ?b" by (simp add: wf_map_def)
  have c: "changed_row now p row = JObj (spread m ?b)" by (simp add: changed_row_def m)
  have "''ruleId'' \<notin> set (akeys ?b)" unfolding keys by simp
  then show "jget (changed_row now p row) ''ruleId'' = rule"
    using assms(1) own_get_spread_absent [of "''ruleId''" _ m] unfolding c by (simp only: m jget.simps simp_thms)
  have "map_of (spread m ?b) ''tier'' = Some (JStr (pr_to p))"
    unfolding map_of_spread [OF wf] by (simp add: map_add_Some_iff)
  then show "jget (changed_row now p row) ''tier'' = JStr (pr_to p)" unfolding c by (simp add: own_get_own)
  show "truthy (changed_row now p row)" unfolding c by simp
qed

lemma fresh_row_rule: "jget (fresh_row now p) ''ruleId'' = pr_rule p" "truthy (fresh_row now p)"
  by (simp_all add: fresh_row_def own_get_def)

lemma apply_one_row:
  assumes "applies (pr_rule p) (Tier_change p)"
  shows "\<exists>row. rule_row (ap_ladder (apply_one now j t (Tier_change p) s)) (pr_rule p) = Some row \<and>
      jget row ''tier'' = JStr (pr_to p)"
    and "rule \<noteq> pr_rule p \<Longrightarrow>
      rule_row (ap_ladder (apply_one now j t (Tier_change p) s)) rule = rule_row (ap_ladder s) rule"
proof -
  define P where "P r \<longleftrightarrow> truthy r \<and> jget r ''ruleId'' = pr_rule p" for r
  define rules where "rules = (if rule_row (ap_ladder s) (pr_rule p) = None then la_rules (ap_ladder s) @ [fresh_row now p]
      else la_rules (ap_ladder s))"
  have t: "truthy (pr_rule p)" using assms by simp
  have after: "la_rules (ap_ladder (apply_one now j t (Tier_change p) s)) = update_first P (changed_row now p) rules"
    using assms by (simp add: apply_one_def Let_def rules_def P_def [abs_def])
  have keep: "\<forall>r. P r \<longrightarrow> P (changed_row now p r)"
    using changed_row_facts(1,2) t by (simp add: P_def)
  have "find P rules \<noteq> None"
    by (auto simp: rules_def rule_row_def find_append_none fresh_row_rule P_def [abs_def] split: option.split)
  then obtain row where row: "find P rules = Some row" by auto
  then have "P row" by (auto simp: find_Some_iff)
  then have "jget (changed_row now p row) ''tier'' = JStr (pr_to p)"
    using changed_row_facts(3) t by (simp add: P_def)
  moreover have "rule_row (ap_ladder (apply_one now j t (Tier_change p) s)) (pr_rule p) = Some (changed_row now p row)"
    using find_update_same [OF keep, of rules] row by (simp add: rule_row_def after P_def [abs_def])
  ultimately show "\<exists>row. rule_row (ap_ladder (apply_one now j t (Tier_change p) s)) (pr_rule p) = Some row \<and>
      jget row ''tier'' = JStr (pr_to p)" by blast
  assume rule: "rule \<noteq> pr_rule p"
  have other: "\<forall>r. P r \<longrightarrow> \<not> (truthy r \<and> jget r ''ruleId'' = rule) \<and>
      \<not> (truthy (changed_row now p r) \<and> jget (changed_row now p r) ''ruleId'' = rule)"
    using changed_row_facts(1) t rule by (auto simp: P_def)
  have "find (\<lambda>r. truthy r \<and> jget r ''ruleId'' = rule) rules =
      find (\<lambda>r. truthy r \<and> jget r ''ruleId'' = rule) (la_rules (ap_ladder s))"
    using rule by (auto simp: rules_def find_append_none fresh_row_rule split: option.split)
  then show "rule_row (ap_ladder (apply_one now j t (Tier_change p) s)) rule = rule_row (ap_ladder s) rule"
    using find_update_other [OF other, of rules] by (simp add: rule_row_def after)
qed

lemma apply_one_tier:
  assumes "applies (pr_rule p) (Tier_change p)" "tier_edge a (pr_to p)"
  shows "tier_of (ap_ladder (apply_one now j t (Tier_change p) s)) (pr_rule p) False = pr_to p"
proof -
  obtain row where row: "rule_row (ap_ladder (apply_one now j t (Tier_change p) s)) (pr_rule p) = Some row"
    "jget row ''tier'' = JStr (pr_to p)" using apply_one_row(1) [OF assms(1)] by blast
  have "pr_to p = ''retired'' \<or> pr_to p \<in> set ladder_tiers"
    using assms(2) by (auto simp: tier_edge_def ladder_tiers_def)
  then show ?thesis by (auto simp: tier_of_def row Let_def)
qed

lemma apply_one_other:
  "\<not> applies rule a \<Longrightarrow> tier_of (ap_ladder (apply_one now j t a s)) rule False = tier_of (ap_ladder s) rule False"
proof (cases a)
  case (Tier_change p)
  assume na: "\<not> applies rule a"
  show ?thesis
  proof (cases "applies (pr_rule p) (Tier_change p)")
    case True
    then have "rule \<noteq> pr_rule p" using na Tier_change by auto
    from apply_one_row(2) [OF True this] show ?thesis by (simp add: tier_of_def Tier_change)
  next
    case False
    then show ?thesis by (auto simp: apply_one_def Tier_change)
  qed
qed (simp add: apply_one_def)

lemma apply_fold_other:
  "list_all (\<lambda>a. \<not> applies rule a) advs \<Longrightarrow>
     tier_of (ap_ladder (fold (apply_one now j t) advs s)) rule False = tier_of (ap_ladder s) rule False"
  by (induction advs arbitrary: s) (auto simp: apply_one_other)

lemma applies_rule: "applies rule a \<Longrightarrow> advice_rule a = rule"
  by (cases a) auto

section \<open>Properties\<close>

text \<open>A rule moves one rung at a time. When the proposals the numbers give are applied to the
  ladder file they were computed from, a rule either keeps its tier or takes one of the six steps
  the code knows; it is retired only when the fixture check signed off, and only a gate reaches
  \<open>soft-deny\<close>.\<close>

theorem one_rung_at_a_time:
  assumes "distinct (map (\<lambda>(_, s). st_rule s) stats)"
  shows "let l = read_ladder file; advs = propose_tier_changes l stats fixture thresholds;
      old = tier_of l rule False;
      new = tier_of (ap_ladder (fst (apply_proposals now j t advs file))) rule False
    in new = old \<or> tier_edge old new \<and> (new = ''retired'' \<longrightarrow> signs_off (fixture rule)) \<and>
      (new = ''soft-deny'' \<longrightarrow> (\<exists>s \<in> snd ` set stats. st_rule s = rule \<and> st_kind s = ''gate''))"
proof -
  define l where "l = read_ladder file"
  define th where "th = spread default_thresholds (entries thresholds)"
  define advs where "advs = propose_tier_changes l stats fixture thresholds"
  define s0 where "s0 = \<lparr>ap_ladder = l, ap_applied = 0, ap_journal = []\<rparr>"
  have advs: "advs = List.map_filter (propose_for l th fixture) (map snd stats)"
    by (simp add: advs_def propose_tier_changes_def th_def)
  have result: "ap_ladder (fst (apply_proposals now j t advs file)) = ap_ladder (fold (apply_one now j t) advs s0)"
    by (simp add: apply_proposals_def Let_def l_def s0_def)
  have "distinct (map advice_rule advs)"
    unfolding advs using assms by (intro propose_distinct) (simp add: case_prod_unfold comp_def)
  show ?thesis
  proof (cases "list_ex (applies rule) advs")
    case False
    then have "list_all (\<lambda>a. \<not> applies rule a) advs" by (simp add: list_all_iff list_ex_iff)
    then show ?thesis using apply_fold_other [of rule advs now j t s0] result
      by (simp add: s0_def Let_def flip: l_def advs_def)
  next
    case True
    then obtain a where a: "a \<in> set advs" "applies rule a" by (auto simp: list_ex_iff)
    then obtain xs ys where split: "advs = xs @ a # ys" by (meson split_list)
    have "\<forall>b \<in> set (xs @ ys). advice_rule b \<noteq> advice_rule a"
      using \<open>distinct (map advice_rule advs)\<close> unfolding split by (auto simp: image_iff)
    then have "list_all (\<lambda>b. \<not> applies rule b) (xs @ ys)"
      unfolding list_all_iff using applies_rule [OF a(2)] applies_rule by blast
    then have none: "list_all (\<lambda>b. \<not> applies rule b) xs" "list_all (\<lambda>b. \<not> applies rule b) ys" by simp_all
    obtain p where p: "a = Tier_change p" using a(2) by (cases a) auto
    obtain k s where s: "(k, s) \<in> set stats" "propose_for l th fixture s = Some a"
      using a(1) unfolding advs List.map_filter_def by (auto simp: p)
    have sound: "sound_change l fixture p" using propose_for_sound(2) [OF s(2) p] .
    have rule: "pr_rule p = rule" "applies (pr_rule p) (Tier_change p)" "\<not> pr_refused p"
      using a(2) p by auto
    define s1 where "s1 = fold (apply_one now j t) xs s0"
    have "tier_of (ap_ladder (fold (apply_one now j t) advs s0)) rule False =
        tier_of (ap_ladder (apply_one now j t a s1)) rule False"
      using apply_fold_other [OF none(2)] by (simp add: split s1_def)
    also have "\<dots> = pr_to p"
      using apply_one_tier [OF rule(2)] sound unfolding sound_change_def p rule(1) by blast
    finally have new: "tier_of (ap_ladder (fst (apply_proposals now j t advs file))) rule False = pr_to p"
      by (simp add: result)
    have "st_rule s = rule" using propose_for_sound(1) [OF s(2)] p rule(1) by simp
    moreover have "st_kind s = pr_kind p" using propose_for_sound(3) [OF s(2) p] by simp
    ultimately have "pr_to p = ''soft-deny'' \<longrightarrow> (\<exists>s \<in> snd ` set stats. st_rule s = rule \<and> st_kind s = ''gate'')"
      using sound s(1) by (force simp: sound_change_def)
    moreover have "tier_edge (tier_of l rule False) (pr_to p)" "pr_to p = ''retired'' \<longrightarrow> signs_off (fixture rule)"
      using sound rule by (auto simp: sound_change_def)
    ultimately show ?thesis
      unfolding Let_def l_def [symmetric] advs_def [symmetric] new by blast
  qed
qed

definition broken_gate :: rule_stat where
  "broken_gate = \<lparr>st_rule = JStr ''GATE-1'', st_kind = ''gate'', st_fires = 6, st_heeded = 0, st_ignored_ok = 0,
     st_ignored_broke = 3, st_unobserved = 3, st_refs = [], st_min = Fin 0, st_max = Fin 1\<rparr>"

theorem one_rung_at_a_time_witness:
  "tier_of (ap_ladder (fst (apply_proposals (JStr ''now'') True (JStr ''T'')
      (propose_tier_changes (read_ladder JNull) [(''GATE-1'', broken_gate)] (\<lambda>_. JNull) JUndef) JNull)))
     (JStr ''GATE-1'') False = ''soft-deny'' \<and> tier_edge ''warn'' ''soft-deny''"
proof -
  let ?new = "tier_of (ap_ladder (fst (apply_proposals (JStr ''now'') True (JStr ''T'')
      (propose_tier_changes (read_ladder JNull) [(''GATE-1'', broken_gate)] (\<lambda>_. JNull) JUndef) JNull)))
     (JStr ''GATE-1'') False"
  have new: "?new = ''soft-deny''" by code_simp
  have old: "tier_of (read_ladder JNull) (JStr ''GATE-1'') False = ''warn''" by code_simp
  have "distinct (map (\<lambda>(_, s). st_rule s) [(''GATE-1'', broken_gate)])" by simp
  from one_rung_at_a_time [OF this, of JNull "\<lambda>_. JNull" JUndef "JStr ''GATE-1''" "JStr ''now''" True "JStr ''T''"]
  have "''soft-deny'' = ''warn'' \<or> tier_edge ''warn'' ''soft-deny''"
    unfolding Let_def new old by blast
  then show ?thesis using new by simp
qed

end
