(* ===== verification/Turns.thy ===== *)
theory Turns
  imports Js_Num
begin

text \<open>
  The turn budget of an attempt (\<open>src/daemon/src/policy/turn-budget.mjs\<close>): the promise of a task
  read as a list of criteria (\<open>acceptanceItems\<close> of \<open>queue/adapter.mjs\<close>), the size of the work,
  the ceiling a size gives, its escalation after attempts that burned theirs, and the place in
  \<open>loop.mjs\<close> where the tick asks for it.

  A bullet of the promise may also be an en dash, an em dash or a bullet point in the source;
  these lie beyond the code units of the model.
\<close>

section \<open>The promise as a list\<close>

definition blank :: "char \<Rightarrow> bool" where
  "blank c \<longleftrightarrow> code_of c = 32 \<or> code_of c = 9"

definition line_break :: "char \<Rightarrow> bool" where
  "line_break c \<longleftrightarrow> code_of c = 10 \<or> code_of c = 13"

definition strip_cr :: "string \<Rightarrow> string" where
  "strip_cr s = (if s \<noteq> [] \<and> code_of (last s) = 13 then butlast s else s)"

text \<open>\<open>text.split(/\r?\n/)\<close>.\<close>

definition js_lines :: "string \<Rightarrow> string list" where
  "js_lines s = (let ps = js_split (char_of (10 :: nat)) s in map strip_cr (butlast ps) @ [last ps])"

definition number_end :: "char \<Rightarrow> bool" where
  "number_end c \<longleftrightarrow> c = CHR ''.'' \<or> c = CHR '')''"

text \<open>What follows the mark of \<open>PROMISE_BULLET\<close>, when the text opens with one.\<close>

fun bullet_mark :: "string \<Rightarrow> string option" where
  "bullet_mark [] = None"
| "bullet_mark (c # r) =
     (if c = CHR ''-'' \<or> c = CHR ''*'' then Some r
      else if \<not> is_digit c then None
      else (case r of
              [] \<Rightarrow> None
            | d # r1 \<Rightarrow>
                if number_end d then Some r1
                else if is_digit d \<and> r1 \<noteq> [] \<and> number_end (hd r1) then Some (tl r1)
                else None))"

definition promise_bullet :: "string \<Rightarrow> string option" where
  "promise_bullet line =
     (case bullet_mark (dropWhile blank line) of
        None \<Rightarrow> None
      | Some r \<Rightarrow>
          let t = dropWhile blank r
          in if t = r \<or> t = [] \<or> js_ws (hd t) \<or> list_ex line_break t then None else Some t)"

text \<open>The loop of \<open>markedPromiseItems\<close>: the items closed so far and the open one.\<close>

fun close_item :: "string list \<times> string option \<Rightarrow> string list" where
  "close_item (items, None) = items"
| "close_item (items, Some cur) = (let s = js_trim cur in if s \<noteq> [] then items @ [s] else items)"

fun mark_line :: "string \<Rightarrow> string list \<times> string option \<Rightarrow> string list \<times> string option" where
  "mark_line line (items, cur) =
     (case promise_bullet line of
        Some t \<Rightarrow> (close_item (items, cur), Some (js_trim t))
      | None \<Rightarrow>
          if js_trim line = [] then (close_item (items, cur), None)
          else (items, Some (case cur of None \<Rightarrow> js_trim line | Some c \<Rightarrow> c @ '' '' @ js_trim line)))"

definition marked_promise_items :: "string \<Rightarrow> string list" where
  "marked_promise_items txt =
     (let ls = js_lines txt in
      if \<not> list_ex (\<lambda>l. promise_bullet l \<noteq> None) ls then [txt]
      else let items = close_item (fold mark_line ls ([], None)) in if items \<noteq> [] then items else [txt])"

definition acceptance_items :: "jsval \<Rightarrow> string list" where
  "acceptance_items a =
     (case a of
        JArr vs \<Rightarrow> filter (\<lambda>s. s \<noteq> []) (map (\<lambda>v. js_trim (str_of v)) (filter is_str vs))
      | JStr s \<Rightarrow> (let one = js_trim s in if one = [] then [] else marked_promise_items one)
      | _ \<Rightarrow> [])"

section \<open>The size of the work\<close>

datatype turn_size = Small_work | Standard_work | Large_work

definition turn_sizes :: "turn_size list" where
  "turn_sizes = [Small_work, Standard_work, Large_work]"

text \<open>\<open>TURN_SIZES.indexOf\<close>, which orders the sizes.\<close>

fun size_index :: "turn_size \<Rightarrow> nat" where
  "size_index Small_work = 0" | "size_index Standard_work = 1" | "size_index Large_work = 2"

fun turn_size_multiplier :: "turn_size \<Rightarrow> rat" where
  "turn_size_multiplier Small_work = 1"
| "turn_size_multiplier Standard_work = 2"
| "turn_size_multiplier Large_work = 3"

record turn_thresholds =
  th_story :: "rat \<times> rat"
  th_criteria :: "rat \<times> rat"
  th_chars :: "rat \<times> rat"

definition turn_size_thresholds :: turn_thresholds where
  "turn_size_thresholds = \<lparr>th_story = (3, 8), th_criteria = (2, 4), th_chars = (400, 1200)\<rparr>"

definition louder :: "turn_size \<Rightarrow> turn_size \<Rightarrow> turn_size" where
  "louder a b = (if size_index a \<ge> size_index b then a else b)"

definition size_tier :: "jsnum \<Rightarrow> rat \<times> rat \<Rightarrow> turn_size" where
  "size_tier v th = (case v of
       Fin q \<Rightarrow> (if q \<ge> snd th then Large_work else if q \<ge> fst th then Standard_work else Small_work)
     | _ \<Rightarrow> Small_work)"

record turn_signals =
  sg_story :: "rat option"
  sg_criteria :: nat
  sg_chars :: nat

definition story_points :: "jsval \<Rightarrow> rat option" where
  "story_points v = (case v of JNum (Fin q) \<Rightarrow> Some q | _ \<Rightarrow> None)"

definition work_size_of :: "jsval \<Rightarrow> turn_size \<times> turn_signals" where
  "work_size_of task =
     (let t = (if is_object task then task else JObj []);
          items = acceptance_items (jget t ''acceptance'');
          sp = story_points (jget t ''storyPoints'');
          criteria = length items;
          chars = fold (\<lambda>s n. n + length s) items 0;
          tiers = [size_tier (case sp of Some q \<Rightarrow> Fin q | None \<Rightarrow> NaN) (th_story turn_size_thresholds),
                   size_tier (Fin (of_nat criteria)) (th_criteria turn_size_thresholds),
                   size_tier (Fin (of_nat chars)) (th_chars turn_size_thresholds)]
      in (fold (\<lambda>b a. louder a b) tiers Small_work,
          \<lparr>sg_story = sp, sg_criteria = criteria, sg_chars = chars\<rparr>))"

section \<open>The ceiling and its escalation\<close>

definition turn_cap_escalation :: rat where "turn_cap_escalation = 2"

definition turn_cap_max_multiplier :: rat where "turn_cap_max_multiplier = 6"

text \<open>\<open>Number.isSafeInteger(n) && n > 0\<close>, with the number.\<close>

definition positive_safe :: "jsnum \<Rightarrow> rat option" where
  "positive_safe n = (case n of Fin q \<Rightarrow> (if safe_integer n \<and> q > 0 then Some q else None) | _ \<Rightarrow> None)"

record turn_plan =
  tp_cap :: "rat option"
  tp_size :: turn_size
  tp_signals :: turn_signals
  tp_from :: "rat option"
  tp_ceiling :: rat

fun worst_of :: "rat list \<Rightarrow> rat option" where
  "worst_of [] = None"
| "worst_of (q # qs) = Some (fold max qs q)"

definition task_turn_cap :: "jsval \<Rightarrow> jsval \<Rightarrow> jsval \<Rightarrow> turn_plan" where
  "task_turn_cap base task burned_caps =
     (let b = (case base of JNum n \<Rightarrow> (case positive_safe n of Some q \<Rightarrow> q | None \<Rightarrow> 0) | _ \<Rightarrow> 0);
          (size, signals) = work_size_of task;
          ceil = b * turn_cap_max_multiplier;
          sized = min ceil (b * turn_size_multiplier size);
          burned = List.map_filter (\<lambda>v. positive_safe (to_num v)) (elems burned_caps)
      in case worst_of burned of
           None \<Rightarrow> \<lparr>tp_cap = Some sized, tp_size = size, tp_signals = signals, tp_from = None, tp_ceiling = ceil\<rparr>
         | Some worst \<Rightarrow>
             let raised = min ceil (max sized (worst * turn_cap_escalation))
             in \<lparr>tp_cap = (if raised \<le> worst then None else Some raised), tp_size = size,
                 tp_signals = signals, tp_from = Some worst, tp_ceiling = ceil\<rparr>)"

definition burned_cap :: "jsval \<Rightarrow> rat option" where
  "burned_cap r =
     (if \<not> is_object r \<or> jget r ''failureReason'' \<noteq> JStr ''turns_exhausted'' then None
      else positive_safe (to_num (jget r ''turnCap'')))"

definition burned_turn_caps_of :: "jsval \<Rightarrow> rat list" where
  "burned_turn_caps_of rows = List.map_filter burned_cap (elems rows)"

definition default_pipeline_max_turns :: rat where "default_pipeline_max_turns = 80"

definition pipeline_max_turns :: "jsval \<Rightarrow> rat" where
  "pipeline_max_turns config =
     (let raw = (if truthy config \<and> truthy (jget config ''pipeline'')
                 then jget (jget config ''pipeline'') ''maxTurns'' else JUndef)
      in case raw of JNum n \<Rightarrow> (case positive_safe n of Some q \<Rightarrow> q | None \<Rightarrow> default_pipeline_max_turns)
         | _ \<Rightarrow> default_pipeline_max_turns)"

text \<open>The tick's question. \<open>read\<close> is the ledger's \<open>readAttempts\<close>, when there is one; \<open>None\<close> is an
  exception, which counts as nothing burned.\<close>

definition turn_budget_for ::
    "(jsval \<Rightarrow> jsval option) option \<Rightarrow> jsval \<Rightarrow> jsval \<Rightarrow> turn_plan \<times> rat list" where
  "turn_budget_for read config task =
     (let rows = (case read of
                    None \<Rightarrow> JArr []
                  | Some f \<Rightarrow> (if is_nullish task then JArr []
                      else case f (jget task ''id'') of None \<Rightarrow> JArr [] | Some v \<Rightarrow> js_or v (JArr [])));
          burned = burned_turn_caps_of rows
      in (task_turn_cap (JNum (Fin (pipeline_max_turns config))) task (JArr (map (\<lambda>q. JNum (Fin q)) burned)), burned))"

section \<open>The kinds of a turn\<close>

definition turn_kind_tools :: "(string \<times> string) list" where
  "turn_kind_tools = [(''Edit'', ''edits''), (''MultiEdit'', ''edits''), (''Write'', ''edits''),
     (''NotebookEdit'', ''edits''), (''Bash'', ''runs''), (''BashOutput'', ''runs''), (''KillShell'', ''runs''),
     (''Read'', ''reads''), (''Grep'', ''reads''), (''Glob'', ''reads'')]"

text \<open>The table is a plain object: a tool called \<open>constructor\<close> answers the inherited function.\<close>

definition turn_kind_of :: "jsval \<Rightarrow> jsval" where
  "turn_kind_of tool = (case tool of
       JStr s \<Rightarrow> js_or (own_get (map (\<lambda>(k, v). (k, JStr v)) turn_kind_tools) s) (JStr ''other'')
     | _ \<Rightarrow> JStr ''other'')"

section \<open>The order of the sizes\<close>

instantiation turn_size :: linorder
begin

definition less_eq_turn_size :: "turn_size \<Rightarrow> turn_size \<Rightarrow> bool" where
  "less_eq_turn_size a b \<longleftrightarrow> size_index a \<le> size_index b"

definition less_turn_size :: "turn_size \<Rightarrow> turn_size \<Rightarrow> bool" where
  "less_turn_size a b \<longleftrightarrow> size_index a < size_index b"

instance
proof
  fix x y z :: turn_size
  show "x < y \<longleftrightarrow> x \<le> y \<and> \<not> y \<le> x" by (auto simp: less_eq_turn_size_def less_turn_size_def)
  show "x \<le> x" by (simp add: less_eq_turn_size_def)
  show "x \<le> y \<Longrightarrow> y \<le> z \<Longrightarrow> x \<le> z" by (simp add: less_eq_turn_size_def)
  show "x \<le> y \<Longrightarrow> y \<le> x \<Longrightarrow> x = y" by (cases x; cases y) (auto simp: less_eq_turn_size_def)
  show "x \<le> y \<or> y \<le> x" by (auto simp: less_eq_turn_size_def)
qed

end

lemma louder_max: "louder a b = max a b"
  by (cases a; cases b) (simp_all add: louder_def max_def less_eq_turn_size_def)

lemma small_least [simp]: "Small_work \<le> a"
  by (simp add: less_eq_turn_size_def)

lemma turn_size_multiplier_bounds: "1 \<le> turn_size_multiplier s" "turn_size_multiplier s \<le> 3"
  by (cases s; simp)+

lemma turn_size_multiplier_int: "turn_size_multiplier s \<in> \<int>"
  by (cases s) auto

section \<open>The retries of a burned attempt\<close>

text \<open>The row of an attempt that ran into its ceiling, and the ceilings granted to a task whose
  every attempt does so, as far as \<open>n\<close> attempts.\<close>

definition burned_row :: "rat \<Rightarrow> jsval" where
  "burned_row q = JObj [(''failureReason'', JStr ''turns_exhausted''), (''turnCap'', JNum (Fin q))]"

fun burn_rounds :: "nat \<Rightarrow> jsval \<Rightarrow> jsval \<Rightarrow> jsval list \<Rightarrow> rat list" where
  "burn_rounds 0 config task rows = []"
| "burn_rounds (Suc n) config task rows =
     (case tp_cap (fst (turn_budget_for (Some (\<lambda>_. Some (JArr rows))) config task)) of
        None \<Rightarrow> []
      | Some c \<Rightarrow> c # burn_rounds n config task (rows @ [burned_row c]))"

lemma positive_safe_Some: "positive_safe n = Some q \<longleftrightarrow> n = Fin q \<and> safe_integer n \<and> q > 0"
  by (cases n) (auto simp: positive_safe_def)

lemma positive_safe_again: "positive_safe n = Some q \<Longrightarrow> positive_safe (Fin q) = Some q"
  by (auto simp: positive_safe_Some)

lemma map_filter_set: "y \<in> set (List.map_filter f xs) \<longleftrightarrow> (\<exists>x \<in> set xs. f x = Some y)"
  by (induction xs) (auto simp: List.map_filter_simps split: option.split)

lemma pipeline_max_turns_safe: "positive_safe (Fin (pipeline_max_turns config)) = Some (pipeline_max_turns config)"
proof -
  have "positive_safe (Fin 80) = Some 80" by (simp add: positive_safe_Some)
  then show ?thesis using positive_safe_again
    by (auto simp: pipeline_max_turns_def Let_def default_pipeline_max_turns_def split: jsval.split option.split)
qed

lemma burned_caps_positive: "q \<in> set (burned_turn_caps_of rows) \<Longrightarrow> positive_safe (Fin q) = Some q"
  using positive_safe_again by (fastforce simp: burned_turn_caps_of_def map_filter_set burned_cap_def split: if_splits)

lemma map_filter_id: "(\<And>x. x \<in> set xs \<Longrightarrow> f (g x) = Some x) \<Longrightarrow> List.map_filter f (map g xs) = xs"
  by (induction xs) (auto simp: List.map_filter_simps)

lemma fold_max_ge: "q \<le> fold max qs (q :: rat)"
  by (induction qs arbitrary: q) (auto intro: order_trans max.cobounded2)

lemma worst_snoc: "worst_of (qs @ [c]) = Some (case worst_of qs of None \<Rightarrow> c | Some w \<Rightarrow> max c w)"
  by (cases qs) auto

text \<open>What the tick grants, by the worst ceiling burned.\<close>

definition next_cap :: "rat \<Rightarrow> rat \<Rightarrow> rat option \<Rightarrow> rat option" where
  "next_cap b k worst =
     (case worst of
        None \<Rightarrow> Some (min (6 * b) (k * b))
      | Some w \<Rightarrow> (let raised = min (6 * b) (max (min (6 * b) (k * b)) (2 * w)) in if raised \<le> w then None else Some raised))"

lemma granted_cap:
  assumes "b = pipeline_max_turns config" "k = turn_size_multiplier (fst (work_size_of task))" "\<not> is_nullish task"
  shows "tp_cap (fst (turn_budget_for (Some (\<lambda>_. Some (JArr rows))) config task)) =
      next_cap b k (worst_of (burned_turn_caps_of (JArr rows)))"
proof -
  let ?burned = "burned_turn_caps_of (JArr rows)"
  have "List.map_filter (\<lambda>v. positive_safe (to_num v)) (map (\<lambda>q. JNum (Fin q)) ?burned) = ?burned"
    using burned_caps_positive by (intro map_filter_id) simp
  then show ?thesis
    using assms pipeline_max_turns_safe [of config]
    by (simp add: turn_budget_for_def task_turn_cap_def next_cap_def js_or_def Let_def case_prod_unfold
        turn_cap_max_multiplier_def turn_cap_escalation_def mult.commute split: option.split)
qed

lemma next_cap_facts:
  assumes "next_cap b k worst = Some c" "0 < b" "1 \<le> k"
  shows "b \<le> c" "c \<le> 6 * b" "worst = Some w \<Longrightarrow> w < c \<and> min (6 * b) (2 * w) \<le> c"
    "b \<in> \<int> \<Longrightarrow> k \<in> \<int> \<Longrightarrow> (\<And>w. worst = Some w \<Longrightarrow> w \<in> \<int>) \<Longrightarrow> c \<in> \<int>"
proof -
  have kb: "b \<le> min (6 * b) (k * b)" using assms(2,3) by simp
  then have "b \<le> max (min (6 * b) (k * b)) x" for x by (simp only: le_max_iff_disj simp_thms)
  with kb show "b \<le> c" "c \<le> 6 * b" "worst = Some w \<Longrightarrow> w < c \<and> min (6 * b) (2 * w) \<le> c"
    using assms by (auto simp: next_cap_def Let_def split: option.splits if_splits)
  show "b \<in> \<int> \<Longrightarrow> k \<in> \<int> \<Longrightarrow> (\<And>w. worst = Some w \<Longrightarrow> w \<in> \<int>) \<Longrightarrow> c \<in> \<int>"
    using assms(1) by (auto simp: next_cap_def Let_def min_def max_def split: option.splits if_splits)
qed

lemma next_cap_stops: "next_cap b k (Some w) = None" if "6 * b \<le> w"
  using that by (simp add: next_cap_def Let_def)

lemma burned_snoc:
  "c \<in> \<int> \<Longrightarrow> 0 < c \<Longrightarrow> c \<le> 9007199254740991 \<Longrightarrow>
     burned_turn_caps_of (JArr (rows @ [burned_row c])) = burned_turn_caps_of (JArr rows) @ [c]"
proof -
  assume "c \<in> \<int>" "0 < c" "c \<le> 9007199254740991"
  then have "burned_cap (burned_row c) = Some c"
    by (simp add: burned_cap_def burned_row_def is_object_def own_get_def positive_safe_Some)
  then show ?thesis by (simp add: burned_turn_caps_of_def List.map_filter_def)
qed

lemma worst_max: "worst_of qs = Some w \<Longrightarrow> w \<in> set qs \<and> (\<forall>q \<in> set qs. q \<le> w)"
proof (induction qs arbitrary: w rule: rev_induct)
  case (snoc c qs)
  then show ?case by (cases "worst_of qs"; cases qs) (auto simp: worst_snoc max_def)
qed simp

text \<open>One round: it is the last, or it grants a ceiling and leaves the run one round shorter.\<close>

definition granting :: "jsval \<Rightarrow> jsval \<Rightarrow> rat \<Rightarrow> rat \<Rightarrow> bool" where
  "granting config task b k \<longleftrightarrow>
     b = pipeline_max_turns config \<and> 6 * b \<le> 9007199254740991 \<and>
     k = turn_size_multiplier (fst (work_size_of task)) \<and> \<not> is_nullish task"

lemma grantingD:
  assumes "granting config task b k"
  shows "b = pipeline_max_turns config" "6 * b \<le> 9007199254740991"
    "k = turn_size_multiplier (fst (work_size_of task))" "\<not> is_nullish task"
  using assms by (simp_all add: granting_def)

lemma base_facts:
  assumes "granting config task b k"
  shows "0 < b" "b \<in> \<int>" "1 \<le> k" "k \<in> \<int>"
  using pipeline_max_turns_safe [of config] turn_size_multiplier_bounds turn_size_multiplier_int
  by (simp_all add: grantingD(1,3) [OF assms] positive_safe_Some)

lemma round_cases:
  assumes g: "granting config task b k"
  obtains (stopped) "burn_rounds (Suc n) config task rows = []"
  | (granted) c where "next_cap b k (worst_of (burned_turn_caps_of (JArr rows))) = Some c"
      "burn_rounds (Suc n) config task rows = c # burn_rounds n config task (rows @ [burned_row c])"
      "worst_of (burned_turn_caps_of (JArr (rows @ [burned_row c]))) = Some c"
proof (cases "next_cap b k (worst_of (burned_turn_caps_of (JArr rows)))")
  case None
  then show ?thesis using granted_cap [OF grantingD(1,3,4) [OF g]] by (intro stopped) simp
next
  case (Some c)
  have int: "w \<in> \<int>" if "worst_of (burned_turn_caps_of (JArr rows)) = Some w" for w
    using worst_max [OF that] burned_caps_positive [of w "JArr rows"] by (simp add: positive_safe_Some)
  have c: "c \<in> \<int>" "0 < c" "c \<le> 9007199254740991"
    using next_cap_facts [OF Some base_facts(1,3) [OF g]] base_facts [OF g] grantingD(2) [OF g] int by (blast, linarith, linarith)
  have "worst_of (burned_turn_caps_of (JArr (rows @ [burned_row c]))) = Some c"
    unfolding burned_snoc [OF c] worst_snoc using next_cap_facts(3) [OF Some base_facts(1,3) [OF g]]
    by (auto simp: max_def split: option.split)
  then show ?thesis using granted_cap [OF grantingD(1,3,4) [OF g]] Some by (intro granted) simp_all
qed

lemma rounds_from:
  assumes g: "granting config task b k"
  shows "worst_of (burned_turn_caps_of (JArr rows)) = Some w \<Longrightarrow> 6 * b \<le> w * 2 ^ i \<Longrightarrow>
     length (burn_rounds n config task rows) \<le> i"
proof (induction i arbitrary: n rows w)
  case 0
  then show ?case using granted_cap [OF grantingD(1,3,4) [OF g]] next_cap_stops [of b w k] by (cases n) simp_all
next
  case (Suc i)
  show ?case
  proof (cases n)
    case (Suc m)
    from g show ?thesis
    proof (cases rule: round_cases [where n = m and rows = rows])
      case (granted c)
      have "min (6 * b) (2 * w) \<le> c"
        using next_cap_facts(3) [OF granted(1) base_facts(1,3) [OF g] Suc.prems(1)] by simp
      moreover have "6 * b \<le> (2 * w) * 2 ^ i" using Suc.prems(2) by (simp add: mult.assoc)
      moreover have "6 * b \<le> (6 * b) * 2 ^ i"
        using base_facts(1) [OF g] by (simp add: mult_le_cancel_left1)
      ultimately have "6 * b \<le> c * 2 ^ i"
        by (metis min_def mult_right_mono order_trans zero_le_numeral zero_le_power)
      then show ?thesis using Suc.IH [OF granted(3)] granted(2) \<open>n = Suc m\<close> by simp
    qed (simp add: \<open>n = Suc m\<close>)
  qed simp
qed

lemma rounds_grow:
  assumes g: "granting config task b k"
  shows "sorted_wrt (<) (burn_rounds n config task rows) \<and> (\<forall>c \<in> set (burn_rounds n config task rows). c \<le> 6 * b \<and>
     (\<forall>w. worst_of (burned_turn_caps_of (JArr rows)) = Some w \<longrightarrow> w < c))"
proof (induction n arbitrary: rows)
  case (Suc n)
  from g show ?case
  proof (cases rule: round_cases [where n = n and rows = rows])
    case (granted c)
    show ?thesis
      using Suc.IH [of "rows @ [burned_row c]"] next_cap_facts(2,3) [OF granted(1) base_facts(1,3) [OF g]] granted(2,3)
      by (auto intro: less_trans)
  qed simp
qed simp

lemma rounds_few:
  assumes g: "granting config task b k"
  shows "length (burn_rounds n config task rows) \<le> 4"
proof (cases n)
  case (Suc m)
  from g show ?thesis
  proof (cases rule: round_cases [where n = m and rows = rows])
    case (granted c)
    have "b \<le> c" using next_cap_facts(1) [OF granted(1) base_facts(1,3) [OF g]] .
    then have "6 * b \<le> c * 2 ^ 3" using base_facts(1) [OF g] by simp
    then have "length (burn_rounds m config task (rows @ [burned_row c])) \<le> 3" by (rule rounds_from [OF g granted(3)])
    then show ?thesis using granted(2) Suc by simp
  qed (simp add: Suc)
qed simp

section \<open>The words of a promise\<close>

text \<open>The text of a line once its bullet is gone, and the code units of a text that are not white
  space.\<close>

definition line_words :: "string \<Rightarrow> string" where
  "line_words l = (case promise_bullet l of Some t \<Rightarrow> t | None \<Rightarrow> l)"

definition ink :: "string \<Rightarrow> string" where
  "ink s = filter (\<lambda>c. \<not> js_ws c) s"

lemma ink_simps [simp]: "ink [] = []" "ink (s @ t) = ink s @ ink t" "ink (c # s) = (if js_ws c then ink s else c # ink s)"
  by (simp_all add: ink_def)

lemma ink_dropWhile: "ink (dropWhile js_ws s) = ink s"
  by (induction s) auto

lemma ink_rev: "ink (rev s) = rev (ink s)"
  by (simp add: ink_def rev_filter)

lemma ink_trim [simp]: "ink (js_trim s) = ink s"
  by (simp add: js_trim_def ink_dropWhile ink_rev)

lemma ink_blank: "js_trim s = [] \<Longrightarrow> ink s = []"
  by (metis ink_trim ink_simps(1))

lemma space_ws [simp]: "js_ws (CHR '' '')"
  by code_simp

lemma concat_items: "concat (map ink (close_item (items, cur))) =
    concat (map ink items) @ (case cur of None \<Rightarrow> [] | Some c \<Rightarrow> ink c)"
  by (cases cur) (auto simp: Let_def dest: ink_blank)

lemma mark_line_ink:
  "(\<lambda>(items, cur). concat (map ink items) @ (case cur of None \<Rightarrow> [] | Some c \<Rightarrow> ink c)) (mark_line l st) =
   (\<lambda>(items, cur). concat (map ink items) @ (case cur of None \<Rightarrow> [] | Some c \<Rightarrow> ink c)) st @ ink (line_words l)"
  by (cases st; cases "snd st")
    (auto simp: line_words_def concat_items simp del: close_item.simps dest: ink_blank split: option.split)

lemma marked_ink:
  "concat (map ink (close_item (fold mark_line ls st))) =
     concat (map ink (close_item st)) @ concat (map (\<lambda>l. ink (line_words l)) ls)"
proof (induction ls arbitrary: st)
  case (Cons l ls)
  have "concat (map ink (close_item (mark_line l st))) = concat (map ink (close_item st)) @ ink (line_words l)"
    using mark_line_ink [of l st] by (cases st; cases "mark_line l st") (simp add: concat_items del: close_item.simps mark_line.simps)
  with Cons show ?case by (simp del: close_item.simps mark_line.simps)
qed simp

lemma strip_cr_ink: "ink (strip_cr s) = ink s"
proof (cases "s \<noteq> [] \<and> code_of (last s) = 13")
  case True
  then have "js_ws (last s)" by (simp add: js_ws_def)
  moreover have "s = butlast s @ [last s]" using True by simp
  ultimately have "ink s = ink (butlast s)" by (metis append_Nil2 ink_simps)
  then show ?thesis using True by (simp add: strip_cr_def)
qed (auto simp: strip_cr_def)

lemma split_ink: "js_ws d \<Longrightarrow> concat (map ink (js_split d s)) = ink s"
proof (induction s)
  case (Cons c s)
  then show ?case by (cases "js_split d s") auto
qed simp

lemma lines_ink: "concat (map ink (js_lines s)) = ink s"
proof -
  let ?ps = "js_split (char_of (10 :: nat)) s"
  have "js_ws (char_of (10 :: nat))" by code_simp
  then have "ink s = concat (map ink ?ps)" by (simp only: split_ink)
  also have "\<dots> = concat (map ink (butlast ?ps @ [last ?ps]))"
    by (subst append_butlast_last_id) simp_all
  finally show ?thesis by (simp add: js_lines_def Let_def strip_cr_ink comp_def del: append_butlast_last_id)
qed

lemma bullet_ink: "promise_bullet l = Some t \<Longrightarrow> ink t \<noteq> []"
  by (cases t) (auto simp: promise_bullet_def Let_def split: option.splits if_splits)

definition clean_item :: "string \<Rightarrow> bool" where
  "clean_item s \<longleftrightarrow> s \<noteq> [] \<and> \<not> js_ws (hd s) \<and> \<not> js_ws (last s)"

lemma clean_trim: "js_trim s \<noteq> [] \<Longrightarrow> clean_item (js_trim s)"
  using trim_ends by (simp add: clean_item_def)

lemma close_clean: "list_all clean_item items \<Longrightarrow> list_all clean_item (close_item (items, cur))"
  by (cases cur) (auto simp: Let_def clean_trim)

lemma mark_line_clean: "list_all clean_item (fst st) \<Longrightarrow> list_all clean_item (fst (mark_line l st))"
  by (cases st) (auto simp del: close_item.simps simp: close_clean split: option.split)

lemma marked_clean: "list_all clean_item (fst st) \<Longrightarrow> list_all clean_item (close_item (fold mark_line ls st))"
proof (induction ls arbitrary: st)
  case Nil
  then show ?case by (cases st) (simp add: close_clean del: close_item.simps)
qed (simp add: mark_line_clean del: close_item.simps mark_line.simps)

section \<open>Properties\<close>

text \<open>C37: the retries of a task that burns every ceiling it is given end. Whatever the rows of the
  past, the tick grants at most four more ceilings, each strictly above every ceiling burned
  before it and none above six times the base; then it answers that there is no number to give.\<close>

theorem turn_escalation_ends:
  assumes "\<not> is_nullish task" "6 * pipeline_max_turns config \<le> 9007199254740991"
  shows "length (burn_rounds n config task rows) \<le> 4 \<and> sorted_wrt (<) (burn_rounds n config task rows) \<and>
    (\<forall>c \<in> set (burn_rounds n config task rows). c \<le> 6 * pipeline_max_turns config \<and>
       (\<forall>w \<in> set (burned_turn_caps_of (JArr rows)). w < c))"
proof (intro conjI)
  have g: "granting config task (pipeline_max_turns config) (turn_size_multiplier (fst (work_size_of task)))"
    using assms by (simp add: granting_def)
  show "length (burn_rounds n config task rows) \<le> 4" by (rule rounds_few [OF g])
  show "sorted_wrt (<) (burn_rounds n config task rows)" using rounds_grow [OF g] by blast
  have "w < c" if c: "c \<in> set (burn_rounds n config task rows)" and w: "w \<in> set (burned_turn_caps_of (JArr rows))" for c w
  proof -
    obtain x where x: "worst_of (burned_turn_caps_of (JArr rows)) = Some x"
      using w by (cases "burned_turn_caps_of (JArr rows)") auto
    then have "w \<le> x" using worst_max w by blast
    also have "x < c" using rounds_grow [OF g] c x by blast
    finally show ?thesis .
  qed
  then show "\<forall>c \<in> set (burn_rounds n config task rows). c \<le> 6 * pipeline_max_turns config \<and>
       (\<forall>w \<in> set (burned_turn_caps_of (JArr rows)). w < c)" using rounds_grow [OF g] by blast
qed

definition small_task :: jsval where
  "small_task = JObj [(''id'', JStr ''BL-1''), (''acceptance'', JStr ''the test is green'')]"

theorem turn_escalation_ends_witness:
  "burn_rounds 9 JNull small_task [] = [80, 160, 320, 480] \<and> length (burn_rounds 9 JNull small_task []) \<le> 4"
proof
  show "burn_rounds 9 JNull small_task [] = [80, 160, 320, 480]" by code_simp
  have "\<not> is_nullish small_task" by (simp add: is_nullish_def small_task_def)
  moreover have "6 * pipeline_max_turns JNull \<le> 9007199254740991" by code_simp
  ultimately show "length (burn_rounds 9 JNull small_task []) \<le> 4" using turn_escalation_ends by blast
qed

text \<open>A promise written as one text is cut into criteria without losing a word: every
  criterion is a text without white space at its ends, and together they hold, in order,
  exactly the words of the lines, less the bullets the author typed.\<close>

theorem promise_keeps_its_words:
  "list_all clean_item (acceptance_items (JStr s)) \<and>
   concat (map ink (acceptance_items (JStr s))) = concat (map (\<lambda>l. ink (line_words l)) (js_lines (js_trim s)))"
proof (cases "js_trim s = []")
  case True
  have "js_lines [] = [[]]" "line_words [] = []" by code_simp+
  then show ?thesis by (simp add: acceptance_items_def True)
next
  case False
  let ?one = "js_trim s"
  let ?ls = "js_lines ?one"
  let ?items = "close_item (fold mark_line ?ls ([], None))"
  have items: "list_all clean_item ?items" "concat (map ink ?items) = concat (map (\<lambda>l. ink (line_words l)) ?ls)"
    using marked_clean [of "([], None)"] marked_ink [of ?ls "([], None)"] by simp_all
  have one: "ink ?one \<noteq> []"
    using trim_ends [OF False] False by (cases ?one) auto
  show ?thesis
  proof (cases "list_ex (\<lambda>l. promise_bullet l \<noteq> None) ?ls \<and> ?items \<noteq> []")
    case True
    then show ?thesis using False items by (simp add: acceptance_items_def marked_promise_items_def Let_def)
  next
    case False
    have "\<not> list_ex (\<lambda>l. promise_bullet l \<noteq> None) ?ls"
    proof
      assume marked: "list_ex (\<lambda>l. promise_bullet l \<noteq> None) ?ls"
      then obtain l t where l: "l \<in> set ?ls" "promise_bullet l = Some t" by (auto simp: list_ex_iff)
      have "concat (map ink ?items) = []" using False marked by simp
      then have "ink t = []" using items(2) l by (force simp: line_words_def)
      then show False using bullet_ink [OF l(2)] by simp
    qed
    moreover from this have "concat (map (\<lambda>l. ink (line_words l)) ?ls) = concat (map ink ?ls)"
      by (intro arg_cong [of _ _ concat] map_cong) (auto simp: line_words_def list_ex_iff)
    ultimately show ?thesis
      using \<open>js_trim s \<noteq> []\<close> clean_trim [of s]
      by (simp add: acceptance_items_def marked_promise_items_def Let_def lines_ink)
  qed
qed

end
