(* ===== verification/Holds.thy ===== *)
theory Holds
  imports Js_Text
begin

text \<open>
  The holds of a wave (\<open>src/daemon/src/queue/wave-holds.mjs\<close>): an append only log per data
  directory, the addresses read back from it, and the tasks parked under a hold.

  A log is the list of its lines that are not blank, each as \<open>JSON.parse\<close> reads it, \<open>None\<close> a torn
  one; reading and appending succeed. \<open>stamp\<close> stands for \<open>new Date(ts).toISOString()\<close>.
\<close>

section \<open>The log\<close>

type_synonym wave_store = "(string \<times> jsval option list) list"

type_synonym wave_address = "string \<times> string"

definition wave_actions :: "jsval list" where
  "wave_actions = [JStr ''hold'', JStr ''release'']"

definition wave_address_cap :: nat where
  "wave_address_cap = 64"

definition wave_address :: "jsval \<Rightarrow> jsval \<Rightarrow> wave_address option" where
  "wave_address phase wave =
     (let ok = (\<lambda>v. is_str v \<or> is_num v) in
      if \<not> ok phase \<or> \<not> ok wave then None
      else let p = js_trim (to_str phase); w = js_trim (to_str wave)
           in if p = [] \<or> w = [] \<or> length p > wave_address_cap \<or> length w > wave_address_cap then None
              else Some (p, w))"

definition read_all :: "jsval \<Rightarrow> wave_store \<Rightarrow> jsval list" where
  "read_all dir store =
     (if \<not> truthy dir then []
      else (case map_of store (to_str dir) of None \<Rightarrow> [] | Some ls \<Rightarrow> List.map_filter (\<lambda>l. l) ls))"

definition append_line :: "jsval \<Rightarrow> jsval \<Rightarrow> wave_store \<Rightarrow> wave_store" where
  "append_line dir rec store =
     aset (to_str dir) ((case map_of store (to_str dir) of None \<Rightarrow> [] | Some ls \<Rightarrow> ls) @ [Some rec]) store"

definition row_address :: "jsval \<Rightarrow> wave_address option" where
  "row_address r = wave_address (jget r ''phase'') (jget r ''wave'')"

section \<open>The holds\<close>

text \<open>The map \<open>byKey\<close>: for an address, the kind of its last row and its time stamp.\<close>

definition hold_step :: "jsval \<Rightarrow> (wave_address \<times> jsval \<times> jsval) list \<Rightarrow> (wave_address \<times> jsval \<times> jsval) list" where
  "hold_step r m =
     (if \<not> truthy r \<or> (jget r ''kind'' \<noteq> JStr ''hold'' \<and> jget r ''kind'' \<noteq> JStr ''release'') then m
      else (case row_address r of
              None \<Rightarrow> m
            | Some a \<Rightarrow> aset a (jget r ''kind'', coalesce (jget r ''ts'') JNull) m))"

definition read_wave_holds :: "jsval \<Rightarrow> wave_store \<Rightarrow> (wave_address \<times> jsval) list" where
  "read_wave_holds dir store =
     (let by_key = fold hold_step (read_all dir store) []
      in map (\<lambda>(a, _, since). (a, since)) (filter (\<lambda>(_, kind, _). kind = JStr ''hold'') by_key))"

datatype wave_answer = Wave_refused string | Wave_ok wave_address bool

definition hold_row :: "(jsval \<Rightarrow> string) \<Rightarrow> jsval \<Rightarrow> jsval \<Rightarrow> wave_address \<Rightarrow> jsval" where
  "hold_row stamp ts action a =
     JObj [(''kind'', action), (''phase'', JStr (fst a)), (''wave'', JStr (snd a)), (''ts'', ts), (''at'', JStr (stamp ts))]"

definition write_wave_hold ::
    "(jsval \<Rightarrow> string) \<Rightarrow> jsval \<Rightarrow> jsval \<Rightarrow> jsval \<Rightarrow> jsval \<Rightarrow> jsval \<Rightarrow> wave_store \<Rightarrow> wave_answer \<times> wave_store" where
  "write_wave_hold stamp ts dir phase wave action store =
     (if \<not> truthy dir then (Wave_refused ''no store'', store)
      else if action \<notin> set wave_actions then (Wave_refused ''bad action'', store)
      else (case wave_address phase wave of
              None \<Rightarrow> (Wave_refused ''bad address'', store)
            | Some a \<Rightarrow>
                let already = list_ex (\<lambda>(h, _). h = a) (read_wave_holds dir store)
                in (Wave_ok a (if action = JStr ''hold'' then already else \<not> already),
                    append_line dir (hold_row stamp ts action a) store)))"

section \<open>The parked tasks\<close>

text \<open>The loop that looks for the last hold from the end.\<close>

fun last_hold :: "jsval list \<Rightarrow> nat \<Rightarrow> nat option" where
  "last_hold rows 0 = None"
| "last_hold rows (Suc i) = (if jget (rows ! i) ''kind'' = JStr ''hold'' then Some i else last_hold rows i)"

definition park_step :: "jsval \<Rightarrow> string list \<Rightarrow> string list" where
  "park_step r out =
     (case jget r ''taskId'' of
        JStr t \<Rightarrow> (if jget r ''kind'' = JStr ''parked'' \<and> t \<notin> set out then out @ [t] else out)
      | _ \<Rightarrow> out)"

definition read_wave_parked :: "jsval \<Rightarrow> jsval \<Rightarrow> jsval \<Rightarrow> wave_store \<Rightarrow> string list" where
  "read_wave_parked dir phase wave store =
     (case wave_address phase wave of
        None \<Rightarrow> []
      | Some a \<Rightarrow>
          let mine = filter (\<lambda>r. truthy r \<and> row_address r = Some a) (read_all dir store)
          in case last_hold mine (length mine) of
               None \<Rightarrow> []
             | Some from \<Rightarrow> fold park_step (drop (from + 1) mine) [])"

definition parked_row :: "(jsval \<Rightarrow> string) \<Rightarrow> jsval \<Rightarrow> wave_address \<Rightarrow> jsval \<Rightarrow> jsval" where
  "parked_row stamp ts a task =
     JObj [(''kind'', JStr ''parked''), (''phase'', JStr (fst a)), (''wave'', JStr (snd a)), (''taskId'', task),
       (''ts'', ts), (''at'', JStr (stamp ts))]"

definition mark_wave_parked ::
    "(jsval \<Rightarrow> string) \<Rightarrow> jsval \<Rightarrow> jsval \<Rightarrow> jsval \<Rightarrow> jsval \<Rightarrow> jsval list \<Rightarrow> wave_store \<Rightarrow> wave_store" where
  "mark_wave_parked stamp ts dir phase wave tasks store =
     (case wave_address phase wave of
        None \<Rightarrow> store
      | Some a \<Rightarrow>
          if \<not> truthy dir \<or> tasks = [] then store
          else fold (\<lambda>t. append_line dir (parked_row stamp ts a t)) tasks store)"

section \<open>What the log stands for\<close>

text \<open>The abstract state of a data directory: the addresses held, and for every address that was
  ever held the tasks parked since its last hold.\<close>

record wave_view =
  wv_held :: "wave_address set"
  wv_parked :: "wave_address \<Rightarrow> string list option"

definition spec_hold :: "wave_address \<Rightarrow> wave_view \<Rightarrow> wave_view" where
  "spec_hold a v = \<lparr>wv_held = insert a (wv_held v), wv_parked = (wv_parked v)(a \<mapsto> [])\<rparr>"

definition spec_release :: "wave_address \<Rightarrow> wave_view \<Rightarrow> wave_view" where
  "spec_release a v = v\<lparr>wv_held := wv_held v - {a}\<rparr>"

definition park_one :: "jsval \<Rightarrow> string list \<Rightarrow> string list" where
  "park_one task ts = (case task of JStr t \<Rightarrow> (if t \<in> set ts then ts else ts @ [t]) | _ \<Rightarrow> ts)"

definition spec_park :: "wave_address \<Rightarrow> jsval \<Rightarrow> wave_view \<Rightarrow> wave_view" where
  "spec_park a task v = v\<lparr>wv_parked := (wv_parked v)(a := map_option (park_one task) (wv_parked v a))\<rparr>"

definition rows_at :: "jsval list \<Rightarrow> wave_address \<Rightarrow> jsval list" where
  "rows_at rows a = filter (\<lambda>r. truthy r \<and> row_address r = Some a) rows"

definition parked_in :: "jsval list \<Rightarrow> wave_address \<Rightarrow> string list option" where
  "parked_in rows a = (let mine = rows_at rows a in
     map_option (\<lambda>from. fold park_step (drop (from + 1) mine) []) (last_hold mine (length mine)))"

definition view_of :: "jsval list \<Rightarrow> wave_view" where
  "view_of rows = \<lparr>wv_held = {a. \<exists>since. map_of (fold hold_step rows []) a = Some (JStr ''hold'', since)},
     wv_parked = parked_in rows\<rparr>"

definition view_dir :: "jsval \<Rightarrow> wave_store \<Rightarrow> wave_view" where
  "view_dir dir store = view_of (read_all dir store)"

text \<open>The view is what the readers answer.\<close>

lemma holds_wf: "wf_map (fold hold_step rows m)" if "wf_map m"
  using that by (induction rows arbitrary: m) (auto simp: hold_step_def split: option.split)

lemma view_held: "wv_held (view_dir dir store) = fst ` set (read_wave_holds dir store)"
proof -
  let ?m = "fold hold_step (read_all dir store) []"
  have "distinct (map fst ?m)" using holds_wf [of "[]"] by (simp add: wf_map_def akeys_def)
  then have "map_of ?m a = Some v \<longleftrightarrow> (a, v) \<in> set ?m" for a v by simp
  then show ?thesis by (force simp: view_dir_def view_of_def read_wave_holds_def Let_def image_iff)
qed

lemma view_parked:
  "wave_address phase wave = Some a \<Longrightarrow>
     read_wave_parked dir phase wave store = (case wv_parked (view_dir dir store) a of None \<Rightarrow> [] | Some ts \<Rightarrow> ts)"
  by (simp add: read_wave_parked_def view_dir_def view_of_def parked_in_def rows_at_def Let_def split: option.split)

lemma address_again: "wave_address phase wave = Some (p, w) \<Longrightarrow> wave_address (JStr p) (JStr w) = Some (p, w)"
  by (auto simp: wave_address_def Let_def split: if_splits)

lemma read_append: "truthy dir \<Longrightarrow> read_all dir (append_line dir r store) = read_all dir store @ [r]"
  by (simp add: read_all_def append_line_def List.map_filter_def split: option.split)

lemma last_hold_append: "i \<le> length xs \<Longrightarrow> last_hold (xs @ ys) i = last_hold xs i"
  by (induction i) (auto simp: nth_append)

lemma last_hold_bound: "last_hold xs i = Some j \<Longrightarrow> j < i"
  by (induction i) (auto split: if_splits)

text \<open>One more row in the log.\<close>

lemma rows_at_snoc: "rows_at (rows @ [r]) a = rows_at rows a @ (if truthy r \<and> row_address r = Some a then [r] else [])"
  by (simp add: rows_at_def)

lemma parked_other: "row_address r \<noteq> Some a \<Longrightarrow> parked_in (rows @ [r]) a = parked_in rows a"
  by (simp add: parked_in_def rows_at_snoc)

lemma parked_hold:
  "truthy r \<Longrightarrow> row_address r = Some a \<Longrightarrow> jget r ''kind'' = JStr ''hold'' \<Longrightarrow> parked_in (rows @ [r]) a = Some []"
  by (simp add: parked_in_def rows_at_snoc)

lemma parked_more:
  assumes "truthy r" "row_address r = Some a" "jget r ''kind'' \<noteq> JStr ''hold''"
  shows "parked_in (rows @ [r]) a = map_option (park_step r) (parked_in rows a)"
proof -
  let ?mine = "rows_at rows a"
  have "last_hold (?mine @ [r]) (Suc (length ?mine)) = last_hold ?mine (length ?mine)"
    using assms(3) by (simp add: last_hold_append)
  then show ?thesis
    using assms last_hold_bound [of ?mine "length ?mine"]
    by (cases "last_hold ?mine (length ?mine)") (auto simp: parked_in_def rows_at_snoc Let_def)
qed

lemma row_fields:
  assumes "wave_address phase wave = Some a"
  shows "row_address (hold_row stamp ts action a) = Some a" "row_address (parked_row stamp ts a task) = Some a"
    "jget (hold_row stamp ts action a) ''kind'' = action" "jget (parked_row stamp ts a task) ''kind'' = JStr ''parked''"
    "jget (parked_row stamp ts a task) ''taskId'' = task"
    "truthy (hold_row stamp ts action a)" "truthy (parked_row stamp ts a task)"
  using assms address_again [of phase wave "fst a" "snd a"]
  by (simp_all add: row_address_def hold_row_def parked_row_def own_get_def)

lemma view_hold_row:
  assumes "wave_address phase wave = Some a" "action \<in> set wave_actions"
  shows "view_of (rows @ [hold_row stamp ts action a]) =
      (if action = JStr ''hold'' then spec_hold a else spec_release a) (view_of rows)"
proof -
  let ?r = "hold_row stamp ts action a"
  have act: "action = JStr ''hold'' \<or> action = JStr ''release''" using assms(2) by (simp add: wave_actions_def)
  have parked: "parked_in (rows @ [?r]) b = (if b = a then if action = JStr ''hold'' then Some [] else parked_in rows a
      else parked_in rows b)" for b
  proof (cases "b = a")
    case True
    have "park_step ?r = (\<lambda>out. out)"
      by (simp add: park_step_def fun_eq_iff hold_row_def own_get_def split: jsval.split)
    then show ?thesis
      using True parked_hold [OF row_fields(6,1) [OF assms(1)]] parked_more [OF row_fields(6,1) [OF assms(1)]]
        row_fields(3) [OF assms(1)] by (simp add: option.map_ident)
  next
    case False
    then show ?thesis using parked_other row_fields(1) [OF assms(1)] by simp
  qed
  have "fold hold_step (rows @ [?r]) [] = aset a (action, coalesce (jget ?r ''ts'') JNull) (fold hold_step rows [])"
    using act row_fields [OF assms(1)] by (auto simp: hold_step_def)
  then have held: "wv_held (view_of (rows @ [?r])) =
      (if action = JStr ''hold'' then insert a (wv_held (view_of rows)) else wv_held (view_of rows) - {a})"
    using act by (auto simp: view_of_def)
  have "parked_in (rows @ [?r]) = (if action = JStr ''hold'' then (parked_in rows)(a \<mapsto> []) else parked_in rows)"
    using act by (intro ext) (simp add: parked)
  then show ?thesis using held by (simp add: view_of_def spec_hold_def spec_release_def)
qed

lemma view_parked_row:
  assumes "wave_address phase wave = Some a"
  shows "view_of (rows @ [parked_row stamp ts a task]) = spec_park a task (view_of rows)"
proof -
  let ?r = "parked_row stamp ts a task"
  have step: "park_step ?r = park_one task"
    by (simp add: park_step_def park_one_def fun_eq_iff row_fields [OF assms] split: jsval.split)
  have parked: "parked_in (rows @ [?r]) b = (if b = a then map_option (park_one task) (parked_in rows a)
      else parked_in rows b)" for b
    using parked_more [OF row_fields(7,2) [OF assms]] row_fields(4) [OF assms] parked_other row_fields(2) [OF assms]
    by (simp add: step)
  have "hold_step ?r m = m" for m using row_fields(4) [OF assms] by (simp add: hold_step_def)
  then show ?thesis by (auto simp: view_of_def spec_park_def parked fun_eq_iff)
qed

lemma view_append: "truthy dir \<Longrightarrow> view_dir dir (append_line dir r store) = view_of (read_all dir store @ [r])"
  by (simp add: view_dir_def read_append)

lemma view_marks:
  assumes "wave_address phase wave = Some a" "truthy dir"
  shows "view_dir dir (fold (\<lambda>t. append_line dir (parked_row stamp ts a t)) tasks store) =
    fold (spec_park a) tasks (view_dir dir store)"
  using assms view_append view_parked_row [OF assms(1)]
  by (induction tasks arbitrary: store) (simp_all add: view_dir_def)

section \<open>Property\<close>

text \<open>C36: the append only log implements the holds it stands for. An accepted \<open>hold\<close> adds the
  address and empties its parked tasks, an accepted \<open>release\<close> removes it, marking tasks parked
  adds each once to an address that was ever held, a refused call changes nothing, and the
  answer \<open>already\<close> says whether the view was so before.\<close>

theorem wave_log_refines:
  assumes "truthy dir"
  shows "(case write_wave_hold stamp ts dir phase wave action store of
      (Wave_refused _, after) \<Rightarrow> after = store
    | (Wave_ok a already, after) \<Rightarrow>
        view_dir dir after = (if action = JStr ''hold'' then spec_hold a else spec_release a) (view_dir dir store) \<and>
        (already \<longleftrightarrow> (a \<in> wv_held (view_dir dir store)) = (action = JStr ''hold''))) \<and>
    view_dir dir (mark_wave_parked stamp ts dir phase wave tasks store) =
      (case wave_address phase wave of None \<Rightarrow> view_dir dir store
       | Some a \<Rightarrow> fold (spec_park a) tasks (view_dir dir store))"
proof (intro conjI)
  have "list_ex (\<lambda>(h, _). h = a) (read_wave_holds dir store) \<longleftrightarrow> a \<in> wv_held (view_dir dir store)" for a
    by (force simp: list_ex_iff view_held)
  then show "case write_wave_hold stamp ts dir phase wave action store of
      (Wave_refused _, after) \<Rightarrow> after = store
    | (Wave_ok a already, after) \<Rightarrow>
        view_dir dir after = (if action = JStr ''hold'' then spec_hold a else spec_release a) (view_dir dir store) \<and>
        (already \<longleftrightarrow> (a \<in> wv_held (view_dir dir store)) = (action = JStr ''hold''))"
    using assms view_append [OF assms] view_hold_row
    by (auto simp: write_wave_hold_def Let_def view_dir_def split: option.split)
  show "view_dir dir (mark_wave_parked stamp ts dir phase wave tasks store) =
      (case wave_address phase wave of None \<Rightarrow> view_dir dir store
       | Some a \<Rightarrow> fold (spec_park a) tasks (view_dir dir store))"
    using assms by (simp add: mark_wave_parked_def view_marks split: option.split)
qed

theorem wave_log_refines_witness:
  "let s = snd (write_wave_hold (\<lambda>_. ''t'') (JInt 5) (JStr ''d'') (JInt 7) (JStr '' w1 '') (JStr ''hold'') [])
   in fst (write_wave_hold (\<lambda>_. ''t'') (JInt 5) (JStr ''d'') (JInt 7) (JStr '' w1 '') (JStr ''hold'') []) =
        Wave_ok (''7'', ''w1'') False \<and>
      view_dir (JStr ''d'') s = spec_hold (''7'', ''w1'') (view_dir (JStr ''d'') [])"
proof -
  have run: "write_wave_hold (\<lambda>_. ''t'') (JInt 5) (JStr ''d'') (JInt 7) (JStr '' w1 '') (JStr ''hold'') [] =
      (Wave_ok (''7'', ''w1'') False, [(''d'', [Some (hold_row (\<lambda>_. ''t'') (JInt 5) (JStr ''hold'') (''7'', ''w1''))])])"
    by code_simp
  have "truthy (JStr ''d'')" by simp
  from wave_log_refines [OF this, where stamp = "\<lambda>_. ''t''" and ts = "JInt 5" and phase = "JInt 7"
      and wave = "JStr '' w1 ''" and action = "JStr ''hold''" and store = "[]"]
  show ?thesis unfolding run by simp
qed

end
