(* ===== verification/Reconcile.thy ===== *)
theory Reconcile
  imports Ledger
begin

text \<open>
  Reconstruction of lost attempt rows at start (\<open>src/daemon/src/queue/reconcile.mjs\<close>): a task whose
  attempt number says that earlier attempts concluded gets a failed row for each number the ledger
  does not hold. The queue's answer is an argument; the ledger is the one of \<open>Ledger\<close>: a file
  whose rows cannot be read is left alone.
\<close>

section \<open>What is missing\<close>

definition min_retried_attempt :: rat where "min_retried_attempt = 2"

definition terminal_statuses :: "jsval list" where
  "terminal_statuses = [JStr ''completed'', JStr ''failed'']"

definition concluded_attempts :: "jsval \<Rightarrow> rat" where
  "concluded_attempts row =
     (case to_num (and_get row ''attempt'') of
        Fin a \<Rightarrow> if a < min_retried_attempt then 0
                 else a - 1 + (if jget row ''status'' \<in> set terminal_statuses then 1 else 0)
      | _ \<Rightarrow> 0)"

fun recorded_numbers :: "jsval list \<Rightarrow> rat list \<Rightarrow> rat list option" where
  "recorded_numbers [] acc = Some acc"
| "recorded_numbers (row # rows) acc =
     (case to_num (and_get row ''attempt'') of Fin n \<Rightarrow> recorded_numbers rows (n # acc) | _ \<Rightarrow> None)"

definition missing_attempt_numbers :: "jsval \<Rightarrow> rat \<Rightarrow> int list option" where
  "missing_attempt_numbers existing concluded =
     (case recorded_numbers (elems existing) [] of
        None \<Rightarrow> None
      | Some recorded \<Rightarrow> Some (filter (\<lambda>n. of_int n \<notin> set recorded) [1..\<lfloor>concluded\<rfloor>]))"

section \<open>The pass\<close>

record reconcile_state =
  rc_examined :: nat
  rc_reconstructed :: nat
  rc_ledger :: ledger

definition reconstructed_row :: "string \<Rightarrow> jsval \<Rightarrow> int \<Rightarrow> jsval" where
  "reconstructed_row now_iso task_id n =
     JObj [(''taskId'', task_id), (''attempt'', JInt n), (''outcome'', JStr ''failed''),
       (''failureReason'', JStr ''liveness_killed''), (''reconstructed'', JBool True), (''recordedAt'', JStr now_iso)]"

text \<open>The rows of one task; the first refusal of the ledger ends them, as the \<open>catch\<close> does.\<close>

fun record_missing ::
    "(string \<Rightarrow> jsnum) \<Rightarrow> (rat \<Rightarrow> string) \<Rightarrow> (string \<Rightarrow> string) \<Rightarrow> string \<Rightarrow> jsval \<Rightarrow> jsval \<Rightarrow> int list
      \<Rightarrow> reconcile_state \<Rightarrow> reconcile_state" where
  "record_missing parse stamp sha now_iso dir task_id [] s = s"
| "record_missing parse stamp sha now_iso dir task_id (n # ns) s =
     (case record_attempt parse stamp sha now_iso dir (reconstructed_row now_iso task_id n) (rc_ledger s) of
        (Inl _, _) \<Rightarrow> s
      | (Inr _, st) \<Rightarrow> record_missing parse stamp sha now_iso dir task_id ns
                          (s\<lparr>rc_reconstructed := rc_reconstructed s + 1, rc_ledger := st\<rparr>))"

definition reconcile_row ::
    "(string \<Rightarrow> jsnum) \<Rightarrow> (rat \<Rightarrow> string) \<Rightarrow> (string \<Rightarrow> string) \<Rightarrow> string \<Rightarrow> jsval \<Rightarrow> jsval
      \<Rightarrow> reconcile_state \<Rightarrow> reconcile_state" where
  "reconcile_row parse stamp sha now_iso dir row s =
     (let concluded = concluded_attempts row in
      if concluded < 1 then s
      else let s1 = s\<lparr>rc_examined := rc_examined s + 1\<rparr>; task_id = jget row ''id'' in
        case read_attempts (rc_ledger s) (to_str task_id) of
          None \<Rightarrow> s1
        | Some existing \<Rightarrow>
            (case missing_attempt_numbers (JArr existing) concluded of
               None \<Rightarrow> s1
             | Some missing \<Rightarrow> record_missing parse stamp sha now_iso dir task_id missing s1))"

definition reconcile_attempts ::
    "(string \<Rightarrow> jsnum) \<Rightarrow> (rat \<Rightarrow> string) \<Rightarrow> (string \<Rightarrow> string) \<Rightarrow> string \<Rightarrow> jsval \<Rightarrow> jsval list \<Rightarrow> ledger
      \<Rightarrow> reconcile_state" where
  "reconcile_attempts parse stamp sha now_iso dir rows st =
     fold (reconcile_row parse stamp sha now_iso dir) rows
       \<lparr>rc_examined = 0, rc_reconstructed = 0, rc_ledger = st\<rparr>"

section \<open>What a recorded row keeps\<close>

lemma own_get_map: "distinct ks \<Longrightarrow> k \<in> set ks \<Longrightarrow> own_get (map (\<lambda>k. (k, f k)) ks) k = f k"
  by (auto simp: own_get_def map_of_map_restrict)

lemma own_get_adel: "k' \<noteq> k \<Longrightarrow> own_get (adel k m) k' = own_get m k'"
  by (simp add: own_get_def)

lemma row_number:
  fixes m :: jsmap
  shows "k \<in> set stamp_keys \<Longrightarrow> own_get (stamp_row parse stamp k m) ''attempt'' = own_get m ''attempt''"
    "own_get (hash_row sha a m) ''attempt'' = own_get m ''attempt''"
    "own_get (conflict_row st t m) ''attempt'' = own_get m ''attempt''"
    "own_get (aset ''recordedAt'' v m) ''attempt'' = own_get m ''attempt''"
  by (auto simp: stamp_row_def stamp_keys_def hash_row_def conflict_row_def Let_def own_get_aset own_get_adel
      split: option.split sum.split)

lemma fields_number: "own_get (fold (stamp_row parse stamp) stamp_keys m) ''attempt'' = own_get m ''attempt''"
proof -
  have "fold (stamp_row parse stamp) stamp_keys m =
      stamp_row parse stamp ''endedAt'' (stamp_row parse stamp ''startedAt'' m)" by (simp add: stamp_keys_def)
  then show ?thesis using row_number(1) by (simp add: stamp_keys_def)
qed

lemma allowed_number:
  "jget attempt ''attempt'' \<noteq> JUndef \<Longrightarrow> own_get (allowed_row attempt) ''attempt'' = jget attempt ''attempt''"
proof -
  assume "jget attempt ''attempt'' \<noteq> JUndef"
  moreover have "distinct allowed_attempt_keys" "''attempt'' \<in> set allowed_attempt_keys" by code_simp+
  ultimately show ?thesis unfolding allowed_row_def by (intro own_get_map) simp_all
qed

lemma recorded_row:
  assumes "record_attempt parse stamp sha now_iso dir attempt st = (Inr row, st')"
    "jget attempt ''attempt'' = JInt n"
  shows "to_num (and_get row ''attempt'') = Fin (of_int n)"
proof -
  obtain row2 where row: "row = JObj row2"
    using record_attempt_row(1) [OF assms(1)] by (auto simp: is_plain_iff)
  have "own_get row2 ''attempt'' = own_get (allowed_row attempt) ''attempt''"
    using assms(1) unfolding record_attempt_def Let_def row
    by (auto simp: row_number fields_number split: if_splits)
  then show ?thesis using allowed_number [of attempt] assms(2) by (simp add: row and_get_def)
qed

section \<open>Ledgers that grow\<close>

abbreviation number_of :: "jsval \<Rightarrow> jsnum" where
  "number_of r \<equiv> to_num (and_get r ''attempt'')"

definition numbers_in :: "jsval list \<Rightarrow> rat set" where
  "numbers_in rows = {n. \<exists>r \<in> set rows. number_of r = Fin n}"

text \<open>\<open>Number(null)\<close> is a number, but a \<open>null\<close> line numbers nothing.\<close>

definition placeable :: "jsval list \<Rightarrow> bool" where
  "placeable rows \<longleftrightarrow> (\<forall>r \<in> set rows. is_finite_num (number_of r))"

definition all_numbered :: "jsval list \<Rightarrow> bool" where
  "all_numbered rows \<longleftrightarrow> (\<forall>r \<in> set rows. r \<noteq> JNull \<and> is_finite_num (number_of r))"

lemma numbered_readable: "all_numbered rows \<Longrightarrow> readable rows \<and> placeable rows"
  by (auto simp: all_numbered_def readable_def placeable_def)

definition file_rows :: "ledger \<Rightarrow> string \<Rightarrow> jsval list" where
  "file_rows st f = (case st f of None \<Rightarrow> [] | Some rows \<Rightarrow> rows)"

definition grows :: "ledger \<Rightarrow> ledger \<Rightarrow> bool" where
  "grows st st' \<longleftrightarrow> (\<forall>f. \<exists>new. file_rows st' f = file_rows st f @ new \<and> all_numbered new)"

text \<open>A task whose rows the ledger refuses: no directory, or no usable id.\<close>

definition refused :: "jsval \<Rightarrow> jsval \<Rightarrow> bool" where
  "refused dir task_id \<longleftrightarrow> \<not> truthy dir \<or> \<not> is_str task_id \<or> task_id = JStr []"

definition settled :: "jsval \<Rightarrow> ledger \<Rightarrow> jsval \<Rightarrow> bool" where
  "settled dir st row \<longleftrightarrow>
     (let rows = file_rows st (ledger_file (to_str (jget row ''id''))) in
      concluded_attempts row < 1 \<or> \<not> (readable rows \<and> placeable rows) \<or> refused dir (jget row ''id'') \<or>
      (\<forall>n \<in> {1..\<lfloor>concluded_attempts row\<rfloor>}. of_int n \<in> numbers_in rows))"

lemma grows_refl: "grows st st"
  by (simp add: grows_def all_numbered_def)

lemma grows_trans: "grows a b \<Longrightarrow> grows b c \<Longrightarrow> grows a c"
  unfolding grows_def all_numbered_def by (metis Un_iff append.assoc set_append)

lemma settled_grows: "grows st st' \<Longrightarrow> settled dir st row \<Longrightarrow> settled dir st' row"
proof -
  assume "grows st st'"
  then obtain new where "file_rows st' (ledger_file (to_str (jget row ''id''))) =
      file_rows st (ledger_file (to_str (jget row ''id''))) @ new"
    unfolding grows_def by blast
  then show "settled dir st row \<Longrightarrow> settled dir st' row"
    by (auto simp: settled_def Let_def placeable_def readable_def numbers_in_def)
qed

lemma recorded_numbers_eq:
  "recorded_numbers rows acc =
     (if placeable rows then Some (rev (map (\<lambda>r. case number_of r of Fin n \<Rightarrow> n | _ \<Rightarrow> 0) rows) @ acc) else None)"
  by (induction rows arbitrary: acc) (auto simp: placeable_def split: jsnum.split)

lemma missing_eq:
  "missing_attempt_numbers (JArr rows) c =
     (if placeable rows then Some (filter (\<lambda>n. of_int n \<notin> numbers_in rows) [1..\<lfloor>c\<rfloor>]) else None)"
proof -
  have "placeable rows \<Longrightarrow>
      (\<lambda>r. case number_of r of Fin n \<Rightarrow> n | _ \<Rightarrow> 0) ` set rows = numbers_in rows"
    unfolding numbers_in_def placeable_def
    by (auto split: jsnum.split intro: rev_image_eqI) (metis is_finite_num.simps jsnum.exhaust)+
  then show ?thesis by (simp add: missing_attempt_numbers_def recorded_numbers_eq)
qed

lemma missing_read:
  "(case read_attempts st t of None \<Rightarrow> None | Some rows \<Rightarrow> missing_attempt_numbers (JArr rows) c) =
     (let rows = file_rows st (ledger_file t) in
      if readable rows \<and> placeable rows then Some (filter (\<lambda>n. of_int n \<notin> numbers_in rows) [1..\<lfloor>c\<rfloor>]) else None)"
proof -
  have same: "set (sort_key attempt_order rows) = set rows" for rows by simp
  have kept: "placeable (sort_key attempt_order rows) = placeable rows" "numbers_in (sort_key attempt_order rows) = numbers_in rows" for rows
    unfolding placeable_def numbers_in_def same by (rule refl)+
  have empty: "readable []" "placeable []" "numbers_in [] = {}" by (simp_all add: readable_def placeable_def numbers_in_def)
  show ?thesis
    by (cases "st (ledger_file t)") (simp_all add: read_attempts_def file_rows_def missing_eq kept empty)
qed

lemma reconcile_row_eq:
  "reconcile_row parse stamp sha now_iso dir row s =
     (let c = concluded_attempts row; rows = file_rows (rc_ledger s) (ledger_file (to_str (jget row ''id''))) in
      if c < 1 then s
      else if readable rows \<and> placeable rows
      then record_missing parse stamp sha now_iso dir (jget row ''id'')
             (filter (\<lambda>n. of_int n \<notin> numbers_in rows) [1..\<lfloor>c\<rfloor>]) (s\<lparr>rc_examined := rc_examined s + 1\<rparr>)
      else s\<lparr>rc_examined := rc_examined s + 1\<rparr>)"
proof -
  have nest: "(case r of None \<Rightarrow> z | Some e \<Rightarrow> (case f e of None \<Rightarrow> z | Some m \<Rightarrow> g m)) =
      (case (case r of None \<Rightarrow> None | Some e \<Rightarrow> f e) of None \<Rightarrow> z | Some m \<Rightarrow> g m)" for r f g and z :: reconcile_state
    by (cases r) simp_all
  show ?thesis unfolding reconcile_row_def Let_def nest missing_read by simp
qed

lemma record_refused:
  "refused dir task_id \<Longrightarrow> \<exists>e. record_attempt parse stamp sha now_iso dir (reconstructed_row now_iso task_id n) st = (Inl e, st)"
  by (auto simp: refused_def record_attempt_def reconstructed_row_def is_object_def own_get_def)

lemma record_accepted:
  assumes "\<not> refused dir task_id"
  obtains row where
    "record_attempt parse stamp sha now_iso dir (reconstructed_row now_iso task_id n) st =
       (Inr row, st(ledger_file (to_str task_id) \<mapsto> file_rows st (ledger_file (to_str task_id)) @ [row]))"
    "number_of row = Fin (of_int n)" "row \<noteq> JNull"
proof -
  obtain t where t: "task_id = JStr t" "t \<noteq> []" "truthy dir"
    using assms by (auto simp: refused_def is_str_iff)
  let ?a = "reconstructed_row now_iso task_id n"
  have a: "is_object ?a" "jget ?a ''taskId'' = JStr t" "jget ?a ''attempt'' = JInt n"
    by (simp_all add: reconstructed_row_def is_object_def own_get_def t)
  obtain row where r: "record_attempt parse stamp sha now_iso dir ?a st =
      (Inr row, st(ledger_file t \<mapsto> file_rows st (ledger_file t) @ [row]))"
    using t(2,3) a(1,2) by (simp add: record_attempt_def Let_def file_rows_def)
  have "row \<noteq> JNull" using record_attempt_row(1) [OF r] by (auto simp: is_plain_iff)
  then show ?thesis using that [of row] r recorded_row [OF r a(3)] by (simp add: t(1))
qed

lemma record_missing_refused:
  "refused dir task_id \<Longrightarrow> record_missing parse stamp sha now_iso dir task_id ns s = s"
proof (cases ns)
  case (Cons n ns')
  assume "refused dir task_id"
  then obtain e where "record_attempt parse stamp sha now_iso dir (reconstructed_row now_iso task_id n) (rc_ledger s) =
      (Inl e, rc_ledger s)" using record_refused by blast
  then show ?thesis by (simp add: Cons)
qed simp

lemma record_missing_accepted:
  assumes "\<not> refused dir task_id"
  shows "\<exists>new. length new = length ns \<and> all_numbered new \<and> numbers_in new = of_int ` set ns \<and>
      rc_examined (record_missing parse stamp sha now_iso dir task_id ns s) = rc_examined s \<and>
      rc_reconstructed (record_missing parse stamp sha now_iso dir task_id ns s) = rc_reconstructed s + length ns \<and>
      (\<forall>f. file_rows (rc_ledger (record_missing parse stamp sha now_iso dir task_id ns s)) f =
        (if f = ledger_file (to_str task_id) then file_rows (rc_ledger s) f @ new else file_rows (rc_ledger s) f))"
proof (induction ns arbitrary: s)
  case (Cons n ns)
  let ?file = "ledger_file (to_str task_id)"
  obtain row where row:
    "record_attempt parse stamp sha now_iso dir (reconstructed_row now_iso task_id n) (rc_ledger s) =
       (Inr row, (rc_ledger s)(?file \<mapsto> file_rows (rc_ledger s) ?file @ [row]))"
    "number_of row = Fin (of_int n)" "row \<noteq> JNull" by (rule record_accepted [OF assms])
  define s1 where "s1 = s\<lparr>rc_reconstructed := rc_reconstructed s + 1,
    rc_ledger := (rc_ledger s)(?file \<mapsto> file_rows (rc_ledger s) ?file @ [row])\<rparr>"
  have run: "record_missing parse stamp sha now_iso dir task_id (n # ns) s =
      record_missing parse stamp sha now_iso dir task_id ns s1" by (simp add: row(1) s1_def)
  obtain new where new: "length new = length ns" "all_numbered new" "numbers_in new = of_int ` set ns"
      "rc_examined (record_missing parse stamp sha now_iso dir task_id ns s1) = rc_examined s1"
      "rc_reconstructed (record_missing parse stamp sha now_iso dir task_id ns s1) = rc_reconstructed s1 + length ns"
      "\<And>f. file_rows (rc_ledger (record_missing parse stamp sha now_iso dir task_id ns s1)) f =
        (if f = ?file then file_rows (rc_ledger s1) f @ new else file_rows (rc_ledger s1) f)"
    using Cons.IH [of s1] by blast
  show ?case
    unfolding run
    by (rule exI [of _ "row # new"])
      (use new row(2,3) in \<open>auto simp: s1_def all_numbered_def numbers_in_def file_rows_def\<close>)
qed (simp add: all_numbered_def numbers_in_def)

text \<open>One task: its gaps are filled, nothing is taken away, and a settled task is left alone.\<close>

lemma reconcile_row_settles:
  "grows (rc_ledger s) (rc_ledger (reconcile_row parse stamp sha now_iso dir row s)) \<and>
   settled dir (rc_ledger (reconcile_row parse stamp sha now_iso dir row s)) row"
proof -
  let ?id = "jget row ''id''"
  let ?rows = "file_rows (rc_ledger s) (ledger_file (to_str ?id))"
  let ?c = "concluded_attempts row"
  show ?thesis
  proof (cases "?c < 1 \<or> \<not> (readable ?rows \<and> placeable ?rows) \<or> refused dir ?id")
    case True
    then have "rc_ledger (reconcile_row parse stamp sha now_iso dir row s) = rc_ledger s"
      by (auto simp: reconcile_row_eq Let_def record_missing_refused)
    moreover have "settled dir (rc_ledger s) row" using True by (auto simp: settled_def Let_def)
    ultimately show ?thesis by (simp add: grows_refl)
  next
    case False
    define ns where "ns = filter (\<lambda>n. of_int n \<notin> numbers_in ?rows) [1..\<lfloor>?c\<rfloor>]"
    define after where "after = rc_ledger (reconcile_row parse stamp sha now_iso dir row s)"
    have "after = rc_ledger (record_missing parse stamp sha now_iso dir ?id ns (s\<lparr>rc_examined := rc_examined s + 1\<rparr>))"
      using False by (simp add: after_def reconcile_row_eq Let_def ns_def)
    moreover have "\<not> refused dir ?id" using False by simp
    from record_missing_accepted [OF this, where parse = parse and stamp = stamp and sha = sha and now_iso = now_iso
        and ns = ns and s = "s\<lparr>rc_examined := rc_examined s + 1\<rparr>"]
    obtain new where "all_numbered new" "numbers_in new = of_int ` set ns"
      "\<And>f. file_rows (rc_ledger (record_missing parse stamp sha now_iso dir ?id ns
           (s\<lparr>rc_examined := rc_examined s + 1\<rparr>))) f =
         (if f = ledger_file (to_str ?id) then file_rows (rc_ledger s) f @ new else file_rows (rc_ledger s) f)"
      by auto
    ultimately have new: "all_numbered new" "numbers_in new = of_int ` set ns"
      "\<And>f. file_rows after f = (if f = ledger_file (to_str ?id) then file_rows (rc_ledger s) f @ new
         else file_rows (rc_ledger s) f)" by simp_all
    have "grows (rc_ledger s) after" using new(1,3) by (auto simp: grows_def all_numbered_def)
    moreover have both: "numbers_in (?rows @ new) = numbers_in ?rows \<union> of_int ` set ns"
      using new(2) by (auto simp: numbers_in_def)
    have "of_int n \<in> numbers_in (?rows @ new)" if "n \<in> {1..\<lfloor>?c\<rfloor>}" for n
      unfolding both using that by (cases "(of_int n :: rat) \<in> numbers_in ?rows") (simp_all add: ns_def)
    then have "settled dir after row"
      unfolding settled_def Let_def new(3) by (simp only: refl if_True) blast
    ultimately show ?thesis unfolding after_def ..
  qed
qed

lemma reconcile_row_idle:
  "settled dir (rc_ledger s) row \<Longrightarrow>
     rc_ledger (reconcile_row parse stamp sha now_iso dir row s) = rc_ledger s \<and>
     rc_reconstructed (reconcile_row parse stamp sha now_iso dir row s) = rc_reconstructed s"
proof -
  assume s: "settled dir (rc_ledger s) row"
  show ?thesis
  proof (cases "refused dir (jget row ''id'')")
    case True
    then show ?thesis by (simp add: reconcile_row_eq Let_def record_missing_refused)
  next
    case False
    then show ?thesis using s by (auto simp: reconcile_row_eq settled_def Let_def filter_empty_conv)
  qed
qed

lemma reconcile_rows_settle:
  "grows (rc_ledger s) (rc_ledger (fold (reconcile_row parse stamp sha now_iso dir) rows s)) \<and>
   (\<forall>row \<in> set rows. settled dir (rc_ledger (fold (reconcile_row parse stamp sha now_iso dir) rows s)) row)"
proof (induction rows arbitrary: s)
  case (Cons row rows)
  define s1 where "s1 = reconcile_row parse stamp sha now_iso dir row s"
  define s2 where "s2 = fold (reconcile_row parse stamp sha now_iso dir) rows s1"
  have one: "grows (rc_ledger s) (rc_ledger s1)" "settled dir (rc_ledger s1) row"
    using reconcile_row_settles unfolding s1_def by blast+
  have rest: "grows (rc_ledger s1) (rc_ledger s2)" "\<forall>row \<in> set rows. settled dir (rc_ledger s2) row"
    using Cons.IH [of s1] unfolding s2_def by blast+
  have "fold (reconcile_row parse stamp sha now_iso dir) (row # rows) s = s2" by (simp add: s1_def s2_def)
  then show ?case
    using grows_trans [OF one(1) rest(1)] settled_grows [OF rest(1) one(2)] rest(2) by (simp only: list.set ball_simps)
qed (simp add: grows_refl)

lemma reconcile_rows_idle:
  "\<forall>row \<in> set rows. settled dir (rc_ledger s) row \<Longrightarrow>
     rc_ledger (fold (reconcile_row parse stamp sha now_iso dir) rows s) = rc_ledger s \<and>
     rc_reconstructed (fold (reconcile_row parse stamp sha now_iso dir) rows s) = rc_reconstructed s"
  by (induction rows arbitrary: s) (simp_all add: reconcile_row_idle)

section \<open>Property\<close>

text \<open>C38: reconstruction only appends, leaves no gap among the concluded attempts of a task whose
  rows are all numbered (no line is \<open>null\<close>) and whose id the ledger accepts, and is idempotent: a second pass over the
  same queue writes nothing.\<close>

theorem reconstruction_closes_gaps:
  "let after = rc_ledger (reconcile_attempts parse stamp sha now_iso dir rows st);
       again = reconcile_attempts parse stamp sha now_iso dir rows after
   in (\<forall>f. \<exists>new. file_rows after f = file_rows st f @ new \<and> all_numbered new) \<and>
      (\<forall>row \<in> set rows. \<forall>n. 1 \<le> n \<and> of_int n \<le> concluded_attempts row \<and> \<not> refused dir (jget row ''id'') \<and>
         all_numbered (file_rows after (ledger_file (to_str (jget row ''id'')))) \<longrightarrow>
         of_int n \<in> numbers_in (file_rows after (ledger_file (to_str (jget row ''id''))))) \<and>
      rc_ledger again = after \<and> rc_reconstructed again = 0"
proof -
  let ?s = "\<lparr>rc_examined = 0, rc_reconstructed = 0, rc_ledger = st\<rparr>"
  define after where "after = rc_ledger (reconcile_attempts parse stamp sha now_iso dir rows st)"
  have grow: "grows st after" and done_all: "\<And>row. row \<in> set rows \<Longrightarrow> settled dir after row"
    using reconcile_rows_settle [where s = ?s and rows = rows] by (simp_all add: after_def reconcile_attempts_def)
  have "\<forall>f. \<exists>new. file_rows after f = file_rows st f @ new \<and> all_numbered new" using grow by (simp add: grows_def)
  moreover have "rc_ledger (reconcile_attempts parse stamp sha now_iso dir rows after) = after \<and>
     rc_reconstructed (reconcile_attempts parse stamp sha now_iso dir rows after) = 0"
    using reconcile_rows_idle [where s = "\<lparr>rc_examined = 0, rc_reconstructed = 0, rc_ledger = after\<rparr>"] done_all
    by (simp add: reconcile_attempts_def)
  moreover have "of_int n \<in> numbers_in (file_rows after (ledger_file (to_str (jget row ''id''))))"
    if "row \<in> set rows" "1 \<le> n" "of_int n \<le> concluded_attempts row" "\<not> refused dir (jget row ''id'')"
      "all_numbered (file_rows after (ledger_file (to_str (jget row ''id''))))" for row n
  proof -
    have "1 \<le> concluded_attempts row" using that(2,3) by (meson of_int_1_le_iff order_trans)
    then show ?thesis using done_all [OF that(1)] that(2-) numbered_readable [OF that(5)] by (auto simp: settled_def Let_def le_floor_iff)
  qed
  ultimately show ?thesis unfolding Let_def after_def [symmetric] by blast
qed

definition lost_rows :: "jsval list" where
  "lost_rows = [JObj [(''id'', JStr ''BL-1''), (''attempt'', JInt 3), (''status'', JStr ''queued'')]]"

theorem reconstruction_closes_gaps_witness:
  "rc_reconstructed (reconcile_attempts str_to_num (\<lambda>_. ''s'') (\<lambda>s. s) ''now'' (JStr ''d'') lost_rows Map.empty) = 2 \<and>
   rc_reconstructed (reconcile_attempts str_to_num (\<lambda>_. ''s'') (\<lambda>s. s) ''now'' (JStr ''d'') lost_rows
     (rc_ledger (reconcile_attempts str_to_num (\<lambda>_. ''s'') (\<lambda>s. s) ''now'' (JStr ''d'') lost_rows Map.empty))) = 0"
proof
  show "rc_reconstructed (reconcile_attempts str_to_num (\<lambda>_. ''s'') (\<lambda>s. s) ''now'' (JStr ''d'') lost_rows Map.empty) = 2"
    by code_simp
  show "rc_reconstructed (reconcile_attempts str_to_num (\<lambda>_. ''s'') (\<lambda>s. s) ''now'' (JStr ''d'') lost_rows
     (rc_ledger (reconcile_attempts str_to_num (\<lambda>_. ''s'') (\<lambda>s. s) ''now'' (JStr ''d'') lost_rows Map.empty))) = 0"
    using reconstruction_closes_gaps [of str_to_num "\<lambda>_. ''s''" "\<lambda>s. s" "''now''" "JStr ''d''" lost_rows Map.empty]
    unfolding Let_def by blast
qed

end
