(* ===== verification/Task_Rules.thy ===== *)
theory Task_Rules
  imports Turns
begin

text \<open>
  The vocabulary of the task queue (\<open>src/daemon/src/queue/adapter.mjs\<close>): statuses and failure
  reasons, the rules of automatic repetition, and \<open>validateTask\<close>, the gate every task passes on its
  way into the queue, with one refusal per \<open>throw\<close>.
\<close>

section \<open>Statuses and reasons\<close>

datatype task_status = Queued | Claimed | Awaiting_approval | Completed | Failed

fun status_name :: "task_status \<Rightarrow> string" where
  "status_name Queued = ''queued''"
| "status_name Claimed = ''claimed''"
| "status_name Awaiting_approval = ''awaiting_approval''"
| "status_name Completed = ''completed''"
| "status_name Failed = ''failed''"

definition task_statuses :: "task_status list" where
  "task_statuses = [Queued, Claimed, Awaiting_approval, Completed, Failed]"

definition fail_reasons :: "string list" where
  "fail_reasons =
    [''no_receipt'', ''no_journal'', ''no_lesson'', ''close_tool_broken'', ''background_turn_end'', ''no_artifact'',
     ''agent_error'', ''provider_error'', ''turns_exhausted'', ''context_exhausted'', ''tests_red'', ''env_broken'',
     ''self_referential_test'', ''new_top_level_dir'', ''needs_decision'', ''missing_access'', ''timeout'',
     ''runtime_offline'', ''liveness_killed'', ''worker_process_gone'', ''attempt_lifetime_exceeded'',
     ''window_exhausted'', ''redirect_restart'', ''wait_for_window'', ''budget_stop'', ''api_cap_unset'',
     ''day_priority_protected'', ''role_unavailable'', ''worker_switched_off'', ''attempts_exhausted'',
     ''personal_layer_error'', ''manual'', ''already_decided'']"

definition awaits_a_person :: "jsval list" where
  "awaits_a_person = map JStr [''turns_exhausted'', ''role_unavailable'', ''new_top_level_dir'', ''env_broken'', ''already_decided'']"

definition failure_awaits_a_person :: "jsval \<Rightarrow> bool" where
  "failure_awaits_a_person reason \<longleftrightarrow> List.member awaits_a_person reason"

section \<open>Automatic repetition\<close>

definition auto_retry_limit :: int where "auto_retry_limit = 2"

definition auto_retry_base_ms :: rat where "auto_retry_base_ms = 60000"

definition instrument_retry_limit :: int where "instrument_retry_limit = 1"

definition instrument_failures :: "jsval list" where
  "instrument_failures = [JStr ''close_tool_broken'']"

definition failure_is_instrumental :: "jsval \<Rightarrow> bool" where
  "failure_is_instrumental reason \<longleftrightarrow> List.member instrument_failures reason"

definition auto_retry_limit_for :: "jsval \<Rightarrow> int" where
  "auto_retry_limit_for reason = (if failure_is_instrumental reason then instrument_retry_limit else auto_retry_limit)"

definition stopped_by_a_person :: "jsval \<Rightarrow> bool" where
  "stopped_by_a_person reason \<longleftrightarrow> reason = JStr ''manual''"

definition failure_repeats_itself :: "jsval \<Rightarrow> bool" where
  "failure_repeats_itself reason =
     (if \<not> is_str reason \<or> reason = JStr [] then False
      else if stopped_by_a_person reason \<or> reason = JStr ''attempts_exhausted'' then False
      else \<not> failure_awaits_a_person reason)"

definition auto_retries_spent :: "jsval \<Rightarrow> int" where
  "auto_retries_spent row =
     (case (if is_object row then to_num (jget row ''attempt'') else NaN) of
        Fin n \<Rightarrow> if n \<ge> 1 then \<lfloor>n\<rfloor> - 1 else 0
      | _ \<Rightarrow> 0)"

definition awaits_auto_retry :: "jsval \<Rightarrow> bool" where
  "awaits_auto_retry row =
     (if \<not> is_object row \<or> jget row ''status'' \<noteq> JStr ''failed'' then False
      else if \<not> failure_repeats_itself (jget row ''failure_reason'') then False
      else auto_retries_spent row < auto_retry_limit_for (jget row ''failure_reason''))"

definition ending_awaits_a_person :: "jsval \<Rightarrow> jsval \<Rightarrow> bool" where
  "ending_awaits_a_person reason row =
     (if failure_awaits_a_person reason then True
      else if \<not> failure_is_instrumental reason then False
      else auto_retries_spent row \<ge> instrument_retry_limit)"

text \<open>\<open>msOf\<close>: a number is itself, anything else goes through \<open>Date.parse\<close>, the argument \<open>parse\<close>.\<close>

definition ms_of_value :: "(jsval \<Rightarrow> jsnum) \<Rightarrow> jsval \<Rightarrow> jsnum" where
  "ms_of_value parse v = (case v of JNum n \<Rightarrow> n | _ \<Rightarrow> (let t = parse v in if is_finite_num t then t else NaN))"

definition auto_retry_due_at :: "(jsval \<Rightarrow> jsnum) \<Rightarrow> jsval \<Rightarrow> jsnum" where
  "auto_retry_due_at parse row =
     (if \<not> awaits_auto_retry row then NaN
      else case ms_of_value parse (jget row ''completedAt'') of
             Fin stopped \<Rightarrow> Fin (stopped + auto_retry_base_ms * 2 ^ nat (auto_retries_spent row))
           | _ \<Rightarrow> Fin 0)"

section \<open>Batches and stages\<close>

definition task_stages :: "jsval list" where
  "task_stages = map JStr [''discuss'', ''plan'', ''design'', ''execute'', ''verify'']"

definition envelope_of :: "jsval \<Rightarrow> jsval" where
  "envelope_of row = (if is_object row then jget row ''data'' else JNull)"

definition is_batch_parent :: "jsval \<Rightarrow> bool" where
  "is_batch_parent row \<longleftrightarrow> is_object (envelope_of row) \<and> jget (envelope_of row) ''batch'' = JStr ''parent''"

definition is_stage_task :: "jsval \<Rightarrow> bool" where
  "is_stage_task row \<longleftrightarrow> is_object (envelope_of row) \<and> List.member task_stages (jget (envelope_of row) ''stage'')"

definition whole_number :: "jsnum \<Rightarrow> bool" where
  "whole_number n \<longleftrightarrow> (case n of Fin q \<Rightarrow> of_int \<lfloor>q\<rfloor> = q | _ \<Rightarrow> False)"

definition default_retry_limit :: jsnum where "default_retry_limit = Fin 2"

definition batch_item_retry_limit :: jsnum where "batch_item_retry_limit = Fin 0"

definition retry_limit_of :: "jsval \<Rightarrow> jsnum" where
  "retry_limit_of task =
     (case (if is_object task then jget task ''retryLimit'' else JUndef) of
        JNum n \<Rightarrow>
          if whole_number n \<and> num_le (Fin 0) n then n
          else if truthy task \<and> \<not> is_batch_parent task \<and> is_str (jget task ''batchId'')
               then batch_item_retry_limit else default_retry_limit
      | _ \<Rightarrow>
          if truthy task \<and> \<not> is_batch_parent task \<and> is_str (jget task ''batchId'')
          then batch_item_retry_limit else default_retry_limit)"

section \<open>The gate\<close>

definition task_sources :: "jsval list" where
  "task_sources = map JStr [''backlog'', ''roster'', ''return'']"

definition task_lane_names :: "jsval list" where
  "task_lane_names = map JStr [''prod'', ''research'', ''paperwork'', ''forge'']"

definition task_providers :: "jsval list" where
  "task_providers = map JStr [''claude'', ''codex'', ''api'']"

definition forge_kinds :: "jsval list" where
  "forge_kinds = map JStr [''agent'', ''skill'', ''mcp'']"

definition story_point_values :: "jsval list" where
  "story_point_values = map JInt [1, 2, 3, 5, 8, 13]"

definition task_kinds :: "jsval list" where
  "task_kinds = map JStr [''code'', ''document'']"

definition batch_roles :: "jsval list" where
  "batch_roles = [JStr ''parent'']"

definition allowed_data_keys :: "string list" where
  "allowed_data_keys = [''kind'', ''stage'', ''phase'', ''wave'', ''batch'', ''skipped'', ''cancelled'', ''requestedAt'']"

definition allowed_task_keys :: "string list" where
  "allowed_task_keys =
    [''id'', ''source'', ''title'', ''lane'', ''provider'', ''model'', ''effort'', ''role'', ''priority'', ''attempt'',
     ''storyPoints'', ''description'', ''acceptance'', ''note'', ''project'', ''batchId'', ''forge'', ''data'',
     ''retryLimit'', ''taskContext'']"

definition cap_title :: nat where "cap_title = 200"
definition cap_text :: nat where "cap_text = 2000"
definition task_context_cap :: nat where "task_context_cap = 8000"
definition cap_acceptance_items :: nat where "cap_acceptance_items = 12"
definition stage_priority :: rat where "stage_priority = 40"
definition priority_limit :: rat where "priority_limit = 1000"

definition lower_letter :: "char \<Rightarrow> bool" where
  "lower_letter c \<longleftrightarrow> 97 \<le> code_of c \<and> code_of c \<le> 122"

definition upper_letter :: "char \<Rightarrow> bool" where
  "upper_letter c \<longleftrightarrow> 65 \<le> code_of c \<and> code_of c \<le> 90"

definition alnum :: "char \<Rightarrow> bool" where
  "alnum c \<longleftrightarrow> lower_letter c \<or> upper_letter c \<or> is_digit c"

definition project_name :: "string \<Rightarrow> bool" where
  "project_name s \<longleftrightarrow> 1 \<le> length s \<and> length s \<le> 64 \<and>
     list_all (\<lambda>c. lower_letter c \<or> is_digit c \<or> c = CHR ''-'') s"

definition batch_name :: "string \<Rightarrow> bool" where
  "batch_name s \<longleftrightarrow> 1 \<le> length s \<and> length s \<le> 64 \<and>
     list_all (\<lambda>c. alnum c \<or> c = CHR ''.'' \<or> c = CHR ''_'' \<or> c = CHR ''-'') s"

definition role_name :: "string \<Rightarrow> bool" where
  "role_name s \<longleftrightarrow> s \<noteq> [] \<and> alnum (hd s) \<and> length s \<le> 64 \<and> list_all (\<lambda>c. alnum c \<or> c = CHR ''-'') (tl s)"

definition str_matches :: "(string \<Rightarrow> bool) \<Rightarrow> jsval \<Rightarrow> bool" where
  "str_matches P v \<longleftrightarrow> is_str v \<and> P (str_of v)"

datatype task_refusal =
    Not_an_object | Missing_id | Bad_source | Missing_title | Title_too_long | Bad_lane | Bad_provider | Bad_role
  | Note_too_long | Description_too_long | Context_not_text | Context_too_long
  | Too_many_criteria | Criterion_not_text | Criterion_too_long nat | Promise_too_long
  | Bad_priority | Bad_retry_limit | Bad_project | Bad_batch_id
  | Forge_missing | Bad_forge_kind | Forge_description_missing | Forge_description_too_long | Forge_unexpected
  | Data_not_object | Data_unknown_key string | Bad_kind | Bad_stage | Bad_phase | Bad_wave | Bad_batch_role
  | Bad_requested_at | Decision_off_request | Bad_skipped | Bad_cancelled | Request_without_batch
  | Not_ready | Bad_story_points

text \<open>The checks are chains of \<open>if (\<dots>) throw\<close>: the first one that fails names the refusal.\<close>

fun first_refusal :: "(bool \<times> task_refusal) list \<Rightarrow> task_refusal option" where
  "first_refusal [] = None"
| "first_refusal ((fails, r) # rest) = (if fails then Some r else first_refusal rest)"

definition given :: "jsval \<Rightarrow> string \<Rightarrow> bool" where
  "given task k \<longleftrightarrow> jget task k \<noteq> JUndef"

fun criterion_refusal :: "nat \<Rightarrow> jsval list \<Rightarrow> task_refusal option" where
  "criterion_refusal i [] = None"
| "criterion_refusal i (item # items) =
     (if \<not> is_str item then Some Criterion_not_text
      else if length (str_of item) > cap_text then Some (Criterion_too_long (i + 1))
      else criterion_refusal (i + 1) items)"

definition acceptance_refusal :: "jsval \<Rightarrow> task_refusal option" where
  "acceptance_refusal a =
     (if a = JUndef then None
      else if is_arr a
           then (if length (elems a) > cap_acceptance_items then Some Too_many_criteria else criterion_refusal 0 (elems a))
           else if length (to_str a) > cap_text then Some Promise_too_long else None)"

definition identity_refusal :: "jsval \<Rightarrow> task_refusal option" where
  "identity_refusal t = first_refusal
     [(\<not> is_object t, Not_an_object),
      (\<not> truthy (jget t ''id'') \<or> \<not> is_str (jget t ''id''), Missing_id),
      (\<not> List.member task_sources (jget t ''source''), Bad_source),
      (\<not> is_str (jget t ''title'') \<or> jget t ''title'' = JStr [], Missing_title),
      (length (str_of (jget t ''title'')) > cap_title, Title_too_long),
      (\<not> List.member task_lane_names (jget t ''lane''), Bad_lane),
      (given t ''provider'' \<and> \<not> List.member task_providers (jget t ''provider''), Bad_provider),
      (given t ''role'' \<and> \<not> str_matches role_name (jget t ''role''), Bad_role)]"

definition words_refusal :: "jsval \<Rightarrow> task_refusal option" where
  "words_refusal t = first_refusal
     [(given t ''note'' \<and> length (to_str (jget t ''note'')) > cap_text, Note_too_long),
      (given t ''description'' \<and> length (to_str (jget t ''description'')) > cap_text, Description_too_long),
      (given t ''taskContext'' \<and> \<not> is_str (jget t ''taskContext''), Context_not_text),
      (given t ''taskContext'' \<and> length (str_of (jget t ''taskContext'')) > task_context_cap, Context_too_long)]"

definition retry_count :: "jsval \<Rightarrow> bool" where
  "retry_count v = (case v of JNum n \<Rightarrow> whole_number n \<and> num_le (Fin 0) n | _ \<Rightarrow> False)"

definition routing_refusal :: "jsval \<Rightarrow> task_refusal option" where
  "routing_refusal t = first_refusal
     [(given t ''priority'' \<and> \<not> is_num (jget t ''priority''), Bad_priority),
      (given t ''retryLimit'' \<and> \<not> retry_count (jget t ''retryLimit''), Bad_retry_limit),
      (given t ''project'' \<and> \<not> str_matches project_name (jget t ''project''), Bad_project),
      (given t ''batchId'' \<and> \<not> str_matches batch_name (jget t ''batchId''), Bad_batch_id)]"

definition forge_refusal :: "jsval \<Rightarrow> task_refusal option" where
  "forge_refusal t =
     (let f = jget t ''forge'' in
      if jget t ''lane'' = JStr ''forge''
      then first_refusal
        [(\<not> is_object f, Forge_missing),
         (\<not> List.member forge_kinds (jget f ''kind''), Bad_forge_kind),
         (\<not> is_str (jget f ''description'') \<or> jget f ''description'' = JStr [], Forge_description_missing),
         (length (str_of (jget f ''description'')) > cap_text, Forge_description_too_long)]
      else if f \<noteq> JUndef then Some Forge_unexpected else None)"

definition str_or_num :: "jsval \<Rightarrow> bool" where
  "str_or_num v \<longleftrightarrow> v = JUndef \<or> is_str v \<or> is_num v"

definition finite_value :: "jsval \<Rightarrow> bool" where
  "finite_value v = (case v of JNum n \<Rightarrow> is_finite_num n | _ \<Rightarrow> False)"

definition data_refusal :: "jsval \<Rightarrow> task_refusal option" where
  "data_refusal t =
     (let d = jget t ''data'' in
      if d = JUndef then None
      else if \<not> is_plain d then Some Data_not_object
      else case find (\<lambda>k. \<not> List.member allowed_data_keys k) (akeys (entries d)) of
        Some k \<Rightarrow> Some (Data_unknown_key k)
      | None \<Rightarrow> first_refusal
          [(given d ''kind'' \<and> \<not> List.member task_kinds (jget d ''kind''), Bad_kind),
           (given d ''stage'' \<and> \<not> List.member task_stages (jget d ''stage''), Bad_stage),
           (\<not> str_or_num (jget d ''phase''), Bad_phase),
           (\<not> str_or_num (jget d ''wave''), Bad_wave),
           (given d ''batch'' \<and> \<not> List.member batch_roles (jget d ''batch''), Bad_batch_role),
           (given d ''requestedAt'' \<and> \<not> finite_value (jget d ''requestedAt''), Bad_requested_at),
           ((given d ''skipped'' \<or> given d ''cancelled'') \<and> \<not> is_batch_parent t, Decision_off_request),
           (given d ''skipped'' \<and>
              (\<not> is_arr (jget d ''skipped'') \<or> list_ex (\<lambda>x. \<not> str_matches batch_name x) (elems (jget d ''skipped''))),
            Bad_skipped),
           (given d ''cancelled'' \<and> \<not> is_bool (jget d ''cancelled''), Bad_cancelled)])"

definition readiness_refusal :: "jsval \<Rightarrow> task_refusal option" where
  "readiness_refusal t =
     (let sp = jget t ''storyPoints'' in
      if jget t ''source'' = JStr ''backlog''
      then first_refusal
        [(sp = JUndef \<or> acceptance_items (jget t ''acceptance'') = [], Not_ready),
         (\<not> List.member story_point_values sp, Bad_story_points)]
      else if sp \<noteq> JUndef \<and> \<not> List.member story_point_values sp then Some Bad_story_points else None)"

definition task_refusal_of :: "jsval \<Rightarrow> task_refusal option" where
  "task_refusal_of t =
     List.find (\<lambda>_. True) (List.map_filter (\<lambda>r. r)
       [identity_refusal t, words_refusal t, acceptance_refusal (jget t ''acceptance''), routing_refusal t,
        forge_refusal t, data_refusal t,
        (if is_batch_parent t \<and> jget t ''batchId'' = JUndef then Some Request_without_batch else None),
        readiness_refusal t])"

text \<open>The task a caller handed in, cut to the declared keys, with its priority and attempt number.\<close>

definition normal_task :: "jsval \<Rightarrow> jsmap" where
  "normal_task t =
     (let out0 = map (\<lambda>k. (k, jget t k)) (filter (given t) allowed_task_keys);
          ctx = own_get out0 ''taskContext'';
          out1 = (if is_str ctx \<and> js_trim (str_of ctx) = [] then adel ''taskContext'' out0 else out0);
          priority = (case jget t ''priority'' of
                        JNum n \<Rightarrow> n | _ \<Rightarrow> if is_stage_task t then Fin stage_priority else Fin 0);
          attempt = (case jget t ''attempt'' of JNum n \<Rightarrow> if num_le (Fin 1) n then n else Fin 1 | _ \<Rightarrow> Fin 1)
      in aset ''attempt'' (JNum attempt) (aset ''priority'' (JNum priority) out1))"

definition validate_task :: "jsval \<Rightarrow> task_refusal + jsmap" where
  "validate_task t = (case task_refusal_of t of Some r \<Rightarrow> Inl r | None \<Rightarrow> Inr (normal_task t))"

definition validate_priority :: "jsval \<Rightarrow> task_refusal + jsnum" where
  "validate_priority v =
     (case v of
        JNum (Fin q) \<Rightarrow>
          if of_int \<lfloor>q\<rfloor> \<noteq> q then Inl Bad_priority
          else if \<bar>q\<bar> > priority_limit then Inl Bad_priority
          else Inr (Fin q)
      | _ \<Rightarrow> Inl Bad_priority)"

definition word_keys :: "string list" where
  "word_keys = [''description'', ''acceptance'', ''project'', ''taskContext'']"

definition words_probe :: "jsval \<Rightarrow> jsval" where
  "words_probe patch =
     JObj ([(''id'', JStr ''words''), (''source'', JStr ''roster''), (''title'', JStr ''words''), (''lane'', JStr ''prod'')] @
       map (\<lambda>k. (k, jget patch k)) (filter (given patch) [''description'', ''acceptance'', ''taskContext'', ''project'']))"

definition validate_words :: "jsval \<Rightarrow> task_refusal + jsmap" where
  "validate_words patch =
     (if \<not> is_plain patch then Inl Not_an_object
      else case validate_task (words_probe patch) of
             Inl r \<Rightarrow> Inl r
           | Inr _ \<Rightarrow> Inr (map (\<lambda>k. (k, jget patch k)) (filter (given patch) word_keys)))"

end
