(* ===== verification/Merge_Paths.thy ===== *)
theory Merge_Paths
  imports Js_Text
begin

text \<open>
  The paths and rules of mechanical merge conflicts (\<open>src/scripts/sma/lib/branch-sync.mjs\<close>): a path against a
  pattern with stars, the rules with their defaults, and \<open>isMechanicalPath\<close>, which the queue asks as well.
  The patterns of measured lines are compiled from the configuration; here each is its test, a function
  of the line.
\<close>

section \<open>Paths and rules\<close>

abbreviation nul :: char where "nul \<equiv> CHR 0x00"

definition forward_slashes :: "string \<Rightarrow> string" where
  "forward_slashes s = map (\<lambda>c. if c = CHR 0x5C then CHR ''/'' else c) s"

text \<open>A star, or the byte the code puts in its place, stands for any characters but a slash.\<close>

fun glob_match :: "string \<Rightarrow> string \<Rightarrow> bool" where
  "glob_match [] s = (s = [])"
| "glob_match (p # ps) s =
     (if p = CHR ''*'' \<or> p = nul
      then glob_match ps s \<or> (case s of [] \<Rightarrow> False | c # cs \<Rightarrow> c \<noteq> CHR ''/'' \<and> glob_match (p # ps) cs)
      else (case s of [] \<Rightarrow> False | c # cs \<Rightarrow> c = p \<and> glob_match ps cs))"

definition matches_pattern :: "string \<Rightarrow> string \<Rightarrow> bool" where
  "matches_pattern path pat =
     (let p = forward_slashes path; raw = forward_slashes pat in p \<noteq> [] \<and> raw \<noteq> [] \<and> glob_match raw p)"

datatype regen_strategy = Rederive | Rebuild

record regen_rule =
  rg_files :: "string list"
  rg_command :: "string list"
  rg_strategy :: regen_strategy
  rg_exit_is_verdict :: bool

record merge_rules =
  mr_union :: "string list"
  mr_measured_files :: "string list"
  mr_measured_lines :: "(string \<Rightarrow> bool) list"
  mr_restamp :: "string option"
  mr_regenerate :: "regen_rule list"

text \<open>\<open>/img\.shields\.io\/badge\/tests-\d+%2F\d+-/\<close>, anywhere in a line.\<close>

definition badge_here :: "string \<Rightarrow> bool" where
  "badge_here s =
     (let r = drop 27 s; n = dropWhile is_digit r; r2 = drop 3 n; n2 = dropWhile is_digit r2
      in str_prefix ''img.shields.io/badge/tests-'' s \<and> r \<noteq> n \<and> str_prefix ''%2F'' n \<and> r2 \<noteq> n2 \<and> str_prefix ''-'' n2)"

fun badge_line :: "string \<Rightarrow> bool" where
  "badge_line [] = False"
| "badge_line (c # cs) = (badge_here (c # cs) \<or> badge_line cs)"

definition mechanical_defaults :: merge_rules where
  "mechanical_defaults = \<lparr>mr_union = [''README.md'', ''README.ru.md'', ''ROADMAP.md'', ''ROADMAP.ru.md'', ''CHANGELOG.md''],
     mr_measured_files = [''test-receipt.json''], mr_measured_lines = [badge_line], mr_restamp = Some ''npm run badge'',
     mr_regenerate =
       [\<lparr>rg_files = [''.claude/memory/MEMORY.md'', ''.claude/memory/INDEX-*.md''],
         rg_command = [''node'', ''scripts/sma/cli.mjs'', ''build-index'', ''--write''], rg_strategy = Rebuild, rg_exit_is_verdict = False\<rparr>,
        \<lparr>rg_files = [''docs/master-graph.html''],
         rg_command = [''node'', ''scripts/sma/cli.mjs'', ''doc-audit'', ''--target'', ''numbers'', ''--write''],
         rg_strategy = Rederive, rg_exit_is_verdict = True\<rparr>]\<rparr>"

definition add_path :: "string \<Rightarrow> string list \<Rightarrow> string list" where
  "add_path p out = (if p = [] \<or> List.member out p then out else out @ [p])"

definition mechanical_paths :: "merge_rules \<Rightarrow> string list" where
  "mechanical_paths rules =
     fold add_path (mr_union rules @ mr_measured_files rules @ concat (map rg_files (mr_regenerate rules))) []"

definition is_mechanical_path :: "merge_rules \<Rightarrow> string \<Rightarrow> bool" where
  "is_mechanical_path rules path =
     (path \<noteq> [] \<and> list_ex (matches_pattern (forward_slashes path)) (mechanical_paths rules))"

end
