(* ===== verification/Queue_Holds.thy ===== *)
theory Queue_Holds
  imports Task_Rules Merge_Paths
begin

text \<open>
  What keeps a queued row from being handed out (\<open>src/daemon/src/queue/adapter.mjs\<close>): the turn of a
  batch, the hold of a wave, and the files a running task declared, with the mechanical paths of
  \<open>Merge_Paths\<close>. Rows are the readable rows of \<open>list()\<close>.

  \<open>localeCompare\<close> with its numeric collation is an argument \<open>collate\<close>, \<open>Date.parse\<close> an argument
  \<open>parse\<close>.
\<close>

section \<open>One row per id\<close>

definition live_row :: "jsval \<Rightarrow> bool" where
  "live_row r \<longleftrightarrow> jget r ''status'' = JStr ''queued'' \<or> jget r ''status'' = JStr ''claimed''"

definition enqueued_ms :: "(jsval \<Rightarrow> jsnum) \<Rightarrow> jsval \<Rightarrow> jsnum" where
  "enqueued_ms parse r = or_zero (ms_of_value parse (and_get r ''enqueuedAt''))"

fun replace_row :: "(jsval \<Rightarrow> jsnum) \<Rightarrow> jsval \<Rightarrow> jsval list \<Rightarrow> jsval list" where
  "replace_row parse r [] = [r]"
| "replace_row parse r (prev # out) =
     (if jget prev ''id'' = jget r ''id''
      then (let dt = num_sub (enqueued_ms parse prev) (enqueued_ms parse r) in
            if num_lt (Fin 0) dt \<or> (dt = Fin 0 \<and> (live_row prev \<or> \<not> live_row r)) then prev else r) # out
      else prev # replace_row parse r out)"

definition latest_row_per_id :: "(jsval \<Rightarrow> jsnum) \<Rightarrow> jsval list \<Rightarrow> jsval list" where
  "latest_row_per_id parse rows = fold (\<lambda>r out. if is_object r then replace_row parse r out else out) rows []"

section \<open>Batches\<close>

definition compare_batch_items ::
    "(string \<Rightarrow> string \<Rightarrow> int) \<Rightarrow> (jsval \<Rightarrow> jsnum) \<Rightarrow> jsval \<Rightarrow> jsval \<Rightarrow> jsnum" where
  "compare_batch_items collate parse a b =
     (let by_id = collate (to_str (and_get a ''id'')) (to_str (and_get b ''id'')) in
      if by_id \<noteq> 0 then Fin (of_int by_id) else num_sub (enqueued_ms parse a) (enqueued_ms parse b))"

definition batch_items_of ::
    "(string \<Rightarrow> string \<Rightarrow> int) \<Rightarrow> (jsval \<Rightarrow> jsnum) \<Rightarrow> jsval list \<Rightarrow> jsval \<Rightarrow> jsval list" where
  "batch_items_of collate parse rows batch_id =
     stable_sort (\<lambda>a b. num_lt (compare_batch_items collate parse a b) (Fin 0))
       (latest_row_per_id parse (filter (\<lambda>r. truthy r \<and> jget r ''batchId'' = batch_id \<and> \<not> is_batch_parent r) rows))"

record batch_decisions =
  bd_skipped :: "jsval list"
  bd_cancelled :: bool

definition batch_decisions_of :: "jsval \<Rightarrow> batch_decisions" where
  "batch_decisions_of row =
     (let env = envelope_of row; raw = (if is_object env then env else JObj []) in
      \<lparr>bd_skipped = (if is_arr (jget raw ''skipped'') then filter is_str (elems (jget raw ''skipped'')) else []),
       bd_cancelled = (jget raw ''cancelled'' = JBool True)\<rparr>)"

definition stopped_item_of :: "jsval list \<Rightarrow> jsval list \<Rightarrow> jsval option" where
  "stopped_item_of rows skipped =
     find (\<lambda>r. truthy r \<and> jget r ''status'' = JStr ''failed'' \<and> \<not> List.member skipped (jget r ''id'')) rows"

definition broken_item_of :: "jsval list \<Rightarrow> jsval list \<Rightarrow> jsval option" where
  "broken_item_of rows skipped =
     find (\<lambda>r. truthy r \<and> jget r ''status'' = JStr ''failed'' \<and> \<not> List.member skipped (jget r ''id'') \<and>
       \<not> awaits_auto_retry r) rows"

definition request_batch_id :: "jsval \<Rightarrow> jsval" where
  "request_batch_id req = js_or (jget req ''batchId'') (jget req ''id'')"

definition batch_held_for ::
    "(string \<Rightarrow> string \<Rightarrow> int) \<Rightarrow> (jsval \<Rightarrow> jsnum) \<Rightarrow> jsval list \<Rightarrow> jsval \<Rightarrow> jsval list" where
  "batch_held_for collate parse rows req =
     (let d = batch_decisions_of req;
          items = filter (\<lambda>r. \<not> List.member (bd_skipped d) (jget r ''id''))
                    (batch_items_of collate parse rows (request_batch_id req));
          waiting = filter (\<lambda>r. jget r ''status'' = JStr ''queued'') items;
          stopped = bd_cancelled d \<or> list_ex (\<lambda>r. jget r ''status'' = JStr ''claimed'') items \<or>
                    stopped_item_of items [] \<noteq> None
      in map (\<lambda>r. jget r ''id'') (if stopped then waiting else tl waiting))"

definition batch_held_of ::
    "(string \<Rightarrow> string \<Rightarrow> int) \<Rightarrow> (jsval \<Rightarrow> jsnum) \<Rightarrow> jsval list \<Rightarrow> jsval list" where
  "batch_held_of collate parse rows = concat (map (batch_held_for collate parse rows) (filter is_batch_parent rows))"

definition add_new :: "jsval \<Rightarrow> jsval list \<Rightarrow> jsval list" where
  "add_new x out = (if List.member out x then out else out @ [x])"

definition batch_let_go_of ::
    "(string \<Rightarrow> string \<Rightarrow> int) \<Rightarrow> (jsval \<Rightarrow> jsnum) \<Rightarrow> jsval list \<Rightarrow> jsval list" where
  "batch_let_go_of collate parse rows =
     fold (\<lambda>req out.
        if \<not> truthy (jget req ''id'') then out
        else let d = batch_decisions_of req; out1 = fold add_new (bd_skipped d) out in
             if bd_cancelled d
             then fold (\<lambda>item. add_new (jget item ''id'')) (batch_items_of collate parse rows (request_batch_id req)) out1
             else out1)
       (filter is_batch_parent rows) []"

definition batch_worker_of ::
    "(string \<Rightarrow> string \<Rightarrow> int) \<Rightarrow> (jsval \<Rightarrow> jsnum) \<Rightarrow> jsval list \<Rightarrow> jsval \<Rightarrow> jsval \<Rightarrow> jsval" where
  "batch_worker_of collate parse rows batch_id except =
     (if \<not> truthy batch_id then JNull
      else case find (\<lambda>r. is_str (jget r ''workerId'') \<and> jget r ''workerId'' \<noteq> JStr [])
                  (rev (filter (\<lambda>r. jget r ''id'' \<noteq> except) (batch_items_of collate parse rows batch_id))) of
             Some r \<Rightarrow> jget r ''workerId''
           | None \<Rightarrow> JNull)"

text \<open>Work a person already judged is not handed out: the reason, without its wording.\<close>

datatype claim_refusal = Card_closed | Awaiting_person

definition claim_refusal_of :: "jsval \<Rightarrow> jsval list \<Rightarrow> jsval \<Rightarrow> claim_refusal option" where
  "claim_refusal_of task_id rows closure =
     (if \<not> is_str task_id \<or> task_id = JStr [] then None
      else if is_object closure \<and> is_str (jget closure ''at'') \<and> js_trim (str_of (jget closure ''at'')) \<noteq> []
      then Some Card_closed
      else if list_ex (\<lambda>r. is_object r \<and> jget r ''id'' = task_id \<and> jget r ''status'' = JStr ''awaiting_approval'') rows
      then Some Awaiting_person
      else None)"

section \<open>Waves\<close>

definition wave_of_env :: "jsval \<Rightarrow> jsval \<Rightarrow> (string \<times> string) option" where
  "wave_of_env phase wave =
     (let ok = (\<lambda>v. is_str v \<or> is_num v) in
      if \<not> ok phase \<or> \<not> ok wave then None
      else let p = js_trim (to_str phase); w = js_trim (to_str wave)
           in if p = [] \<or> w = [] then None else Some (p, w))"

definition wave_address_of :: "jsval \<Rightarrow> (string \<times> string) option" where
  "wave_address_of row =
     (let env = envelope_of row in
      if \<not> is_object env then None else wave_of_env (jget env ''phase'') (jget env ''wave''))"

definition normalize_wave_holds :: "jsval \<Rightarrow> (string \<times> string) list" where
  "normalize_wave_holds holds =
     fold (\<lambda>h out.
        case (if is_object h
              then wave_address_of (JObj [(''data'', JObj [(''phase'', jget h ''phase''), (''wave'', jget h ''wave'')])])
              else None) of
          None \<Rightarrow> out
        | Some a \<Rightarrow> if List.member out a then out else out @ [a])
       (elems holds) []"

definition wave_held_of :: "jsval list \<Rightarrow> jsval \<Rightarrow> jsval list" where
  "wave_held_of rows holds =
     (let held = normalize_wave_holds holds in
      if held = [] then []
      else map (\<lambda>r. jget r ''id'')
        (filter (\<lambda>r. is_object r \<and> (jget r ''status'' = JUndef \<or> jget r ''status'' = JStr ''queued'') \<and>
           (case wave_address_of r of None \<Rightarrow> False | Some a \<Rightarrow> List.member held a)) rows))"

section \<open>Declared files\<close>

definition declared_file_ext :: "string list" where
  "declared_file_ext = [''md'', ''mjs'', ''cjs'', ''js'', ''ts'', ''tsx'', ''json'', ''html'', ''css'', ''yml'', ''yaml'',
     ''sql'', ''sh'', ''txt'']"

definition word_char :: "char \<Rightarrow> bool" where
  "word_char c \<longleftrightarrow> alnum c \<or> c = CHR ''_''"

definition path_char :: "char \<Rightarrow> bool" where
  "path_char c \<longleftrightarrow> word_char c \<or> c = CHR ''.'' \<or> c = CHR ''/'' \<or> c = CHR ''-''"

text \<open>The greedy match inside one run of path characters: up to the last dot, not the first
  character, whose next word is a known extension; \<open>d\<close> counts the positions still to try.\<close>

fun last_ext :: "string \<Rightarrow> nat \<Rightarrow> string option" where
  "last_ext run 0 = None"
| "last_ext run (Suc d) =
     (let ext = takeWhile word_char (drop (Suc d + 1) run) in
      if Suc d < length run \<and> run ! Suc d = CHR ''.'' \<and> List.member declared_file_ext ext
      then Some (take (Suc d + 1 + length ext) run)
      else last_ext run d)"

text \<open>\<open>w.match(DECLARED_FILE_RE)\<close>: at most one match in every maximal run of path characters.\<close>

function path_words :: "string \<Rightarrow> string list" where
  "path_words s =
     (case dropWhile (\<lambda>c. \<not> path_char c) s of
        [] \<Rightarrow> []
      | c # cs \<Rightarrow>
          let run = takeWhile path_char (c # cs) in
          (case last_ext run (length run) of None \<Rightarrow> [] | Some f \<Rightarrow> [f]) @ path_words (dropWhile path_char (c # cs)))"
  by pat_completeness auto

termination
proof (relation "measure length", goal_cases)
  case (2 s c cs run)
  have "path_char c" using 2(1) by (metis hd_dropWhile list.distinct(1) list.sel(1))
  moreover have "length (c # cs) \<le> length s" using 2(1) by (metis length_dropWhile_le)
  ultimately show ?case using length_dropWhile_le [of path_char cs] by simp
qed simp

declare path_words.simps [simp del]

definition open_mark :: "char \<Rightarrow> bool" where
  "open_mark c \<longleftrightarrow> List.member [96, 39, 34, 40, 60, 91 :: nat] (code_of c)"

definition close_mark :: "char \<Rightarrow> bool" where
  "close_mark c \<longleftrightarrow> List.member [96, 39, 34, 41, 62, 93, 44, 46, 59, 58 :: nat] (code_of c)"

definition clean_path :: "string \<Rightarrow> string" where
  "clean_path p =
     (let a = dropWhile open_mark (forward_slashes p);
          b = rev (dropWhile close_mark (rev a));
          c = (if str_prefix ''./'' b then drop 2 b else b)
      in js_trim c)"

definition declared_files_cap :: nat where "declared_files_cap = 40"

definition add_file :: "string \<Rightarrow> string list \<Rightarrow> string list" where
  "add_file p out =
     (let clean = clean_path p in
      if clean = [] \<or> length clean > 200 then out
      else if is_mechanical_path mechanical_defaults clean then out
      else if \<not> List.member out clean \<and> length out < declared_files_cap then out @ [clean] else out)"

definition declared_files :: "jsval \<Rightarrow> string list" where
  "declared_files row =
     (if \<not> is_object row then []
      else let files = jget row ''files''; acc = jget row ''acceptance'' in
        if is_arr files \<and> elems files \<noteq> []
        then fold add_file (map str_of (filter is_str (elems files))) []
        else let ws = [jget row ''title'', jget row ''description''] @
                 (if is_arr acc then elems acc else if is_nullish acc then [] else [acc])
             in fold add_file (concat (map (\<lambda>w. path_words (str_of w)) (filter is_str ws))) [])"

section \<open>Files in use\<close>

definition busy_files :: "jsval list \<Rightarrow> (string \<times> jsval list) list" where
  "busy_files rows =
     fold (\<lambda>r busy. fold (\<lambda>f b.
        case map_of b f of
          None \<Rightarrow> aset f [r] b
        | Some owners \<Rightarrow>
            if list_ex (\<lambda>x. jget x ''id'' = jget r ''id'') owners then b else aset f (owners @ [r]) b)
        (declared_files r) busy)
      (filter (\<lambda>r. is_object r \<and> jget r ''status'' = JStr ''claimed'') rows) []"

record file_hold =
  fh_id :: jsval
  fh_files :: "string list"
  fh_holders :: "(jsval \<times> jsval) list"

definition file_owners :: "(string \<times> jsval list) list \<Rightarrow> jsval \<Rightarrow> string \<Rightarrow> jsval list" where
  "file_owners busy r f =
     filter (\<lambda>x. jget x ''id'' \<noteq> jget r ''id'') (case map_of busy f of None \<Rightarrow> [] | Some os \<Rightarrow> os)"

definition add_holder :: "jsval \<Rightarrow> (jsval \<times> jsval) list \<Rightarrow> (jsval \<times> jsval) list" where
  "add_holder x holders =
     (if list_ex (\<lambda>(i, _). i = jget x ''id'') holders then holders
      else holders @ [(jget x ''id'', coalesce (jget x ''title'') JNull)])"

definition file_hold_of :: "(string \<times> jsval list) list \<Rightarrow> jsval \<Rightarrow> file_hold option" where
  "file_hold_of busy r =
     (let files = filter (\<lambda>f. file_owners busy r f \<noteq> []) (declared_files r) in
      if files = [] then None
      else Some \<lparr>fh_id = jget r ''id'', fh_files = files,
                 fh_holders = fold (\<lambda>f. fold add_holder (file_owners busy r f)) files []\<rparr>)"

definition file_holds_of :: "jsval list \<Rightarrow> file_hold list" where
  "file_holds_of rows =
     (let busy = busy_files rows in
      if busy = [] then []
      else List.map_filter (file_hold_of busy)
        (filter (\<lambda>r. is_object r \<and> jget r ''status'' = JStr ''queued'' \<and> \<not> is_batch_parent r) rows))"

definition file_held_of :: "jsval list \<Rightarrow> jsval list" where
  "file_held_of rows = map fh_id (file_holds_of rows)"

end
