(* ===== verification/Queue.thy ===== *)
theory Queue
  imports Queue_Holds
begin

text \<open>
  The reference queue, \<open>createMemoryQueue\<close> of \<open>src/daemon/src/queue/adapter.mjs\<close>: its records, its
  sweep of silent claims and its sixteen operations. The clock stands still during one call and is
  the argument \<open>now\<close>; the random bytes of an attempt token are the argument \<open>mint\<close>.
\<close>

section \<open>State\<close>

record queue_row =
  q_task :: jsmap
  q_status :: task_status
  q_coalesce :: nat
  q_attempt :: jsnum
  q_worker :: jsval
  q_enqueued :: rat
  q_claimed :: "rat option"
  q_completed :: "rat option"
  q_touch :: "rat option"
  q_token :: "string option"
  q_releases :: nat
  q_not_before :: "rat option"
  q_result :: jsval
  q_reason :: "string option"

type_synonym queue = "(string \<times> queue_row) list"

record queue_config =
  qc_expire_ms :: rat
  qc_project :: jsval

definition expire_default :: rat where "expire_default = 15 * 60 * 1000"

definition release_defer_ms :: rat where "release_defer_ms = 30000"

definition defer_ms_of :: "jsval \<Rightarrow> rat" where
  "defer_ms_of v = (case to_num v of Fin q \<Rightarrow> if q \<ge> 0 then q else release_defer_ms | _ \<Rightarrow> release_defer_ms)"

definition attempt_token_is_stale :: "string option \<Rightarrow> jsval \<Rightarrow> bool" where
  "attempt_token_is_stale held presented =
     (if \<not> is_str presented \<or> presented = JStr [] then False
      else case held of None \<Rightarrow> False | Some h \<Rightarrow> h \<noteq> [] \<and> JStr h \<noteq> presented)"

definition update_row :: "string \<Rightarrow> (queue_row \<Rightarrow> queue_row) \<Rightarrow> queue \<Rightarrow> queue" where
  "update_row k f q = (case map_of q k of None \<Rightarrow> q | Some r \<Rightarrow> aset k (f r) q)"

definition map_rows :: "(queue_row \<Rightarrow> queue_row) \<Rightarrow> queue \<Rightarrow> queue" where
  "map_rows f q = map (\<lambda>(k, r). (k, f r)) q"

text \<open>A row as every reader sees it.\<close>

definition with_stated_project :: "jsmap \<Rightarrow> jsmap" where
  "with_stated_project m =
     (if is_str (own_get m ''project'') \<and> own_get m ''project'' \<noteq> JStr [] then m else aset ''project'' JNull m)"

definition opt_num :: "rat option \<Rightarrow> jsval" where
  "opt_num x = (case x of None \<Rightarrow> JNull | Some q \<Rightarrow> JNum (Fin q))"

definition row_of :: "queue_row \<Rightarrow> jsval" where
  "row_of r =
     (let t = JObj (q_task r);
          kept = (\<lambda>k. if truthy (jget t k) then [(k, jget t k)] else [])
      in JObj (with_stated_project
        ([(''id'', jget t ''id''), (''source'', jget t ''source''), (''lane'', jget t ''lane''),
          (''project'', jget t ''project''), (''title'', jget t ''title''), (''priority'', jget t ''priority''),
          (''status'', JStr (status_name (q_status r)))] @ kept ''data'' @ kept ''batchId'' @ kept ''role'' @
         [(''attempt'', JNum (q_attempt r)), (''coalesceCount'', JInt (int (q_coalesce r))),
          (''releaseCount'', JInt (int (q_releases r))), (''workerId'', q_worker r),
          (''storyPoints'', jget t ''storyPoints''), (''description'', jget t ''description''),
          (''acceptance'', jget t ''acceptance''), (''enqueuedAt'', JNum (Fin (q_enqueued r))),
          (''claimedAt'', opt_num (q_claimed r)), (''leaseRenewedAt'', opt_num (q_touch r)),
          (''completedAt'', opt_num (q_completed r)),
          (''failure_reason'', case q_reason r of None \<Rightarrow> JNull | Some s \<Rightarrow> JStr s)])))"

section \<open>The sweep\<close>

definition silent :: "queue_config \<Rightarrow> rat \<Rightarrow> queue_row \<Rightarrow> bool" where
  "silent cfg now r \<longleftrightarrow> q_status r = Claimed \<and> now - (case q_touch r of None \<Rightarrow> 0 | Some t \<Rightarrow> t) > qc_expire_ms cfg"

definition with_attempt :: "jsnum \<Rightarrow> queue_row \<Rightarrow> queue_row" where
  "with_attempt n r = r\<lparr>q_attempt := n, q_task := aset ''attempt'' (JNum n) (q_task r)\<rparr>"

definition sweep_queue_row :: "queue_config \<Rightarrow> rat \<Rightarrow> queue_row \<Rightarrow> queue_row" where
  "sweep_queue_row cfg now r =
     (if \<not> silent cfg now r then r
      else if num_lt (retry_limit_of (JObj (q_task r))) (q_attempt r)
      then r\<lparr>q_status := Failed, q_reason := Some ''attempts_exhausted'', q_completed := Some now,
             q_worker := JNull, q_claimed := None, q_touch := None\<rparr>
      else with_attempt (num_add (q_attempt r) (Fin 1))
             (r\<lparr>q_status := Queued, q_worker := JNull, q_claimed := None, q_touch := None\<rparr>))"

definition sweep_queue :: "queue_config \<Rightarrow> rat \<Rightarrow> queue \<Rightarrow> queue" where
  "sweep_queue cfg now q = map_rows (sweep_queue_row cfg now) q"

section \<open>Putting work in\<close>

definition fresh_queue_row :: "jsmap \<Rightarrow> jsnum \<Rightarrow> rat \<Rightarrow> queue_row" where
  "fresh_queue_row task n now =
     \<lparr>q_task = task, q_status = Queued, q_coalesce = 1, q_attempt = n, q_worker = JNull, q_enqueued = now,
      q_claimed = None, q_completed = None, q_touch = None, q_token = None, q_releases = 0, q_not_before = None,
      q_result = JNull, q_reason = None\<rparr>"

definition attempt_of :: "jsmap \<Rightarrow> jsnum" where
  "attempt_of task = (case own_get task ''attempt'' of JNum n \<Rightarrow> n | _ \<Rightarrow> NaN)"

definition minted_attempt :: "jsmap \<Rightarrow> queue_row option \<Rightarrow> jsnum" where
  "minted_attempt new_task existing =
     (case existing of
        None \<Rightarrow> attempt_of new_task
      | Some r \<Rightarrow> num_max (attempt_of new_task)
                    (num_add (if truthy (JNum (q_attempt r)) then q_attempt r else Fin 1) (Fin 1)))"

record enqueue_answer =
  ea_id :: string
  ea_coalesced :: bool
  ea_count :: nat

definition enqueue ::
    "queue_config \<Rightarrow> rat \<Rightarrow> jsval \<Rightarrow> queue \<Rightarrow> (task_refusal + enqueue_answer) \<times> queue" where
  "enqueue cfg now task q =
     (case validate_task task of
        Inl e \<Rightarrow> (Inl e, q)
      | Inr cut_task \<Rightarrow>
          let new_task = (if own_get cut_task ''project'' = JUndef \<and> truthy (qc_project cfg)
                      then aset ''project'' (qc_project cfg) cut_task else cut_task);
              key = str_of (own_get new_task ''id'') in
          case map_of q key of
            Some r \<Rightarrow>
              if q_status r = Queued
              then (Inr \<lparr>ea_id = key, ea_coalesced = True, ea_count = q_coalesce r + 1\<rparr>,
                    aset key (r\<lparr>q_coalesce := q_coalesce r + 1\<rparr>) q)
              else (let n = minted_attempt new_task (Some r) in
                (Inr \<lparr>ea_id = key, ea_coalesced = False, ea_count = 1\<rparr>,
                 aset key (fresh_queue_row (aset ''attempt'' (JNum n) new_task) n now) q))
          | None \<Rightarrow>
              (Inr \<lparr>ea_id = key, ea_coalesced = False, ea_count = 1\<rparr>,
               aset key (fresh_queue_row new_task (attempt_of new_task) now) q))"

section \<open>Handing work out\<close>

definition task_id_of :: "queue_row \<Rightarrow> jsval" where
  "task_id_of r = own_get (q_task r) ''id''"

definition priority_of :: "queue_row \<Rightarrow> jsnum" where
  "priority_of r = (case own_get (q_task r) ''priority'' of JNum n \<Rightarrow> n | _ \<Rightarrow> NaN)"

definition claimable :: "jsval list \<Rightarrow> rat \<Rightarrow> jsval \<Rightarrow> queue_row \<Rightarrow> bool" where
  "claimable held now lanes r \<longleftrightarrow>
     q_status r = Queued \<and> \<not> List.member held (task_id_of r) \<and> \<not> is_batch_parent (JObj (q_task r)) \<and>
     \<not> (case q_not_before r of None \<Rightarrow> False | Some t \<Rightarrow> t > now) \<and>
     (\<not> is_arr lanes \<or> List.member (elems lanes) (own_get (q_task r) ''lane''))"

text \<open>The loop keeps the better of the best so far and the next row.\<close>

definition ahead_of :: "queue_row \<Rightarrow> queue_row \<Rightarrow> bool" where
  "ahead_of r best \<longleftrightarrow>
     num_lt (priority_of best) (priority_of r) \<or>
     (priority_of r = priority_of best \<and> priority_of r \<noteq> NaN \<and> q_enqueued r < q_enqueued best)"

definition better :: "(string \<times> queue_row) \<Rightarrow> (string \<times> queue_row) option \<Rightarrow> (string \<times> queue_row) option" where
  "better kr best =
     (case best of None \<Rightarrow> Some kr | Some b \<Rightarrow> if ahead_of (snd kr) (snd b) then Some kr else Some b)"

definition held_ids ::
    "(string \<Rightarrow> string \<Rightarrow> int) \<Rightarrow> (jsval \<Rightarrow> jsnum) \<Rightarrow> jsval \<Rightarrow> queue \<Rightarrow> jsval list" where
  "held_ids collate parse holds q =
     (let rows = map (\<lambda>(_, r). row_of r) q
      in batch_held_of collate parse rows @ wave_held_of rows holds @ file_held_of rows)"

definition pick_row ::
    "(string \<Rightarrow> string \<Rightarrow> int) \<Rightarrow> (jsval \<Rightarrow> jsnum) \<Rightarrow> rat \<Rightarrow> jsval \<Rightarrow> jsval \<Rightarrow> queue \<Rightarrow> (string \<times> queue_row) option" where
  "pick_row collate parse now lanes holds q =
     fold better (filter (\<lambda>(_, r). claimable (held_ids collate parse holds q) now lanes r) q) None"

definition claimed_row :: "rat \<Rightarrow> string \<Rightarrow> jsval \<Rightarrow> queue_row \<Rightarrow> queue_row" where
  "claimed_row now mint worker r =
     r\<lparr>q_status := Claimed, q_worker := worker, q_claimed := Some now, q_touch := Some now, q_token := Some mint\<rparr>"

definition claim_next ::
    "(string \<Rightarrow> string \<Rightarrow> int) \<Rightarrow> (jsval \<Rightarrow> jsnum) \<Rightarrow> queue_config \<Rightarrow> rat \<Rightarrow> string \<Rightarrow> jsval \<Rightarrow> jsval \<Rightarrow> jsval \<Rightarrow> queue
      \<Rightarrow> jsval \<times> queue" where
  "claim_next collate parse cfg now mint worker lanes holds q0 =
     (let q = sweep_queue cfg now q0 in
      if is_arr lanes \<and> elems lanes = [] then (JNull, q)
      else case pick_row collate parse now lanes holds q of
             None \<Rightarrow> (JNull, q)
           | Some (k, r) \<Rightarrow>
               (JObj (with_stated_project (aset ''attemptToken'' (JStr mint) (q_task r))),
                aset k (claimed_row now mint worker r) q))"

section \<open>Work under way\<close>

definition touch :: "rat \<Rightarrow> string \<Rightarrow> jsval \<Rightarrow> queue \<Rightarrow> bool \<times> queue" where
  "touch now k token q =
     (case map_of q k of
        None \<Rightarrow> (False, q)
      | Some r \<Rightarrow>
          if q_status r \<noteq> Claimed \<or> attempt_token_is_stale (q_token r) token then (False, q)
          else (True, aset k (r\<lparr>q_touch := Some now\<rparr>) q))"

definition assign_worker :: "string \<Rightarrow> jsval \<Rightarrow> queue \<Rightarrow> bool \<times> queue" where
  "assign_worker k worker q =
     (case map_of q k of
        None \<Rightarrow> (False, q)
      | Some r \<Rightarrow> if q_status r \<noteq> Claimed then (False, q) else (True, aset k (r\<lparr>q_worker := coalesce worker JNull\<rparr>) q))"

definition release_claim :: "rat \<Rightarrow> string \<Rightarrow> jsval \<Rightarrow> jsval \<Rightarrow> queue \<Rightarrow> bool \<times> queue" where
  "release_claim now k token defer q =
     (case map_of q k of
        None \<Rightarrow> (False, q)
      | Some r \<Rightarrow>
          if q_status r \<noteq> Claimed \<or> attempt_token_is_stale (q_token r) token then (False, q)
          else (True, aset k (r\<lparr>q_status := Queued, q_worker := JNull, q_claimed := None, q_touch := None, q_token := None,
                             q_releases := q_releases r + 1, q_not_before := Some (now + defer_ms_of defer)\<rparr>) q))"

section \<open>Endings\<close>

datatype queue_error = Unknown_task | No_receipt | Invalid_fail_reason | Stale_attempt

definition complete :: "rat \<Rightarrow> string \<Rightarrow> jsval \<Rightarrow> queue \<Rightarrow> (queue_error + bool) \<times> queue" where
  "complete now k result q =
     (case map_of q k of
        None \<Rightarrow> (Inl Unknown_task, q)
      | Some r \<Rightarrow>
          if \<not> truthy result \<or> \<not> truthy (jget result ''receiptRef'') then (Inl No_receipt, q)
          else if attempt_token_is_stale (q_token r) (jget result ''attemptToken'') then (Inl Stale_attempt, q)
          else (Inr True, aset k (r\<lparr>q_status := Awaiting_approval, q_completed := Some now, q_result := result,
                                   q_reason := None\<rparr>) q))"

definition known_reason :: "jsval \<Rightarrow> bool" where
  "known_reason reason \<longleftrightarrow> is_str reason \<and> List.member fail_reasons (str_of reason)"

definition ended_row :: "rat \<Rightarrow> string \<Rightarrow> queue_row \<Rightarrow> queue_row" where
  "ended_row now reason r = r\<lparr>q_status := Failed, q_reason := Some reason, q_completed := Some now\<rparr>"

definition fail_task :: "rat \<Rightarrow> string \<Rightarrow> jsval \<Rightarrow> jsval \<Rightarrow> queue \<Rightarrow> (queue_error + bool) \<times> queue" where
  "fail_task now k reason token q =
     (if \<not> known_reason reason then (Inl Invalid_fail_reason, q)
      else case map_of q k of
        None \<Rightarrow> (Inl Unknown_task, q)
      | Some r \<Rightarrow>
          if attempt_token_is_stale (q_token r) token then (Inl Stale_attempt, q)
          else (Inr True, aset k (ended_row now (str_of reason) r) q))"

definition open_status :: "task_status \<Rightarrow> bool" where
  "open_status s \<longleftrightarrow> s = Queued \<or> s = Claimed"

definition park_for_person :: "rat \<Rightarrow> string \<Rightarrow> jsval \<Rightarrow> jsval \<Rightarrow> queue \<Rightarrow> (queue_error + bool) \<times> queue" where
  "park_for_person now k reason token q =
     (if \<not> known_reason reason then (Inl Invalid_fail_reason, q)
      else case map_of q k of
        None \<Rightarrow> (Inl Unknown_task, q)
      | Some r \<Rightarrow>
          if attempt_token_is_stale (q_token r) token then (Inl Stale_attempt, q)
          else if \<not> open_status (q_status r) then (Inr False, q)
          else (Inr True, aset k (ended_row now (str_of reason) r) q))"

definition cancel_task :: "rat \<Rightarrow> string \<Rightarrow> queue \<Rightarrow> bool \<times> queue" where
  "cancel_task now k q =
     (case map_of q k of
        None \<Rightarrow> (False, q)
      | Some r \<Rightarrow> if \<not> open_status (q_status r) then (False, q) else (True, aset k (ended_row now ''manual'' r) q))"

definition reissue :: "string \<Rightarrow> queue \<Rightarrow> bool \<times> queue" where
  "reissue k q =
     (case map_of q k of
        None \<Rightarrow> (False, q)
      | Some r \<Rightarrow>
          if q_status r \<noteq> Failed then (False, q)
          else if stopped_by_a_person (case q_reason r of None \<Rightarrow> JNull | Some s \<Rightarrow> JStr s) then (False, q)
          else (True, aset k (with_attempt (num_add (q_attempt r) (Fin 1))
                  (r\<lparr>q_status := Queued, q_worker := JNull, q_claimed := None, q_touch := None, q_completed := None,
                     q_reason := None\<rparr>)) q))"

section \<open>A person's word\<close>

definition is_request :: "jsval \<Rightarrow> queue_row \<Rightarrow> bool" where
  "is_request batch_id r \<longleftrightarrow>
     is_batch_parent (JObj (q_task r)) \<and> request_batch_id (JObj (q_task r)) = batch_id"

definition decided_data :: "jsval \<Rightarrow> jsval \<Rightarrow> queue_row \<Rightarrow> jsmap" where
  "decided_data skip cancel r =
     (let t = JObj (q_task r);
          skipped = bd_skipped (batch_decisions_of t);
          data0 = entries (jget t ''data'');
          data1 = (if is_str skip \<and> skip \<noteq> JStr []
                   then aset ''skipped'' (JArr (if List.member skipped skip then skipped else skipped @ [skip])) data0
                   else data0)
      in if cancel = JBool True then aset ''cancelled'' (JBool True) data1 else data1)"

definition cancel_piece :: "rat \<Rightarrow> jsval \<Rightarrow> queue_row \<Rightarrow> queue_row" where
  "cancel_piece now batch_id r =
     (if own_get (q_task r) ''batchId'' \<noteq> batch_id \<or> is_batch_parent (JObj (q_task r)) then r
      else if \<not> open_status (q_status r) then r
      else ended_row now ''manual'' r)"

definition resolve_batch :: "rat \<Rightarrow> jsval \<Rightarrow> jsval \<Rightarrow> jsval \<Rightarrow> queue \<Rightarrow> bool \<times> queue" where
  "resolve_batch now batch_id skip cancel q =
     (case find (\<lambda>(_, r). is_request batch_id r) q of
        None \<Rightarrow> (False, q)
      | Some (k, r) \<Rightarrow>
          let q1 = aset k (r\<lparr>q_task := aset ''data'' (JObj (decided_data skip cancel r)) (q_task r)\<rparr>) q
          in (True, if cancel = JBool True then map_rows (cancel_piece now batch_id) q1 else q1))"

definition set_words :: "string \<Rightarrow> jsval \<Rightarrow> queue \<Rightarrow> (task_refusal + bool) \<times> queue" where
  "set_words k patch q =
     (case map_of q k of
        None \<Rightarrow> (Inr False, q)
      | Some r \<Rightarrow>
          if \<not> open_status (q_status r) then (Inr False, q)
          else case validate_words patch of
                 Inl e \<Rightarrow> (Inl e, q)
               | Inr ws \<Rightarrow> (Inr True, aset k (r\<lparr>q_task := spread (q_task r) ws\<rparr>) q))"

definition set_priority :: "string \<Rightarrow> jsval \<Rightarrow> queue \<Rightarrow> (task_refusal + bool) \<times> queue" where
  "set_priority k v q =
     (case map_of q k of
        None \<Rightarrow> (Inr False, q)
      | Some r \<Rightarrow>
          if \<not> open_status (q_status r) then (Inr False, q)
          else case validate_priority v of
                 Inl e \<Rightarrow> (Inl e, q)
               | Inr n \<Rightarrow> (Inr True, aset k (r\<lparr>q_task := aset ''priority'' (JNum n) (q_task r)\<rparr>) q))"

section \<open>The automatic repeat\<close>

text \<open>\<open>repeatBroken\<close> of \<open>src/daemon/src/loop.mjs\<close>: at most three broken tasks whose pause is over
  are put back in one pass, a piece its owner let go never.\<close>

definition repeats_per_tick :: nat where "repeats_per_tick = 3"

definition repeat_due :: "(jsval \<Rightarrow> jsnum) \<Rightarrow> jsval list \<Rightarrow> rat \<Rightarrow> jsval \<Rightarrow> bool" where
  "repeat_due parse let_go now row \<longleftrightarrow>
     truthy row \<and> truthy (jget row ''id'') \<and> awaits_auto_retry row \<and> \<not> List.member let_go (jget row ''id'') \<and>
     \<not> (case auto_retry_due_at parse row of Fin due \<Rightarrow> now < due | _ \<Rightarrow> False)"

definition repeat_row ::
    "(jsval \<Rightarrow> jsnum) \<Rightarrow> jsval list \<Rightarrow> rat \<Rightarrow> jsval \<Rightarrow> nat \<times> queue \<Rightarrow> nat \<times> queue" where
  "repeat_row parse let_go now row s =
     (if fst s \<ge> repeats_per_tick \<or> \<not> repeat_due parse let_go now row then s
      else case reissue (to_str (jget row ''id'')) (snd s) of
             (True, q) \<Rightarrow> (fst s + 1, q)
           | (False, q) \<Rightarrow> (fst s, q))"

definition repeat_broken ::
    "(string \<Rightarrow> string \<Rightarrow> int) \<Rightarrow> (jsval \<Rightarrow> jsnum) \<Rightarrow> queue_config \<Rightarrow> rat \<Rightarrow> queue \<Rightarrow> nat \<times> queue" where
  "repeat_broken collate parse cfg now q0 =
     (let q = sweep_queue cfg now q0;
          rows = latest_row_per_id parse (map (\<lambda>(_, r). row_of r) q);
          let_go = batch_let_go_of collate parse rows
      in fold (repeat_row parse let_go now) rows (0, q))"

section \<open>Reading\<close>

definition payload_of :: "jsval \<Rightarrow> queue \<Rightarrow> jsval" where
  "payload_of task_id q =
     (if \<not> is_str task_id \<or> task_id = JStr [] then JNull
      else case map_of q (str_of task_id) of None \<Rightarrow> JNull | Some r \<Rightarrow> JObj (q_task r))"

definition list_tasks :: "queue_config \<Rightarrow> rat \<Rightarrow> jsval \<Rightarrow> queue \<Rightarrow> jsval list \<times> queue" where
  "list_tasks cfg now flt q0 =
     (let q = sweep_queue cfg now q0;
          st = jget flt ''status''; ln = jget flt ''lane''; pr = jget flt ''project'';
          rows1 = (if truthy st then filter (\<lambda>r. JStr (status_name (q_status r)) = st) (map snd q) else map snd q);
          rows2 = (if truthy ln then filter (\<lambda>r. own_get (q_task r) ''lane'' = ln) rows1 else rows1);
          own = (\<lambda>r. let p = own_get (q_task r) ''project'' in if is_str p \<and> p \<noteq> JStr [] then p else JNull);
          rows3 = (if truthy pr then filter (\<lambda>r. own r = JNull \<or> own r = pr) rows2 else rows2)
      in (map row_of rows3, q))"

definition queue_stats :: "queue_config \<Rightarrow> rat \<Rightarrow> queue \<Rightarrow> (string \<times> nat) list \<times> queue" where
  "queue_stats cfg now q0 =
     (let q = sweep_queue cfg now q0;
          work = filter (\<lambda>r. \<not> is_batch_parent (JObj (q_task r))) (map snd q)
      in ((''total'', length work) #
          map (\<lambda>s. (status_name s, length (filter (\<lambda>r. q_status r = s) work))) task_statuses, q))"

end
