(* ===== verification/Queue_Laws.thy ===== *)
theory Queue_Laws
  imports Queue Contracts
begin

text \<open>
  What the reference queue promises: the shape every row keeps under every sequence of calls, who
  is handed out, the turn of a batch, the fence of the attempt token, the end of automatic repeats
  and what a person's stop is worth.
\<close>

section \<open>Any sequence of calls\<close>

datatype queue_call =
    Call_enqueue rat jsval
  | Call_claim rat string jsval jsval jsval
  | Call_touch rat string jsval
  | Call_assign string jsval
  | Call_release rat string jsval jsval
  | Call_complete rat string jsval
  | Call_fail rat string jsval jsval
  | Call_park rat string jsval jsval
  | Call_cancel rat string
  | Call_reissue string
  | Call_resolve rat jsval jsval jsval
  | Call_words string jsval
  | Call_priority string jsval
  | Call_repeat rat
  | Call_list rat jsval
  | Call_stats rat

fun queue_call_step ::
    "(string \<Rightarrow> string \<Rightarrow> int) \<Rightarrow> (jsval \<Rightarrow> jsnum) \<Rightarrow> queue_config \<Rightarrow> queue_call \<Rightarrow> queue \<Rightarrow> queue" where
  "queue_call_step collate parse cfg (Call_enqueue now task) q = snd (enqueue cfg now task q)"
| "queue_call_step collate parse cfg (Call_claim now mint worker lanes holds) q =
     snd (claim_next collate parse cfg now mint worker lanes holds q)"
| "queue_call_step collate parse cfg (Call_touch now k token) q = snd (touch now k token q)"
| "queue_call_step collate parse cfg (Call_assign k worker) q = snd (assign_worker k worker q)"
| "queue_call_step collate parse cfg (Call_release now k token defer) q = snd (release_claim now k token defer q)"
| "queue_call_step collate parse cfg (Call_complete now k result) q = snd (complete now k result q)"
| "queue_call_step collate parse cfg (Call_fail now k reason token) q = snd (fail_task now k reason token q)"
| "queue_call_step collate parse cfg (Call_park now k reason token) q = snd (park_for_person now k reason token q)"
| "queue_call_step collate parse cfg (Call_cancel now k) q = snd (cancel_task now k q)"
| "queue_call_step collate parse cfg (Call_reissue k) q = snd (reissue k q)"
| "queue_call_step collate parse cfg (Call_resolve now b skip cancel) q = snd (resolve_batch now b skip cancel q)"
| "queue_call_step collate parse cfg (Call_words k patch) q = snd (set_words k patch q)"
| "queue_call_step collate parse cfg (Call_priority k v) q = snd (set_priority k v q)"
| "queue_call_step collate parse cfg (Call_repeat now) q = snd (repeat_broken collate parse cfg now q)"
| "queue_call_step collate parse cfg (Call_list now flt) q = snd (list_tasks cfg now flt q)"
| "queue_call_step collate parse cfg (Call_stats now) q = snd (queue_stats cfg now q)"

text \<open>What every operation does to one row: nothing, or one of these changes.\<close>

definition row_ok :: "string \<Rightarrow> queue_row \<Rightarrow> bool" where
  "row_ok k r \<longleftrightarrow>
     wf_map (q_task r) \<and> map_of (q_task r) ''id'' = Some (JStr k) \<and>
     map_of (q_task r) ''attempt'' = Some (JNum (q_attempt r)) \<and> num_le (Fin 1) (q_attempt r) \<and>
     (case q_status r of
        Queued \<Rightarrow> q_claimed r = None \<and> q_touch r = None \<and> q_completed r = None \<and> q_reason r = None
      | Claimed \<Rightarrow> q_claimed r \<noteq> None \<and> q_touch r \<noteq> None \<and> q_token r \<noteq> None \<and> q_completed r = None \<and> q_reason r = None
      | Awaiting_approval \<Rightarrow> q_completed r \<noteq> None \<and> q_reason r = None
      | Completed \<Rightarrow> False
      | Failed \<Rightarrow> q_completed r \<noteq> None \<and> q_reason r \<in> Some ` set fail_reasons)"

definition queue_ok :: "queue \<Rightarrow> bool" where
  "queue_ok q \<longleftrightarrow> wf_map q \<and> (\<forall>(k, r) \<in> set q. row_ok k r)"

lemma queue_ok_get: "queue_ok q \<Longrightarrow> map_of q k = Some r \<Longrightarrow> row_ok k r"
  by (auto simp: queue_ok_def dest: map_of_SomeD)

lemma queue_ok_aset: "queue_ok q \<Longrightarrow> row_ok k r \<Longrightarrow> queue_ok (aset k r q)"
  using set_aset_sub [of k r q] by (fastforce simp: queue_ok_def)

lemma akeys_map_rows [simp]: "akeys (map_rows f q) = akeys q"
  by (simp add: akeys_def map_rows_def case_prod_unfold comp_def)

lemma map_of_map_rows: "map_of (map_rows f q) k = map_option f (map_of q k)"
  by (induction q) (auto simp: map_rows_def)

lemma queue_ok_map_rows:
  "(\<And>k r. row_ok k r \<Longrightarrow> row_ok k (f r)) \<Longrightarrow> queue_ok q \<Longrightarrow> queue_ok (map_rows f q)"
  by (auto simp: queue_ok_def wf_map_def) (auto simp: map_rows_def)

lemma num_le_succ: "num_le (Fin 1) n \<Longrightarrow> num_le (Fin 1) (num_add n (Fin 1))"
  by (cases n) (auto simp: num_le_def)

lemma exhausted_known: "''attempts_exhausted'' \<in> set fail_reasons" "''manual'' \<in> set fail_reasons"
  by code_simp+

lemma row_ok_sweep: "row_ok k r \<Longrightarrow> row_ok k (sweep_queue_row cfg now r)"
  by (auto simp: sweep_queue_row_def silent_def row_ok_def with_attempt_def exhausted_known num_le_succ)

lemma row_ok_end: "row_ok k r \<Longrightarrow> reason \<in> set fail_reasons \<Longrightarrow> row_ok k (ended_row now reason r)"
  by (simp add: row_ok_def ended_row_def)

text \<open>What the gate hands over.\<close>

lemma map_of_pairs: "map_of (map (\<lambda>k. (k, f k)) ks) k = (if k \<in> set ks then Some (f k) else None)"
  by (induction ks) auto

lemma wf_pairs: "distinct ks \<Longrightarrow> wf_map (map (\<lambda>k. (k, f k)) (filter P ks))"
  by (simp add: wf_map_def akeys_def comp_def)

lemma allowed_keys: "distinct allowed_task_keys" "''id'' \<in> set allowed_task_keys" "''attempt'' \<in> set allowed_task_keys"
  "''priority'' \<in> set allowed_task_keys" "distinct word_keys" "''id'' \<notin> set word_keys" "''attempt'' \<notin> set word_keys"
  by code_simp+

lemma first_given: "first_refusal ((b, r) # rest) = None \<longleftrightarrow> \<not> b \<and> first_refusal rest = None"
  by simp

lemma refusal_None: "task_refusal_of t = None \<longleftrightarrow>
    identity_refusal t = None \<and> words_refusal t = None \<and> acceptance_refusal (jget t ''acceptance'') = None \<and>
    routing_refusal t = None \<and> forge_refusal t = None \<and> data_refusal t = None \<and>
    \<not> (is_batch_parent t \<and> jget t ''batchId'' = JUndef) \<and> readiness_refusal t = None"
proof -
  have none: "List.find (\<lambda>_. True) (List.map_filter (\<lambda>r. r) xs) = None \<longleftrightarrow> list_all (\<lambda>r. r = None) xs"
    for xs :: "'a option list"
    by (induction xs) (auto simp: List.map_filter_simps split: option.split)
  show ?thesis unfolding task_refusal_of_def none by auto
qed

lemma identity_id: "identity_refusal t = None \<Longrightarrow> \<exists>s. jget t ''id'' = JStr s \<and> s \<noteq> []"
  by (auto simp: identity_refusal_def is_str_iff split: if_splits)

lemma normal_task_facts:
  assumes "jget t ''id'' = JStr s"
  shows "wf_map (normal_task t)" "map_of (normal_task t) ''id'' = Some (JStr s)"
    "\<exists>n. map_of (normal_task t) ''attempt'' = Some (JNum n) \<and> num_le (Fin 1) n"
proof -
  let ?out0 = "map (\<lambda>k. (k, jget t k)) (filter (given t) allowed_task_keys)"
  have wf: "wf_map ?out0" by (rule wf_pairs [OF allowed_keys(1)])
  then show "wf_map (normal_task t)" by (simp add: normal_task_def Let_def)
  have "given t ''id''" using assms by (simp add: given_def)
  then show "map_of (normal_task t) ''id'' = Some (JStr s)"
    using assms allowed_keys(2) by (simp add: normal_task_def Let_def map_of_pairs)
  show "\<exists>n. map_of (normal_task t) ''attempt'' = Some (JNum n) \<and> num_le (Fin 1) n"
    by (simp add: normal_task_def Let_def num_le_def split: jsval.split)
qed

lemma validated_facts:
  assumes "validate_task t = Inr m"
  shows "\<exists>s. wf_map m \<and> map_of m ''id'' = Some (JStr s) \<and>
    (\<exists>n. map_of m ''attempt'' = Some (JNum n) \<and> num_le (Fin 1) n)"
proof -
  have none: "task_refusal_of t = None" "m = normal_task t"
    using assms by (auto simp: validate_task_def split: option.splits)
  then obtain s where "jget t ''id'' = JStr s" using identity_id refusal_None by blast
  then show ?thesis using normal_task_facts none(2) by blast
qed

lemma row_ok_fresh:
  "wf_map m \<Longrightarrow> map_of m ''id'' = Some (JStr k) \<Longrightarrow> map_of m ''attempt'' = Some (JNum n) \<Longrightarrow> num_le (Fin 1) n \<Longrightarrow>
     row_ok k (fresh_queue_row m n now)"
  by (simp add: row_ok_def fresh_queue_row_def)

lemma minted_ge: "num_le (Fin 1) (attempt_of m) \<Longrightarrow> num_le (Fin 1) (q_attempt r) \<Longrightarrow> num_le (Fin 1) (minted_attempt m (Some r))"
  by (cases "attempt_of m"; cases "q_attempt r") (auto simp: minted_attempt_def num_max_def num_le_def)

lemma queue_ok_enqueue: "queue_ok q \<Longrightarrow> queue_ok (snd (enqueue cfg now task q))"
proof (cases "validate_task task")
  case (Inr m)
  assume q: "queue_ok q"
  obtain s n where m: "wf_map m" "map_of m ''id'' = Some (JStr s)" "map_of m ''attempt'' = Some (JNum n)" "num_le (Fin 1) n"
    using validated_facts [OF Inr] by blast
  define m1 where "m1 = (if own_get m ''project'' = JUndef \<and> truthy (qc_project cfg)
      then aset ''project'' (qc_project cfg) m else m)"
  have m1: "wf_map m1" "map_of m1 ''id'' = Some (JStr s)" "map_of m1 ''attempt'' = Some (JNum n)"
    using m by (simp_all add: m1_def)
  have key: "str_of (own_get m1 ''id'') = s" "attempt_of m1 = n" using m1 by (simp_all add: own_get_own attempt_of_def)
  show ?thesis
  proof (cases "map_of q s")
    case None
    have "snd (enqueue cfg now task q) = aset s (fresh_queue_row m1 n now) q"
      using None key by (simp add: enqueue_def Inr Let_def flip: m1_def)
    then show ?thesis using q row_ok_fresh [OF m1 m(4)] by (simp add: queue_ok_aset)
  next
    case (Some r)
    have r: "row_ok s r" using q Some by (rule queue_ok_get)
    then have n1: "num_le (Fin 1) (minted_attempt m1 (Some r))"
      using m(4) key by (intro minted_ge) (simp_all add: row_ok_def)
    have coalesced: "row_ok s (r\<lparr>q_coalesce := q_coalesce r + 1\<rparr>)"
      using r by (cases "q_status r") (simp_all add: row_ok_def)
    have minted: "row_ok s (fresh_queue_row (aset ''attempt'' (JNum (minted_attempt m1 (Some r))) m1)
        (minted_attempt m1 (Some r)) now)"
      using m1 n1 by (intro row_ok_fresh) simp_all
    have "snd (enqueue cfg now task q) =
        (if q_status r = Queued then aset s (r\<lparr>q_coalesce := q_coalesce r + 1\<rparr>) q
         else aset s (fresh_queue_row (aset ''attempt'' (JNum (minted_attempt m1 (Some r))) m1)
                (minted_attempt m1 (Some r)) now) q)"
      using Some key by (simp add: enqueue_def Inr Let_def flip: m1_def)
    then show ?thesis using q coalesced minted by (simp add: queue_ok_aset)
  qed
qed (simp add: enqueue_def)

lemma queue_ok_sweep: "queue_ok q \<Longrightarrow> queue_ok (sweep_queue cfg now q)"
  unfolding sweep_queue_def by (rule queue_ok_map_rows) (rule row_ok_sweep)

lemma pick_mem:
  "fold better xs best = Some kr \<Longrightarrow> kr \<in> set xs \<or> best = Some kr"
  by (induction xs arbitrary: best) (auto simp: better_def split: option.splits if_splits)

lemma pick_row_mem:
  assumes "pick_row collate parse now lanes holds q = Some (k, r)"
  shows "(k, r) \<in> set q" "claimable (held_ids collate parse holds q) now lanes r"
  using pick_mem [OF assms [unfolded pick_row_def]] by auto

lemma queue_ok_claim: "queue_ok q \<Longrightarrow> queue_ok (snd (claim_next collate parse cfg now mint worker lanes holds q))"
proof -
  assume "queue_ok q"
  then have s: "queue_ok (sweep_queue cfg now q)" by (rule queue_ok_sweep)
  have "row_ok k (claimed_row now mint worker r)" if "(k, r) \<in> set (sweep_queue cfg now q)" "q_status r = Queued" for k r
    using s that by (auto simp: queue_ok_def row_ok_def claimed_row_def)
  then show ?thesis
    using s pick_row_mem [of collate parse now lanes holds "sweep_queue cfg now q"]
    by (auto simp: claim_next_def Let_def claimable_def queue_ok_aset split: option.split)
qed

lemma row_ok_same: "row_ok k r \<Longrightarrow> q_task r' = q_task r \<Longrightarrow> q_attempt r' = q_attempt r \<Longrightarrow> q_status r' = q_status r \<Longrightarrow>
    q_claimed r' = q_claimed r \<Longrightarrow> q_touch r' = None \<longleftrightarrow> q_touch r = None \<Longrightarrow> q_token r' = q_token r \<Longrightarrow>
    q_completed r' = q_completed r \<Longrightarrow> q_reason r' = q_reason r \<Longrightarrow> row_ok k r'"
  by (cases "q_status r") (simp_all add: row_ok_def)

lemma row_ok_task: "row_ok k r \<Longrightarrow> wf_map m \<Longrightarrow> map_of m ''id'' = Some (JStr k) \<Longrightarrow>
    map_of m ''attempt'' = Some (JNum (q_attempt r)) \<Longrightarrow> row_ok k (r\<lparr>q_task := m\<rparr>)"
  by (cases "q_status r") (simp_all add: row_ok_def)

lemma queue_ok_under_way:
  assumes "queue_ok q"
  shows "queue_ok (snd (touch now k token q))" "queue_ok (snd (assign_worker k worker q))"
    "queue_ok (snd (release_claim now k token defer q))"
proof -
  show "queue_ok (snd (touch now k token q))"
    using assms queue_ok_get [OF assms, of k]
    by (auto simp: touch_def row_ok_def intro!: queue_ok_aset split: option.split)
  show "queue_ok (snd (assign_worker k worker q))"
    using assms queue_ok_get [OF assms, of k]
    by (auto simp: assign_worker_def row_ok_def intro!: queue_ok_aset split: option.split)
  show "queue_ok (snd (release_claim now k token defer q))"
    using assms queue_ok_get [OF assms, of k]
    by (auto simp: release_claim_def row_ok_def intro!: queue_ok_aset split: option.split)
qed

lemma known_reason_mem: "known_reason v \<Longrightarrow> str_of v \<in> set fail_reasons"
  by (simp add: known_reason_def)

lemma queue_ok_endings:
  assumes "queue_ok q"
  shows "queue_ok (snd (complete now k result q))" "queue_ok (snd (fail_task now k reason token q))"
    "queue_ok (snd (park_for_person now k reason token q))" "queue_ok (snd (cancel_task now k q))"
    "queue_ok (snd (reissue k q))"
proof -
  note get = queue_ok_get [OF assms, of k]
  show "queue_ok (snd (complete now k result q))"
    using assms get by (auto simp: complete_def row_ok_def intro!: queue_ok_aset split: option.split)
  show "queue_ok (snd (fail_task now k reason token q))"
    using assms get row_ok_end known_reason_mem
    by (auto simp: fail_task_def intro!: queue_ok_aset split: option.split)
  show "queue_ok (snd (park_for_person now k reason token q))"
    using assms get row_ok_end known_reason_mem
    by (auto simp: park_for_person_def intro!: queue_ok_aset split: option.split)
  show "queue_ok (snd (cancel_task now k q))"
    using assms get row_ok_end exhausted_known(2)
    by (auto simp: cancel_task_def intro!: queue_ok_aset split: option.split)
  show "queue_ok (snd (reissue k q))"
    using assms get num_le_succ
    by (auto simp: reissue_def row_ok_def with_attempt_def intro!: queue_ok_aset split: option.split)
qed

lemma row_ok_set_data: "row_ok k r \<Longrightarrow> row_ok k (r\<lparr>q_task := aset ''data'' v (q_task r)\<rparr>)"
  by (rule row_ok_task) (simp_all add: row_ok_def)

lemma queue_ok_words:
  assumes "queue_ok q"
  shows "queue_ok (snd (set_words k patch q))" "queue_ok (snd (set_priority k v q))"
    "queue_ok (snd (resolve_batch now b skip cancel q))"
proof -
  show "queue_ok (snd (set_priority k v q))"
    using assms queue_ok_get [OF assms, of k]
    by (auto simp: set_priority_def intro!: queue_ok_aset row_ok_task split: option.split sum.split)
      (simp_all add: row_ok_def)
  have "row_ok k (r\<lparr>q_task := spread (q_task r) ws\<rparr>)" if "row_ok k r" "validate_words patch = Inr ws" for r ws
  proof -
    have ws: "ws = map (\<lambda>k. (k, jget patch k)) (filter (given patch) word_keys)"
      using that(2) by (auto simp: validate_words_def split: if_splits sum.splits)
    have wf: "wf_map ws" unfolding ws by (rule wf_pairs [OF allowed_keys(5)])
    have "''id'' \<notin> set (akeys ws)" "''attempt'' \<notin> set (akeys ws)"
      using allowed_keys(6,7) by (auto simp: ws akeys_def)
    then have "map_of (spread (q_task r) ws) ''id'' = map_of (q_task r) ''id''"
      "map_of (spread (q_task r) ws) ''attempt'' = map_of (q_task r) ''attempt''"
      using wf by (auto simp: map_of_spread map_add_def set_akeys_dom split: option.split)
    then show ?thesis using that(1) by (intro row_ok_task) (simp_all add: row_ok_def wf_map_spread)
  qed
  then show "queue_ok (snd (set_words k patch q))"
    using assms queue_ok_get [OF assms, of k]
    by (auto simp: set_words_def intro!: queue_ok_aset split: option.split sum.split)
  have piece: "row_ok k r \<Longrightarrow> row_ok k (cancel_piece now b r)" for k r
    by (simp add: cancel_piece_def row_ok_end exhausted_known)
  show "queue_ok (snd (resolve_batch now b skip cancel q))"
  proof (cases "find (\<lambda>(_, r). is_request b r) q")
    case (Some kr)
    obtain k' r where kr: "kr = (k', r)" by (cases kr)
    then have "(k', r) \<in> set q" using Some nth_mem by (fastforce simp: find_Some_iff)
    then have "row_ok k' r" using assms by (auto simp: queue_ok_def)
    then have "queue_ok (aset k' (r\<lparr>q_task := aset ''data'' (JObj (decided_data skip cancel r)) (q_task r)\<rparr>) q)"
      by (intro queue_ok_aset assms row_ok_set_data)
    then show ?thesis by (auto simp: resolve_batch_def Some kr Let_def intro: queue_ok_map_rows [OF piece])
  qed (simp add: resolve_batch_def assms)
qed

lemma queue_ok_repeat: "queue_ok q \<Longrightarrow> queue_ok (snd (repeat_broken collate parse cfg now q))"
proof -
  have row: "queue_ok (snd s) \<Longrightarrow> queue_ok (snd (repeat_row parse let_go now row s))" for s let_go row
    using queue_ok_endings(5) [of "snd s" "to_str (jget row ''id'')"]
    by (auto simp: repeat_row_def split: prod.split bool.split)
  have "queue_ok (snd s) \<Longrightarrow> queue_ok (snd (fold (repeat_row parse let_go now) rows s))" for s let_go rows
    by (induction rows arbitrary: s) (simp_all add: row)
  then show "queue_ok q \<Longrightarrow> ?thesis" by (simp add: repeat_broken_def Let_def queue_ok_sweep)
qed

lemma queue_ok_step: "queue_ok q \<Longrightarrow> queue_ok (queue_call_step collate parse cfg call q)"
  by (cases call)
    (simp_all add: queue_ok_enqueue queue_ok_claim queue_ok_under_way queue_ok_endings queue_ok_words queue_ok_repeat
      list_tasks_def queue_stats_def Let_def queue_ok_sweep)

interpretation fleet_queue: guarded_machine "queue_call_step collate parse cfg" "[]" queue_ok
  by unfold_locales (simp_all add: queue_ok_step, simp add: queue_ok_def)

section \<open>Who is handed out\<close>

lemma sweep_keeps:
  "map_of (sweep_queue cfg now q) k = map_option (sweep_queue_row cfg now) (map_of q k)"
  by (simp add: sweep_queue_def map_of_map_rows)

definition no_worse :: "queue_row \<Rightarrow> queue_row \<Rightarrow> bool" where
  "no_worse b r \<longleftrightarrow> num_lt (priority_of r) (priority_of b) \<or> (priority_of r = priority_of b \<and> q_enqueued b \<le> q_enqueued r)"

lemma no_worse_refl: "no_worse b b"
  by (simp add: no_worse_def)

lemma num_lt_trans: "num_lt a b \<Longrightarrow> num_lt b c \<Longrightarrow> num_lt a c"
  by (cases a; cases b; cases c) auto

lemma num_lt_cases: "a \<noteq> NaN \<Longrightarrow> b \<noteq> NaN \<Longrightarrow> num_lt a b \<or> a = b \<or> num_lt b a"
  by (cases a; cases b) auto

lemma no_worse_trans: "no_worse a b \<Longrightarrow> no_worse b c \<Longrightarrow> no_worse a c"
  by (auto simp: no_worse_def intro: num_lt_trans order_trans)

lemma ahead_no_worse: "ahead_of r b \<Longrightarrow> no_worse r b"
  by (auto simp: ahead_of_def no_worse_def)

lemma not_ahead_no_worse: "\<not> ahead_of r b \<Longrightarrow> priority_of r \<noteq> NaN \<Longrightarrow> priority_of b \<noteq> NaN \<Longrightarrow> no_worse b r"
  using num_lt_cases [of "priority_of r" "priority_of b"] by (auto simp: ahead_of_def no_worse_def)

lemma fold_better_Some: "fold better xs (Some b) \<noteq> None"
  by (induction xs arbitrary: b) (auto simp: better_def)

lemma pick_best:
  assumes "\<forall>(k, r) \<in> set xs. priority_of r \<noteq> NaN"
  shows "fold better xs None = Some (k, b) \<Longrightarrow> \<forall>(k', r) \<in> set xs. no_worse b r"
  using assms
proof (induction xs arbitrary: k b rule: rev_induct)
  case (snoc x xs)
  obtain k' r where x: "x = (k', r)" by (cases x)
  show ?case
  proof (cases "fold better xs None")
    case None
    then have "xs = []"
      by (cases xs) (simp_all add: better_def fold_better_Some)
    then show ?thesis using snoc.prems(1) by (auto simp: better_def x no_worse_refl)
  next
    case (Some kb)
    obtain k0 b0 where kb: "kb = (k0, b0)" by (cases kb)
    have all: "\<forall>(k', r) \<in> set xs. no_worse b0 r" using snoc.IH Some kb snoc.prems(2) by auto
    have "b0 \<in> snd ` set xs" using pick_mem Some kb by force
    then have "priority_of b0 \<noteq> NaN" "priority_of r \<noteq> NaN" using snoc.prems(2) x by auto
    moreover have "better (k', r) (Some (k0, b0)) = Some (k, b)" using snoc.prems(1) by (simp add: Some kb x)
    then have "b = (if ahead_of r b0 then r else b0)" by (auto simp: better_def split: if_splits)
    ultimately have "no_worse b r" "no_worse b b0"
      using ahead_no_worse not_ahead_no_worse no_worse_refl by auto
    then show ?thesis using all no_worse_trans by (fastforce simp: x)
  qed
qed simp

section \<open>The rows of a batch\<close>

lemma stated_get: "k \<noteq> ''project'' \<Longrightarrow> own_get (with_stated_project m) k = own_get m k"
  by (simp add: with_stated_project_def own_get_aset)

lemma row_of_get:
  "jget (row_of r) ''id'' = own_get (q_task r) ''id''"
  "jget (row_of r) ''status'' = JStr (status_name (q_status r))"
  "jget (row_of r) ''data'' = (if truthy (own_get (q_task r) ''data'') then own_get (q_task r) ''data'' else JUndef)"
  "jget (row_of r) ''batchId'' = (if truthy (own_get (q_task r) ''batchId'') then own_get (q_task r) ''batchId'' else JUndef)"
  by (simp_all add: row_of_def Let_def stated_get) (simp_all add: own_get_def proto_names_def)

lemma row_of_object: "is_object (row_of r)" "truthy (row_of r)"
  by (simp_all add: row_of_def Let_def is_object_def)

lemma object_truthy: "is_object v \<Longrightarrow> truthy v"
  by (cases v) (auto simp: is_object_def)

lemma envelope_row:
  "envelope_of (row_of r) = (if truthy (own_get (q_task r) ''data'') then own_get (q_task r) ''data'' else JUndef)"
  "envelope_of (JObj m) = own_get m ''data''"
  by (simp_all add: envelope_of_def row_of_object row_of_get) (simp add: is_object_def)

lemma row_of_env: "is_object (envelope_of (row_of r)) \<Longrightarrow> envelope_of (row_of r) = envelope_of (JObj (q_task r))"
  "is_object (envelope_of (JObj (q_task r))) \<Longrightarrow> envelope_of (row_of r) = envelope_of (JObj (q_task r))"
  using object_truthy by (auto simp: envelope_row is_object_def split: if_splits)

lemma row_of_parent: "is_batch_parent (row_of r) \<longleftrightarrow> is_batch_parent (JObj (q_task r))"
  using row_of_env [of r] by (metis is_batch_parent_def)

lemma row_of_decisions: "is_batch_parent (JObj (q_task r)) \<Longrightarrow> batch_decisions_of (row_of r) = batch_decisions_of (JObj (q_task r))"
  using row_of_env [of r] by (simp add: is_batch_parent_def batch_decisions_of_def)

lemma row_of_request: "request_batch_id (row_of r) = request_batch_id (JObj (q_task r))"
  by (simp add: request_batch_id_def row_of_get js_or_def)

lemma replace_new: "\<forall>x \<in> set out. jget x ''id'' \<noteq> jget r ''id'' \<Longrightarrow> replace_row parse r out = out @ [r]"
  by (induction out) auto

lemma latest_distinct:
  assumes "distinct (map (\<lambda>r. jget r ''id'') rows)" "list_all is_object rows"
  shows "latest_row_per_id parse rows = rows"
proof -
  have "fold (\<lambda>r out. if is_object r then replace_row parse r out else out) rows out = out @ rows"
    if "distinct (map (\<lambda>r. jget r ''id'') (out @ rows))" "list_all is_object rows" for out
    using that
  proof (induction rows arbitrary: out)
    case (Cons r rows)
    have "replace_row parse r out = out @ [r]" using Cons.prems(1) by (intro replace_new) (force simp: image_iff)
    then show ?case using Cons.IH [of "out @ [r]"] Cons.prems by simp
  qed simp
  from this [of "[]"] show ?thesis using assms by (simp add: latest_row_per_id_def)
qed

lemma set_insert_by: "set (insert_by before x ys) = insert x (set ys)"
  by (induction ys) auto

lemma set_stable_sort: "set (stable_sort before xs) = set xs"
  by (induction xs) (auto simp: stable_sort_def set_insert_by)

lemma queue_row_id: "queue_ok q \<Longrightarrow> (k, r) \<in> set q \<Longrightarrow> jget (row_of r) ''id'' = JStr k"
  by (auto simp: queue_ok_def row_ok_def row_of_get own_get_own)

lemma queue_rows_distinct: "queue_ok q \<Longrightarrow> distinct (map (\<lambda>r. jget r ''id'') (map (\<lambda>(_, r). row_of r) q))"
proof -
  assume q: "queue_ok q"
  have ids: "map (\<lambda>x. jget (row_of (snd x)) ''id'') q = map JStr (akeys q)"
    unfolding akeys_def using queue_row_id [OF q] by auto
  have "distinct (map JStr (akeys q))"
    using q by (simp add: queue_ok_def wf_map_def distinct_map inj_on_def)
  then show ?thesis unfolding ids [symmetric] by (simp add: comp_def case_prod_unfold)
qed

lemma batch_items_set:
  assumes "queue_ok q"
  shows "set (batch_items_of collate parse (map (\<lambda>(_, r). row_of r) q) b) =
    {row_of r |k r. (k, r) \<in> set q \<and> jget (row_of r) ''batchId'' = b \<and> \<not> is_batch_parent (JObj (q_task r))}"
proof -
  let ?P = "\<lambda>r. truthy r \<and> jget r ''batchId'' = b \<and> \<not> is_batch_parent r"
  let ?rows = "filter ?P (map (\<lambda>(_, r). row_of r) q)"
  have "distinct (map (\<lambda>r. jget r ''id'') ?rows)"
    using queue_rows_distinct [OF assms] by (rule distinct_map_filter)
  moreover have "list_all is_object ?rows" by (auto simp: list_all_iff row_of_object)
  ultimately have "latest_row_per_id parse ?rows = ?rows" by (rule latest_distinct)
  then have "set (batch_items_of collate parse (map (\<lambda>(_, r). row_of r) q) b) = set ?rows"
    by (simp only: batch_items_of_def set_stable_sort)
  then show ?thesis by (force simp: row_of_object row_of_parent image_iff)
qed

text \<open>When a piece is not held, its assembly stands still: nothing of it runs and nothing of it broke.\<close>

lemma unheld_piece:
  assumes q: "queue_ok q" and req: "(p, req) \<in> set q" "is_request b req"
    and piece: "(k, r) \<in> set q" "jget (row_of r) ''batchId'' = b" "\<not> is_batch_parent (JObj (q_task r))" "q_status r = Queued"
    and unheld: "JStr k \<notin> set (batch_held_of collate parse (map (\<lambda>(_, r). row_of r) q))"
    and kept: "JStr k \<notin> set (bd_skipped (batch_decisions_of (JObj (q_task req))))"
  shows "\<not> bd_cancelled (batch_decisions_of (JObj (q_task req)))"
    and "(k2, r2) \<in> set q \<Longrightarrow> jget (row_of r2) ''batchId'' = b \<Longrightarrow> \<not> is_batch_parent (JObj (q_task r2)) \<Longrightarrow>
      JStr k2 \<notin> set (bd_skipped (batch_decisions_of (JObj (q_task req)))) \<Longrightarrow> q_status r2 \<noteq> Claimed \<and> q_status r2 \<noteq> Failed"
proof -
  let ?rows = "map (\<lambda>(_, r). row_of r) q"
  define d where "d = batch_decisions_of (JObj (q_task req))"
  define items where "items = filter (\<lambda>r. \<not> List.member (bd_skipped d) (jget r ''id'')) (batch_items_of collate parse ?rows b)"
  define stopped where "stopped \<longleftrightarrow> bd_cancelled d \<or> list_ex (\<lambda>r. jget r ''status'' = JStr ''claimed'') items \<or>
    stopped_item_of items [] \<noteq> None"
  have parent: "is_batch_parent (JObj (q_task req))" "request_batch_id (row_of req) = b"
    using req(2) by (simp_all add: is_request_def row_of_request)
  have ids: "jget (row_of x) ''id'' = JStr y" if "(y, x) \<in> set q" for x y
    using queue_row_id [OF q that] .
  have items: "row_of x \<in> set items" if "(y, x) \<in> set q" "jget (row_of x) ''batchId'' = b"
      "\<not> is_batch_parent (JObj (q_task x))" "JStr y \<notin> set (bd_skipped d)" for x y
    using that ids [OF that(1)] batch_items_set [OF q, of collate parse b] by (auto simp: items_def)
  have held: "batch_held_for collate parse ?rows (row_of req) =
      map (\<lambda>r. jget r ''id'') (let waiting = filter (\<lambda>r. jget r ''status'' = JStr ''queued'') items in
        if stopped then waiting else tl waiting)"
    unfolding batch_held_for_def Let_def row_of_decisions [OF parent(1)] parent(2) d_def [symmetric]
      items_def [symmetric] stopped_def [symmetric] ..
  have "row_of req \<in> set (filter is_batch_parent ?rows)" using req(1) parent(1) by (force simp: row_of_parent)
  then have sub: "set (batch_held_for collate parse ?rows (row_of req)) \<subseteq> set (batch_held_of collate parse ?rows)"
    unfolding batch_held_of_def set_concat set_map by blast
  have mine: "row_of r \<in> set items" using items [OF piece(1-3)] kept by (simp add: d_def)
  have go: "\<not> stopped"
  proof
    assume stopped
    then have "JStr k \<in> set (batch_held_for collate parse ?rows (row_of req))"
      using mine piece(4) ids [OF piece(1)] unfolding held Let_def by (auto simp: row_of_get image_iff intro!: bexI [of _ "row_of r"])
    then show False using sub unheld by blast
  qed
  then show "\<not> bd_cancelled (batch_decisions_of (JObj (q_task req)))" by (simp add: stopped_def d_def)
  assume other: "(k2, r2) \<in> set q" "jget (row_of r2) ''batchId'' = b" "\<not> is_batch_parent (JObj (q_task r2))"
    "JStr k2 \<notin> set (bd_skipped (batch_decisions_of (JObj (q_task req))))"
  then have "row_of r2 \<in> set items" using items by (simp add: d_def)
  then have "jget (row_of r2) ''status'' \<noteq> JStr ''claimed''" "jget (row_of r2) ''status'' \<noteq> JStr ''failed''"
    using go row_of_object by (auto simp: stopped_def list_ex_iff stopped_item_of_def find_None_iff)
  then show "q_status r2 \<noteq> Claimed \<and> q_status r2 \<noteq> Failed" by (auto simp: row_of_get)
qed

section \<open>Properties\<close>

text \<open>C35: every record of the queue keeps its shape under any sequence of calls: it is filed under the
  id of its task, its attempt number is the one its task carries and at least one, a claimed row has
  its marks and its token, a waiting row has none of them, a closed row has the time it was closed,
  and a failed row a reason of the vocabulary. Nothing is ever stored as completed.\<close>

theorem queue_rows_well_formed:
  "queue_ok (fold (queue_call_step collate parse cfg) calls [])"
  by (rule fleet_queue.inv_run)

lemma sweep_priority: "priority_of (sweep_queue_row cfg now r) = priority_of r"
  by (simp add: sweep_queue_row_def with_attempt_def priority_of_def own_get_aset)

lemma fold_better_empty: "fold better xs None = None \<longleftrightarrow> xs = []"
  by (cases xs) (simp_all add: better_def fold_better_Some)

lemma claim_answer:
  "row_ok k r \<Longrightarrow> jget (JObj (with_stated_project (aset ''attemptToken'' (JStr mint) (q_task r)))) ''id'' = JStr k \<and>
     jget (JObj (with_stated_project (aset ''attemptToken'' (JStr mint) (q_task r)))) ''attemptToken'' = JStr mint"
  by (simp add: stated_get own_get_aset row_ok_def own_get_own)

text \<open>C3: a claim hands out the first of the rows that may go. When the lanes are not an empty list and
  some row is claimable - waiting, held by no batch, wave or file, no request of a batch, its pause
  over, of a wanted lane - one of them is claimed under a fresh token, no other claimable row has a
  higher priority, and none of the same priority waits longer; otherwise the answer is null and
  only silent claims have been swept.\<close>

theorem claim_takes_the_first:
  assumes "queue_ok q0" "\<forall>(k, r) \<in> set q0. priority_of r \<noteq> NaN"
  shows "let q = sweep_queue cfg now q0;
             may = claimable (held_ids collate parse holds q) now lanes;
             (answer, q1) = claim_next collate parse cfg now mint worker lanes holds q0
         in if is_arr lanes \<and> elems lanes = [] \<or> (\<forall>(k, r) \<in> set q. \<not> may r)
            then answer = JNull \<and> q1 = q
            else \<exists>k r. map_of q k = Some r \<and> may r \<and> (\<forall>(k', r') \<in> set q. may r' \<longrightarrow> no_worse r r') \<and>
              q1 = aset k (claimed_row now mint worker r) q \<and>
              jget answer ''id'' = JStr k \<and> jget answer ''attemptToken'' = JStr mint"
proof -
  define q where "q = sweep_queue cfg now q0"
  define may where "may = claimable (held_ids collate parse holds q) now lanes"
  define xs where "xs = filter (\<lambda>(_, r). may r) q"
  have q: "queue_ok q" unfolding q_def using assms(1) by (rule queue_ok_sweep)
  have "\<forall>(k, r) \<in> set q. priority_of r \<noteq> NaN"
    using assms(2) by (auto simp: q_def sweep_queue_def map_rows_def sweep_priority)
  then have prio: "\<forall>(k, r) \<in> set xs. priority_of r \<noteq> NaN" by (auto simp: xs_def)
  have pick: "pick_row collate parse now lanes holds q = fold better xs None"
    by (simp add: pick_row_def xs_def may_def)
  have run: "claim_next collate parse cfg now mint worker lanes holds q0 =
      (if is_arr lanes \<and> elems lanes = [] then (JNull, q)
       else case fold better xs None of
              None \<Rightarrow> (JNull, q)
            | Some (k, r) \<Rightarrow> (JObj (with_stated_project (aset ''attemptToken'' (JStr mint) (q_task r))),
                              aset k (claimed_row now mint worker r) q))"
    by (simp only: claim_next_def Let_def pick flip: q_def)
  show ?thesis
  proof (cases "is_arr lanes \<and> elems lanes = [] \<or> (\<forall>(k, r) \<in> set q. \<not> may r)")
    case True
    then have "(is_arr lanes \<and> elems lanes = []) \<or> fold better xs None = None"
      by (auto simp: fold_better_empty xs_def filter_empty_conv)
    then show ?thesis using True by (auto simp: Let_def run simp flip: q_def may_def)
  next
    case False
    then have "xs \<noteq> []" by (auto simp: xs_def filter_empty_conv)
    then obtain k r where kr: "fold better xs None = Some (k, r)" using fold_better_empty [of xs] by auto
    have mem: "(k, r) \<in> set xs" using pick_mem [OF kr] by auto
    then have "(k, r) \<in> set q" "may r" by (auto simp: xs_def)
    moreover from this have "map_of q k = Some r" using q by (simp add: queue_ok_def wf_map_def akeys_def)
    moreover have "\<forall>(k', r') \<in> set q. may r' \<longrightarrow> no_worse r r'"
      using pick_best [OF prio kr] by (auto simp: xs_def)
    moreover have "row_ok k r" using q \<open>(k, r) \<in> set q\<close> by (auto simp: queue_ok_def)
    ultimately show ?thesis
      using False claim_answer [of k r mint] by (auto simp: Let_def run kr simp flip: q_def may_def)
  qed
qed

lemma claim_row:
  assumes "queue_ok q0" "claim_next collate parse cfg now mint worker lanes holds q0 = (answer, q1)"
    and "jget answer ''id'' = JStr k"
  obtains r where "(k, r) \<in> set (sweep_queue cfg now q0)"
    "claimable (held_ids collate parse holds (sweep_queue cfg now q0)) now lanes r"
    "q1 = aset k (claimed_row now mint worker r) (sweep_queue cfg now q0)"
proof -
  let ?q = "sweep_queue cfg now q0"
  have q: "queue_ok ?q" using assms(1) by (rule queue_ok_sweep)
  obtain k' r where pick: "pick_row collate parse now lanes holds ?q = Some (k', r)"
    using assms(2,3) by (auto simp: claim_next_def Let_def split: if_splits option.splits)
  then have run: "answer = JObj (with_stated_project (aset ''attemptToken'' (JStr mint) (q_task r)))"
    "q1 = aset k' (claimed_row now mint worker r) ?q"
    using assms(2,3) by (auto simp: claim_next_def Let_def split: if_splits)
  have mem: "(k', r) \<in> set ?q" using pick_row_mem(1) [OF pick] .
  then have "row_ok k' r" using q by (auto simp: queue_ok_def)
  then have "k' = k" using assms(3) claim_answer [of k' r mint] by (simp add: run(1))
  then show ?thesis using that mem pick_row_mem(2) [OF pick] run(2) by blast
qed

text \<open>C6: one piece of an assembly at a time. A piece the owner did not skip is handed out only when
  the assembly was not cancelled and no other piece he kept is claimed or failed.\<close>

theorem one_piece_at_a_time:
  assumes "queue_ok q0" "claim_next collate parse cfg now mint worker lanes holds q0 = (answer, q1)"
    and "jget answer ''id'' = JStr k" "map_of (sweep_queue cfg now q0) k = Some r"
    and "own_get (q_task r) ''batchId'' = JStr b" "b \<noteq> []"
    and "(p, req) \<in> set (sweep_queue cfg now q0)" "is_request (JStr b) req"
    and "JStr k \<notin> set (bd_skipped (batch_decisions_of (JObj (q_task req))))"
  shows "\<not> bd_cancelled (batch_decisions_of (JObj (q_task req))) \<and>
    (\<forall>(k2, r2) \<in> set (sweep_queue cfg now q0).
       own_get (q_task r2) ''batchId'' = JStr b \<and> \<not> is_batch_parent (JObj (q_task r2)) \<and>
       JStr k2 \<notin> set (bd_skipped (batch_decisions_of (JObj (q_task req)))) \<longrightarrow>
       q_status r2 \<noteq> Claimed \<and> q_status r2 \<noteq> Failed)"
proof (intro conjI)
  let ?q = "sweep_queue cfg now q0"
  have q: "queue_ok ?q" using assms(1) by (rule queue_ok_sweep)
  obtain r' where r': "(k, r') \<in> set ?q" "claimable (held_ids collate parse holds ?q) now lanes r'"
    using claim_row [OF assms(1-3)] .
  then have "r' = r" using q assms(4) by (simp add: queue_ok_def wf_map_def akeys_def)
  then have r: "(k, r) \<in> set ?q" "claimable (held_ids collate parse holds ?q) now lanes r" using r' by simp_all
  then have "task_id_of r = JStr k" using q by (auto simp: queue_ok_def row_ok_def task_id_of_def own_get_own)
  then have piece: "\<not> is_batch_parent (JObj (q_task r))" "q_status r = Queued"
    "JStr k \<notin> set (batch_held_of collate parse (map (\<lambda>(_, r). row_of r) ?q))"
    using r(2) by (auto simp: claimable_def held_ids_def Let_def)
  have batch: "jget (row_of x) ''batchId'' = JStr b \<longleftrightarrow> own_get (q_task x) ''batchId'' = JStr b" for x
    using assms(6) by (auto simp: row_of_get)
  note stands = unheld_piece [OF q assms(7,8) r(1) _ piece(1,2,3) assms(9), unfolded batch, OF assms(5)]
  show "\<not> bd_cancelled (batch_decisions_of (JObj (q_task req)))" by (rule stands(1))
  show "\<forall>(k2, r2) \<in> set ?q.
       own_get (q_task r2) ''batchId'' = JStr b \<and> \<not> is_batch_parent (JObj (q_task r2)) \<and>
       JStr k2 \<notin> set (bd_skipped (batch_decisions_of (JObj (q_task req)))) \<longrightarrow>
       q_status r2 \<noteq> Claimed \<and> q_status r2 \<noteq> Failed"
    using stands(2) by blast
qed

definition sample_config :: queue_config where
  "sample_config = \<lparr>qc_expire_ms = 900000, qc_project = JUndef\<rparr>"

definition piece_task :: "string \<Rightarrow> jsval" where
  "piece_task k = JObj [(''id'', JStr k), (''source'', JStr ''roster''), (''title'', JStr ''piece''), (''lane'', JStr ''prod''),
     (''batchId'', JStr ''B'')]"

definition request_task :: jsval where
  "request_task = JObj [(''id'', JStr ''B''), (''source'', JStr ''roster''), (''title'', JStr ''request''),
     (''lane'', JStr ''prod''), (''batchId'', JStr ''B''), (''data'', JObj [(''batch'', JStr ''parent'')])]"

definition sample_calls :: "queue_call list" where
  "sample_calls = [Call_enqueue 1 request_task, Call_enqueue 2 (piece_task ''p1''), Call_enqueue 3 (piece_task ''p2'')]"

abbreviation sample_run :: "queue_call list \<Rightarrow> queue" where
  "sample_run calls \<equiv> fold (queue_call_step (\<lambda>_ _. 0) (\<lambda>_. NaN) sample_config) calls []"

abbreviation sample_claim :: "queue \<Rightarrow> jsval \<times> queue" where
  "sample_claim q \<equiv> claim_next (\<lambda>_ _. 0) (\<lambda>_. NaN) sample_config 4 ''t1'' (JStr ''w'') JUndef JUndef q"

lemma sample_facts:
  "jget (fst (sample_claim (sample_run sample_calls))) ''id'' = JStr ''p1''"
  "case map_of (sweep_queue sample_config 4 (sample_run sample_calls)) ''p1'' of
     None \<Rightarrow> False | Some r \<Rightarrow> own_get (q_task r) ''batchId'' = JStr ''B''"
  "case map_of (sweep_queue sample_config 4 (sample_run sample_calls)) ''B'' of
     None \<Rightarrow> False
   | Some req \<Rightarrow> is_request (JStr ''B'') req \<and> bd_skipped (batch_decisions_of (JObj (q_task req))) = []"
  "list_all (\<lambda>(k, r). priority_of r \<noteq> NaN) (sample_run sample_calls)"
  "list_ex (\<lambda>(k, r). claimable (held_ids (\<lambda>_ _. 0) (\<lambda>_. NaN) JUndef (sweep_queue sample_config 4 (sample_run sample_calls)))
     4 JUndef r) (sweep_queue sample_config 4 (sample_run sample_calls))"
  by (code_simp, code_simp, code_simp, code_simp, code_simp)

lemma sample_ok: "queue_ok (sample_run calls)"
  by (rule fleet_queue.inv_run)

lemma sample_pieces:
  "case map_of (sweep_queue sample_config 4 (sample_run sample_calls)) ''p2'' of
     None \<Rightarrow> False
   | Some r2 \<Rightarrow> own_get (q_task r2) ''batchId'' = JStr ''B'' \<and> \<not> is_batch_parent (JObj (q_task r2))"
  by code_simp

theorem one_piece_at_a_time_witness:
  "\<exists>req r2. map_of (sweep_queue sample_config 4 (sample_run sample_calls)) ''B'' = Some req \<and>
     map_of (sweep_queue sample_config 4 (sample_run sample_calls)) ''p2'' = Some r2 \<and>
     bd_cancelled (batch_decisions_of (JObj (q_task req))) = False \<and> q_status r2 \<notin> {Claimed, Failed}"
proof -
  let ?q = "sweep_queue sample_config 4 (sample_run sample_calls)"
  obtain r where r: "map_of ?q ''p1'' = Some r" "own_get (q_task r) ''batchId'' = JStr ''B''"
    using sample_facts(2) by (auto split: option.splits)
  obtain req where req: "map_of ?q ''B'' = Some req" "is_request (JStr ''B'') req"
      "bd_skipped (batch_decisions_of (JObj (q_task req))) = []"
    using sample_facts(3) by (auto split: option.splits)
  obtain r2 where r2: "map_of ?q ''p2'' = Some r2" "own_get (q_task r2) ''batchId'' = JStr ''B''"
      "\<not> is_batch_parent (JObj (q_task r2))"
    using sample_pieces by (auto split: option.splits)
  obtain answer q1 where run: "sample_claim (sample_run sample_calls) = (answer, q1)" by (cases "sample_claim (sample_run sample_calls)")
  have got: "jget answer ''id'' = JStr ''p1''" using sample_facts(1) run by simp
  have "''B'' \<noteq> []" "JStr ''p1'' \<notin> set (bd_skipped (batch_decisions_of (JObj (q_task req))))" by (simp_all add: req(3))
  note one_piece_at_a_time [OF sample_ok run got r this(1) map_of_SomeD [OF req(1)] req(2) this(2)]
  moreover have "JStr ''p2'' \<notin> set (bd_skipped (batch_decisions_of (JObj (q_task req))))" by (simp add: req(3))
  ultimately have "q_status r2 \<noteq> Claimed" "q_status r2 \<noteq> Failed" "\<not> bd_cancelled (batch_decisions_of (JObj (q_task req)))"
    using map_of_SomeD [OF r2(1)] r2(2,3) by blast+
  then show ?thesis using req(1) r2(1) by blast
qed

theorem claim_takes_the_first_witness:
  "snd (sample_claim (sample_run sample_calls)) \<noteq> sweep_queue sample_config 4 (sample_run sample_calls)"
proof -
  let ?q = "sweep_queue sample_config 4 (sample_run sample_calls)"
  let ?may = "claimable (held_ids (\<lambda>_ _. 0) (\<lambda>_. NaN) JUndef ?q) 4 JUndef"
  have "\<forall>(k, r) \<in> set (sample_run sample_calls). priority_of r \<noteq> NaN"
    using sample_facts(4) by (simp add: list_all_iff)
  note law = claim_takes_the_first [OF sample_ok this, of sample_config 4 "\<lambda>_ _. 0" "\<lambda>_. NaN" JUndef JUndef "''t1''" "JStr ''w''"]
  obtain answer q1 where run: "sample_claim (sample_run sample_calls) = (answer, q1)" by (cases "sample_claim (sample_run sample_calls)")
  have "\<not> (is_arr JUndef \<and> elems JUndef = [] \<or> (\<forall>(k, r) \<in> set ?q. \<not> ?may r))"
    using sample_facts(5) by (auto simp: list_ex_iff)
  from law [unfolded Let_def run prod.case if_not_P [OF this]]
  have "\<exists>k r. map_of ?q k = Some r \<and> ?may r \<and>
      snd (sample_claim (sample_run sample_calls)) = aset k (claimed_row 4 ''t1'' (JStr ''w'') r) ?q"
    unfolding run snd_conv by blast
  then obtain k r where kr: "map_of ?q k = Some r" "?may r"
    "snd (sample_claim (sample_run sample_calls)) = aset k (claimed_row 4 ''t1'' (JStr ''w'') r) ?q" by blast
  then have "q_status r = Queued" by (simp add: claimable_def)
  then have "map_of (aset k (claimed_row 4 ''t1'' (JStr ''w'') r) ?q) k \<noteq> map_of ?q k"
    using kr(1) by (auto simp: claimed_row_def dest: arg_cong [of _ _ q_status])
  then show ?thesis using kr(3) by metis
qed

end
