(* ===== verification/Queue_Endings.thy ===== *)
theory Queue_Endings
  imports Queue_Laws
begin

text \<open>
  What can happen to one row of the reference queue between two words of its doors: the changes as
  a step relation, every call of the queue as a sequence of them, and the promises that follow by
  rule induction - attempts end, a stop holds, a foreign token changes nothing.
\<close>

section \<open>The changes of a row\<close>

definition requeued_row :: "queue_row \<Rightarrow> queue_row" where
  "requeued_row r = with_attempt (num_add (q_attempt r) (Fin 1))
     (r\<lparr>q_status := Queued, q_worker := JNull, q_claimed := None, q_touch := None, q_completed := None, q_reason := None\<rparr>)"

datatype door = Door_complete | Door_fail | Door_reissue

inductive row_change :: "door set \<Rightarrow> queue_row \<Rightarrow> queue_row \<Rightarrow> bool" for D :: "door set" where
  swept: "row_change D r (sweep_queue_row cfg now r)"
| claimed: "q_status r = Queued \<Longrightarrow> row_change D r (claimed_row now mint worker r)"
| touched: "q_status r = Claimed \<Longrightarrow> row_change D r (r\<lparr>q_touch := Some now\<rparr>)"
| assigned: "q_status r = Claimed \<Longrightarrow> row_change D r (r\<lparr>q_worker := worker\<rparr>)"
| released: "q_status r = Claimed \<Longrightarrow>
    row_change D r (r\<lparr>q_status := Queued, q_worker := JNull, q_claimed := None, q_touch := None, q_token := None,
      q_releases := q_releases r + 1, q_not_before := Some t\<rparr>)"
| closed: "open_status (q_status r) \<Longrightarrow> row_change D r (ended_row now reason r)"
| completed: "Door_complete \<in> D \<Longrightarrow>
    row_change D r (r\<lparr>q_status := Awaiting_approval, q_completed := Some now, q_result := result, q_reason := None\<rparr>)"
| broken: "Door_fail \<in> D \<Longrightarrow> row_change D r (ended_row now reason r)"
| repeated: "q_status r = Failed \<Longrightarrow> q_reason r \<noteq> Some ''manual'' \<Longrightarrow> Door_reissue \<in> D \<or> awaits_auto_retry (row_of r) \<Longrightarrow>
    row_change D r (requeued_row r)"
| decided: "is_request b r \<Longrightarrow>
    row_change D r (r\<lparr>q_task := aset ''data'' (JObj (decided_data skip cancel r)) (q_task r)\<rparr>)"
| reworded: "open_status (q_status r) \<Longrightarrow> validate_words patch = Inr ws \<Longrightarrow>
    row_change D r (r\<lparr>q_task := spread (q_task r) ws\<rparr>)"
| reordered: "open_status (q_status r) \<Longrightarrow> row_change D r (r\<lparr>q_task := aset ''priority'' (JNum n) (q_task r)\<rparr>)"

text \<open>The calls that stay off the row \<open>k\<close> but for the doors of \<open>D\<close>: it is not put in anew, and
  completed, failed or re-issued by hand only through an open door.\<close>

fun call_allowed :: "door set \<Rightarrow> string \<Rightarrow> queue_call \<Rightarrow> bool" where
  "call_allowed D k (Call_enqueue now task) = (jget task ''id'' \<noteq> JStr k)"
| "call_allowed D k (Call_complete now k' result) = (k' = k \<longrightarrow> Door_complete \<in> D)"
| "call_allowed D k (Call_fail now k' reason token) = (k' = k \<longrightarrow> Door_fail \<in> D)"
| "call_allowed D k (Call_reissue k') = (k' = k \<longrightarrow> Door_reissue \<in> D)"
| "call_allowed D k _ = True"

abbreviation becomes :: "door set \<Rightarrow> queue \<Rightarrow> string \<Rightarrow> queue_row \<Rightarrow> queue \<Rightarrow> bool" where
  "becomes D q k r q' \<equiv> map_of q k = Some r \<longrightarrow> (\<exists>r'. map_of q' k = Some r' \<and> (row_change D)\<^sup>*\<^sup>* r r')"

lemma one_change: "map_of q' k = Some r' \<Longrightarrow> row_change D r r' \<Longrightarrow> becomes D q k r q'"
  by blast

lemma no_change: "map_of q' k = map_of q k \<Longrightarrow> becomes D q k r q'"
  by auto

lemma becomes_then:
  assumes "becomes D q k r q1" "\<And>r1. becomes D q1 k r1 q2"
  shows "becomes D q k r q2"
  using assms by (meson rtranclp_trans)

lemma sweep_becomes: "becomes D q k r (sweep_queue cfg now q)"
  by (auto simp: sweep_keeps intro: swept)

lemma claim_becomes:
  assumes "queue_ok q"
  shows "becomes D q k r (snd (claim_next collate parse cfg now mint worker lanes holds q))"
proof (rule becomes_then [OF sweep_becomes])
  fix r1
  let ?q = "sweep_queue cfg now q"
  have ok: "queue_ok ?q" using assms by (rule queue_ok_sweep)
  show "becomes D ?q k r1 (snd (claim_next collate parse cfg now mint worker lanes holds q))"
  proof (cases "pick_row collate parse now lanes holds ?q")
    case None
    then show ?thesis by (auto simp: claim_next_def Let_def)
  next
    case (Some kr)
    obtain k' r' where kr: "kr = (k', r')" by (cases kr)
    have "(k', r') \<in> set ?q" "q_status r' = Queued"
      using pick_row_mem [OF Some [unfolded kr]] by (auto simp: claimable_def)
    then have "map_of ?q k' = Some r'" using ok by (simp add: queue_ok_def wf_map_def akeys_def)
    then show ?thesis
      using Some \<open>q_status r' = Queued\<close> by (auto simp: claim_next_def Let_def kr intro: claimed)
  qed
qed

lemma doors_become:
  "becomes D q k r (snd (touch now k' token q))" "becomes D q k r (snd (assign_worker k' worker q))"
  "becomes D q k r (snd (release_claim now k' token defer q))" "becomes D q k r (snd (park_for_person now k' reason token q))"
  "becomes D q k r (snd (cancel_task now k' q))" "becomes D q k r (snd (set_words k' patch q))"
  "becomes D q k r (snd (set_priority k' v q))"
proof -
  show "becomes D q k r (snd (touch now k' token q))"
    by (auto simp: touch_def split: option.split intro: touched)
  show "becomes D q k r (snd (assign_worker k' worker q))"
    by (auto simp: assign_worker_def split: option.split intro: assigned)
  show "becomes D q k r (snd (release_claim now k' token defer q))"
    by (auto simp: release_claim_def split: option.split intro: released [simplified])
  show "becomes D q k r (snd (park_for_person now k' reason token q))"
    by (auto simp: park_for_person_def split: option.split intro: closed)
  show "becomes D q k r (snd (cancel_task now k' q))"
    by (auto simp: cancel_task_def split: option.split intro: closed)
  show "becomes D q k r (snd (set_words k' patch q))"
    by (auto simp: set_words_def split: option.split sum.split intro: reworded)
  show "becomes D q k r (snd (set_priority k' v q))"
    by (auto simp: set_priority_def split: option.split sum.split intro: reordered)
qed

lemma other_doors:
  "k' = k \<longrightarrow> Door_complete \<in> D \<Longrightarrow> becomes D q k r (snd (complete now k' result q))"
  "k' = k \<longrightarrow> Door_fail \<in> D \<Longrightarrow> becomes D q k r (snd (fail_task now k' reason token q))"
  "k' = k \<longrightarrow> Door_reissue \<in> D \<Longrightarrow> becomes D q k r (snd (reissue k' q))"
proof -
  show "k' = k \<longrightarrow> Door_complete \<in> D \<Longrightarrow> becomes D q k r (snd (complete now k' result q))"
    by (auto simp: complete_def split: option.split intro: completed)
  show "k' = k \<longrightarrow> Door_fail \<in> D \<Longrightarrow> becomes D q k r (snd (fail_task now k' reason token q))"
    by (auto simp: fail_task_def split: option.split intro: broken)
  show "k' = k \<longrightarrow> Door_reissue \<in> D \<Longrightarrow> becomes D q k r (snd (reissue k' q))"
    using repeated [of r D]
    by (auto simp: reissue_def stopped_by_a_person_def requeued_row_def split: option.split option.splits)
qed

lemma resolve_becomes:
  assumes "queue_ok q"
  shows "becomes D q k r (snd (resolve_batch now b skip cancel q))"
proof (cases "find (\<lambda>(_, r). is_request b r) q")
  case (Some kr)
  obtain k' r' where kr: "kr = (k', r')" by (cases kr)
  have mem: "(k', r') \<in> set q" "is_request b r'" using Some nth_mem by (fastforce simp: find_Some_iff kr)+
  then have get: "map_of q k' = Some r'" using assms by (simp add: queue_ok_def wf_map_def akeys_def)
  let ?q1 = "aset k' (r'\<lparr>q_task := aset ''data'' (JObj (decided_data skip cancel r')) (q_task r')\<rparr>) q"
  have first: "becomes D q k r ?q1" using get mem(2) by (auto intro: decided)
  have "becomes D ?q1 k r1 (map_rows (cancel_piece now b) ?q1)" for r1
    by (auto simp: map_of_map_rows cancel_piece_def simp del: map_of_aset intro: closed)
  then have "becomes D q k r (map_rows (cancel_piece now b) ?q1)" by (rule becomes_then [OF first])
  then show ?thesis
    using first unfolding resolve_batch_def Some kr Let_def option.case prod.case
    by (simp only: snd_conv split: if_split) blast
qed (simp add: resolve_batch_def)

lemma row_of_more:
  "jget (row_of r) ''attempt'' = JNum (q_attempt r)"
  "jget (row_of r) ''failure_reason'' = (case q_reason r of None \<Rightarrow> JNull | Some s \<Rightarrow> JStr s)"
  by (simp_all add: row_of_def Let_def stated_get) (simp_all add: own_get_def proto_names_def)

lemma awaits_failed: "awaits_auto_retry (row_of r) \<Longrightarrow> q_status r = Failed \<and> q_reason r \<noteq> Some ''manual''"
  by (cases "q_status r")
    (auto simp: awaits_auto_retry_def row_of_get row_of_more failure_repeats_itself_def stopped_by_a_person_def split: if_splits)

lemma reissue_row:
  assumes "map_of q k = Some r" "q_status r = Failed" "q_reason r \<noteq> Some ''manual''"
  shows "reissue k q = (True, aset k (requeued_row r) q)"
  using assms by (auto simp: reissue_def requeued_row_def stopped_by_a_person_def split: option.split)

lemma repeat_row_cases:
  assumes "map_of (snd s) k = Some r" "jget (row_of r) ''id'' = JStr k"
  shows "repeat_row parse let_go now (row_of r) s = s \<or>
    awaits_auto_retry (row_of r) \<and> snd (repeat_row parse let_go now (row_of r) s) = aset k (requeued_row r) (snd s)"
proof (cases "fst s \<ge> repeats_per_tick \<or> \<not> repeat_due parse let_go now (row_of r)")
  case False
  then have due: "awaits_auto_retry (row_of r)" by (simp add: repeat_due_def)
  have "reissue k (snd s) = (True, aset k (requeued_row r) (snd s))"
    using awaits_failed [OF due] assms(1) by (intro reissue_row) simp_all
  then show ?thesis using False due assms(2) by (simp add: repeat_row_def)
qed (simp add: repeat_row_def)

lemma repeat_fold_becomes:
  assumes "distinct (akeys kvs)"
    and "\<forall>(k', r') \<in> set kvs. map_of (snd s) k' = Some r' \<and> jget (row_of r') ''id'' = JStr k'"
  shows "becomes D (snd s) k r (snd (fold (repeat_row parse let_go now) (map (\<lambda>(_, r). row_of r) kvs) s))"
  using assms
proof (induction kvs arbitrary: s r)
  case (Cons kv kvs)
  obtain k' r' where kv: "kv = (k', r')" by (cases kv)
  let ?s = "repeat_row parse let_go now (row_of r') s"
  have head: "map_of (snd s) k' = Some r'" "jget (row_of r') ''id'' = JStr k'" using Cons.prems(2) by (auto simp: kv)
  have step: "snd ?s = snd s \<or> awaits_auto_retry (row_of r') \<and> snd ?s = aset k' (requeued_row r') (snd s)"
    using repeat_row_cases [OF head] by metis
  then have first: "becomes D (snd s) k r (snd ?s)"
    using head awaits_failed repeated by (cases "k = k'") fastforce+
  have "\<forall>(k2, r2) \<in> set kvs. map_of (snd ?s) k2 = Some r2 \<and> jget (row_of r2) ''id'' = JStr k2"
    using Cons.prems step by (fastforce simp: kv akeys_def image_iff)
  then have "becomes D (snd ?s) k r1 (snd (fold (repeat_row parse let_go now) (map (\<lambda>(_, r). row_of r) kvs) ?s))" for r1
    using Cons.IH [of ?s r1] Cons.prems(1) by (simp add: kv akeys_def)
  then show ?case using becomes_then [OF first] by (simp add: kv)
qed simp

lemma repeat_becomes:
  assumes "queue_ok q"
  shows "becomes D q k r (snd (repeat_broken collate parse cfg now q))"
proof -
  let ?q = "sweep_queue cfg now q" and ?rows = "map (\<lambda>(_, r). row_of r) (sweep_queue cfg now q)"
  have ok: "queue_ok ?q" using assms by (rule queue_ok_sweep)
  have "list_all is_object ?rows" by (auto simp: list_all_iff row_of_object)
  then have rows: "latest_row_per_id parse ?rows = ?rows" using queue_rows_distinct [OF ok] by (intro latest_distinct)
  have "distinct (akeys ?q)" "\<forall>(k', r') \<in> set ?q. map_of ?q k' = Some r' \<and> jget (row_of r') ''id'' = JStr k'"
    using ok queue_row_id [OF ok] by (auto simp: queue_ok_def wf_map_def akeys_def)
  then have "becomes D ?q k r1 (snd (repeat_broken collate parse cfg now q))" for r1
    using repeat_fold_becomes [of ?q "(0, ?q)"] by (simp add: repeat_broken_def Let_def rows)
  then show ?thesis by (rule becomes_then [OF sweep_becomes])
qed

lemma enqueue_elsewhere:
  assumes "jget task ''id'' \<noteq> JStr k"
  shows "map_of (snd (enqueue cfg now task q)) k = map_of q k"
proof (cases "validate_task task")
  case (Inr m)
  then have "task_refusal_of task = None" "m = normal_task task"
    by (auto simp: validate_task_def split: option.splits)
  then obtain s where "jget task ''id'' = JStr s" "map_of m ''id'' = Some (JStr s)"
    using identity_id refusal_None normal_task_facts(2) by blast
  then show ?thesis
    using assms by (auto simp: enqueue_def Inr Let_def own_get_aset own_get_own split: option.split)
qed (simp add: enqueue_def)

lemma call_becomes:
  assumes "queue_ok q" "call_allowed D k call"
  shows "becomes D q k r (queue_call_step collate parse cfg call q)"
  using assms
proof (cases call)
  case (Call_enqueue now task)
  then show ?thesis using assms(2) enqueue_elsewhere by auto
qed (simp only: queue_call_step.simps call_allowed.simps list_tasks_def queue_stats_def Let_def snd_conv,
    rule claim_becomes doors_become other_doors resolve_becomes repeat_becomes sweep_becomes; assumption?)+

lemma run_becomes:
  assumes "queue_ok q" "\<forall>call \<in> set calls. call_allowed D k call"
  shows "becomes D q k r (fold (queue_call_step collate parse cfg) calls q)"
  using assms
proof (induction calls arbitrary: q r)
  case (Cons call calls)
  let ?q = "queue_call_step collate parse cfg call q"
  have "becomes D ?q k r1 (fold (queue_call_step collate parse cfg) calls ?q)" for r1
    using Cons.IH [OF queue_ok_step [OF Cons.prems(1)]] Cons.prems(2) by simp
  then have "becomes D q k r (fold (queue_call_step collate parse cfg) calls ?q)"
    using Cons.prems(2) by (intro becomes_then [OF call_becomes [OF Cons.prems(1)]]) auto
  then show ?case by simp
qed simp

section \<open>Attempts\<close>

lemma retry_limit_keys:
  assumes "own_get m' ''retryLimit'' = own_get m ''retryLimit''" "own_get m' ''batchId'' = own_get m ''batchId''"
    and "is_batch_parent (JObj m') = is_batch_parent (JObj m)"
  shows "retry_limit_of (JObj m') = retry_limit_of (JObj m)"
  using assms by (simp add: retry_limit_of_def is_object_def)

lemma parent_keys: "own_get m' ''data'' = own_get m ''data'' \<Longrightarrow> is_batch_parent (JObj m') = is_batch_parent (JObj m)"
  by (simp add: is_batch_parent_def envelope_row)

lemma limit_aset: "k \<notin> {''retryLimit'', ''batchId'', ''data''} \<Longrightarrow> retry_limit_of (JObj (aset k v m)) = retry_limit_of (JObj m)"
  by (intro retry_limit_keys parent_keys) (auto simp: own_get_aset)

lemma limit_words:
  assumes "validate_words patch = Inr ws"
  shows "retry_limit_of (JObj (spread m ws)) = retry_limit_of (JObj m)"
proof -
  have ws: "ws = map (\<lambda>k. (k, jget patch k)) (filter (given patch) word_keys)"
    using assms by (auto simp: validate_words_def split: if_splits sum.splits)
  have "set (akeys ws) \<subseteq> set word_keys" by (auto simp: ws akeys_def)
  moreover have "set word_keys \<inter> {''retryLimit'', ''batchId'', ''data''} = {}" by code_simp
  ultimately have "own_get (spread m ws) k = own_get m k" if "k \<in> {''retryLimit'', ''batchId'', ''data''}" for k
    using that by (intro own_get_spread_absent) blast
  then show ?thesis by (intro retry_limit_keys parent_keys) simp_all
qed

lemma limit_decided:
  assumes "is_request b r"
  shows "retry_limit_of (JObj (aset ''data'' (JObj (decided_data skip cancel r)) (q_task r))) = retry_limit_of (JObj (q_task r))"
proof (rule retry_limit_keys)
  let ?m = "aset ''data'' (JObj (decided_data skip cancel r)) (q_task r)"
  have parent: "is_object (own_get (q_task r) ''data'')" "jget (own_get (q_task r) ''data'') ''batch'' = JStr ''parent''"
    using assms by (simp_all add: is_request_def is_batch_parent_def envelope_row)
  then have "own_get (decided_data skip cancel r) ''batch'' = JStr ''parent''"
    by (cases "own_get (q_task r) ''data''") (auto simp: decided_data_def Let_def own_get_aset is_object_def)
  then have "is_batch_parent (JObj ?m)" by (simp add: is_batch_parent_def envelope_row own_get_aset is_object_def)
  then show "is_batch_parent (JObj ?m) = is_batch_parent (JObj (q_task r))" using assms by (simp add: is_request_def)
qed (simp_all add: own_get_aset)

lemma row_change_limit: "row_change D r r' \<Longrightarrow> retry_limit_of (JObj (q_task r')) = retry_limit_of (JObj (q_task r))"
proof (induction rule: row_change.induct)
  case (swept r cfg now)
  then show ?case by (simp add: sweep_queue_row_def with_attempt_def limit_aset)
next
  case (decided b r skip cancel)
  then show ?case by (simp add: limit_decided)
next
  case (reworded r patch ws)
  then show ?case by (simp add: limit_words)
qed (simp_all add: claimed_row_def ended_row_def requeued_row_def with_attempt_def limit_aset)

lemma retry_limit_fin: "\<exists>n. retry_limit_of t = Fin n"
  by (auto simp: retry_limit_of_def whole_number_def default_retry_limit_def batch_item_retry_limit_def
      split: jsval.split jsnum.split)

text \<open>One change leaves the attempt number alone or adds one to a number below three or not above the limit.\<close>

lemma spent_attempts:
  assumes "awaits_auto_retry (row_of r)" "q_attempt r = Fin n" "1 \<le> n"
  shows "n < 3"
proof -
  have "auto_retries_spent (row_of r) < 2"
    using assms(1) unfolding awaits_auto_retry_def auto_retry_limit_for_def auto_retry_limit_def instrument_retry_limit_def
    by (simp split: if_splits)
  then have "\<lfloor>n\<rfloor> < 3" using assms(2,3) by (simp add: auto_retries_spent_def row_of_object row_of_more)
  then show ?thesis by linarith
qed

lemma row_change_attempt:
  assumes "row_change D r r'" "Door_reissue \<notin> D" "num_le (Fin 1) (q_attempt r)" "retry_limit_of (JObj (q_task r)) = Fin lim_r"
  shows "q_attempt r' = q_attempt r \<or> (\<exists>n. q_attempt r = Fin n \<and> q_attempt r' = Fin (n + 1) \<and> (n < 3 \<or> n \<le> lim_r))"
  using assms
proof (induction rule: row_change.induct)
  case (swept r cfg now)
  then show ?case
    by (cases "q_attempt r") (auto simp: sweep_queue_row_def with_attempt_def num_le_def split: if_splits)
next
  case (repeated r)
  then have due: "awaits_auto_retry (row_of r)" by simp
  show ?case
  proof (cases "q_attempt r")
    case (Fin n)
    then have "1 \<le> n" using repeated by (auto simp: num_le_def)
    then show ?thesis using spent_attempts [OF due Fin] Fin by (simp add: requeued_row_def with_attempt_def)
  qed (use repeated in \<open>simp_all add: requeued_row_def with_attempt_def num_le_def\<close>)
qed (simp_all add: claimed_row_def ended_row_def)

text \<open>Where a number may stand after a run: untouched, or raised no further than the automatic repeats allow.\<close>

definition attempt_within :: "queue_row \<Rightarrow> queue_row \<Rightarrow> bool" where
  "attempt_within r r' \<longleftrightarrow> q_attempt r' = q_attempt r \<or> num_lt (q_attempt r') (Fin 4) \<or>
     num_le (q_attempt r') (num_add (retry_limit_of (JObj (q_task r))) (Fin 1))"

lemma num_le_chain: "num_le a b \<Longrightarrow> num_le b c \<Longrightarrow> num_le a c"
  by (auto simp: num_le_def intro: num_lt_trans)

lemma attempts_within:
  assumes "(row_change D)\<^sup>*\<^sup>* r r'" "Door_reissue \<notin> D" "num_le (Fin 1) (q_attempt r)"
  shows "num_le (q_attempt r) (q_attempt r') \<and> attempt_within r r' \<and>
    retry_limit_of (JObj (q_task r')) = retry_limit_of (JObj (q_task r))"
  using assms
proof (induction rule: rtranclp_induct)
  case base
  then show ?case by (cases "q_attempt r") (simp_all add: attempt_within_def num_le_def)
next
  case (step r1 r2)
  obtain L where L: "retry_limit_of (JObj (q_task r)) = Fin L" using retry_limit_fin by blast
  have ge: "num_le (q_attempt r) (q_attempt r1)" using step.IH step.prems by blast
  then have ge1: "num_le (Fin 1) (q_attempt r1)" using step.prems(2) by (rule num_le_chain [rotated])
  have L1: "retry_limit_of (JObj (q_task r1)) = Fin L" "retry_limit_of (JObj (q_task r2)) = Fin L"
    using step row_change_limit [OF step.hyps(2)] L by simp_all
  from row_change_attempt [OF step.hyps(2) step.prems(1) ge1 L1(1)] show ?case
  proof (elim disjE exE conjE)
    assume "q_attempt r2 = q_attempt r1"
    then show ?thesis using step.IH step.prems L L1 by (simp add: attempt_within_def)
  next
    fix n assume n: "q_attempt r1 = Fin n" "q_attempt r2 = Fin (n + 1)" "n < 3"
    then have "num_le (q_attempt r) (q_attempt r2)" using ge by (cases "q_attempt r") (auto simp: num_le_def)
    then show ?thesis using n L L1 by (simp add: attempt_within_def)
  next
    fix n assume n: "q_attempt r1 = Fin n" "q_attempt r2 = Fin (n + 1)" "n \<le> L"
    then have "num_le (q_attempt r) (q_attempt r2)" using ge by (cases "q_attempt r") (auto simp: num_le_def)
    moreover have "num_le (Fin (n + 1)) (num_add (Fin L) (Fin 1))" using n(3) by (auto simp: num_le_def)
    ultimately show ?thesis using n(2) L L1 by (simp add: attempt_within_def)
  qed
qed

section \<open>Stops\<close>

lemma stop_kept:
  assumes "row_change D r r'" "D \<subseteq> {Door_reissue}" "q_status r = Failed" "q_reason r = Some ''manual''"
  shows "q_status r' = Failed \<and> q_reason r' = Some ''manual''"
  using assms by (induction rule: row_change.induct) (auto simp: sweep_queue_row_def silent_def open_status_def)

lemma stops_kept:
  assumes "(row_change D)\<^sup>*\<^sup>* r r'" "D \<subseteq> {Door_reissue}" "q_status r = Failed" "q_reason r = Some ''manual''"
  shows "q_status r' = Failed \<and> q_reason r' = Some ''manual''"
  using assms by (induction rule: rtranclp_induct) (simp, blast dest: stop_kept)

section \<open>Properties\<close>

lemma get_attempt: "queue_ok q \<Longrightarrow> map_of q k = Some r \<Longrightarrow> num_le (Fin 1) (q_attempt r)"
  using queue_ok_get by (simp add: row_ok_def)

text \<open>C4: attempts end. As long as a task is not put in anew and not re-issued by hand, whatever else
  is called in any order - claims, releases, endings, failures, sweeps of silent claims, automatic
  repeats - its attempt number never falls, and afterwards it is still the number the task stood at, or it is below
  four, or it is at most one above the repeats its task is granted: a task that was put in with a number beyond
  these keeps it. The grant itself does not change.\<close>

theorem attempts_end:
  assumes "queue_ok q" "map_of q k = Some r" "\<forall>call \<in> set calls. call_allowed {Door_complete, Door_fail} k call"
  shows "\<exists>r'. map_of (fold (queue_call_step collate parse cfg) calls q) k = Some r' \<and>
    num_le (q_attempt r) (q_attempt r') \<and>
    (q_attempt r' = q_attempt r \<or> num_lt (q_attempt r') (Fin 4) \<or>
       num_le (q_attempt r') (num_add (retry_limit_of (JObj (q_task r))) (Fin 1))) \<and>
    retry_limit_of (JObj (q_task r')) = retry_limit_of (JObj (q_task r))"
proof -
  obtain r' where "map_of (fold (queue_call_step collate parse cfg) calls q) k = Some r'"
    "(row_change {Door_complete, Door_fail})\<^sup>*\<^sup>* r r'"
    using run_becomes [OF assms(1,3)] assms(2) by blast
  then show ?thesis using attempts_within [OF _ _ get_attempt [OF assms(1,2)]] unfolding attempt_within_def by blast
qed

text \<open>C5: a stop holds. After a task was cancelled, no sequence of calls brings it back or changes its
  reason, a re-issue by hand included, unless it is put in anew or a late word completes or fails it.\<close>

theorem stopped_stays_stopped:
  assumes "queue_ok q" "cancel_task now k q = (True, q1)" "\<forall>call \<in> set calls. call_allowed {Door_reissue} k call"
  shows "\<exists>r. map_of (fold (queue_call_step collate parse cfg) calls q1) k = Some r \<and>
    q_status r = Failed \<and> q_reason r = Some ''manual''"
proof -
  obtain r where r: "map_of q1 k = Some r" "q_status r = Failed" "q_reason r = Some ''manual''"
    using assms(2) by (auto simp: cancel_task_def ended_row_def split: option.splits if_splits)
  have "queue_ok q1" using queue_ok_endings(4) [OF assms(1), of now k] assms(2) by simp
  then obtain r' where "map_of (fold (queue_call_step collate parse cfg) calls q1) k = Some r'"
    "(row_change {Door_reissue})\<^sup>*\<^sup>* r r'"
    using run_becomes [OF _ assms(3)] r(1) by blast
  then show ?thesis using stops_kept [OF _ _ r(2,3)] by blast
qed

text \<open>C34: the word of an earlier attempt changes nothing. Once a claim has handed a task out under a
  token, every operation that presents another token - renewal, return, completion, failure, the
  parking for a person - is refused and leaves the queue as it is.\<close>

theorem stale_token_changes_nothing:
  assumes "queue_ok q0" "claim_next collate parse cfg now mint worker lanes holds q0 = (answer, q1)"
    and "jget answer ''id'' = JStr k" "mint \<noteq> []" "old \<noteq> []" "old \<noteq> mint"
  shows "touch t k (JStr old) q1 = (False, q1) \<and>
    release_claim t k (JStr old) defer q1 = (False, q1) \<and>
    (known_reason reason \<longrightarrow> fail_task t k reason (JStr old) q1 = (Inl Stale_attempt, q1) \<and>
       park_for_person t k reason (JStr old) q1 = (Inl Stale_attempt, q1)) \<and>
    (truthy result \<and> truthy (jget result ''receiptRef'') \<and> jget result ''attemptToken'' = JStr old \<longrightarrow>
       complete t k result q1 = (Inl Stale_attempt, q1))"
proof -
  obtain r where q1: "q1 = aset k (claimed_row now mint worker r) (sweep_queue cfg now q0)"
    using claim_row [OF assms(1-3)] by blast
  have held: "map_of q1 k = Some (claimed_row now mint worker r)" by (simp add: q1)
  have stale: "attempt_token_is_stale (q_token (claimed_row now mint worker r)) (JStr old)"
    using assms(4-6) by (simp add: attempt_token_is_stale_def claimed_row_def)
  show ?thesis
    using held stale by (simp add: touch_def release_claim_def fail_task_def park_for_person_def complete_def)
qed

definition free_task :: jsval where
  "free_task = JObj [(''id'', JStr ''w1''), (''source'', JStr ''roster''), (''title'', JStr ''work''), (''lane'', JStr ''prod'')]"

definition stop_calls :: "queue_call list" where
  "stop_calls = [Call_enqueue 1 free_task, Call_claim 2 ''t1'' (JStr ''w'') JUndef JUndef, Call_cancel 3 ''w1'']"

definition late_word :: "queue_call list" where
  "late_word = [Call_fail 4 ''w1'' (JStr ''agent_error'') (JStr ''t1''), Call_repeat 200000]"

definition standing :: "queue \<Rightarrow> string \<Rightarrow> (task_status \<times> string option) option" where
  "standing q k = map_option (\<lambda>r. (q_status r, q_reason r)) (map_of q k)"

text \<open>A late word undoes a stop. When the task was cancelled while a worker had it and that worker
  then reports its failure with its own token, the reason of the stop is overwritten and the
  automatic repeat puts the task back into the queue.\<close>

theorem stopped_work_comes_back:
  "standing (sample_run stop_calls) ''w1'' = Some (Failed, Some ''manual'') \<and>
   standing (sample_run (stop_calls @ late_word)) ''w1'' = Some (Queued, None)"
  by (rule conjI; code_simp)

lemma early_run:
  "case map_of (sample_run [Call_enqueue 1 free_task]) ''w1'' of
     None \<Rightarrow> False | Some r \<Rightarrow> q_attempt r = Fin 1 \<and> retry_limit_of (JObj (q_task r)) = Fin 2"
  "fst (cancel_task 3 ''w1'' (sample_run [Call_enqueue 1 free_task]))"
  "jget (fst (claim_next (\<lambda>_ _. 0) (\<lambda>_. NaN) sample_config 2 ''t1'' (JStr ''w'') JUndef JUndef
     (sample_run [Call_enqueue 1 free_task]))) ''id'' = JStr ''w1''"
  by (code_simp, code_simp, code_simp)

abbreviation one_queued :: queue where
  "one_queued \<equiv> sample_run [Call_enqueue 1 free_task]"

theorem attempts_end_witness:
  "\<exists>r. map_of (fold (queue_call_step (\<lambda>_ _. 0) (\<lambda>_. NaN) sample_config) (concat (replicate 50 late_word)) one_queued)
     ''w1'' = Some r \<and> num_le (q_attempt r) (Fin 4)"
proof -
  obtain r where r: "map_of one_queued ''w1'' = Some r" "q_attempt r = Fin 1" "retry_limit_of (JObj (q_task r)) = Fin 2"
    using early_run(1) by (auto split: option.splits)
  have "\<forall>call \<in> set (concat (replicate 50 late_word)). call_allowed {Door_complete, Door_fail} ''w1'' call"
    by (auto simp: late_word_def)
  from attempts_end [OF sample_ok r(1) this, of "\<lambda>_ _. 0" "\<lambda>_. NaN" sample_config]
  obtain r' where r': "map_of (fold (queue_call_step (\<lambda>_ _. 0) (\<lambda>_. NaN) sample_config) (concat (replicate 50 late_word)) one_queued)
     ''w1'' = Some r'" "q_attempt r' = q_attempt r \<or> num_lt (q_attempt r') (Fin 4) \<or>
       num_le (q_attempt r') (num_add (retry_limit_of (JObj (q_task r))) (Fin 1))" by blast
  have "num_le (q_attempt r') (Fin 4)"
    using r'(2) r(2,3) by (cases "q_attempt r'") auto
  then show ?thesis using r'(1) by blast
qed

theorem stopped_stays_stopped_witness:
  "\<exists>r. map_of (fold (queue_call_step (\<lambda>_ _. 0) (\<lambda>_. NaN) sample_config) [Call_reissue ''w1'', Call_repeat 900000]
     (snd (cancel_task 3 ''w1'' one_queued))) ''w1'' = Some r \<and> q_status r = Failed \<and> q_reason r = Some ''manual''"
proof (rule stopped_stays_stopped [OF sample_ok])
  show "cancel_task 3 ''w1'' one_queued = (True, snd (cancel_task 3 ''w1'' one_queued))"
    using early_run(2) by (metis prod.collapse)
qed simp

theorem stale_token_changes_nothing_witness:
  "let q = snd (claim_next (\<lambda>_ _. 0) (\<lambda>_. NaN) sample_config 2 ''t1'' (JStr ''w'') JUndef JUndef one_queued)
   in touch 9 ''w1'' (JStr ''t0'') q = (False, q) \<and>
      fail_task 9 ''w1'' (JStr ''agent_error'') (JStr ''t0'') q = (Inl Stale_attempt, q)"
proof -
  obtain answer q1 where run: "claim_next (\<lambda>_ _. 0) (\<lambda>_. NaN) sample_config 2 ''t1'' (JStr ''w'') JUndef JUndef one_queued = (answer, q1)"
    by (metis surj_pair)
  have got: "jget answer ''id'' = JStr ''w1''" using early_run(3) run by simp
  have known: "known_reason (JStr ''agent_error'')" by code_simp
  have "''t1'' \<noteq> []" "''t0'' \<noteq> []" "''t0'' \<noteq> ''t1''" by simp_all
  from stale_token_changes_nothing [OF sample_ok run got this, of 9 JUndef "JStr ''agent_error''" JUndef] known
  show ?thesis unfolding run Let_def snd_conv by blast
qed

end
