(* ===== verification/Journal.thy ===== *)
theory Journal
  imports Json_Text Contracts "HOL-Library.List_Lexorder" "HOL-Library.Char_ord"
begin

text \<open>
  The hash-chained journal of a terminal (\<open>src/scripts/sma/lib/journal.mjs\<close>): appending, the tamper
  detector \<open>verifyChain\<close>, the ritual \<open>chainStart\<close>, the merged tip and the readers.

  The directory is the list of its files with their whole texts, \<open>None\<close> when it does not exist.
  SHA-256 is the argument \<open>sha\<close>, the time stamp of a record the argument \<open>ts\<close>. Every append is one
  step: the file lock holds; the path that goes on without it after two seconds is not modelled.
\<close>

section \<open>Files and lines\<close>

type_synonym journal_dir = "(string \<times> string) list option"

abbreviation newline :: char where "newline \<equiv> CHR 0x0A"

definition file_text :: "journal_dir \<Rightarrow> string \<Rightarrow> string option" where
  "file_text d f = (case d of None \<Rightarrow> None | Some files \<Rightarrow> map_of files f)"

definition raw_lines :: "string option \<Rightarrow> string list" where
  "raw_lines raw = (case raw of None \<Rightarrow> [] | Some s \<Rightarrow> filter (\<lambda>l. js_trim l \<noteq> []) (js_split newline s))"

definition parse_file :: "string option \<Rightarrow> jsval list \<times> nat" where
  "parse_file raw =
     (let parsed = map json_parse (map js_trim (raw_lines raw))
      in (List.map_filter (\<lambda>x. x) parsed, length (filter (\<lambda>x. x = None) parsed)))"

definition terminal_file :: "string \<Rightarrow> string" where
  "terminal_file terminal = terminal @ ''.jsonl''"

definition is_journal_file :: "string \<Rightarrow> bool" where
  "is_journal_file f \<longleftrightarrow> str_prefix (rev ''.jsonl'') (rev f)"

definition journal_files :: "journal_dir \<Rightarrow> string list" where
  "journal_files d = (case d of None \<Rightarrow> [] | Some files \<Rightarrow> filter is_journal_file (akeys files))"

section \<open>Appending\<close>

text \<open>\<open>v + 1\<close>: text and objects are joined as text, everything else is added as a number.\<close>

definition plus_one :: "jsval \<Rightarrow> jsval" where
  "plus_one v = (if is_str v \<or> is_object v then JStr (to_str v @ ''1'') else JNum (num_add (to_num v) (Fin 1)))"

text \<open>A \<open>null\<close> last event throws: \<open>None\<close>.\<close>

definition last_seq :: "jsval list \<Rightarrow> jsval option" where
  "last_seq events =
     (if events = [] then Some (JInt 0)
      else if last events = JNull then None
      else Some (coalesce (jget (last events) ''seq'') (JInt (int (length events)))))"

definition chain_link :: "(string \<Rightarrow> string) \<Rightarrow> string list \<Rightarrow> string" where
  "chain_link sha nb = (if nb = [] then ''genesis'' else sha (last nb))"

definition event_record :: "jsval \<Rightarrow> string \<Rightarrow> jsval \<Rightarrow> jsval \<Rightarrow> string \<Rightarrow> jsval" where
  "event_record ts terminal seq evt prev =
     JObj [(''ts'', ts), (''terminal'', JStr terminal), (''seq'', seq),
       (''type'', coalesce (jget evt ''type'') (JStr ''warn'')), (''actors'', coalesce (jget evt ''actors'') (JArr [])),
       (''scope'', coalesce (jget evt ''scope'') JNull), (''detail'', coalesce (jget evt ''detail'') JNull),
       (''prev'', JStr prev)]"

definition append_event ::
    "(string \<Rightarrow> string) \<Rightarrow> jsval \<Rightarrow> string \<Rightarrow> jsval \<Rightarrow> journal_dir \<Rightarrow> jsval option \<times> journal_dir" where
  "append_event sha ts terminal evt d =
     (let files = (case d of None \<Rightarrow> [] | Some files \<Rightarrow> files);
          f = terminal_file terminal; raw = map_of files f
      in case last_seq (fst (parse_file raw)) of
           None \<Rightarrow> (None, Some files)
         | Some n \<Rightarrow>
             let record = event_record ts terminal (plus_one n) evt (chain_link sha (raw_lines raw));
                 before = (case raw of None \<Rightarrow> [] | Some s \<Rightarrow> s)
             in (Some record, Some (aset f (before @ json_text record @ [newline]) files)))"

section \<open>The tamper detector\<close>

record chain_ack =
  ack_index :: jsval
  ack_hash :: string
  ack_at :: nat

datatype break_reason = Prev_mismatch | Legacy_after_chain | Corrupt

record chain_break =
  br_file :: string
  br_seq :: jsval
  br_index :: nat
  br_reason :: break_reason

definition is_integer_below :: "jsval \<Rightarrow> nat \<Rightarrow> bool" where
  "is_integer_below v i = (case v of JNum (Fin q) \<Rightarrow> of_int \<lfloor>q\<rfloor> = q \<and> q < of_nat i | _ \<Rightarrow> False)"

definition line_acks :: "nat \<Rightarrow> string \<Rightarrow> chain_ack list" where
  "line_acks i line =
     (case json_parse line of
        None \<Rightarrow> []
      | Some obj \<Rightarrow>
          let named = jget (jget obj ''detail'') ''acknowledges'' in
          if jget obj ''type'' \<noteq> JStr ''chain-start'' \<or> \<not> is_arr named then []
          else map (\<lambda>a. \<lparr>ack_index = jget a ''index'', ack_hash = str_of (jget a ''hash''), ack_at = i\<rparr>)
                 (filter (\<lambda>a. is_integer_below (jget a ''index'') i \<and> is_str (jget a ''hash'')) (elems named)))"

fun acks_from :: "nat \<Rightarrow> string list \<Rightarrow> chain_ack list" where
  "acks_from i [] = []"
| "acks_from i (line # lines) = line_acks i line @ acks_from (i + 1) lines"

definition has_prev :: "jsval \<Rightarrow> bool" where
  "has_prev obj \<longleftrightarrow> \<not> is_nullish obj \<and> \<not> is_nullish (jget obj ''prev'') \<and> jget obj ''prev'' \<noteq> JStr []"

text \<open>The walk over the lines: the breaks in order, and the number of legacy lines before the chain.
  \<open>link\<close> is what the next chained line has to carry.\<close>

fun walk_chain ::
    "(string \<Rightarrow> string) \<Rightarrow> string \<Rightarrow> nat \<Rightarrow> string \<Rightarrow> bool \<Rightarrow> string list \<Rightarrow> chain_break list \<times> nat" where
  "walk_chain sha f i link chaining [] = ([], 0)"
| "walk_chain sha f i link chaining (line # lines) =
     (case json_parse line of
        None \<Rightarrow>
          let (bs, n) = walk_chain sha f (i + 1) (sha line) chaining lines
          in ((if chaining then [\<lparr>br_file = f, br_seq = JNull, br_index = i, br_reason = Corrupt\<rparr>] else []) @ bs, n)
      | Some obj \<Rightarrow>
          let seq = coalesce (jget obj ''seq'') JNull in
          if \<not> has_prev obj
          then (let (bs, n) = walk_chain sha f (i + 1) (sha line) chaining lines in
                if chaining then (\<lparr>br_file = f, br_seq = seq, br_index = i, br_reason = Legacy_after_chain\<rparr> # bs, n)
                else (bs, n + 1))
          else (let (bs, n) = walk_chain sha f (i + 1) (sha line) True lines in
                ((if jget obj ''prev'' \<noteq> JStr link
                  then [\<lparr>br_file = f, br_seq = seq, br_index = i, br_reason = Prev_mismatch\<rparr>] else []) @ bs, n)))"

definition ack_of :: "(string \<Rightarrow> string) \<Rightarrow> string list \<Rightarrow> chain_break \<Rightarrow> chain_ack option" where
  "ack_of sha nb b =
     find (\<lambda>a. ack_index a = JInt (int (br_index b)) \<and> ack_hash a = sha (nb ! br_index b)) (acks_from 0 nb)"

record chain_report =
  cr_breaks :: "chain_break list"
  cr_acknowledged :: "(chain_break \<times> nat) list"
  cr_legacy :: nat

definition verify_file :: "(string \<Rightarrow> string) \<Rightarrow> string \<Rightarrow> string list \<Rightarrow> chain_report" where
  "verify_file sha f nb =
     (let (bs, n) = walk_chain sha f 0 ''genesis'' False nb
      in \<lparr>cr_breaks = filter (\<lambda>b. ack_of sha nb b = None) bs,
          cr_acknowledged = List.map_filter (\<lambda>b. map_option (\<lambda>a. (b, ack_at a)) (ack_of sha nb b)) bs,
          cr_legacy = n\<rparr>)"

definition join_reports :: "chain_report list \<Rightarrow> chain_report" where
  "join_reports rs = \<lparr>cr_breaks = concat (map cr_breaks rs), cr_acknowledged = concat (map cr_acknowledged rs),
     cr_legacy = sum_list (map cr_legacy rs)\<rparr>"

definition verify_chain :: "(string \<Rightarrow> string) \<Rightarrow> journal_dir \<Rightarrow> chain_report \<times> string list" where
  "verify_chain sha d =
     (let files = sort (journal_files d)
      in (join_reports (map (\<lambda>f. verify_file sha f (raw_lines (file_text d f))) files), files))"

definition chain_ok :: "(string \<Rightarrow> string) \<Rightarrow> journal_dir \<Rightarrow> bool" where
  "chain_ok sha d \<longleftrightarrow> cr_breaks (fst (verify_chain sha d)) = []"

section \<open>The ritual\<close>

datatype ritual_error = No_terminal | No_reason | No_live_breaks | Ritual_throws

fun reason_text :: "break_reason \<Rightarrow> string" where
  "reason_text Prev_mismatch = ''prev-mismatch''"
| "reason_text Legacy_after_chain = ''legacy-after-chain''"
| "reason_text Corrupt = ''corrupt''"

definition drop_jsonl :: "string \<Rightarrow> string" where
  "drop_jsonl s = (if is_journal_file s then take (length s - 6) s else s)"

definition acknowledgement :: "(string \<Rightarrow> string) \<Rightarrow> string list \<Rightarrow> chain_break \<Rightarrow> jsval" where
  "acknowledgement sha nb b =
     JObj [(''index'', JInt (int (br_index b))), (''seq'', br_seq b), (''reason'', JStr (reason_text (br_reason b))),
       (''hash'', JStr (sha (nb ! br_index b)))]"

definition ritual_event :: "jsval \<Rightarrow> string \<Rightarrow> jsval list \<Rightarrow> jsval" where
  "ritual_event actor reason acks =
     JObj [(''type'', JStr ''chain-start''),
       (''actors'', JArr (if truthy actor then [JStr (to_str actor)] else [])),
       (''detail'', JObj [(''reason'', JStr reason), (''acknowledges'', JArr acks)])]"

definition chain_start ::
    "(string \<Rightarrow> string) \<Rightarrow> jsval \<Rightarrow> jsval \<Rightarrow> jsval \<Rightarrow> jsval \<Rightarrow> journal_dir \<Rightarrow> (ritual_error + jsval) \<times> journal_dir" where
  "chain_start sha ts terminal_id reason_v actor d =
     (let terminal = drop_jsonl (to_str (coalesce terminal_id (JStr [])));
          reason = js_trim (to_str (coalesce reason_v (JStr [])))
      in if terminal = [] then (Inl No_terminal, d)
         else if reason = [] then (Inl No_reason, d)
         else let f = terminal_file terminal;
                  live = filter (\<lambda>b. br_file b = f) (cr_breaks (fst (verify_chain sha d)));
                  nb = raw_lines (file_text d f)
              in if live = [] then (Inl No_live_breaks, d)
                 else case append_event sha ts terminal (ritual_event actor reason (map (acknowledgement sha nb) live)) d of
                        (None, d') \<Rightarrow> (Inl Ritual_throws, d')
                      | (Some rec, d') \<Rightarrow> (Inr rec, d'))"

section \<open>The tip and the readers\<close>

definition file_tip :: "(string \<Rightarrow> string) \<Rightarrow> string list \<Rightarrow> string" where
  "file_tip sha nb = (if nb = [] then ''empty'' else sha (last nb))"

definition chain_tip :: "(string \<Rightarrow> string) \<Rightarrow> journal_dir \<Rightarrow> string \<times> (string \<times> string \<times> nat) list" where
  "chain_tip sha d =
     (let per_file = map (\<lambda>f. let nb = raw_lines (file_text d f) in (f, file_tip sha nb, length nb)) (sort (journal_files d))
      in if per_file = [] then (''empty'', [])
         else (sha (js_join [newline] (sort (map (\<lambda>(f, tip, _). f @ '':'' @ tip) per_file))), per_file))"

text \<open>\<open>a < b\<close>: text by its code units, everything else as numbers.\<close>

definition primitive :: "jsval \<Rightarrow> jsval" where
  "primitive v = (if is_object v then JStr (to_str v) else v)"

definition js_less :: "jsval \<Rightarrow> jsval \<Rightarrow> bool" where
  "js_less a b =
     (let x = primitive a; y = primitive b in
      if is_str x \<and> is_str y then str_of x < str_of y else num_lt (to_num x) (to_num y))"

definition compare_events :: "jsval \<Rightarrow> jsval \<Rightarrow> jsnum" where
  "compare_events a b =
     (let ta = coalesce (jget a ''terminal'') (JStr []); tb = coalesce (jget b ''terminal'') (JStr []) in
      if js_less (jget a ''ts'') (jget b ''ts'') then Fin (- 1)
      else if js_less (jget b ''ts'') (jget a ''ts'') then Fin 1
      else if js_less ta tb then Fin (- 1)
      else if js_less tb ta then Fin 1
      else num_sub (to_num (coalesce (jget a ''seq'') (JInt 0))) (to_num (coalesce (jget b ''seq'') (JInt 0))))"

record journal_reading =
  jr_events :: "jsval list"
  jr_count :: nat
  jr_corrupt :: nat

text \<open>Comparing a \<open>null\<close> event throws: \<open>None\<close>.\<close>

definition read_journal :: "journal_dir \<Rightarrow> journal_reading option" where
  "read_journal d =
     (let parsed = map (\<lambda>f. parse_file (file_text d f)) (journal_files d);
          every = concat (map fst parsed)
      in if length every > 1 \<and> List.member every JNull then None
         else Some \<lparr>jr_events = stable_sort (\<lambda>a b. num_lt (compare_events a b) (Fin 0)) every,
                    jr_count = length every, jr_corrupt = sum_list (map snd parsed)\<rparr>)"

definition journal_tail :: "string \<Rightarrow> int \<Rightarrow> journal_dir \<Rightarrow> jsval list" where
  "journal_tail terminal n d =
     (let events = fst (parse_file (file_text d (terminal_file terminal)))
      in if n > 0 then drop (length events - nat n) events else events)"

section \<open>Lines of text\<close>

definition file_of :: "string list \<Rightarrow> string" where
  "file_of ls = concat (map (\<lambda>l. l @ [newline]) ls)"

lemma split_file_of: "\<forall>l \<in> set ls. newline \<notin> set l \<Longrightarrow> js_split newline (file_of ls) = ls @ [[]]"
  by (induction ls) (simp_all add: file_of_def js_split_append js_split_single)

lemma raw_lines_file_of:
  "\<forall>l \<in> set ls. newline \<notin> set l \<and> js_trim l \<noteq> [] \<Longrightarrow> raw_lines (Some (file_of ls)) = ls"
  by (simp add: raw_lines_def split_file_of filter_id_conv)

lemma file_of_append: "file_of (ls @ [l]) = file_of ls @ l @ [newline]"
  by (simp add: file_of_def)

lemma newline_free_char: "newline \<notin> set (json_char c)"
proof -
  have nl: "code_of newline = 10" by (simp add: code_of_def)
  have "newline \<noteq> hex_char d" if "d < 16" for d
    using code_hex [OF that] by (auto simp: nl split: if_splits dest!: arg_cong [of _ _ code_of])
  then have "n < 32 \<Longrightarrow> newline \<noteq> hex_char (n div 16) \<and> newline \<noteq> hex_char (n mod 16)" for n by simp
  then show ?thesis using nl by (auto simp: json_char_def Let_def)
qed

lemma newline_free_quote: "newline \<notin> set (json_quote s)"
  using newline_free_char by (auto simp: json_quote_def)

lemma set_js_join: "set (js_join sep ws) \<subseteq> set sep \<union> (\<Union>w \<in> set ws. set w)"
  by (induction sep ws rule: js_join.induct) auto

lemma newline_free_num: "newline \<notin> set (dec_rat (of_int i))"
  using dec_nat_digits [of newline] by (auto simp: dec_rat_int is_digit_def code_of_def)

lemma newline_free_join: "newline \<notin> set sep \<Longrightarrow> \<forall>w \<in> set ws. newline \<notin> set w \<Longrightarrow> newline \<notin> set (js_join sep ws)"
  using set_js_join [of sep ws] by auto

lemma newline_free_text: "json_ok v \<Longrightarrow> newline \<notin> set (json_text v)"
proof (induction v rule: json_ok.induct)
  case (3 q)
  then obtain i where "q = of_int i" by (metis json_ok.simps(3))
  then show ?case using newline_free_num by (simp add: json_text_def)
next
  case (5 vs)
  then have "\<forall>w \<in> set (map json_text vs). newline \<notin> set w" by auto
  then have "newline \<notin> set (js_join '','' (map json_text vs))" by (intro newline_free_join) simp_all
  then show ?case using json_text_arr [OF 5(2)] by simp
next
  case (6 m)
  have "\<forall>w \<in> set (map json_member m). newline \<notin> set w"
    using 6 newline_free_quote by (fastforce simp: json_member_def)
  then have "newline \<notin> set (js_join '','' (map json_member m))" by (intro newline_free_join) simp_all
  then show ?case using json_text_obj [OF 6(2)] by simp
qed (simp_all add: json_text_def newline_free_quote)

lemma object_text_trim: "json_ok r \<Longrightarrow> is_plain r \<Longrightarrow> js_trim (json_text r) = json_text r"
proof -
  assume r: "json_ok r" "is_plain r"
  then obtain m where m: "r = JObj m" by (auto simp: is_plain_iff)
  have "\<not> js_ws (CHR ''{'')" "\<not> js_ws (CHR ''}'')" by (code_simp, code_simp)
  then show ?thesis using json_text_obj [of m] r(1) by (intro js_trim_ends) (simp_all add: m)
qed

lemma object_text_line: "json_ok r \<Longrightarrow> is_plain r \<Longrightarrow> newline \<notin> set (json_text r) \<and> js_trim (json_text r) \<noteq> []"
  using newline_free_text object_text_trim json_text_head(1) by simp

section \<open>A written chain\<close>

fun linked :: "(string \<Rightarrow> string) \<Rightarrow> string \<Rightarrow> jsval list \<Rightarrow> bool" where
  "linked sha link [] = True"
| "linked sha link (r # rs) =
     (json_ok r \<and> is_plain r \<and> jget r ''prev'' = JStr link \<and> (\<exists>n. jget r ''seq'' = JInt n) \<and> linked sha (sha (json_text r)) rs)"

lemma linked_objects: "linked sha link rs \<Longrightarrow> r \<in> set rs \<Longrightarrow> json_ok r \<and> is_plain r \<and> (\<exists>n. jget r ''seq'' = JInt n)"
  by (induction sha link rs rule: linked.induct) auto

lemma linked_snoc:
  "linked sha link (rs @ [r]) \<longleftrightarrow> linked sha link rs \<and>
     json_ok r \<and> is_plain r \<and> jget r ''prev'' = JStr (if rs = [] then link else sha (json_text (last rs))) \<and>
     (\<exists>n. jget r ''seq'' = JInt n)"
  by (induction sha link rs rule: linked.induct) auto

lemma linked_lines: "linked sha link rs \<Longrightarrow> raw_lines (Some (file_of (map json_text rs))) = map json_text rs"
  using linked_objects object_text_line by (intro raw_lines_file_of) fastforce

lemma linked_parse: "linked sha link rs \<Longrightarrow> parse_file (Some (file_of (map json_text rs))) = (rs, 0)"
proof -
  assume l: "linked sha link rs"
  have "map json_parse (map js_trim (map json_text rs)) = map Some rs"
    using linked_objects [OF l] by (auto simp: object_text_trim json_round_trip)
  moreover have "List.map_filter (\<lambda>x. x) (map Some rs) = rs"
    by (induction rs) (simp_all add: List.map_filter_simps)
  ultimately show ?thesis unfolding parse_file_def Let_def linked_lines [OF l] by (simp del: map_map)
qed

lemma walk_linked:
  "linked sha link rs \<Longrightarrow> link \<noteq> [] \<Longrightarrow> \<forall>s. sha s \<noteq> [] \<Longrightarrow> walk_chain sha f i link ch (map json_text rs) = ([], 0)"
  by (induction sha link rs arbitrary: i ch rule: linked.induct)
    (auto simp: json_round_trip has_prev_def is_nullish_def is_plain_iff)

lemma verify_linked:
  "linked sha ''genesis'' rs \<Longrightarrow> \<forall>s. sha s \<noteq> [] \<Longrightarrow>
     verify_file sha f (map json_text rs) = \<lparr>cr_breaks = [], cr_acknowledged = [], cr_legacy = 0\<rparr>"
  by (simp add: verify_file_def walk_linked List.map_filter_def)

section \<open>Any sequence of appends\<close>

datatype append_call = Append jsval string jsval

fun append_step :: "(string \<Rightarrow> string) \<Rightarrow> append_call \<Rightarrow> journal_dir \<Rightarrow> journal_dir" where
  "append_step sha (Append ts terminal evt) d = snd (append_event sha ts terminal evt d)"

text \<open>Events whose fields have an exact text.\<close>

fun append_ok :: "append_call \<Rightarrow> bool" where
  "append_ok (Append ts terminal evt) \<longleftrightarrow> json_ok ts \<and> json_ok evt \<and> is_plain evt"

definition dir_linked :: "(string \<Rightarrow> string) \<Rightarrow> journal_dir \<Rightarrow> bool" where
  "dir_linked sha d \<longleftrightarrow> (case d of None \<Rightarrow> True | Some files \<Rightarrow>
     wf_map files \<and> (\<forall>(f, s) \<in> set files. \<exists>rs. s = file_of (map json_text rs) \<and> linked sha ''genesis'' rs))"

lemma field_ok:
  assumes "json_ok evt" "is_plain evt" "k \<notin> set proto_names" "json_ok v"
  shows "json_ok (coalesce (jget evt k) v)"
proof -
  obtain m where m: "evt = JObj m" using assms(2) by (auto simp: is_plain_iff)
  show ?thesis
  proof (cases "map_of m k")
    case None
    then show ?thesis using assms(3,4) by (simp add: m own_get_absent coalesce_def is_nullish_def)
  next
    case (Some w)
    then have "json_ok w" using assms(1) by (auto simp: m dest: map_of_SomeD)
    then show ?thesis using assms(4) Some by (simp add: m own_get_own coalesce_def)
  qed
qed

lemma event_record_ok:
  assumes "json_ok ts" "json_ok seq" "json_ok evt" "is_plain evt"
  shows "json_ok (event_record ts terminal seq evt prev)"
proof -
  have free: "''type'' \<notin> set proto_names" "''actors'' \<notin> set proto_names" "''scope'' \<notin> set proto_names"
    "''detail'' \<notin> set proto_names" by (code_simp, code_simp, code_simp, code_simp)
  show ?thesis using assms(1,2) field_ok [OF assms(3,4)] free
    by (simp add: event_record_def wf_map_def)
qed

lemma event_record_get:
  "jget (event_record ts terminal seq evt prev) ''prev'' = JStr prev"
  "jget (event_record ts terminal seq evt prev) ''seq'' = seq" "is_plain (event_record ts terminal seq evt prev)"
  by (simp_all add: event_record_def own_get_def)

lemma empty_file: "raw_lines None = []" "parse_file None = ([], 0)" "file_of [] = []"
  by (simp_all add: raw_lines_def parse_file_def List.map_filter_def file_of_def)

lemma append_linked:
  assumes "linked sha ''genesis'' rs" "json_ok ts" "json_ok evt" "is_plain evt"
    and "map_of files (terminal_file terminal) = (if rs = [] then None else Some (file_of (map json_text rs))) \<or>
      map_of files (terminal_file terminal) = Some (file_of (map json_text rs))"
    and "d = Some files \<or> d = None \<and> files = []"
  shows "\<exists>r. append_event sha ts terminal evt d = (Some r, Some (aset (terminal_file terminal) (file_of (map json_text (rs @ [r]))) files)) \<and>
    linked sha ''genesis'' (rs @ [r])"
proof -
  let ?raw = "map_of files (terminal_file terminal)"
  have raw: "raw_lines ?raw = map json_text rs" "fst (parse_file ?raw) = rs" "(case ?raw of None \<Rightarrow> [] | Some s \<Rightarrow> s) = file_of (map json_text rs)"
    using assms(5) linked_lines [OF assms(1)] linked_parse [OF assms(1)] empty_file by (auto split: if_splits)
  obtain n where n: "last_seq rs = Some (JInt n)"
  proof (cases "rs = []")
    case False
    then obtain n where "jget (last rs) ''seq'' = JInt n" "last rs \<noteq> JNull"
      using linked_objects [OF assms(1), of "last rs"] by fastforce
    then show ?thesis using that False by (simp add: last_seq_def coalesce_def is_nullish_def)
  qed (use that [of 0] in \<open>simp add: last_seq_def\<close>)
  define r where "r = event_record ts terminal (plus_one (JInt n)) evt (chain_link sha (map json_text rs))"
  have seq: "plus_one (JInt n) = JInt (n + 1)" by (simp add: plus_one_def is_object_def)
  have "json_ok (JInt (n + 1))" by simp
  then have "linked sha ''genesis'' (rs @ [r])"
    using assms(1) event_record_ok [OF assms(2) _ assms(3,4)]
    by (simp add: linked_snoc r_def seq event_record_get chain_link_def last_map del: of_int_add json_ok.simps)
  moreover have "append_event sha ts terminal evt d = (Some r, Some (aset (terminal_file terminal) (file_of (map json_text (rs @ [r]))) files))"
  proof -
    have "(case d of None \<Rightarrow> [] | Some files \<Rightarrow> files) = files" using assms(6) by auto
    then show ?thesis by (simp add: append_event_def Let_def raw n r_def file_of_append)
  qed
  ultimately show ?thesis by blast
qed

lemma append_keeps_linked:
  assumes "append_ok call" "dir_linked sha d"
  shows "dir_linked sha (append_step sha call d)"
proof (cases call)
  case (Append ts terminal evt)
  define files where "files = (case d of None \<Rightarrow> [] | Some files \<Rightarrow> files)"
  have files: "wf_map files" "\<forall>(f, s) \<in> set files. \<exists>rs. s = file_of (map json_text rs) \<and> linked sha ''genesis'' rs"
    "d = Some files \<or> d = None \<and> files = []"
    using assms(2) by (auto simp: dir_linked_def files_def split: option.splits)
  obtain rs where rs: "linked sha ''genesis'' rs"
    "map_of files (terminal_file terminal) = (if rs = [] then None else Some (file_of (map json_text rs))) \<or>
      map_of files (terminal_file terminal) = Some (file_of (map json_text rs))"
  proof (cases "map_of files (terminal_file terminal)")
    case None
    then show ?thesis using that [of "[]"] by simp
  next
    case (Some s)
    then show ?thesis using that files(2) by (fastforce dest: map_of_SomeD)
  qed
  obtain r where r: "append_event sha ts terminal evt d = (Some r, Some (aset (terminal_file terminal) (file_of (map json_text (rs @ [r]))) files))"
    "linked sha ''genesis'' (rs @ [r])"
    using append_linked [OF rs(1) _ _ _ rs(2) files(3), of ts evt] assms(1) by (auto simp: Append)
  have "\<forall>(f, s) \<in> set (aset (terminal_file terminal) (file_of (map json_text (rs @ [r]))) files).
      \<exists>rs. s = file_of (map json_text rs) \<and> linked sha ''genesis'' rs"
    using files(2) r(2) set_aset_sub [of "terminal_file terminal" "file_of (map json_text (rs @ [r]))" files] by blast
  then show ?thesis using files(1) by (simp add: Append r(1) dir_linked_def del: map_append)
qed

interpretation journal_appends: guarded_runs "append_step sha" None "dir_linked sha" append_ok
  by unfold_locales (rule append_keeps_linked, simp_all add: dir_linked_def)

section \<open>Going back from the last line\<close>

text \<open>A line that carries a link sits right after the line it names.\<close>

lemma walk_no_breaks:
  assumes "fst (walk_chain sha f i link ch ls) = []" "n < length ls" "json_parse (ls ! n) = Some obj" "has_prev obj"
  shows "jget obj ''prev'' = JStr (if n = 0 then link else sha (ls ! (n - 1)))"
  using assms
proof (induction ls arbitrary: i link ch n)
  case (Cons l ls)
  show ?case
  proof (cases n)
    case 0
    then show ?thesis using Cons.prems by (auto simp: case_prod_unfold Let_def split: if_splits)
  next
    case (Suc m)
    have "fst (walk_chain sha f (i + 1) (sha l) ch' ls) = []"
      if "ch' = (case json_parse l of None \<Rightarrow> ch | Some x \<Rightarrow> ch \<or> has_prev x)" for ch'
      using Cons.prems(1) that
      by (cases "json_parse l") (auto simp: case_prod_unfold Let_def split: if_splits)
    then have "jget obj ''prev'' = JStr (if m = 0 then sha l else sha (ls ! (m - 1)))"
      using Cons.IH [of "i + 1" "sha l" _ m] Cons.prems(2-4) by (simp add: Suc)
    then show ?thesis by (cases m) (simp_all add: Suc)
  qed
qed simp

lemma walk_chained:
  assumes "walk_chain sha f i link ch ls = ([], 0)" "n < length ls" "ch \<or> (\<exists>obj. json_parse (hd ls) = Some obj \<and> has_prev obj)"
  shows "\<exists>obj. json_parse (ls ! n) = Some obj \<and> has_prev obj"
  using assms
proof (induction ls arbitrary: i link ch n)
  case (Cons l ls)
  obtain obj where l: "json_parse l = Some obj" "has_prev obj"
    using Cons.prems(1,3) by (cases "json_parse l") (auto simp: case_prod_unfold Let_def split: if_splits)
  then have "walk_chain sha f (i + 1) (sha l) True ls = ([], 0)"
    using Cons.prems(1) by (auto simp: case_prod_unfold Let_def prod_eq_iff split: if_splits)
  then show ?case using l Cons.IH [of "i + 1" "sha l" True "n - 1"] Cons.prems(2) by (cases n) auto
qed simp

lemma verify_clean: "verify_file sha f ls = \<lparr>cr_breaks = [], cr_acknowledged = [], cr_legacy = n\<rparr> \<Longrightarrow>
    walk_chain sha f 0 ''genesis'' False ls = ([], n)"
proof -
  assume v: "verify_file sha f ls = \<lparr>cr_breaks = [], cr_acknowledged = [], cr_legacy = n\<rparr>"
  obtain bs m where w: "walk_chain sha f 0 ''genesis'' False ls = (bs, m)" by fastforce
  have none: "filter (\<lambda>b. ack_of sha ls b = None) bs = []" "m = n"
    "List.map_filter (\<lambda>b. map_option (\<lambda>a. (b, ack_at a)) (ack_of sha ls b)) bs = []"
    using v by (simp_all add: verify_file_def w)
  have "bs = []"
  proof (cases bs)
    case (Cons b bs')
    then show ?thesis using none by (auto simp: List.map_filter_simps split: option.splits)
  qed simp
  then show ?thesis using w none by simp
qed

lemma same_tail:
  assumes "walk_chain sha f 0 ''genesis'' False ls = ([], 0)" "\<exists>obj. json_parse (hd ls) = Some obj \<and> has_prev obj"
    and "fst (walk_chain sha f' 0 ''genesis'' False ls') = []"
    and "inj_on sha (set ls \<union> set ls')" "\<forall>s. sha s \<noteq> ''genesis''"
    and "i < length ls" "j < length ls'" "ls ! i = ls' ! j"
  shows "i = j \<and> take i ls = take j ls'"
proof -
  define link where "link xs k = (if k = 0 then ''genesis'' else sha (xs ! (k - 1)))" for xs :: "string list" and k :: nat
  have clean: "fst (walk_chain sha f 0 ''genesis'' False ls) = []" by (simp only: assms(1) fst_conv)
  have links: "link ls i = link ls' j" if h: "i < length ls" "j < length ls'" "ls ! i = ls' ! j" for i j
  proof -
    obtain obj where o: "json_parse (ls ! i) = Some obj" "has_prev obj"
      using walk_chained [OF assms(1) h(1)] assms(2) by blast
    have o': "json_parse (ls' ! j) = Some obj" using o(1) h(3) by (simp only:)
    show ?thesis
      using walk_no_breaks [OF clean h(1) o] walk_no_breaks [OF assms(3) h(2) o' o(2)]
      unfolding link_def by (simp only: jsval.inject)
  qed
  show ?thesis using assms(6-8)
  proof (induction i arbitrary: j)
    case 0
    then have "link ls' j = ''genesis''" using links [of 0 j] by (simp add: link_def)
    then have "j = 0" using assms(5) by (auto simp: link_def split: if_splits)
    then show ?case by simp
  next
    case (Suc i)
    then have "link ls' j = sha (ls ! i)" using links [of "Suc i" j] by (simp add: link_def)
    then obtain m where j: "j = Suc m" "sha (ls ! i) = sha (ls' ! m)" using assms(5) by (cases j) (auto simp: link_def)
    have lt: "i < length ls" "m < length ls'" using Suc(2,3) j(1) by linarith+
    then have eq: "ls ! i = ls' ! m" using inj_onD [OF assms(4) j(2)] by (meson UnI1 UnI2 nth_mem)
    have "i = m \<and> take i ls = take m ls'" by (rule Suc.IH [OF lt eq])
    then show ?case using lt eq j(1) by (elim conjE) (simp add: take_Suc_conv_app_nth)
  qed
qed

section \<open>Acknowledging\<close>

lemma acks_append: "acks_from i (ls @ [l]) = acks_from i ls @ line_acks (i + length ls) l"
  by (induction ls arbitrary: i) simp_all

lemma walk_snoc:
  assumes "json_parse l = Some obj" "has_prev obj"
    and "jget obj ''prev'' = JStr (if ls = [] then link else sha (last ls))"
  shows "fst (walk_chain sha f i link ch (ls @ [l])) = fst (walk_chain sha f i link ch ls)"
  using assms(3)
proof (induction ls arbitrary: i link ch)
  case (Cons x ls)
  have "fst (walk_chain sha f (i + 1) (sha x) c (ls @ [l])) = fst (walk_chain sha f (i + 1) (sha x) c ls)" for c
    using Cons.prems by (intro Cons.IH) (simp split: if_splits)
  then show ?case by (auto simp: case_prod_unfold Let_def split: option.split)
qed (simp add: assms(1,2) case_prod_unfold Let_def)

lemma walk_index: "b \<in> set (fst (walk_chain sha f i link ch ls)) \<Longrightarrow> br_file b = f \<and> i \<le> br_index b \<and> br_index b < i + length ls"
proof (induction ls arbitrary: i link ch)
  case (Cons x ls)
  then show ?case
    by (auto simp: case_prod_unfold Let_def split: option.splits if_splits dest!: Cons.IH)
qed simp

lemma acks_member: "a \<in> set (line_acks (length ls) l) \<Longrightarrow> a \<in> set (acks_from 0 (ls @ [l]))"
  by (simp add: acks_append)

lemma ack_grows:
  assumes "br_index b < length ls"
  shows "ack_of sha ls b \<noteq> None \<Longrightarrow> ack_of sha (ls @ [l]) b \<noteq> None"
    "a \<in> set (line_acks (length ls) l) \<Longrightarrow> ack_index a = JInt (int (br_index b)) \<Longrightarrow> ack_hash a = sha (ls ! br_index b) \<Longrightarrow>
      ack_of sha (ls @ [l]) b \<noteq> None"
proof -
  have same: "(ls @ [l]) ! br_index b = ls ! br_index b" using assms by (simp add: nth_append)
  show "ack_of sha ls b \<noteq> None \<Longrightarrow> ack_of sha (ls @ [l]) b \<noteq> None"
    unfolding ack_of_def same by (auto simp: find_None_iff acks_append)
  show "a \<in> set (line_acks (length ls) l) \<Longrightarrow> ack_index a = JInt (int (br_index b)) \<Longrightarrow> ack_hash a = sha (ls ! br_index b) \<Longrightarrow>
      ack_of sha (ls @ [l]) b \<noteq> None"
    unfolding ack_of_def same by (auto simp: find_None_iff acks_append)
qed

text \<open>The line of the ritual names every live break.\<close>

lemma ritual_line_acks:
  assumes "json_parse l = Some (event_record ts terminal seq (ritual_event actor reason (map (acknowledgement sha ls) live)) prev)"
    and "b \<in> set live" "br_index b < length ls"
  shows "\<exists>a \<in> set (line_acks (length ls) l). ack_index a = JInt (int (br_index b)) \<and> ack_hash a = sha (ls ! br_index b)"
proof -
  let ?rec = "event_record ts terminal seq (ritual_event actor reason (map (acknowledgement sha ls) live)) prev"
  have rec: "jget ?rec ''type'' = JStr ''chain-start''"
    "jget (jget ?rec ''detail'') ''acknowledges'' = JArr (map (acknowledgement sha ls) live)"
    by (simp_all add: event_record_def ritual_event_def own_get_def coalesce_def is_nullish_def)
  have named: "jget (acknowledgement sha ls b) ''index'' = JInt (int (br_index b))"
    "jget (acknowledgement sha ls b) ''hash'' = JStr (sha (ls ! br_index b))"
    by (simp_all add: acknowledgement_def own_get_def)
  have "is_integer_below (JInt (int (br_index b))) (length ls)" using assms(3) by (simp add: is_integer_below_def)
  then show ?thesis using assms(2)
    by (simp add: line_acks_def assms(1) Let_def rec del: of_int_of_nat_eq, intro bexI [of _ b])
      (simp_all add: named del: of_int_of_nat_eq)
qed

lemma verify_files: "cr_breaks (fst (verify_chain sha d)) = concat (map (\<lambda>f. cr_breaks (verify_file sha f (raw_lines (file_text d f)))) (sort (journal_files d)))"
  by (simp add: verify_chain_def join_reports_def comp_def Let_def)

lemma file_breaks_sub: "b \<in> set (cr_breaks (verify_file sha f ls)) \<Longrightarrow> br_file b = f \<and> br_index b < length ls \<and> b \<in> set (fst (walk_chain sha f 0 ''genesis'' False ls))"
  using walk_index [of b sha f 0 "''genesis''" False ls] by (auto simp: verify_file_def case_prod_unfold Let_def)

lemma coalesce_get_ok: "json_ok v \<Longrightarrow> k \<notin> set proto_names \<Longrightarrow> json_ok (coalesce (jget v k) JNull)"
  using field_ok [of v k JNull] by (cases v) (simp_all add: coalesce_def is_nullish_def)

lemma plus_one_ok: "json_ok v \<Longrightarrow> json_ok (plus_one v)"
proof (cases v)
  case (JNum n)
  assume "json_ok v"
  then obtain q where q: "n = Fin q" "of_int \<lfloor>q\<rfloor> = q" using JNum by (cases n) auto
  define i where "i = \<lfloor>q\<rfloor>"
  have "v = JNum (Fin (of_int i))" by (simp only: i_def q JNum)
  then have "plus_one v = JNum (Fin (of_int (i + 1)))" by (simp add: plus_one_def is_object_def)
  then show ?thesis by (simp del: of_int_add)
qed (auto simp: plus_one_def is_object_def)

lemma last_seq_ok: "\<forall>e \<in> set es. json_ok e \<Longrightarrow> last_seq es = Some n \<Longrightarrow> json_ok n"
proof -
  assume es: "\<forall>e \<in> set es. json_ok e" "last_seq es = Some n"
  have "''seq'' \<notin> set proto_names" by code_simp
  then have "json_ok (coalesce (jget (last es) ''seq'') JNull)" if "es \<noteq> []" using es(1) that by (intro coalesce_get_ok) simp_all
  then show "json_ok n" using es(2) by (auto simp: last_seq_def coalesce_def split: if_splits)
qed

lemma break_seq_ok:
  assumes "\<forall>l \<in> set ls. \<forall>obj. json_parse l = Some obj \<longrightarrow> json_ok obj"
    and "b \<in> set (fst (walk_chain sha f i link ch ls))"
  shows "json_ok (br_seq b)"
  using assms
proof (induction ls arbitrary: i link ch)
  case (Cons l ls)
  have seq: "''seq'' \<notin> set proto_names" by code_simp
  show ?case
  proof (cases "\<exists>i link ch. b \<in> set (fst (walk_chain sha f i link ch ls))")
    case True
    then show ?thesis using Cons.IH Cons.prems(1) by auto
  next
    case False
    then have "br_seq b = JNull \<or> (\<exists>obj. json_parse l = Some obj \<and> br_seq b = coalesce (jget obj ''seq'') JNull)"
      using Cons.prems(2) by (auto simp: case_prod_unfold Let_def split: option.splits if_splits)
    then show ?thesis using Cons.prems(1) coalesce_get_ok [OF _ seq] by auto
  qed
qed simp

lemma ritual_event_ok:
  assumes "\<forall>b \<in> set live. json_ok (br_seq b)"
  shows "json_ok (ritual_event actor reason (map (acknowledgement sha ls) live))"
proof -
  have "json_ok (acknowledgement sha ls b)" if "b \<in> set live" for b
    using assms that by (simp add: acknowledgement_def wf_map_def)
  then show ?thesis by (simp add: ritual_event_def wf_map_def)
qed

text \<open>What a directory holds of one well-formed file.\<close>

definition file_lines :: "journal_dir \<Rightarrow> string \<Rightarrow> string list \<Rightarrow> bool" where
  "file_lines d f ls \<longleftrightarrow> file_text d f = Some (file_of ls) \<and>
     (\<forall>l \<in> set ls. newline \<notin> set l \<and> js_trim l \<noteq> []) \<and>
     (\<forall>l \<in> set ls \<union> js_trim ` set ls. \<forall>obj. json_parse l = Some obj \<longrightarrow> json_ok obj)"

lemma file_lines_raw: "file_lines d f ls \<Longrightarrow> raw_lines (file_text d f) = ls"
  by (simp add: file_lines_def raw_lines_file_of)

lemma append_to_file:
  assumes "file_lines d (terminal_file t) ls" "append_event sha ts t evt d = (Some rec, d')"
    and "json_ok ts" "json_ok evt" "is_plain evt"
  shows "json_ok rec" "is_plain rec" "\<exists>seq. rec = event_record ts t seq evt (chain_link sha ls)"
    "file_text d' (terminal_file t) = Some (file_of (ls @ [json_text rec]))"
    "\<forall>g. g \<noteq> terminal_file t \<longrightarrow> file_text d' g = file_text d g"
proof -
  obtain files where d: "d = Some files" "map_of files (terminal_file t) = Some (file_of ls)"
    using assms(1) by (auto simp: file_lines_def file_text_def split: option.splits)
  have raw: "raw_lines (Some (file_of ls)) = ls" using assms(1) by (simp add: file_lines_def raw_lines_file_of)
  obtain n where n: "last_seq (fst (parse_file (Some (file_of ls)))) = Some n"
    "rec = event_record ts t (plus_one n) evt (chain_link sha ls)"
    "d' = Some (aset (terminal_file t) (file_of ls @ json_text rec @ [newline]) files)"
    using assms(2) by (auto simp: append_event_def d Let_def raw split: option.splits)
  have "\<forall>e \<in> set (fst (parse_file (Some (file_of ls)))). json_ok e"
  proof
    fix e assume "e \<in> set (fst (parse_file (Some (file_of ls))))"
    then obtain x where "x \<in> set ls" "json_parse (js_trim x) = Some e"
      by (auto simp: parse_file_def raw List.map_filter_def)
    then show "json_ok e" using assms(1) unfolding file_lines_def by blast
  qed
  then have "json_ok n" using n(1) by (rule last_seq_ok)
  then show "json_ok rec" unfolding n(2) by (intro event_record_ok assms plus_one_ok)
  show "is_plain rec" "\<exists>seq. rec = event_record ts t seq evt (chain_link sha ls)" using n(2) event_record_get(3) by auto
  show "file_text d' (terminal_file t) = Some (file_of (ls @ [json_text rec]))"
    "\<forall>g. g \<noteq> terminal_file t \<longrightarrow> file_text d' g = file_text d g"
    by (simp_all add: n(3) d(1) file_text_def file_of_append)
qed

lemma journal_file_name: "is_journal_file (terminal_file t)"
  by (simp add: is_journal_file_def terminal_file_def)

lemma live_breaks:
  assumes "file_lines d f ls" "is_journal_file f"
  shows "set (filter (\<lambda>b. br_file b = f) (cr_breaks (fst (verify_chain sha d)))) = set (cr_breaks (verify_file sha f ls))"
proof -
  have "f \<in> set (journal_files d)"
    using assms by (auto simp: file_lines_def file_text_def journal_files_def set_akeys_dom split: option.splits)
  then show ?thesis using file_breaks_sub file_lines_raw [OF assms(1)] by (fastforce simp: verify_files)
qed

section \<open>Properties\<close>

text \<open>C16: a journal that is only appended to verifies. After any sequence of appends to any terminals,
  with events of whole numbers and texts, no chain of the directory shows a break, nothing is
  acknowledged, no line counts as legacy, and no line is unreadable.\<close>

theorem appended_journal_verifies:
  assumes "\<forall>s. sha s \<noteq> []" "list_all append_ok calls"
  shows "let d = fold (append_step sha) calls None in
    fst (verify_chain sha d) = \<lparr>cr_breaks = [], cr_acknowledged = [], cr_legacy = 0\<rparr> \<and>
    list_all (\<lambda>f. snd (parse_file (file_text d f)) = 0) (journal_files d)"
proof -
  define d where "d = fold (append_step sha) calls None"
  have d: "dir_linked sha d" unfolding d_def using assms(2) by (rule journal_appends.runs_run)
  have entry: "\<exists>rs. file_text d f = Some (file_of (map json_text rs)) \<and> linked sha ''genesis'' rs" if h: "f \<in> set (journal_files d)" for f
  proof -
    obtain files where files: "d = Some files" "f \<in> fst ` set files"
      using h by (cases d) (auto simp: journal_files_def akeys_def)
    then obtain s where "(f, s) \<in> set files" by force
    with files(1) have "d = Some files" "(f, s) \<in> set files" by simp_all
    then show ?thesis using d by (fastforce simp: dir_linked_def file_text_def wf_map_def akeys_def)
  qed
  have "verify_file sha f (raw_lines (file_text d f)) = \<lparr>cr_breaks = [], cr_acknowledged = [], cr_legacy = 0\<rparr>"
    "snd (parse_file (file_text d f)) = 0" if "f \<in> set (journal_files d)" for f
    using entry [OF that] linked_lines linked_parse verify_linked [OF _ assms(1)] by (metis, metis snd_conv)
  then show ?thesis
    by (simp add: Let_def verify_chain_def join_reports_def list_all_iff comp_def cong: map_cong flip: d_def)
qed

text \<open>C17: the last line fixes a history without acknowledgements. Take a journal that is chained from its first
  line and verifies with no break, none of them acknowledged, and any other list of lines that verifies in
  the same way, with no break and no acknowledged one, and ends in the same line: it is the same
  journal. So where no chain-start acknowledged a break, no line can be edited, inserted, dropped or moved under a
  pinned last line, as far as the hash has no collisions among these lines and never answers \<open>genesis\<close>. (Before a
  break that was acknowledged a line can be edited and the file still verifies.)\<close>

theorem tip_fixes_history:
  assumes "verify_file sha f ls = \<lparr>cr_breaks = [], cr_acknowledged = [], cr_legacy = 0\<rparr>"
    and "\<exists>obj. json_parse (hd ls) = Some obj \<and> has_prev obj"
    and "cr_breaks (verify_file sha f' ls') = []" "cr_acknowledged (verify_file sha f' ls') = []"
    and "ls \<noteq> []" "ls' \<noteq> []" "last ls' = last ls"
    and "inj_on sha (set ls \<union> set ls')" "\<forall>s. sha s \<noteq> ''genesis''"
  shows "ls' = ls"
proof -
  have walk: "walk_chain sha f 0 ''genesis'' False ls = ([], 0)" using assms(1) by (rule verify_clean)
  have "verify_file sha f' ls' = \<lparr>cr_breaks = [], cr_acknowledged = [], cr_legacy = cr_legacy (verify_file sha f' ls')\<rparr>"
    using assms(3,4) by simp
  then have walk': "fst (walk_chain sha f' 0 ''genesis'' False ls') = []" by (simp only: verify_clean fst_conv)
  let ?i = "length ls - 1" and ?j = "length ls' - 1"
  have ends: "?i < length ls" "?j < length ls'" "ls ! ?i = ls' ! ?j" using assms(5-7) by (simp_all add: last_conv_nth)
  have same: "?i = ?j \<and> take ?i ls = take ?j ls'" by (rule same_tail [OF walk assms(2) walk' assms(8,9) ends])
  have "ls = take ?i ls @ [last ls]" "ls' = take ?j ls' @ [last ls']"
    using assms(5,6) by (metis append_butlast_last_id butlast_conv_take)+
  then show ?thesis using same assms(7) by metis
qed

text \<open>The ritual settles every break and rewrites nothing. After a chain-start the file holds its
  old lines and the new one; no break of it is live any more, and every break the walk finds is
  listed as acknowledged, in order, the evidence kept.\<close>

theorem chain_start_settles:
  assumes "chain_start sha ts terminal_id reason actor d = (Inr rec, d')"
    and "t = drop_jsonl (to_str (coalesce terminal_id (JStr [])))" "file_lines d (terminal_file t) ls"
    and "json_ok ts" "\<forall>s. sha s \<noteq> []"
  shows "raw_lines (file_text d' (terminal_file t)) = ls @ [json_text rec] \<and>
    (\<forall>b \<in> set (cr_breaks (fst (verify_chain sha d'))). br_file b \<noteq> terminal_file t) \<and>
    map fst (cr_acknowledged (verify_file sha (terminal_file t) (ls @ [json_text rec]))) =
      fst (walk_chain sha (terminal_file t) 0 ''genesis'' False ls)"
proof -
  let ?f = "terminal_file t"
  define live where "live = filter (\<lambda>b. br_file b = ?f) (cr_breaks (fst (verify_chain sha d)))"
  define evt where "evt = ritual_event actor (js_trim (to_str (coalesce reason (JStr [])))) (map (acknowledgement sha ls) live)"
  have live: "set live = set (cr_breaks (verify_file sha ?f ls))"
    unfolding live_def using assms(3) journal_file_name by (rule live_breaks)
  have run: "live \<noteq> []" "append_event sha ts t evt d = (Some rec, d')"
    using assms(1) unfolding chain_start_def Let_def assms(2) [symmetric] live_def evt_def file_lines_raw [OF assms(3)]
    by (auto split: if_splits option.splits prod.splits)
  have parses: "\<forall>l \<in> set ls. \<forall>obj. json_parse l = Some obj \<longrightarrow> json_ok obj" using assms(3) unfolding file_lines_def by blast
  have "\<forall>b \<in> set live. json_ok (br_seq b)"
    using file_breaks_sub break_seq_ok [OF parses] unfolding live by blast
  then have evt_ok: "json_ok evt" "is_plain evt" unfolding evt_def by (rule ritual_event_ok) (simp add: ritual_event_def)
  note added = append_to_file [OF assms(3) run(2) assms(4) evt_ok]
  let ?l = "json_text rec"
  have parse: "json_parse ?l = Some rec" using added(1) by (rule json_round_trip)
  have ne: "ls \<noteq> []" using run(1) live by (auto simp: verify_file_def)
  obtain seq where rec: "rec = event_record ts t seq evt (chain_link sha ls)" using added(3) by blast
  have prev: "jget rec ''prev'' = JStr (if ls = [] then ''genesis'' else sha (last ls))"
    by (simp add: rec event_record_get chain_link_def)
  have "has_prev rec" using prev assms(5) added(2) ne by (auto simp: has_prev_def is_nullish_def is_plain_iff)
  then have walk: "fst (walk_chain sha ?f 0 ''genesis'' False (ls @ [?l])) = fst (walk_chain sha ?f 0 ''genesis'' False ls)"
    using parse prev by (intro walk_snoc) simp_all
  have acked: "ack_of sha (ls @ [?l]) b \<noteq> None" if b: "b \<in> set (fst (walk_chain sha ?f 0 ''genesis'' False ls))" for b
  proof (cases "ack_of sha ls b")
    case None
    have i: "br_index b < length ls" using walk_index [OF b] by simp
    have "b \<in> set live" using None b unfolding live by (simp add: verify_file_def case_prod_unfold Let_def)
    then show ?thesis
      using ritual_line_acks [OF parse [unfolded rec evt_def] _ i] ack_grows(2) [OF i] unfolding rec evt_def by blast
  next
    case (Some a)
    then show ?thesis using ack_grows(1) walk_index [OF b] by auto
  qed
  have settled: "cr_breaks (verify_file sha ?f (ls @ [?l])) = []"
    using acked by (simp add: verify_file_def case_prod_unfold Let_def walk filter_empty_conv)
  have keep: "map fst (List.map_filter (\<lambda>b. map_option (\<lambda>a. (b, ack_at a)) (g b)) bs) = bs"
    if "\<forall>b \<in> set bs. g b \<noteq> None" for g :: "chain_break \<Rightarrow> chain_ack option" and bs
    using that by (induction bs) (auto simp: List.map_filter_simps)
  have lines: "raw_lines (file_text d' ?f) = ls @ [?l]"
    unfolding added(4) using assms(3) object_text_line [OF added(1,2)]
    by (intro raw_lines_file_of) (auto simp: file_lines_def)
  have "br_file b \<noteq> ?f" if b: "b \<in> set (cr_breaks (fst (verify_chain sha d')))" for b
  proof
    assume "br_file b = ?f"
    then have "b \<in> set (cr_breaks (verify_file sha ?f (raw_lines (file_text d' ?f))))"
      using b file_breaks_sub by (fastforce simp: verify_files)
    then show False by (simp add: lines settled)
  qed
  moreover have "map fst (cr_acknowledged (verify_file sha ?f (ls @ [?l]))) = fst (walk_chain sha ?f 0 ''genesis'' False ls)"
    using acked by (simp add: verify_file_def case_prod_unfold Let_def walk keep)
  ultimately show ?thesis using lines by blast
qed

section \<open>Samples\<close>

definition short_hash :: "string \<Rightarrow> string" where
  "short_hash s = ''h'' @ s"

definition first_line :: string where
  "first_line = json_text (JObj [(''seq'', JInt 1), (''prev'', JStr ''genesis'')])"

definition edited_line :: string where
  "edited_line = json_text (JObj [(''seq'', JInt 2), (''prev'', JStr ''x'')])"

definition edited_dir :: journal_dir where
  "edited_dir = Some [(''a.jsonl'', file_of [first_line, edited_line])]"

lemma sample_ritual:
  "case chain_start short_hash (JStr ''now'') (JStr ''a'') (JStr ''seen'') JNull edited_dir of
     (Inl _, _) \<Rightarrow> False | (Inr rec, d) \<Rightarrow> True"
  by code_simp

lemma sample_lines_ok: "file_lines edited_dir (terminal_file ''a'') [first_line, edited_line]"
proof -
  have lines: "json_parse first_line = Some (JObj [(''seq'', JInt 1), (''prev'', JStr ''genesis'')])"
    "json_parse edited_line = Some (JObj [(''seq'', JInt 2), (''prev'', JStr ''x'')])"
    unfolding first_line_def edited_line_def by (rule json_round_trip, simp add: wf_map_def)+
  have clean: "newline \<notin> set l \<and> js_trim l = l \<and> l \<noteq> []" if "l \<in> {first_line, edited_line}" for l
    using that object_text_line object_text_trim json_text_head(1)
    by (auto simp: first_line_def edited_line_def wf_map_def)
  have "file_text edited_dir (terminal_file ''a'') = Some (file_of [first_line, edited_line])"
    by (simp add: edited_dir_def file_text_def terminal_file_def)
  moreover have "\<forall>l \<in> {first_line, edited_line}. \<forall>obj. json_parse l = Some obj \<longrightarrow> json_ok obj"
    using lines by (auto simp: wf_map_def)
  ultimately show ?thesis using clean unfolding file_lines_def by auto
qed

theorem appended_journal_verifies_witness:
  "fst (verify_chain short_hash (fold (append_step short_hash) [Append (JStr ''t0'') ''a'' (JObj []), Append (JStr ''t1'') ''a'' (JObj [])] None)) =
    \<lparr>cr_breaks = [], cr_acknowledged = [], cr_legacy = 0\<rparr>"
proof -
  have "\<forall>s. short_hash s \<noteq> []" by (simp add: short_hash_def)
  moreover have "list_all append_ok [Append (JStr ''t0'') ''a'' (JObj []), Append (JStr ''t1'') ''a'' (JObj [])]"
    by (simp add: wf_map_def)
  ultimately show ?thesis using appended_journal_verifies [of short_hash] unfolding Let_def by blast
qed

lemma first_alone: "verify_file short_hash f [first_line] = \<lparr>cr_breaks = [], cr_acknowledged = [], cr_legacy = 0\<rparr>"
  "\<exists>obj. json_parse (hd [first_line]) = Some obj \<and> has_prev obj"
proof -
  have "linked short_hash ''genesis'' [JObj [(''seq'', JInt 1), (''prev'', JStr ''genesis'')]]"
    by (auto simp: wf_map_def own_get_def)
  then show "verify_file short_hash f [first_line] = \<lparr>cr_breaks = [], cr_acknowledged = [], cr_legacy = 0\<rparr>"
    using verify_linked [of short_hash _ f] by (fastforce simp: first_line_def short_hash_def)
  have "json_parse first_line = Some (JObj [(''seq'', JInt 1), (''prev'', JStr ''genesis'')])"
    unfolding first_line_def by (rule json_round_trip) (simp add: wf_map_def)
  then show "\<exists>obj. json_parse (hd [first_line]) = Some obj \<and> has_prev obj"
    by (simp add: has_prev_def is_nullish_def own_get_def)
qed

theorem tip_fixes_history_witness:
  "cr_breaks (verify_file short_hash ''b'' [first_line]) = [] \<and> [first_line] = [first_line]"
proof
  show "cr_breaks (verify_file short_hash ''b'' [first_line]) = []" by (simp add: first_alone)
  have "\<forall>s. short_hash s \<noteq> ''genesis''" by (simp add: short_hash_def)
  then show "[first_line] = [first_line]"
    by (intro tip_fixes_history [OF first_alone, of "''b''"]) (simp_all add: first_alone)
qed

theorem chain_start_settles_witness:
  "\<exists>rec d. chain_start short_hash (JStr ''now'') (JStr ''a'') (JStr ''seen'') JNull edited_dir = (Inr rec, d) \<and>
     raw_lines (file_text d ''a.jsonl'') = [first_line, edited_line, json_text rec]"
proof -
  obtain rec d where run: "chain_start short_hash (JStr ''now'') (JStr ''a'') (JStr ''seen'') JNull edited_dir = (Inr rec, d)"
    using sample_ritual by (auto split: prod.splits sum.splits)
  have t: "''a'' = drop_jsonl (to_str (coalesce (JStr ''a'') (JStr [])))" by code_simp
  have "\<forall>s. short_hash s \<noteq> []" by (simp add: short_hash_def)
  from chain_start_settles [OF run t sample_lines_ok _ this]
  have "raw_lines (file_text d (terminal_file ''a'')) = [first_line, edited_line] @ [json_text rec]" by simp
  then show ?thesis using run by (auto simp: terminal_file_def)
qed

text \<open>A torn tail swallows the next event: appended to a file whose last line has no line end, as a
  crash in the middle of a write leaves it, the record is glued to the torn line and cannot be read.\<close>

definition torn_dir :: journal_dir where
  "torn_dir = Some [(''a.jsonl'', ''torn'')]"

theorem torn_tail_swallows:
  "fst (append_event short_hash (JStr ''now'') ''a'' (JObj []) torn_dir) \<noteq> None \<and>
   parse_file (file_text (snd (append_event short_hash (JStr ''now'') ''a'' (JObj []) torn_dir)) ''a.jsonl'') = ([], 1)"
  by (rule conjI; code_simp)

text \<open>Asked for the last zero events, the reader answers all of them.\<close>

theorem tail_of_zero: "journal_tail t 0 d = fst (parse_file (file_text d (terminal_file t)))"
  by (simp add: journal_tail_def)

end
