(* ===== verification/Claims.thy ===== *)
theory Claims
  imports Journal Js_Num
begin

text \<open>
  The claim gate of the terminals (\<open>src/scripts/sma/lib/claims.mjs\<close>): a claim is a directory made by
  \<open>mkdir\<close> without \<open>recursive\<close>, which only one caller can make; its provenance, its consumed marker and
  the cooldown marker of a released name.

  The claims directory is the list of its entries, \<open>None\<close> when it does not exist: a claim is a
  directory, a cooldown marker a file. The clock is the record \<open>clock\<close>: milliseconds, and the
  conversions \<open>toISOString\<close> and \<open>Date.parse\<close> of the language. Writes and removals succeed, names have
  no path separators. The wording of messages is left out.
\<close>

section \<open>Claims on disk\<close>

record clock =
  ck_now :: nat
  ck_iso :: "nat \<Rightarrow> string"
  ck_parse :: "string \<Rightarrow> jsnum"
  ck_pid :: nat

record claim =
  cl_prov :: jsval
  cl_consumed :: bool
  cl_ctime :: nat

datatype dir_entry = Claim_dir claim | Marker_file string

type_synonym claims_dir = "(string \<times> dir_entry) list option"

definition dir_list :: "claims_dir \<Rightarrow> (string \<times> dir_entry) list" where
  "dir_list d = (case d of None \<Rightarrow> [] | Some es \<Rightarrow> es)"

definition entry_of :: "claims_dir \<Rightarrow> string \<Rightarrow> dir_entry option" where
  "entry_of d n = map_of (dir_list d) n"

definition claim_of :: "claims_dir \<Rightarrow> string \<Rightarrow> claim option" where
  "claim_of d n = (case entry_of d n of Some (Claim_dir c) \<Rightarrow> Some c | _ \<Rightarrow> None)"

text \<open>\<open>readJsonSafe(join(dir, 'provenance.json'))\<close>: \<open>null\<close> when nothing can be read.\<close>

definition provenance_of :: "claims_dir \<Rightarrow> string \<Rightarrow> jsval" where
  "provenance_of d n = (case claim_of d n of None \<Rightarrow> JNull | Some c \<Rightarrow> cl_prov c)"

text \<open>What comes back from a file of JSON: members that are \<open>undefined\<close> were not written.\<close>

definition written :: "jsmap \<Rightarrow> jsval" where
  "written m = JObj (filter (\<lambda>(_, v). v \<noteq> JUndef) m)"

section \<open>Taking a claim\<close>

datatype claim_result = Won | Held jsval

definition stamp :: "clock \<Rightarrow> jsval \<Rightarrow> jsval" where
  "stamp ck p =
     written [(''by'', jget p ''by''), (''pid'', coalesce (jget p ''pid'') (JInt (int (ck_pid ck)))),
       (''session'', coalesce (jget p ''session'') JNull), (''at'', JStr (ck_iso ck (ck_now ck))),
       (''expectedPrev'', coalesce (jget p ''expectedPrev'') JNull),
       (''reason'', coalesce (jget p ''reason'')
          (if is_nullish (jget p ''expectedPrev'') then JStr ''initial'' else JStr ''update''))]"

definition claim_slot :: "clock \<Rightarrow> string \<Rightarrow> jsval \<Rightarrow> claims_dir \<Rightarrow> claim_result \<times> claims_dir" where
  "claim_slot ck n p d =
     (case entry_of d n of
        Some _ \<Rightarrow> (Held (provenance_of d n), Some (dir_list d))
      | None \<Rightarrow> (Won, Some (aset n (Claim_dir \<lparr>cl_prov = stamp ck p, cl_consumed = False, cl_ctime = ck_now ck\<rparr>) (dir_list d))))"

record claim_view =
  cv_name :: string
  cv_prov :: jsval
  cv_age :: int

definition read_claims :: "clock \<Rightarrow> claims_dir \<Rightarrow> claim_view list" where
  "read_claims ck d =
     List.map_filter (\<lambda>(n, e). case e of
         Claim_dir c \<Rightarrow> Some \<lparr>cv_name = n, cv_prov = cl_prov c, cv_age = int (ck_now ck) - int (cl_ctime c)\<rparr>
       | Marker_file _ \<Rightarrow> None) (dir_list d)"

section \<open>Releasing a claim\<close>

datatype release_result = Released | Foreign

definition cooldown_name :: "string \<Rightarrow> string" where
  "cooldown_name n = ''.cooldown-'' @ n"

definition drop_cooldown :: "clock \<Rightarrow> string \<Rightarrow> claims_dir \<Rightarrow> claims_dir" where
  "drop_cooldown ck n d =
     (case d of
        None \<Rightarrow> None
      | Some es \<Rightarrow> if claim_of d (cooldown_name n) \<noteq> None then d
                   else Some (aset (cooldown_name n) (Marker_file (num_to_str (Fin (of_nat (ck_now ck))))) es))"

definition release_slot :: "clock \<Rightarrow> jsval \<Rightarrow> bool \<Rightarrow> string \<Rightarrow> claims_dir \<Rightarrow> release_result \<times> claims_dir" where
  "release_slot ck by force n d =
     (let prov = provenance_of d n; own = truthy prov \<and> jget prov ''by'' = by in
      if \<not> own \<and> \<not> force then (Foreign, d)
      else (Released, drop_cooldown ck n (map_option (adel n) d)))"

definition slot_cooldown_ms :: rat where "slot_cooldown_ms = 600000"

definition slot_claim_ttl_ms :: rat where "slot_claim_ttl_ms = 1800000"

definition push_claim_ttl_ms :: rat where "push_claim_ttl_ms = 1800000"

definition cooldown_since :: "claims_dir \<Rightarrow> string \<Rightarrow> jsnum option" where
  "cooldown_since d n = (case entry_of d (cooldown_name n) of Some (Marker_file t) \<Rightarrow> Some (str_to_num t) | _ \<Rightarrow> None)"

definition is_cooling_down :: "clock \<Rightarrow> string \<Rightarrow> claims_dir \<Rightarrow> bool" where
  "is_cooling_down ck n d =
     (case cooldown_since d n of
        Some (Fin t) \<Rightarrow> of_nat (ck_now ck) - t < slot_cooldown_ms
      | _ \<Rightarrow> False)"

text \<open>The minutes in the text of a cooling slot; \<open>None\<close> when it is not cooling.\<close>

definition cooldown_minutes :: "clock \<Rightarrow> string \<Rightarrow> claims_dir \<Rightarrow> jsnum option" where
  "cooldown_minutes ck n d =
     (if \<not> is_cooling_down ck n d then None
      else case cooldown_since d n of
             Some (Fin t) \<Rightarrow> Some (num_max (Fin 0) (num_round (Fin ((of_nat (ck_now ck) - t) / 60000))))
           | _ \<Rightarrow> None)"

section \<open>Consuming and reconciling\<close>

definition mark_consumed :: "clock \<Rightarrow> string \<Rightarrow> claims_dir \<Rightarrow> bool \<times> claims_dir" where
  "mark_consumed ck n d =
     (case claim_of d n of
        None \<Rightarrow> (False, d)
      | Some c \<Rightarrow> (True, map_option (aset n (Claim_dir (if cl_consumed c then c
          else c\<lparr>cl_consumed := True, cl_ctime := ck_now ck\<rparr>))) d))"

definition is_consumed :: "string \<Rightarrow> claims_dir \<Rightarrow> bool" where
  "is_consumed n d = (case claim_of d n of None \<Rightarrow> False | Some c \<Rightarrow> cl_consumed c)"

datatype reconcile_result = Reconciled jsval rat | No_claim | Is_consumed | Is_fresh

text \<open>The age of a claim: by its stamp, and by the directory when the stamp cannot be read.\<close>

definition claim_age :: "clock \<Rightarrow> claim \<Rightarrow> rat" where
  "claim_age ck c =
     (let at_v = jget (cl_prov c) ''at''; started = (if truthy at_v then ck_parse ck (to_str at_v) else NaN) in
      case started of
        Fin t \<Rightarrow> of_nat (ck_now ck) - t
      | _ \<Rightarrow> of_nat (ck_now ck) - of_nat (cl_ctime c))"

definition reconcile_expired_claim :: "clock \<Rightarrow> rat \<Rightarrow> string \<Rightarrow> claims_dir \<Rightarrow> reconcile_result \<times> claims_dir" where
  "reconcile_expired_claim ck ttl n d =
     (case claim_of d n of
        None \<Rightarrow> (No_claim, d)
      | Some c \<Rightarrow>
          if \<not> truthy (cl_prov c) then (No_claim, d)
          else if is_consumed n d then (Is_consumed, d)
          else if claim_age ck c \<le> ttl then (Is_fresh, d)
          else (Reconciled (cl_prov c) (claim_age ck c), map_option (adel n) d))"

section \<open>Provenance and the two automatic releases\<close>

record prov_warning =
  pw_claim :: string
  pw_expected :: jsval
  pw_actual :: jsval

definition scan_provenance :: "clock \<Rightarrow> (string \<Rightarrow> jsval \<Rightarrow> jsval) \<Rightarrow> claims_dir \<Rightarrow> prov_warning list" where
  "scan_provenance ck resolver d =
     List.map_filter (\<lambda>v.
       let p = cv_prov v; expected = jget p ''expectedPrev''; actual = resolver (cv_name v) p in
       if \<not> truthy p then None
       else if is_nullish expected \<and> jget p ''reason'' = JStr ''initial'' then None
       else if expected \<noteq> actual then Some \<lparr>pw_claim = cv_name v, pw_expected = expected, pw_actual = actual\<rparr>
       else None) (read_claims ck d)"

text \<open>An event for the journal of a terminal. A journal that cannot be appended to leaves the release
  standing, as the code catches.\<close>

definition slot_event :: "string \<Rightarrow> jsval list \<Rightarrow> jsval \<Rightarrow> jsmap \<Rightarrow> jsval" where
  "slot_event kind actors scope detail =
     JObj [(''type'', JStr kind), (''actors'', JArr actors), (''scope'', scope), (''detail'', JObj detail)]"

record world =
  w_claims :: claims_dir
  w_journal :: journal_dir

definition log_event :: "(string \<Rightarrow> string) \<Rightarrow> clock \<Rightarrow> string \<Rightarrow> jsval \<Rightarrow> world \<Rightarrow> bool \<times> world" where
  "log_event sha ck terminal evt w =
     (let (rec, j) = append_event sha (JStr (ck_iso ck (ck_now ck))) terminal evt (w_journal w)
      in (rec \<noteq> None, w\<lparr>w_journal := j\<rparr>))"

fun end_claims :: "(string \<Rightarrow> string) \<Rightarrow> clock \<Rightarrow> jsval \<Rightarrow> string \<Rightarrow> claim_view list \<Rightarrow> world \<Rightarrow> string list \<times> world" where
  "end_claims sha ck by terminal [] w = ([], w)"
| "end_claims sha ck by terminal (v # vs) w =
     (if \<not> truthy (cv_prov v) \<or> jget (cv_prov v) ''by'' \<noteq> by then end_claims sha ck by terminal vs w
      else case release_slot ck by False (cv_name v) (w_claims w) of
             (Foreign, _) \<Rightarrow> end_claims sha ck by terminal vs w
           | (Released, d) \<Rightarrow>
               let w' = snd (log_event sha ck terminal (slot_event ''release'' [by] (JStr (cv_name v))
                          [(''reason'', JStr ''session-ended'')]) (w\<lparr>w_claims := d\<rparr>));
                   (names, w'') = end_claims sha ck by terminal vs w'
               in (cv_name v # names, w''))"

definition session_end :: "(string \<Rightarrow> string) \<Rightarrow> clock \<Rightarrow> jsval \<Rightarrow> jsval \<Rightarrow> world \<Rightarrow> string list \<times> world" where
  "session_end sha ck identity by_opt w =
     (let by = js_or (jget identity ''holderIdentity'') by_opt in
      if \<not> truthy by then ([], w)
      else end_claims sha ck by (to_str (js_or (jget identity ''terminalId'') by)) (read_claims ck (w_claims w)) w)"

datatype evidence_result = Dirty | No_commit | No_name | Evidence_released string

definition commit_evidence_release ::
    "(string \<Rightarrow> string) \<Rightarrow> clock \<Rightarrow> string \<Rightarrow> jsval \<Rightarrow> jsval \<Rightarrow> jsval \<Rightarrow> jsval \<Rightarrow> jsval \<Rightarrow> world \<Rightarrow> evidence_result \<times> world" where
  "commit_evidence_release sha ck dash claim dirty commit by_opt terminal_id w =
     (if truthy dirty then (Dirty, w)
      else if \<not> truthy commit then (No_commit, w)
      else if \<not> truthy (jget claim ''name'') then (No_name, w)
      else let n = to_str (jget claim ''name'');
               by = js_or (js_or (js_or (jget claim ''by'') (and_get (jget claim ''provenance'') ''by'')) by_opt) (JStr dash);
               d = snd (release_slot ck by True n (w_claims w));
               short = take 7 (to_str commit);
               w' = snd (log_event sha ck (to_str (js_or terminal_id by))
                      (slot_event ''release'' [by] (jget claim ''name'')
                        [(''reason'', JStr ''commit-evidence''), (''commit'', JStr short)]) (w\<lparr>w_claims := d\<rparr>))
           in (Evidence_released short, w'))"

section \<open>What each operation does to the entries\<close>

lemma entry_of_aset [simp]: "entry_of (Some (aset n e (dir_list d))) m = (if m = n then Some e else entry_of d m)"
  by (simp add: entry_of_def dir_list_def)

lemma entry_of_same [simp]: "entry_of (Some (dir_list d)) m = entry_of d m"
  by (simp add: entry_of_def dir_list_def)

lemma entry_of_adel [simp]: "entry_of (map_option (adel n) d) m = (if m = n then None else entry_of d m)"
  by (cases d) (simp_all add: entry_of_def dir_list_def)

lemma entry_of_put [simp]:
  "entry_of d n \<noteq> None \<Longrightarrow> entry_of (map_option (aset n e) d) m = (if m = n then Some e else entry_of d m)"
  by (cases d) (simp_all add: entry_of_def dir_list_def)

lemma claim_entry: "claim_of d n = Some c \<longleftrightarrow> entry_of d n = Some (Claim_dir c)"
  by (auto simp: claim_of_def split: option.splits dir_entry.splits)

lemma claim_present: "claim_of d n = Some c \<Longrightarrow> entry_of d n \<noteq> None"
  by (simp add: claim_entry)

lemma claim_absent: "entry_of d n = None \<Longrightarrow> claim_of d n = None"
  by (simp add: claim_of_def)

lemma claim_slot_won:
  "claim_slot ck n p d = (Won, d') \<longleftrightarrow>
     entry_of d n = None \<and>
     d' = Some (aset n (Claim_dir \<lparr>cl_prov = stamp ck p, cl_consumed = False, cl_ctime = ck_now ck\<rparr>) (dir_list d))"
  by (auto simp: claim_slot_def split: option.splits)

lemma claim_slot_held:
  "claim_slot ck n p d = (Held holder, d') \<longleftrightarrow>
     entry_of d n \<noteq> None \<and> holder = provenance_of d n \<and> d' = Some (dir_list d)"
  by (auto simp: claim_slot_def split: option.splits)

lemma claim_slot_entry:
  "claim_slot ck n p d = (r, d') \<Longrightarrow> m \<noteq> n \<or> entry_of d n \<noteq> None \<Longrightarrow> entry_of d' m = entry_of d m"
  by (cases r) (auto simp: claim_slot_won claim_slot_held)

lemma cooldown_name_other [simp]: "cooldown_name n \<noteq> n"
  using arg_cong [of "cooldown_name n" n length] by (auto simp: cooldown_name_def)

lemma drop_cooldown_entry: "m \<noteq> cooldown_name n \<Longrightarrow> entry_of (drop_cooldown ck n d) m = entry_of d m"
  by (cases d) (auto simp: drop_cooldown_def entry_of_def dir_list_def)

lemma drop_cooldown_claim: "claim_of (drop_cooldown ck n d) m = claim_of d m"
proof (cases "m = cooldown_name n")
  case True
  show ?thesis
  proof (cases "claim_of d m = None")
    case absent: True
    show ?thesis
    proof (cases d)
      case (Some es)
      with True absent have "drop_cooldown ck n d = Some (aset m (Marker_file (num_to_str (Fin (of_nat (ck_now ck))))) (dir_list d))"
        by (simp add: drop_cooldown_def dir_list_def)
      then show ?thesis using absent by (simp add: claim_of_def [of "Some (aset m x y)" for x y])
    qed (simp add: drop_cooldown_def)
  next
    case False
    with True have "drop_cooldown ck n d = d" by (cases d) (simp_all add: drop_cooldown_def)
    then show ?thesis by simp
  qed
next
  case False
  then show ?thesis by (simp add: claim_of_def drop_cooldown_entry)
qed

lemma claim_adel: "claim_of (map_option (adel n) d) m = (if m = n then None else claim_of d m)"
  by (simp add: claim_of_def)

lemma release_slot_claim:
  assumes "release_slot ck by force n d = (r, d')"
  shows "claim_of d' m = (if r = Released \<and> m = n then None else claim_of d m)"
  using assms
  by (auto simp: release_slot_def Let_def drop_cooldown_claim claim_adel split: if_splits)

lemma release_slot_result:
  "fst (release_slot ck by force n d) = Released \<longleftrightarrow>
     force \<or> truthy (provenance_of d n) \<and> jget (provenance_of d n) ''by'' = by"
  by (auto simp: release_slot_def Let_def)

lemma provenance_claim: "claim_of d n = Some c \<Longrightarrow> provenance_of d n = cl_prov c"
  by (simp add: provenance_of_def)

lemma claim_put:
  "claim_of d n = Some c \<Longrightarrow> claim_of (map_option (aset n (Claim_dir c')) d) m = (if m = n then Some c' else claim_of d m)"
  using claim_present [of d n] by (simp add: claim_of_def [of _ m])

lemma mark_consumed_claim:
  assumes "mark_consumed ck n d = (r, d')"
  shows "claim_of d' m = (if m = n \<and> r then map_option (\<lambda>c. if cl_consumed c then c
      else c\<lparr>cl_consumed := True, cl_ctime := ck_now ck\<rparr>) (claim_of d n) else claim_of d m)"
  using assms by (auto simp: mark_consumed_def claim_put split: option.splits)

lemma reconcile_done:
  "reconcile_expired_claim ck ttl n d = (Reconciled prov age, d') \<longleftrightarrow>
     (\<exists>c. claim_of d n = Some c \<and> truthy (cl_prov c) \<and> \<not> cl_consumed c \<and> ttl < claim_age ck c \<and>
        prov = cl_prov c \<and> age = claim_age ck c) \<and> d' = map_option (adel n) d"
  by (auto simp: reconcile_expired_claim_def is_consumed_def split: option.splits if_splits)

lemma reconcile_kept:
  "reconcile_expired_claim ck ttl n d = (r, d') \<Longrightarrow> (\<And>prov age. r \<noteq> Reconciled prov age) \<Longrightarrow> d' = d"
  by (auto simp: reconcile_expired_claim_def split: option.splits if_splits)

lemma log_event_claims: "log_event sha ck t evt w = (b, w') \<Longrightarrow> w_claims w' = w_claims w"
  by (auto simp: log_event_def split: prod.splits)

lemma log_event_snd [simp]: "w_claims (snd (log_event sha ck t evt w)) = w_claims w"
  by (simp add: log_event_def case_prod_unfold Let_def)

lemma map_of_written:
  "wf_map m \<Longrightarrow> map_of (filter (\<lambda>(_, v). v \<noteq> JUndef) m) k = (case map_of m k of Some v \<Rightarrow> if v = JUndef then None else Some v | None \<Rightarrow> None)"
proof (induction m)
  case (Cons kv m)
  obtain k' v where kv: "kv = (k', v)" by (cases kv)
  have "map_of m k' = None" "wf_map m"
    using Cons.prems by (simp_all add: kv wf_map_def set_akeys_dom domIff)
  then show ?case using Cons.IH by (cases "k = k'") (simp_all add: kv)
qed simp

lemma written_get: "k \<notin> set proto_names \<Longrightarrow> wf_map m \<Longrightarrow> jget (written m) k = own_get m k"
  by (cases "map_of m k") (simp_all add: written_def own_get_def map_of_written)

lemma stamp_reads:
  "truthy (stamp ck p)" "jget (stamp ck p) ''by'' = jget p ''by''" "jget (stamp ck p) ''at'' = JStr (ck_iso ck (ck_now ck))"
proof -
  show "truthy (stamp ck p)" by (simp add: stamp_def written_def)
  show "jget (stamp ck p) ''by'' = jget p ''by''" "jget (stamp ck p) ''at'' = JStr (ck_iso ck (ck_now ck))"
    unfolding stamp_def by (subst written_get; simp add: proto_names_def wf_map_def own_get_def)+
qed

end
