(* ===== verification/Slots.thy ===== *)
theory Slots
  imports Claims
begin

text \<open>
  The shared counters of the terminals (\<open>src/scripts/sma/lib/slots.mjs\<close>): the next migration number,
  the next release version, the next number of a planning counter, and the advisory claim on a
  deploy. Each number is taken through the claim gate of \<open>Claims\<close>, five candidates at most.

  A call of git is the argument \<open>git\<close>, \<open>None\<close> when it throws; files and directory listings are the record
  \<open>planning_files\<close>, with \<open>join\<close> of \<open>node:path\<close> as a function. The regular expressions of the scanners
  are written out. Messages in words are values of \<open>slot_warn\<close>, put into text by \<open>se_say\<close>.
\<close>

section \<open>Scanning text for numbers\<close>

text \<open>All matches of a global regular expression: \<open>m\<close> answers, after the character \<open>prev\<close>, the match at the
  head of the text with its length; the search goes on behind it.\<close>

function all_matches :: "(char option \<Rightarrow> string \<Rightarrow> ('a \<times> nat) option) \<Rightarrow> char option \<Rightarrow> string \<Rightarrow> 'a list" where
  "all_matches m prev [] = []"
| "all_matches m prev (c # cs) =
     (case m prev (c # cs) of
        None \<Rightarrow> all_matches m (Some c) cs
      | Some (v, k) \<Rightarrow> v # all_matches m (Some ((c # cs) ! (k - 1))) (drop (k - 1) cs))"
  by pat_completeness auto
termination by (relation "measure (\<lambda>(m, prev, s). length s)") auto

definition slug_char :: "char \<Rightarrow> bool" where
  "slug_char c \<longleftrightarrow> is_digit c \<or> 97 \<le> code_of c \<and> code_of c \<le> 122 \<or> c = CHR ''_''"

abbreviation quote_char :: char where "quote_char \<equiv> CHR 0x27"

text \<open>\<open>/name:\s*'(\d{3})_([a-z0-9_]+)'/\<close>.\<close>

definition migration_at :: "char option \<Rightarrow> string \<Rightarrow> ((nat \<times> string) \<times> nat) option" where
  "migration_at prev s =
     (let r = dropWhile js_ws (drop 5 s); ds = take 3 (tl r); r2 = drop 4 (tl r);
          body = takeWhile slug_char r2; rest = dropWhile slug_char r2
      in if str_prefix ''name:'' s \<and> str_prefix [quote_char] r \<and> length ds = 3 \<and> list_all is_digit ds
            \<and> str_prefix ''_'' (drop 3 (tl r)) \<and> body \<noteq> [] \<and> str_prefix [quote_char] rest
         then Some ((digits_val ds, ds @ ''_'' @ body), length s - (length rest - 1)) else None)"

definition extract_max_number :: "string \<Rightarrow> int \<times> string option" where
  "extract_max_number s =
     foldl (\<lambda>(best, entry) (n, e). if int n > best then (int n, Some e) else (best, entry)) (- 1, None) (all_matches migration_at None s)"

text \<open>\<open>opening (\d+) closing\<close>.\<close>

definition number_at :: "string \<Rightarrow> string \<Rightarrow> char option \<Rightarrow> string \<Rightarrow> (nat \<times> nat) option" where
  "number_at opening closing prev s =
     (let r = drop (length opening) s; ds = takeWhile is_digit r; rest = dropWhile is_digit r
      in if str_prefix opening s \<and> ds \<noteq> [] \<and> str_prefix closing rest
         then Some (digits_val ds, length opening + length ds + length closing) else None)"

definition line_end :: "char \<Rightarrow> bool" where
  "line_end c \<longleftrightarrow> code_of c = 10 \<or> code_of c = 13"

text \<open>\<open>/^###\s+Phase\s+(\d+)/m\<close>.\<close>

definition phase_at :: "char option \<Rightarrow> string \<Rightarrow> (nat \<times> nat) option" where
  "phase_at prev s =
     (let r1 = drop 3 s; r2 = dropWhile js_ws r1; r3 = drop 5 r2; r4 = dropWhile js_ws r3;
          ds = takeWhile is_digit r4
      in if (case prev of None \<Rightarrow> True | Some c \<Rightarrow> line_end c) \<and> str_prefix ''###'' s \<and> r1 \<noteq> r2
            \<and> str_prefix ''Phase'' r2 \<and> r3 \<noteq> r4 \<and> ds \<noteq> []
         then Some (digits_val ds, length s - length (dropWhile is_digit r4)) else None)"

definition extract_max_by_regex :: "(char option \<Rightarrow> string \<Rightarrow> (nat \<times> nat) option) \<Rightarrow> string \<Rightarrow> int" where
  "extract_max_by_regex m s = foldl (\<lambda>best n. if int n > best then int n else best) (- 1) (all_matches m None s)"

definition pad_start :: "nat \<Rightarrow> string \<Rightarrow> string" where
  "pad_start w s = replicate (w - length s) (CHR ''0'') @ s"

definition pad_migration :: "nat \<Rightarrow> string" where
  "pad_migration n = pad_start 3 (dec_nat n)"

section \<open>The loop over candidates\<close>

datatype slot_warn = Origin_offline | Slot_taken string jsval | Tries_exhausted

record slot_env =
  se_sha :: "string \<Rightarrow> string"
  se_clock :: clock
  se_say :: "slot_warn \<Rightarrow> string"
  se_other :: string

text \<open>What the two allocators differ in: the name of a slot and of a number, the stamp, the terminal,
  the extra member \<open>kind\<close> of an event, and a warning from before the loop.\<close>

record slot_job =
  sj_slot :: "nat \<Rightarrow> string"
  sj_format :: "nat \<Rightarrow> string"
  sj_prov :: jsval
  sj_terminal :: string
  sj_extra :: jsmap
  sj_warn :: "slot_warn option"

record slot_grant =
  sg_number :: nat
  sg_id :: string
  sg_won :: bool
  sg_reconciled :: bool
  sg_warn :: "slot_warn option"

definition or_warn :: "slot_warn option \<Rightarrow> slot_warn option \<Rightarrow> slot_warn option" where
  "or_warn a b = (case a of None \<Rightarrow> b | Some _ \<Rightarrow> a)"

definition warn_value :: "slot_env \<Rightarrow> slot_warn option \<Rightarrow> jsval" where
  "warn_value env a = (case a of None \<Rightarrow> JUndef | Some x \<Rightarrow> JStr (se_say env x))"

text \<open>A journal that cannot be appended to throws out of the allocator: \<open>Threw\<close>.\<close>

datatype attempt_result = Took slot_grant | Lost slot_warn | Threw

definition note_slot :: "slot_env \<Rightarrow> slot_job \<Rightarrow> string \<Rightarrow> nat \<Rightarrow> jsmap \<Rightarrow> world \<Rightarrow> bool \<times> world" where
  "note_slot env job kind n detail w =
     log_event (se_sha env) (se_clock env) (sj_terminal job) (slot_event kind [] (JStr (sj_slot job n)) detail) w"

definition take_number :: "slot_env \<Rightarrow> slot_job \<Rightarrow> nat \<Rightarrow> bool \<Rightarrow> slot_warn option \<Rightarrow> world \<Rightarrow> attempt_result \<times> world" where
  "take_number env job n again race w =
     (let fin = or_warn race (sj_warn job);
          detail = [(''number'', JInt (int n))] @ sj_extra job @ (if again then [(''reconciled'', JBool True)] else [])
            @ [(''warn'', warn_value env fin)];
          (done_ok, w') = note_slot env job ''claim'' n detail w
      in (if done_ok then Took \<lparr>sg_number = n, sg_id = sj_format job n, sg_won = True, sg_reconciled = again, sg_warn = fin\<rparr>
          else Threw, w'))"

definition holder_name :: "slot_env \<Rightarrow> jsval \<Rightarrow> jsval" where
  "holder_name env holder = (if truthy holder \<and> truthy (jget holder ''by'') then jget holder ''by'' else JStr (se_other env))"

definition lose_number :: "slot_env \<Rightarrow> slot_job \<Rightarrow> nat \<Rightarrow> jsval \<Rightarrow> world \<Rightarrow> attempt_result \<times> world" where
  "lose_number env job n holder w =
     (let who = holder_name env holder;
          (done_ok, w') = note_slot env job ''warn'' n ([(''lostTo'', who)] @ sj_extra job) w
      in (if done_ok then Lost (Slot_taken (sj_slot job n) who) else Threw, w'))"

definition attempt_number :: "slot_env \<Rightarrow> slot_job \<Rightarrow> nat \<Rightarrow> slot_warn option \<Rightarrow> world \<Rightarrow> attempt_result \<times> world" where
  "attempt_number env job n race w =
     (let ck = se_clock env; slot = sj_slot job n in
      case claim_slot ck slot (sj_prov job) (w_claims w) of
        (Won, d) \<Rightarrow> take_number env job n False race (w\<lparr>w_claims := d\<rparr>)
      | (Held holder, d) \<Rightarrow>
          (case reconcile_expired_claim ck slot_claim_ttl_ms slot d of
             (Reconciled gone age, d1) \<Rightarrow>
               (let from = (if truthy gone \<and> truthy (jget gone ''by'') then jget gone ''by'' else JNull);
                    (done_ok, w1) = note_slot env job ''reconcile'' n ([(''number'', JInt (int n))] @ sj_extra job
                      @ [(''reclaimedFrom'', from), (''ageMs'', JNum (Fin age))]) (w\<lparr>w_claims := d1\<rparr>)
                in if \<not> done_ok then (Threw, w1)
                   else (case claim_slot ck slot (sj_prov job) (w_claims w1) of
                           (Won, d2) \<Rightarrow> take_number env job n True race (w1\<lparr>w_claims := d2\<rparr>)
                         | (Held _, d2) \<Rightarrow> lose_number env job n holder (w1\<lparr>w_claims := d2\<rparr>)))
           | (_, d1) \<Rightarrow> lose_number env job n holder (w\<lparr>w_claims := d1\<rparr>)))"

fun try_slots :: "slot_env \<Rightarrow> slot_job \<Rightarrow> nat \<Rightarrow> nat \<Rightarrow> slot_warn option \<Rightarrow> world \<Rightarrow> slot_grant option \<times> world" where
  "try_slots env job 0 n race w =
     (Some \<lparr>sg_number = n, sg_id = sj_format job n, sg_won = False, sg_reconciled = False,
        sg_warn = or_warn (or_warn race (sj_warn job)) (Some Tries_exhausted)\<rparr>, w)"
| "try_slots env job (Suc tries) n race w =
     (if is_cooling_down (se_clock env) (sj_slot job n) (w_claims w) then try_slots env job tries (n + 1) race w
      else case attempt_number env job n race w of
             (Took g, w') \<Rightarrow> (Some g, w')
           | (Threw, w') \<Rightarrow> (None, w')
           | (Lost x, w') \<Rightarrow> try_slots env job tries (n + 1) (Some x) w')"

definition slot_tries :: nat where "slot_tries = 5"

definition slot_prov :: "jsval \<Rightarrow> jsval \<Rightarrow> string \<Rightarrow> jsval" where
  "slot_prov opts expected reason =
     JObj [(''by'', jget opts ''by''), (''session'', coalesce (jget opts ''session'') JNull), (''expectedPrev'', expected),
       (''reason'', JStr reason)]"

definition terminal_of :: "jsval \<Rightarrow> string" where
  "terminal_of opts = to_str (coalesce (coalesce (jget opts ''terminalId'') (jget opts ''by'')) (JStr ''unknown''))"

section \<open>Migration numbers\<close>

type_synonym git = "string list \<Rightarrow> string option"

record planning_files =
  pf_read :: "string \<Rightarrow> string option"
  pf_list :: "string \<Rightarrow> (string \<times> bool) list option"
  pf_join :: "string \<Rightarrow> string \<Rightarrow> string"

definition text_or_empty :: "string option \<Rightarrow> string" where
  "text_or_empty t = (case t of None \<Rightarrow> [] | Some s \<Rightarrow> s)"

definition migration_job :: "jsval \<Rightarrow> string option \<Rightarrow> slot_warn option \<Rightarrow> slot_job" where
  "migration_job opts entry offline =
     \<lparr>sj_slot = (\<lambda>n. ''migration-'' @ pad_migration n), sj_format = (\<lambda>n. pad_migration n @ ''_<phaseNN>_<snake_name>''),
      sj_prov = slot_prov opts (case entry of None \<Rightarrow> JNull | Some e \<Rightarrow> JStr e) ''migration-number'',
      sj_terminal = terminal_of opts, sj_extra = [], sj_warn = offline\<rparr>"

definition next_migration_slot :: "slot_env \<Rightarrow> git \<Rightarrow> planning_files \<Rightarrow> jsval \<Rightarrow> world \<Rightarrow> slot_grant option \<times> world" where
  "next_migration_slot env git fs opts w =
     (let offline = (if git [''fetch'', ''origin''] = None then Some Origin_offline else None);
          here = extract_max_number (text_or_empty (pf_read fs (to_str (coalesce (jget opts ''migrationsPath'') (JStr ''src/migrations/index.ts'')))));
          there = extract_max_number (text_or_empty (git [''show'', ''origin/main:src/migrations/index.ts'']));
          entry = (if fst here \<ge> fst there then snd here else snd there)
      in try_slots env (migration_job opts entry offline) slot_tries (nat (max (fst here) (fst there) + 1)) None w)"

section \<open>Release versions\<close>

text \<open>\<open>/^V(\d+)\.(\d+)$/\<close>: the minor of a tag.\<close>

definition version_minor :: "string \<Rightarrow> nat option" where
  "version_minor t =
     (let major = takeWhile is_digit (drop 1 t); r = dropWhile is_digit (drop 1 t); minor = drop 1 r
      in if str_prefix ''V'' t \<and> major \<noteq> [] \<and> str_prefix ''.'' r \<and> minor \<noteq> [] \<and> list_all is_digit minor
         then Some (digits_val minor) else None)"

definition list_release_tags :: "git \<Rightarrow> string list \<times> slot_warn option" where
  "list_release_tags git =
     (filter (\<lambda>t. version_minor t \<noteq> None) (map js_trim (js_split newline (text_or_empty (git [''tag'', ''-l'', ''V1.*''])))),
      if git [''fetch'', ''--tags'', ''origin''] = None then Some Origin_offline else None)"

definition max_minor :: "string list \<Rightarrow> int" where
  "max_minor tags = foldl (\<lambda>best t. case version_minor t of None \<Rightarrow> best | Some n \<Rightarrow> if int n > best then int n else best) (- 1) tags"

definition next_release_version :: "git \<Rightarrow> string \<times> slot_warn option" where
  "next_release_version git =
     (let (tags, offline) = list_release_tags git in (''V1.'' @ dec_nat (nat (max_minor tags + 1)), offline))"

definition verify_release_still_free :: "string \<Rightarrow> git \<Rightarrow> bool" where
  "verify_release_still_free version git \<longleftrightarrow> \<not> List.member (fst (list_release_tags git)) version"

section \<open>The deploy signal\<close>

definition push_slot :: string where "push_slot = ''push-in-progress''"

datatype push_acquired = Acquired | Not_acquired jsval | Push_threw

definition push_prov :: "jsval \<Rightarrow> jsval" where
  "push_prov opts =
     (let planned = coalesce (jget opts ''plannedVersion'') JNull in
      JObj [(''by'', jget opts ''by''), (''session'', coalesce (jget opts ''session'') JNull), (''expectedPrev'', JNull),
        (''reason'', JStr (if truthy planned then ''push-in-progress:'' @ to_str planned else ''push-in-progress''))])"

definition log_push :: "slot_env \<Rightarrow> jsval \<Rightarrow> jsval \<Rightarrow> world \<Rightarrow> bool \<times> world" where
  "log_push env opts evt w =
     log_event (se_sha env) (se_clock env) (to_str (coalesce (jget opts ''by'') (JStr ''unknown''))) evt w"

definition acquire_push_claim :: "slot_env \<Rightarrow> jsval \<Rightarrow> world \<Rightarrow> push_acquired \<times> world" where
  "acquire_push_claim env opts w =
     (case claim_slot (se_clock env) push_slot (push_prov opts) (w_claims w) of
        (Held holder, d) \<Rightarrow> (Not_acquired (coalesce holder JNull), w\<lparr>w_claims := d\<rparr>)
      | (Won, d) \<Rightarrow>
          let (done_ok, w') = log_push env opts (slot_event ''claim'' [] (JStr push_slot)
                [(''plannedVersion'', coalesce (jget opts ''plannedVersion'') JNull)]) (w\<lparr>w_claims := d\<rparr>)
          in (if done_ok then Acquired else Push_threw, w'))"

text \<open>\<open>None\<close>: the release stands and the journal threw.\<close>

definition release_push_claim :: "slot_env \<Rightarrow> jsval \<Rightarrow> world \<Rightarrow> release_result option \<times> world" where
  "release_push_claim env opts w =
     (case release_slot (se_clock env) (jget opts ''by'') False push_slot (w_claims w) of
        (Foreign, d) \<Rightarrow> (Some Foreign, w\<lparr>w_claims := d\<rparr>)
      | (Released, d) \<Rightarrow>
          let (done_ok, w') = log_push env opts (JObj [(''type'', JStr ''release''), (''scope'', JStr push_slot)]) (w\<lparr>w_claims := d\<rparr>)
          in (if done_ok then Some Released else None, w'))"

text \<open>\<open>/push-in-progress:(.+)$/\<close>.\<close>

fun planned_version :: "string \<Rightarrow> string option" where
  "planned_version [] = None"
| "planned_version (c # cs) =
     (let rest = drop 17 (c # cs) in
      if str_prefix ''push-in-progress:'' (c # cs) \<and> rest \<noteq> [] \<and> \<not> list_ex line_end rest then Some rest
      else planned_version cs)"

record push_view =
  pv_who :: jsval
  pv_since :: jsval
  pv_planned :: "string option"

datatype push_state = No_push | Push_stale push_view | Push_live push_view

definition check_push_claim :: "clock \<Rightarrow> string \<Rightarrow> claims_dir \<Rightarrow> push_state" where
  "check_push_claim ck unknown d =
     (case find (\<lambda>v. cv_name v = push_slot) (read_claims ck d) of
        None \<Rightarrow> No_push
      | Some v \<Rightarrow>
          let p = cv_prov v;
              since = (if truthy p \<and> truthy (jget p ''at'') then jget p ''at'' else JNull);
              view = \<lparr>pv_who = (if truthy p \<and> truthy (jget p ''by'') then jget p ''by'' else JStr unknown), pv_since = since,
                pv_planned = planned_version (to_str (js_or (and_get p ''reason'') (JStr [])))\<rparr>;
              age = (case (if truthy since then ck_parse ck (to_str since) else NaN) of
                       Fin t \<Rightarrow> of_nat (ck_now ck) - t | _ \<Rightarrow> of_int (cv_age v))
          in if age > push_claim_ttl_ms then Push_stale view else Push_live view)"

section \<open>Planning counters\<close>

datatype counter_error = Unknown_kind string | Needs_phase | Bad_prefix

record counter_spec =
  cs_numbers :: "char option \<Rightarrow> string \<Rightarrow> (nat \<times> nat) option"
  cs_source :: string
  cs_format :: "nat \<Rightarrow> string"
  cs_slot :: string

definition is_usable_id_prefix :: "jsval \<Rightarrow> bool" where
  "is_usable_id_prefix v \<longleftrightarrow> (case v of
       JStr s \<Rightarrow> 1 \<le> length s \<and> length s \<le> 64 \<and>
         list_all (\<lambda>c. is_digit c \<or> 65 \<le> code_of c \<and> code_of c \<le> 90 \<or> 97 \<le> code_of c \<and> code_of c \<le> 122
           \<or> c = CHR ''_'' \<or> c = CHR ''-'') s
     | _ \<Rightarrow> False)"

definition find_context_path :: "planning_files \<Rightarrow> string \<Rightarrow> string \<Rightarrow> string option" where
  "find_context_path fs base phase =
     (let dir = pf_join fs base ''phases'' in
      case pf_list fs dir of
        None \<Rightarrow> None
      | Some es \<Rightarrow>
          (case filter (\<lambda>(n, is_dir). is_dir \<and> str_prefix (phase @ ''-'') n) es of
             [] \<Rightarrow> None
           | (n, _) # _ \<Rightarrow>
               (case pf_list fs (pf_join fs dir n) of
                  None \<Rightarrow> None
                | Some files \<Rightarrow> map_option (\<lambda>(f, _). pf_join fs (pf_join fs dir n) f)
                    (find (\<lambda>(f, _). str_prefix (rev ''-CONTEXT.md'') (rev f)) files))))"

definition path_or :: "jsval \<Rightarrow> string \<Rightarrow> string" where
  "path_or v p = to_str (coalesce v (JStr p))"

definition counter_spec_of :: "planning_files \<Rightarrow> string \<Rightarrow> jsval \<Rightarrow> counter_error + counter_spec" where
  "counter_spec_of fs kind opts =
     (let base = path_or (jget opts ''planningRoot'') ''.planning''; read = (\<lambda>p. text_or_empty (pf_read fs p)) in
      if kind = ''bl'' then
        (let prefix = (if jget opts ''idPrefix'' = JUndef then JStr ''BL'' else jget opts ''idPrefix''); p = to_str prefix in
         if \<not> is_usable_id_prefix prefix then Inl Bad_prefix
         else Inr \<lparr>cs_numbers = number_at (''**'' @ p @ ''-'') ''**'',
                cs_source = read (path_or (jget opts ''backlogPath'') (pf_join fs base ''BACKLOG.md'')),
                cs_format = (\<lambda>n. p @ ''-'' @ dec_nat n), cs_slot = ''bl''\<rparr>)
      else if kind = ''action'' then
        Inr \<lparr>cs_numbers = number_at ''**A-'' ''**'',
          cs_source = read (path_or (jget opts ''actionsPath'') (pf_join fs base ''ACTIONS.md'')),
          cs_format = (\<lambda>n. ''A-'' @ pad_start 3 (dec_nat n)), cs_slot = ''action''\<rparr>
      else if kind = ''decision'' then
        (let phase = to_str (jget opts ''phase'') in
         if \<not> truthy (jget opts ''phase'') then Inl Needs_phase
         else Inr \<lparr>cs_numbers = number_at (''D-'' @ phase @ ''-'') '''',
                cs_source = (if is_nullish (jget opts ''contextPath'')
                  then (case find_context_path fs base phase of None \<Rightarrow> [] | Some p \<Rightarrow> read p)
                  else if truthy (jget opts ''contextPath'') then read (to_str (jget opts ''contextPath'')) else []),
                cs_format = (\<lambda>n. ''D-'' @ phase @ ''-'' @ pad_start 2 (dec_nat n)), cs_slot = ''decision-'' @ phase\<rparr>)
      else if kind = ''phase'' then
        Inr \<lparr>cs_numbers = phase_at, cs_source = read (path_or (jget opts ''roadmapPath'') (pf_join fs base ''ROADMAP.md'')),
          cs_format = dec_nat, cs_slot = ''phase''\<rparr>
      else Inl (Unknown_kind kind))"

datatype counter_answer = Refused counter_error | Dry_run nat string | Answered slot_grant | Counter_threw

definition counter_job :: "counter_spec \<Rightarrow> string \<Rightarrow> jsval \<Rightarrow> int \<Rightarrow> slot_job" where
  "counter_job spec kind opts best =
     \<lparr>sj_slot = (\<lambda>n. cs_slot spec @ ''-'' @ dec_nat n), sj_format = cs_format spec,
      sj_prov = slot_prov opts (if best \<ge> 0 then JStr (dec_nat (nat best)) else JNull) (cs_slot spec @ ''-number''),
      sj_terminal = terminal_of opts, sj_extra = [(''kind'', JStr kind)], sj_warn = None\<rparr>"

definition first_candidate :: "int \<Rightarrow> nat" where
  "first_candidate best = (if best + 1 < 1 then 1 else nat (best + 1))"

definition next_counter_slot :: "slot_env \<Rightarrow> planning_files \<Rightarrow> string \<Rightarrow> jsval \<Rightarrow> world \<Rightarrow> counter_answer \<times> world" where
  "next_counter_slot env fs kind opts w =
     (case counter_spec_of fs kind opts of
        Inl e \<Rightarrow> (Refused e, w)
      | Inr spec \<Rightarrow>
          let best = extract_max_by_regex (cs_numbers spec) (cs_source spec); n = first_candidate best in
          if truthy (jget opts ''dryRun'') then (Dry_run n (cs_format spec n), w)
          else case try_slots env (counter_job spec kind opts best) slot_tries n None w of
                 (None, w') \<Rightarrow> (Counter_threw, w')
               | (Some g, w') \<Rightarrow> (Answered g, w'))"

section \<open>Marking a number as used\<close>

definition slot_name_for_kind :: "string \<Rightarrow> nat \<Rightarrow> jsval \<Rightarrow> string option" where
  "slot_name_for_kind kind n opts =
     (if kind = ''migration'' then Some (''migration-'' @ pad_migration n)
      else if kind \<in> {''bl'', ''action'', ''phase''} then Some (kind @ ''-'' @ dec_nat n)
      else if kind = ''decision'' then
        (if truthy (jget opts ''phase'') then Some (''decision-'' @ to_str (jget opts ''phase'') @ ''-'' @ dec_nat n) else None)
      else None)"

datatype consume_result = Consumed string | Not_claimed string | No_such_slot

definition mark_slot_consumed :: "clock \<Rightarrow> string \<Rightarrow> nat \<Rightarrow> jsval \<Rightarrow> claims_dir \<Rightarrow> consume_result \<times> claims_dir" where
  "mark_slot_consumed ck kind n opts d =
     (case slot_name_for_kind kind n opts of
        None \<Rightarrow> (No_such_slot, d)
      | Some slot \<Rightarrow> let (used, d') = mark_consumed ck slot d in (if used then Consumed slot else Not_claimed slot, d'))"

end
