(* ===== verification/Slot_Laws.thy ===== *)
theory Slot_Laws
  imports Slots Contracts
begin

text \<open>
  What the claim gate promises to the holder of a slot: whatever other terminals do, in any order, his
  claim stands until it expires unconsumed, he releases it, or somebody forces it; so a number is
  not given twice and a deploy signal is not taken over. Every operation of the slots is an
  operation of one state, and the claim is an invariant of the operations that spare it.
\<close>

section \<open>Operations\<close>

datatype slot_request = Migration git planning_files jsval | Counter planning_files string jsval

text \<open>An allocation with the name of its slot, as \<open>slotNameForKind\<close> tells it.\<close>

fun allocate :: "slot_env \<Rightarrow> slot_request \<Rightarrow> world \<Rightarrow> (string \<times> slot_grant) option \<times> world" where
  "allocate env (Migration git fs opts) w =
     (case next_migration_slot env git fs opts w of
        (Some g, w') \<Rightarrow> (map_option (\<lambda>s. (s, g)) (slot_name_for_kind ''migration'' (sg_number g) opts), w')
      | (None, w') \<Rightarrow> (None, w'))"
| "allocate env (Counter fs kind opts) w =
     (case next_counter_slot env fs kind opts w of
        (Answered g, w') \<Rightarrow> (map_option (\<lambda>s. (s, g)) (slot_name_for_kind kind (sg_number g) opts), w')
      | (_, w') \<Rightarrow> (None, w'))"

text \<open>The command \<open>force-clear\<close>: it names a claim that exists and needs a confirmation with a record of evidence
  (\<open>confirmed\<close>), and releases it whoever holds it. Its journal lines decide nothing about the claims.\<close>

definition force_clear :: "clock \<Rightarrow> bool \<Rightarrow> jsval \<Rightarrow> string \<Rightarrow> claims_dir \<Rightarrow> bool \<times> claims_dir" where
  "force_clear ck confirmed by n d =
     (if confirmed \<and> list_ex (\<lambda>v. cv_name v = n) (read_claims ck d) then (True, snd (release_slot ck by True n d)) else (False, d))"

text \<open>The cleaning of \<open>status --cleanup-stale\<close>: every expired, unconsumed claim is reconciled away.\<close>

definition clean_stale :: "clock \<Rightarrow> claims_dir \<Rightarrow> claims_dir" where
  "clean_stale ck d = fold (\<lambda>v d. snd (reconcile_expired_claim ck slot_claim_ttl_ms (cv_name v) d)) (read_claims ck d) d"

datatype slot_op =
    Allocate slot_request
  | Consume string nat jsval
  | Push_take jsval
  | Push_drop jsval
  | Take_named string jsval
  | Release_own jsval string
  | End_session jsval jsval
  | Force_clear bool jsval string
  | Evidence_release string jsval jsval jsval jsval jsval
  | Clean_stale

fun slot_step :: "slot_env \<times> slot_op \<Rightarrow> world \<Rightarrow> world" where
  "slot_step (env, Allocate req) w = snd (allocate env req w)"
| "slot_step (env, Consume kind n opts) w = w\<lparr>w_claims := snd (mark_slot_consumed (se_clock env) kind n opts (w_claims w))\<rparr>"
| "slot_step (env, Push_take opts) w = snd (acquire_push_claim env opts w)"
| "slot_step (env, Push_drop opts) w = snd (release_push_claim env opts w)"
| "slot_step (env, Release_own by n) w = w\<lparr>w_claims := snd (release_slot (se_clock env) by False n (w_claims w))\<rparr>"
| "slot_step (env, End_session identity by) w = snd (session_end (se_sha env) (se_clock env) identity by w)"
| "slot_step (env, Take_named n p) w = w\<lparr>w_claims := snd (claim_slot (se_clock env) n p (w_claims w))\<rparr>"
| "slot_step (env, Force_clear confirmed by n) w = w\<lparr>w_claims := snd (force_clear (se_clock env) confirmed by n (w_claims w))\<rparr>"
| "slot_step (env, Evidence_release dash c dirty commit by terminal) w =
     snd (commit_evidence_release (se_sha env) (se_clock env) dash c dirty commit by terminal w)"
| "slot_step (env, Clean_stale) w = w\<lparr>w_claims := clean_stale (se_clock env) (w_claims w)\<rparr>"

text \<open>The claim on \<open>n\<close> of \<open>by\<close>, stamped at the time \<open>t0\<close>.\<close>

definition stamped :: "(string \<Rightarrow> jsnum) \<Rightarrow> jsval \<Rightarrow> nat \<Rightarrow> bool \<Rightarrow> claim \<Rightarrow> bool" where
  "stamped parse by t0 used c \<longleftrightarrow> truthy (cl_prov c) \<and> jget (cl_prov c) ''by'' = by \<and> truthy (jget (cl_prov c) ''at'') \<and>
     parse (to_str (jget (cl_prov c) ''at'')) = Fin (of_nat t0) \<and> (used \<longrightarrow> cl_consumed c)"

definition kept_claim :: "(string \<Rightarrow> jsnum) \<Rightarrow> string \<Rightarrow> jsval \<Rightarrow> nat \<Rightarrow> bool \<Rightarrow> claims_dir \<Rightarrow> bool" where
  "kept_claim parse n by t0 used d \<longleftrightarrow> (\<exists>c. claim_of d n = Some c \<and> stamped parse by t0 used c)"

text \<open>Names of number slots end in a digit.\<close>

definition numbered :: "string \<Rightarrow> bool" where
  "numbered n \<longleftrightarrow> n \<noteq> [] \<and> is_digit (last n)"

definition unexpired :: "nat \<Rightarrow> bool \<Rightarrow> clock \<Rightarrow> bool" where
  "unexpired t0 used ck \<longleftrightarrow> used \<or> of_nat (ck_now ck) - of_nat t0 \<le> slot_claim_ttl_ms"

definition within_ttl :: "(string \<Rightarrow> jsnum) \<Rightarrow> string \<Rightarrow> nat \<Rightarrow> bool \<Rightarrow> clock \<Rightarrow> bool" where
  "within_ttl parse n t0 used ck \<longleftrightarrow> ck_parse ck = parse \<and>
     (\<not> numbered n \<or> unexpired t0 used ck)"

text \<open>The operations that leave the claim on \<open>n\<close> alone: they do not release it in the name of its holder, nor
  by force or on the evidence of a commit, and whoever reconciles expired claims comes in time.\<close>

fun spares :: "(string \<Rightarrow> jsnum) \<Rightarrow> string \<Rightarrow> jsval \<Rightarrow> nat \<Rightarrow> bool \<Rightarrow> slot_env \<times> slot_op \<Rightarrow> bool" where
  "spares parse n by t0 used (env, Push_drop opts) = (jget opts ''by'' \<noteq> by \<or> n \<noteq> push_slot)"
| "spares parse n by t0 used (env, Release_own by' m) = (by' \<noteq> by \<or> m \<noteq> n)"
| "spares parse n by t0 used (env, End_session identity by') = (js_or (jget identity ''holderIdentity'') by' \<noteq> by)"
| "spares parse n by t0 used (env, Allocate req) = within_ttl parse n t0 used (se_clock env)"
| "spares parse n by t0 used (env, Force_clear confirmed by' m) = (\<not> confirmed \<or> m \<noteq> n)"
| "spares parse n by t0 used (env, Evidence_release dash c dirty commit by' terminal) =
     (truthy dirty \<or> \<not> truthy commit \<or> \<not> truthy (jget c ''name'') \<or> to_str (jget c ''name'') \<noteq> n)"
| "spares parse n by t0 used (env, Clean_stale) = (ck_parse (se_clock env) = parse \<and> unexpired t0 used (se_clock env))"
| "spares parse n by t0 used (env, _) = True"

section \<open>One attempt\<close>

lemma stamped_age: "stamped parse by t0 used c \<Longrightarrow> ck_parse ck = parse \<Longrightarrow> claim_age ck c = of_nat (ck_now ck) - of_nat t0"
  by (simp add: claim_age_def stamped_def)

lemma kept_claim_slot:
  "kept_claim parse n by t0 used d \<Longrightarrow> claim_slot ck m p d = (r, d') \<Longrightarrow> kept_claim parse n by t0 used d' \<and> (r = Won \<longrightarrow> m \<noteq> n)"
proof -
  assume kept: "kept_claim parse n by t0 used d" and run: "claim_slot ck m p d = (r, d')"
  then obtain c where c: "entry_of d n = Some (Claim_dir c)" "stamped parse by t0 used c"
    by (auto simp: kept_claim_def claim_entry)
  then have "entry_of d' n = Some (Claim_dir c)" using claim_slot_entry [OF run, of n] by auto
  moreover have "m \<noteq> n" if "r = Won" using that run c(1) by (auto simp: claim_slot_won)
  ultimately show ?thesis using c(2) by (auto simp: kept_claim_def claim_entry)
qed

lemma kept_reconcile:
  assumes "kept_claim parse n by t0 used d" "ck_parse ck = parse" "reconcile_expired_claim ck slot_claim_ttl_ms m d = (r, d')"
    and "m = n \<Longrightarrow> unexpired t0 used ck"
  shows "kept_claim parse n by t0 used d'"
proof (cases "\<exists>prov age. r = Reconciled prov age")
  case True
  then obtain c' where c': "claim_of d m = Some c'" "\<not> cl_consumed c'" "slot_claim_ttl_ms < claim_age ck c'"
    "d' = map_option (adel m) d" using assms(3) by (auto simp: reconcile_done)
  have "m \<noteq> n"
  proof
    assume "m = n"
    then have "stamped parse by t0 used c'" using assms(1) c'(1) by (simp add: kept_claim_def)
    then have "claim_age ck c' = of_nat (ck_now ck) - of_nat t0" "\<not> used"
      using assms(2) c'(2) by (auto simp: stamped_age stamped_def)
    then show False using assms(4) c'(3) \<open>m = n\<close> by (simp add: unexpired_def)
  qed
  then show ?thesis using assms(1) c'(4) by (simp add: kept_claim_def claim_adel)
next
  case False
  then show ?thesis using assms(1) reconcile_kept [OF assms(3)] by blast
qed

lemma note_slot_claims: "note_slot env job kind n detail w = (b, w') \<Longrightarrow> w_claims w' = w_claims w"
  by (auto simp: note_slot_def dest: log_event_claims)

lemma take_number_claims:
  assumes "take_number env job n again race w = (r, w')"
  shows "w_claims w' = w_claims w \<and> (r = Threw \<or> (\<exists>g. r = Took g \<and> sg_number g = n \<and> sg_won g))"
proof -
  obtain detail done_ok where "note_slot env job ''claim'' n detail w = (done_ok, w')"
    and "r = Threw \<or> (\<exists>g. r = Took g \<and> sg_number g = n \<and> sg_won g)"
    using assms by (fastforce simp: take_number_def Let_def split: prod.splits if_splits)
  then show ?thesis using note_slot_claims by blast
qed

lemma lose_number_claims:
  assumes "lose_number env job n holder w = (r, w')"
  shows "w_claims w' = w_claims w \<and> (r = Threw \<or> (\<exists>x. r = Lost x))"
proof -
  obtain detail done_ok where "note_slot env job ''warn'' n detail w = (done_ok, w')"
    and "r = Threw \<or> (\<exists>x. r = Lost x)"
    using assms by (fastforce simp: lose_number_def Let_def split: prod.splits if_splits)
  then show ?thesis using note_slot_claims by blast
qed

lemma kept_attempt:
  assumes "kept_claim parse n by t0 used (w_claims w)" "within_ttl parse n t0 used (se_clock env)" "numbered (sj_slot job k)"
    and "attempt_number env job k race w = (r, w')"
  shows "kept_claim parse n by t0 used (w_claims w') \<and> (\<forall>g. r = Took g \<longrightarrow> sg_number g = k \<and> sg_won g \<and> sj_slot job k \<noteq> n)"
proof -
  let ?kept = "kept_claim parse n by t0 used" and ?slot = "sj_slot job k" and ?ck = "se_clock env"
  obtain a d where a: "claim_slot ?ck ?slot (sj_prov job) (w_claims w) = (a, d)" by fastforce
  have d: "?kept d" "a = Won \<longrightarrow> ?slot \<noteq> n" using kept_claim_slot [OF assms(1) a] by auto
  show ?thesis
  proof (cases a)
    case Won
    then show ?thesis using assms(4) a d by (auto simp: attempt_number_def Let_def dest!: take_number_claims)
  next
    case (Held holder)
    obtain b d1 where b: "reconcile_expired_claim ?ck slot_claim_ttl_ms ?slot d = (b, d1)" by fastforce
    have d1: "?kept d1"
      by (rule kept_reconcile [OF d(1) _ b]) (use assms(2,3) in \<open>auto simp: within_ttl_def\<close>)
    show ?thesis
    proof (cases "\<exists>gone age. b = Reconciled gone age")
      case False
      then have "attempt_number env job k race w = lose_number env job k holder (w\<lparr>w_claims := d1\<rparr>)"
        by (cases b) (auto simp: attempt_number_def a Held b)
      then have "lose_number env job k holder (w\<lparr>w_claims := d1\<rparr>) = (r, w')" using assms(4) by simp
      from lose_number_claims [OF this] show ?thesis using d1 by auto
    next
      case True
      then obtain gone age where gone: "b = Reconciled gone age" by blast
      define origin where "origin = (if truthy gone \<and> truthy (jget gone ''by'') then jget gone ''by'' else JNull)"
      obtain done_ok w1 where w1: "note_slot env job ''reconcile'' k ([(''number'', JInt (int k))] @ sj_extra job
          @ [(''reclaimedFrom'', origin), (''ageMs'', JNum (Fin age))]) (w\<lparr>w_claims := d1\<rparr>) = (done_ok, w1)" by fastforce
      then have c1: "w_claims w1 = d1" by (auto dest!: note_slot_claims)
      obtain a2 d2 where a2: "claim_slot ?ck ?slot (sj_prov job) d1 = (a2, d2)" by fastforce
      have d2: "?kept d2" "a2 = Won \<longrightarrow> ?slot \<noteq> n" using kept_claim_slot [OF d1 a2] by auto
      have run: "(if \<not> done_ok then (Threw, w1)
          else case (a2, d2) of (Won, d) \<Rightarrow> take_number env job k True race (w1\<lparr>w_claims := d\<rparr>)
            | (Held _, d) \<Rightarrow> lose_number env job k holder (w1\<lparr>w_claims := d\<rparr>)) = (r, w')"
        using assms(4) w1 a2 c1 by (cases done_ok) (simp_all add: attempt_number_def a Held b gone origin_def Let_def)
      show ?thesis
        using run d1 d2 c1 by (cases a2) (auto split: if_splits dest!: take_number_claims lose_number_claims)
    qed
  qed
qed

lemma kept_try:
  assumes "kept_claim parse n by t0 used (w_claims w)" "within_ttl parse n t0 used (se_clock env)"
    and "\<And>k. numbered (sj_slot job k)" "try_slots env job tries k race w = (r, w')"
  shows "kept_claim parse n by t0 used (w_claims w') \<and> (\<forall>g. r = Some g \<longrightarrow> sg_won g \<longrightarrow> sj_slot job (sg_number g) \<noteq> n)"
  using assms(1,4)
proof (induction tries arbitrary: k race w)
  case 0
  then show ?case by auto
next
  case (Suc tries)
  show ?case
  proof (cases "is_cooling_down (se_clock env) (sj_slot job k) (w_claims w)")
    case True
    then have "try_slots env job tries (k + 1) race w = (r, w')" using Suc.prems(2) by simp
    then show ?thesis by (rule Suc.IH [OF Suc.prems(1)])
  next
    case False
    obtain a w1 where a: "attempt_number env job k race w = (a, w1)" by fastforce
    note one = kept_attempt [OF Suc.prems(1) assms(2) assms(3) a]
    show ?thesis
    proof (cases a)
      case (Lost x)
      then show ?thesis using Suc.IH [of w1 "k + 1" "Some x"] Suc.prems(2) False a one by simp
    qed (use Suc.prems(2) False a one in auto)
  qed
qed

section \<open>Every operation\<close>

lemma digit_last: "is_digit (last (dec_nat n))"
  by (rule dec_nat_digits [of _ n]) simp

lemma numbered_job [simp]: "numbered (sj_slot (migration_job opts entry offline) k)" "numbered (sj_slot (counter_job spec kind opts best) k)"
  using digit_last by (simp_all add: numbered_def migration_job_def counter_job_def pad_migration_def pad_start_def)

lemma counter_slot_name:
  assumes "counter_spec_of fs kind opts = Inr spec"
  shows "slot_name_for_kind kind n opts = Some (sj_slot (counter_job spec kind opts best) n)"
  using assms
  by (auto simp: counter_spec_of_def Let_def slot_name_for_kind_def counter_job_def split: if_splits)

lemma next_counter_run:
  "next_counter_slot env fs kind opts w = (Answered g, w') \<longleftrightarrow>
     (\<exists>spec. counter_spec_of fs kind opts = Inr spec \<and> \<not> truthy (jget opts ''dryRun'') \<and>
        try_slots env (counter_job spec kind opts (extract_max_by_regex (cs_numbers spec) (cs_source spec))) slot_tries
          (first_candidate (extract_max_by_regex (cs_numbers spec) (cs_source spec))) None w = (Some g, w'))"
  by (auto simp: next_counter_slot_def Let_def split: sum.splits prod.splits option.splits if_splits)

lemma kept_counter:
  assumes "kept_claim parse n by t0 used (w_claims w)" "within_ttl parse n t0 used (se_clock env)"
    and "next_counter_slot env fs kind opts w = (r, w')"
  shows "kept_claim parse n by t0 used (w_claims w') \<and>
    (\<forall>g. r = Answered g \<longrightarrow> sg_won g \<longrightarrow> slot_name_for_kind kind (sg_number g) opts \<noteq> Some n)"
proof (cases "counter_spec_of fs kind opts")
  case (Inl e)
  then show ?thesis using assms by (auto simp: next_counter_slot_def)
next
  case (Inr spec)
  define best where "best = extract_max_by_regex (cs_numbers spec) (cs_source spec)"
  obtain a w1 where a: "try_slots env (counter_job spec kind opts best) slot_tries (first_candidate best) None w = (a, w1)" by fastforce
  have one: "kept_claim parse n by t0 used (w_claims w1)"
    "\<And>g. a = Some g \<Longrightarrow> sg_won g \<Longrightarrow> sj_slot (counter_job spec kind opts best) (sg_number g) \<noteq> n"
    using kept_try [OF assms(1,2) numbered_job(2) a] by auto
  then show ?thesis
    using assms a counter_slot_name [OF Inr, of _ best]
    by (auto simp: next_counter_slot_def Inr best_def [symmetric] Let_def split: if_splits option.splits)
qed

lemma next_migration_run:
  assumes "next_migration_slot env git fs opts w = (r, w')"
  obtains entry offline k where "try_slots env (migration_job opts entry offline) slot_tries k None w = (r, w')"
  using assms by (simp add: next_migration_slot_def Let_def)

lemma migration_slot_name: "slot_name_for_kind ''migration'' n opts' = Some (sj_slot (migration_job opts entry offline) n)"
  by (simp add: slot_name_for_kind_def migration_job_def)

lemma kept_migration:
  assumes "kept_claim parse n by t0 used (w_claims w)" "within_ttl parse n t0 used (se_clock env)"
    and "next_migration_slot env git fs opts w = (r, w')"
  shows "kept_claim parse n by t0 used (w_claims w') \<and>
    (\<forall>g. r = Some g \<longrightarrow> sg_won g \<longrightarrow> slot_name_for_kind ''migration'' (sg_number g) opts' \<noteq> Some n)"
proof -
  obtain entry offline k where run: "try_slots env (migration_job opts entry offline) slot_tries k None w = (r, w')"
    using assms(3) by (rule next_migration_run)
  show ?thesis using kept_try [OF assms(1,2) numbered_job(1) run] migration_slot_name [of _ opts' opts entry offline] by simp
qed

lemma kept_allocate:
  assumes "kept_claim parse n by t0 used (w_claims w)" "within_ttl parse n t0 used (se_clock env)" "allocate env req w = (r, w')"
  shows "kept_claim parse n by t0 used (w_claims w') \<and> (\<forall>s g. r = Some (s, g) \<longrightarrow> sg_won g \<longrightarrow> s \<noteq> n)"
proof (cases req)
  case (Migration git fs opts)
  obtain a w1 where a: "next_migration_slot env git fs opts w = (a, w1)" by fastforce
  show ?thesis using kept_migration [OF assms(1,2) a, of opts] assms(3)
    by (cases a) (auto simp: Migration a)
next
  case (Counter fs kind opts)
  obtain a w1 where a: "next_counter_slot env fs kind opts w = (a, w1)" by fastforce
  show ?thesis using kept_counter [OF assms(1,2) a] assms(3)
    by (cases a) (auto simp: Counter a)
qed

lemma kept_release:
  assumes "kept_claim parse n by t0 used d" "by' \<noteq> by \<or> m \<noteq> n" "release_slot ck by' False m d = (r, d')"
  shows "kept_claim parse n by t0 used d'"
proof -
  obtain c where c: "claim_of d n = Some c" "stamped parse by t0 used c" using assms(1) by (auto simp: kept_claim_def)
  have "\<not> (r = Released \<and> m = n)"
    using assms(2,3) c release_slot_result [of ck by' False m d] by (auto simp: provenance_claim stamped_def)
  then show ?thesis using c release_slot_claim [OF assms(3), of n] by (auto simp: kept_claim_def)
qed

lemma kept_consume:
  assumes "kept_claim parse n by t0 used d"
  shows "kept_claim parse n by t0 used (snd (mark_consumed ck m d))"
proof -
  obtain c where c: "claim_of d n = Some c" "stamped parse by t0 used c" using assms by (auto simp: kept_claim_def)
  obtain r d' where r: "mark_consumed ck m d = (r, d')" by fastforce
  show ?thesis using c mark_consumed_claim [OF r, of n]
    by (cases "cl_consumed c"; cases "n = m \<and> r") (auto simp: r kept_claim_def stamped_def)
qed

lemma log_push_claims [simp]: "w_claims (snd (log_push env opts evt w)) = w_claims w"
  by (simp add: log_push_def)

lemma acquire_push_claims:
  "w_claims (snd (acquire_push_claim env opts w)) = snd (claim_slot (se_clock env) push_slot (push_prov opts) (w_claims w))"
  by (simp add: acquire_push_claim_def case_prod_unfold Let_def split: claim_result.splits)

lemma release_push_claims:
  "w_claims (snd (release_push_claim env opts w)) = snd (release_slot (se_clock env) (jget opts ''by'') False push_slot (w_claims w))"
  by (simp add: release_push_claim_def case_prod_unfold Let_def split: release_result.splits)

lemma kept_session:
  "kept_claim parse n by t0 used (w_claims w) \<Longrightarrow> by' \<noteq> by \<Longrightarrow>
     kept_claim parse n by t0 used (w_claims (snd (end_claims sha ck by' terminal vs w)))"
proof (induction vs arbitrary: w)
  case (Cons v vs)
  obtain r d where r: "release_slot ck by' False (cv_name v) (w_claims w) = (r, d)" by fastforce
  have "kept_claim parse n by t0 used d" using kept_release [OF Cons.prems(1) _ r] Cons.prems(2) by simp
  then show ?case using Cons r by (cases r) (simp_all add: case_prod_unfold Let_def)
qed simp

lemma kept_force:
  assumes "kept_claim parse n by t0 used d" "m \<noteq> n"
  shows "kept_claim parse n by t0 used (snd (release_slot ck by' True m d))"
proof -
  obtain r d' where r: "release_slot ck by' True m d = (r, d')" by fastforce
  show ?thesis using assms release_slot_claim [OF r, of n] by (auto simp: r kept_claim_def)
qed

lemma kept_clean:
  assumes "ck_parse ck = parse" "unexpired t0 used ck" "kept_claim parse n by t0 used d"
  shows "kept_claim parse n by t0 used (fold (\<lambda>v d. snd (reconcile_expired_claim ck slot_claim_ttl_ms (cv_name v) d)) vs d)"
  using assms(3)
proof (induction vs arbitrary: d)
  case (Cons v vs)
  obtain r d' where r: "reconcile_expired_claim ck slot_claim_ttl_ms (cv_name v) d = (r, d')" by fastforce
  from kept_reconcile [OF Cons.prems assms(1) r] have "kept_claim parse n by t0 used d'" using assms(2) by simp
  then show ?case using Cons.IH r by simp
qed simp

text \<open>What the cleaning does to an expired claim, whatever its name.\<close>

lemma clean_removes:
  assumes "claim_of d n = Some c" "truthy (cl_prov c)" "\<not> cl_consumed c" "slot_claim_ttl_ms < claim_age ck c"
  shows "claim_of (clean_stale ck d) n = None"
proof -
  let ?drop = "\<lambda>v d. snd (reconcile_expired_claim ck slot_claim_ttl_ms (cv_name v) d)"
  have one: "claim_of (?drop v d') n = (if cv_name v = n \<and> claim_of d' n = Some c then None else claim_of d' n)"
    if "claim_of d' n = Some c \<or> claim_of d' n = None" for v d'
  proof -
    obtain r d2 where r: "reconcile_expired_claim ck slot_claim_ttl_ms (cv_name v) d' = (r, d2)" by fastforce
    show ?thesis
    proof (cases "\<exists>prov age. r = Reconciled prov age")
      case True
      then show ?thesis using r that by (auto simp: reconcile_done claim_adel)
    next
      case False
      then have "d2 = d'" using reconcile_kept [OF r] by blast
      moreover have "\<not> (cv_name v = n \<and> claim_of d' n = Some c)"
        using False r assms(2-4) by (auto simp: reconcile_expired_claim_def is_consumed_def)
      ultimately show ?thesis using r by auto
    qed
  qed
  have many: "claim_of (fold ?drop vs d') n = (if n \<in> cv_name ` set vs then None else claim_of d' n)"
    if "claim_of d' n = Some c \<or> claim_of d' n = None" for vs d'
    using that
  proof (induction vs arbitrary: d')
    case (Cons v vs)
    from one [OF Cons.prems, of v] have now: "claim_of (?drop v d') n = (if cv_name v = n then None else claim_of d' n)"
      using Cons.prems by auto
    then have "claim_of (?drop v d') n = Some c \<or> claim_of (?drop v d') n = None" using Cons.prems by auto
    from Cons.IH [OF this] now show ?case by auto
  qed simp
  have "n \<in> cv_name ` set (read_claims ck d)"
    using assms(1) by (force simp: read_claims_def claim_entry entry_of_def List.map_filter_def dest: map_of_SomeD)
  moreover have "claim_of (fold ?drop (read_claims ck d) d) n = (if n \<in> cv_name ` set (read_claims ck d) then None else claim_of d n)"
    by (rule many) (simp add: assms(1))
  ultimately show ?thesis by (simp only: clean_stale_def if_True)
qed

lemma evidence_claims:
  "w_claims (snd (commit_evidence_release sha ck dash c dirty commit by_opt terminal w)) =
     (if truthy dirty \<or> \<not> truthy commit \<or> \<not> truthy (jget c ''name'') then w_claims w
      else snd (release_slot ck (js_or (js_or (js_or (jget c ''by'') (and_get (jget c ''provenance'') ''by'')) by_opt) (JStr dash))
        True (to_str (jget c ''name'')) (w_claims w)))"
  by (simp add: commit_evidence_release_def Let_def)

lemma kept_step:
  assumes "kept_claim parse n by t0 used (w_claims w)" "spares parse n by t0 used op"
  shows "kept_claim parse n by t0 used (w_claims (slot_step op w))"
proof -
  obtain env o1 where op: "op = (env, o1)" by (cases op)
  show ?thesis
  proof (cases o1)
    case (Allocate req)
    then show ?thesis using kept_allocate [OF assms(1), of env req] assms(2) op by (cases "allocate env req w") simp
  next
    case (Consume kind k opts)
    then show ?thesis using assms(1) op kept_consume
      by (auto simp: mark_slot_consumed_def case_prod_unfold Let_def split: option.splits)
  next
    case (Push_take opts)
    have "kept_claim parse n by t0 used (snd (claim_slot (se_clock env) push_slot (push_prov opts) (w_claims w)))"
      using kept_claim_slot [OF assms(1)] by (metis prod.collapse)
    then show ?thesis using op Push_take by (simp add: acquire_push_claims)
  next
    case (Push_drop opts)
    have "kept_claim parse n by t0 used (snd (release_slot (se_clock env) (jget opts ''by'') False push_slot (w_claims w)))"
      using kept_release [OF assms(1)] assms(2) op Push_drop by (metis prod.collapse spares.simps(1))
    then show ?thesis using op Push_drop by (simp add: release_push_claims)
  next
    case (Release_own by' m)
    then show ?thesis using assms op kept_release [OF assms(1), of by' m]
      by (cases "release_slot (se_clock env) by' False m (w_claims w)") auto
  next
    case (End_session identity by')
    then show ?thesis using assms op kept_session by (auto simp: session_end_def Let_def)
  next
    case (Take_named m p)
    then show ?thesis using kept_claim_slot [OF assms(1)] op
      by (cases "claim_slot (se_clock env) m p (w_claims w)") auto
  next
    case (Force_clear confirmed by' m)
    then show ?thesis using assms op kept_force [OF assms(1)] by (auto simp: force_clear_def)
  next
    case (Evidence_release dash c dirty commit by' terminal)
    then show ?thesis using assms op kept_force [OF assms(1)] by (auto simp: evidence_claims)
  next
    case Clean_stale
    then have "ck_parse (se_clock env) = parse" "unexpired t0 used (se_clock env)" using assms(2) op by simp_all
    from kept_clean [OF this assms(1)] show ?thesis using op Clean_stale by (simp add: clean_stale_def)
  qed
qed

interpretation kept_claims: guarded_steps slot_step "\<lambda>w. kept_claim parse n by t0 used (w_claims w)" "spares parse n by t0 used"
  by unfold_locales (rule kept_step)

section \<open>Which number is given\<close>

definition obtainable :: "clock \<Rightarrow> string \<Rightarrow> claims_dir \<Rightarrow> bool" where
  "obtainable ck n d \<longleftrightarrow> entry_of d n = None \<or>
     (case claim_of d n of None \<Rightarrow> False
      | Some c \<Rightarrow> truthy (cl_prov c) \<and> \<not> cl_consumed c \<and> slot_claim_ttl_ms < claim_age ck c)"

definition free_slot :: "clock \<Rightarrow> string \<Rightarrow> claims_dir \<Rightarrow> bool" where
  "free_slot ck n d \<longleftrightarrow> \<not> is_cooling_down ck n d \<and> obtainable ck n d"

definition new_claim :: "clock \<Rightarrow> jsval \<Rightarrow> claim" where
  "new_claim ck p = \<lparr>cl_prov = stamp ck p, cl_consumed = False, cl_ctime = ck_now ck\<rparr>"

lemma took_or_lost:
  assumes "attempt_number env job k race w = (r, w')" "r \<noteq> Threw"
  shows "if obtainable (se_clock env) (sj_slot job k) (w_claims w)
    then (\<exists>g. r = Took g \<and> sg_number g = k \<and> sg_won g) \<and>
      (\<forall>m. entry_of (w_claims w') m = (if m = sj_slot job k then Some (Claim_dir (new_claim (se_clock env) (sj_prov job))) else entry_of (w_claims w) m))
    else (\<exists>x. r = Lost x) \<and> (\<forall>m. entry_of (w_claims w') m = entry_of (w_claims w) m)"
proof -
  let ?slot = "sj_slot job k" and ?ck = "se_clock env"
  obtain a d where a: "claim_slot ?ck ?slot (sj_prov job) (w_claims w) = (a, d)" by fastforce
  show ?thesis
  proof (cases a)
    case Won
    then have d: "entry_of (w_claims w) ?slot = None"
      "\<And>m. entry_of d m = (if m = ?slot then Some (Claim_dir (new_claim ?ck (sj_prov job))) else entry_of (w_claims w) m)"
      using a by (auto simp: claim_slot_won new_claim_def)
    have "take_number env job k False race (w\<lparr>w_claims := d\<rparr>) = (r, w')" using assms(1) a Won by (simp add: attempt_number_def)
    from take_number_claims [OF this] show ?thesis using d assms(2) by (auto simp: obtainable_def)
  next
    case (Held holder)
    then have d: "entry_of (w_claims w) ?slot \<noteq> None" "d = Some (dir_list (w_claims w))"
      using a by (auto simp: claim_slot_held)
    then have same: "entry_of d m = entry_of (w_claims w) m" "claim_of d m = claim_of (w_claims w) m" for m
      by (simp_all add: claim_of_def)
    obtain b d1 where b: "reconcile_expired_claim ?ck slot_claim_ttl_ms ?slot d = (b, d1)" by fastforce
    show ?thesis
    proof (cases "\<exists>gone age. b = Reconciled gone age")
      case False
      then have "\<not> obtainable ?ck ?slot (w_claims w)"
        using b d(1) same(2) by (auto simp: obtainable_def reconcile_expired_claim_def is_consumed_def split: option.splits if_splits)
      moreover have "d1 = d" using reconcile_kept [OF b] False by blast
      moreover have "attempt_number env job k race w = lose_number env job k holder (w\<lparr>w_claims := d1\<rparr>)"
        using False by (cases b) (auto simp: attempt_number_def a Held b)
      then have "lose_number env job k holder (w\<lparr>w_claims := d1\<rparr>) = (r, w')" using assms(1) by simp
      ultimately show ?thesis using lose_number_claims assms(2) same(1) by fastforce
    next
      case True
      then obtain gone age where gone: "b = Reconciled gone age" by blast
      then have free: "obtainable ?ck ?slot (w_claims w)" "d1 = map_option (adel ?slot) d"
        using b same(2) by (auto simp: reconcile_done obtainable_def)
      define origin where "origin = (if truthy gone \<and> truthy (jget gone ''by'') then jget gone ''by'' else JNull)"
      obtain done_ok w1 where w1: "note_slot env job ''reconcile'' k ([(''number'', JInt (int k))] @ sj_extra job
          @ [(''reclaimedFrom'', origin), (''ageMs'', JNum (Fin age))]) (w\<lparr>w_claims := d1\<rparr>) = (done_ok, w1)" by fastforce
      then have c1: "w_claims w1 = d1" by (auto dest!: note_slot_claims)
      obtain a2 d2 where a2: "claim_slot ?ck ?slot (sj_prov job) d1 = (a2, d2)" by fastforce
      have won: "a2 = Won" using a2 free(2) by (cases a2) (auto simp: claim_slot_held)
      then have d2: "entry_of d2 m = (if m = ?slot then Some (Claim_dir (new_claim ?ck (sj_prov job))) else entry_of (w_claims w) m)" for m
        using a2 free(2) same(1) by (auto simp: claim_slot_won new_claim_def)
      have "take_number env job k True race (w1\<lparr>w_claims := d2\<rparr>) = (r, w')"
        using assms w1 a2 c1 won by (cases done_ok) (simp_all add: attempt_number_def a Held b gone origin_def Let_def)
      from take_number_claims [OF this] show ?thesis using free(1) d2 assms(2) by auto
    qed
  qed
qed

lemma same_entries:
  assumes "\<And>m. entry_of d' m = entry_of d m"
  shows "is_cooling_down ck n d' = is_cooling_down ck n d" "obtainable ck n d' = obtainable ck n d"
  using assms by (simp_all add: is_cooling_down_def cooldown_since_def obtainable_def claim_of_def)

lemma first_free:
  assumes "try_slots env job tries k race w = (Some g, w')"
  shows "if \<exists>i \<in> {k..<k + tries}. free_slot (se_clock env) (sj_slot job i) (w_claims w)
    then sg_won g \<and> sg_number g \<in> {k..<k + tries} \<and> free_slot (se_clock env) (sj_slot job (sg_number g)) (w_claims w) \<and>
      (\<forall>i \<in> {k..<sg_number g}. \<not> free_slot (se_clock env) (sj_slot job i) (w_claims w)) \<and>
      (\<forall>m. entry_of (w_claims w') m = (if m = sj_slot job (sg_number g) then Some (Claim_dir (new_claim (se_clock env) (sj_prov job)))
         else entry_of (w_claims w) m))
    else \<not> sg_won g \<and> (\<forall>m. entry_of (w_claims w') m = entry_of (w_claims w) m)"
  using assms
proof (induction tries arbitrary: k race w)
  case 0
  then show ?case by auto
next
  case (Suc tries)
  let ?free = "\<lambda>i. free_slot (se_clock env) (sj_slot job i)"
  show ?case
  proof (cases "?free k (w_claims w)")
    case True
    obtain a w1 where a: "attempt_number env job k race w = (a, w1)" by fastforce
    have run: "(case (a, w1) of (Took g, w') \<Rightarrow> (Some g, w') | (Threw, w') \<Rightarrow> (None, w')
        | (Lost x, w') \<Rightarrow> try_slots env job tries (k + 1) (Some x) w') = (Some g, w')"
      using Suc.prems True a by (simp add: free_slot_def)
    have "a \<noteq> Threw" using run by auto
    from took_or_lost [OF a this] True obtain g' where "a = Took g'" "sg_number g' = k" "sg_won g'"
      "\<forall>m. entry_of (w_claims w1) m = (if m = sj_slot job k then Some (Claim_dir (new_claim (se_clock env) (sj_prov job))) else entry_of (w_claims w) m)"
      by (auto simp: free_slot_def)
    then show ?thesis using run True by auto
  next
    case False
    have "\<exists>race' w1. try_slots env job tries (k + 1) race' w1 = (Some g, w') \<and> (\<forall>m. entry_of (w_claims w1) m = entry_of (w_claims w) m)"
    proof (cases "is_cooling_down (se_clock env) (sj_slot job k) (w_claims w)")
      case True
      then show ?thesis using Suc.prems by auto
    next
      case warm: False
      obtain a w1 where a: "attempt_number env job k race w = (a, w1)" by fastforce
      have run: "(case (a, w1) of (Took g, w') \<Rightarrow> (Some g, w') | (Threw, w') \<Rightarrow> (None, w')
          | (Lost x, w') \<Rightarrow> try_slots env job tries (k + 1) (Some x) w') = (Some g, w')"
        using Suc.prems warm a by simp
      have "a \<noteq> Threw" using run by auto
      from took_or_lost [OF a this] False warm obtain x where "a = Lost x" "\<forall>m. entry_of (w_claims w1) m = entry_of (w_claims w) m"
        by (auto simp: free_slot_def)
      then show ?thesis using run by auto
    qed
    then obtain race' w1 where step: "try_slots env job tries (k + 1) race' w1 = (Some g, w')"
      and same: "\<And>m. entry_of (w_claims w1) m = entry_of (w_claims w) m" by blast
    have free: "?free i (w_claims w1) = ?free i (w_claims w)" for i
      using same_entries [OF same] by (simp add: free_slot_def)
    have range: "{k..<k + Suc tries} = insert k {k + 1..<k + 1 + tries}" by auto
    have below: "(\<forall>i \<in> {k..<j}. \<not> ?free i (w_claims w)) \<longleftrightarrow> (\<forall>i \<in> {k + 1..<j}. \<not> ?free i (w_claims w))" for j
      using False by (auto simp: Suc_le_eq le_less)
    have cond: "(\<exists>i \<in> {k..<k + Suc tries}. ?free i (w_claims w)) \<longleftrightarrow> (\<exists>i \<in> {k + 1..<k + 1 + tries}. ?free i (w_claims w))"
      unfolding range using False by simp
    have wide: "j \<in> {k + 1..<k + 1 + tries} \<Longrightarrow> j \<in> {k..<k + Suc tries}" for j by simp
    show ?thesis
      using Suc.IH [OF step] unfolding free same below cond by (simp only: wide split: if_splits) (auto intro: wide)
  qed
qed

lemma first_free_from: "try_slots env job tries k race w = (Some g, w') \<Longrightarrow> k \<le> sg_number g"
proof (induction tries arbitrary: k race w)
  case (Suc tries)
  show ?case
  proof (cases "is_cooling_down (se_clock env) (sj_slot job k) (w_claims w)")
    case False
    obtain a w1 where a: "attempt_number env job k race w = (a, w1)" by fastforce
    then have "a \<noteq> Threw" using Suc.prems False by auto
    then show ?thesis using took_or_lost [OF a] Suc.IH Suc.prems False a by (fastforce split: if_splits)
  next
    case True
    then have "k + 1 \<le> sg_number g" using Suc.prems by (intro Suc.IH) simp
    then show ?thesis by simp
  qed
qed auto

lemma next_counter_first_free:
  assumes "next_counter_slot env fs kind opts w = (Answered g, w')" "counter_spec_of fs kind opts = Inr spec"
    and "best = extract_max_by_regex (cs_numbers spec) (cs_source spec)"
  shows "let slot = (\<lambda>i. cs_slot spec @ ''-'' @ dec_nat i); k = first_candidate best; free = (\<lambda>i. free_slot (se_clock env) (slot i) (w_claims w))
    in if \<exists>i \<in> {k..<k + 5}. free i
       then sg_won g \<and> sg_number g \<in> {k..<k + 5} \<and> free (sg_number g) \<and> (\<forall>i \<in> {k..<sg_number g}. \<not> free i) \<and>
         (\<forall>m. entry_of (w_claims w') m = (if m = slot (sg_number g) then Some (Claim_dir (new_claim (se_clock env)
            (slot_prov opts (if best \<ge> 0 then JStr (dec_nat (nat best)) else JNull) (cs_slot spec @ ''-number'')))) else entry_of (w_claims w) m))
       else \<not> sg_won g \<and> (\<forall>m. entry_of (w_claims w') m = entry_of (w_claims w) m)"
proof -
  have run: "try_slots env (counter_job spec kind opts best) slot_tries (first_candidate best) None w = (Some g, w')"
    using assms by (auto simp: next_counter_run)
  have "sj_slot (counter_job spec kind opts best) = (\<lambda>i. cs_slot spec @ ''-'' @ dec_nat i)"
    "sj_prov (counter_job spec kind opts best) = slot_prov opts (if best \<ge> 0 then JStr (dec_nat (nat best)) else JNull) (cs_slot spec @ ''-number'')"
    by (simp_all add: counter_job_def)
  note job = this
  show ?thesis using first_free [OF run, unfolded job slot_tries_def] unfolding Let_def .
qed

section \<open>Numbers are given once\<close>

fun request_opts :: "slot_request \<Rightarrow> jsval" where
  "request_opts (Migration git fs opts) = opts"
| "request_opts (Counter fs kind opts) = opts"

lemma slot_prov_by [simp]: "jget (slot_prov opts expected reason) ''by'' = jget opts ''by''"
  by (simp add: slot_prov_def own_get_def)

lemma job_by: "jget (sj_prov (migration_job opts entry offline)) ''by'' = jget opts ''by''"
  "jget (sj_prov (counter_job spec kind opts best)) ''by'' = jget opts ''by''"
  by (simp_all add: migration_job_def counter_job_def)

definition reads_back :: "clock \<Rightarrow> bool" where
  "reads_back ck \<longleftrightarrow> ck_iso ck (ck_now ck) \<noteq> [] \<and> ck_parse ck (ck_iso ck (ck_now ck)) = Fin (of_nat (ck_now ck))"

lemma new_claim_stamped:
  "reads_back ck \<Longrightarrow> jget p ''by'' = by \<Longrightarrow> stamped (ck_parse ck) by (ck_now ck) False (new_claim ck p)"
  using stamp_reads [of ck p] by (simp add: stamped_def new_claim_def reads_back_def)

lemma granted_kept:
  assumes "allocate env req w = (Some (slot, g), w1)" "sg_won g" "reads_back (se_clock env)"
  shows "kept_claim (ck_parse (se_clock env)) slot (jget (request_opts req) ''by'') (ck_now (se_clock env)) False (w_claims w1)"
proof -
  have "\<exists>job k race. try_slots env job slot_tries k race w = (Some g, w1) \<and> slot = sj_slot job (sg_number g) \<and>
      jget (sj_prov job) ''by'' = jget (request_opts req) ''by''"
  proof (cases req)
    case (Migration git fs opts)
    then have "next_migration_slot env git fs opts w = (Some g, w1)" "slot_name_for_kind ''migration'' (sg_number g) opts = Some slot"
      using assms(1) by (auto split: prod.splits option.splits)
    moreover from this(1) obtain entry offline k where "try_slots env (migration_job opts entry offline) slot_tries k None w = (Some g, w1)"
      by (rule next_migration_run)
    ultimately show ?thesis using job_by(1) migration_slot_name by (metis Migration option.inject request_opts.simps(1))
  next
    case (Counter fs kind opts)
    then have "next_counter_slot env fs kind opts w = (Answered g, w1)" "slot_name_for_kind kind (sg_number g) opts = Some slot"
      using assms(1) by (auto split: prod.splits option.splits counter_answer.splits)
    then show ?thesis using job_by(2) counter_slot_name unfolding next_counter_run
      by (metis Counter option.inject request_opts.simps(2))
  qed
  then obtain job k race where job: "try_slots env job slot_tries k race w = (Some g, w1)" "slot = sj_slot job (sg_number g)"
    "jget (sj_prov job) ''by'' = jget (request_opts req) ''by''" by blast
  have "entry_of (w_claims w1) slot = Some (Claim_dir (new_claim (se_clock env) (sj_prov job)))"
    using first_free [OF job(1)] assms(2) job(2) by (simp split: if_splits)
  then show ?thesis using new_claim_stamped [OF assms(3) job(3)] by (auto simp: kept_claim_def claim_entry)
qed

text \<open>C14: a number is given once. A slot an allocator granted is not granted again, to anybody, by
  either allocator, after any operations of any terminals, as long as nobody releases it - its holder, by
  \<open>release\<close> or by the end of his session, anybody by \<open>force-clear\<close>, or the release on the evidence of a commit -
  and every allocation or cleaning meanwhile runs at most half an hour after the stamp. The hypothesis
  \<open>reads_back\<close> is that \<open>Date.parse\<close> reads what \<open>toISOString\<close> wrote.\<close>

theorem number_given_once:
  assumes "allocate env req w = (Some (slot, g), w1)" "sg_won g" "reads_back (se_clock env)"
    and "spared = spares (ck_parse (se_clock env)) slot (jget (request_opts req) ''by'') (ck_now (se_clock env)) False"
    and "list_all spared ops" "spared (env', Allocate req')"
    and "allocate env' req' (fold slot_step ops w1) = (Some (slot', g'), w2)" "sg_won g'"
  shows "slot' \<noteq> slot"
proof -
  have "kept_claim (ck_parse (se_clock env)) slot (jget (request_opts req) ''by'') (ck_now (se_clock env)) False (w_claims (fold slot_step ops w1))"
    using assms(4,5) granted_kept [OF assms(1-3)] by (intro kept_claims.runs_fold) simp_all
  from kept_allocate [OF this _ assms(7)] show ?thesis using assms(4,6,8) by simp
qed

text \<open>C15: a consumed number is never given again. Once the number of a granted slot is marked as used,
  before the claim expired, no allocation grants the slot any more, however late the clock and however often
  stale claims are cleaned, as long as nobody releases it: its holder, anybody by \<open>force-clear\<close>, or the release on
  the evidence of a commit, which look at no mark.\<close>

theorem consumed_number_stays:
  assumes "allocate env req w = (Some (slot, g), w1)" "sg_won g" "reads_back (se_clock env)"
    and "spared = spares (ck_parse (se_clock env)) slot (jget (request_opts req) ''by'') (ck_now (se_clock env))"
    and "list_all (spared False) ops"
    and "mark_slot_consumed ck kind n opts (w_claims (fold slot_step ops w1)) = (Consumed slot, d)"
    and "list_all (spared True) ops'" "spared True (env', Allocate req')"
    and "allocate env' req' (fold slot_step ops' ((fold slot_step ops w1)\<lparr>w_claims := d\<rparr>)) = (Some (slot', g'), w2)" "sg_won g'"
  shows "slot' \<noteq> slot"
proof -
  let ?parse = "ck_parse (se_clock env)" and ?by = "jget (request_opts req) ''by''" and ?t0 = "ck_now (se_clock env)"
  have "kept_claim ?parse slot ?by ?t0 False (w_claims (fold slot_step ops w1))"
    using assms(4,5) granted_kept [OF assms(1-3)] by (intro kept_claims.runs_fold) simp_all
  then obtain c where c: "claim_of (w_claims (fold slot_step ops w1)) slot = Some c" "stamped ?parse ?by ?t0 False c"
    by (auto simp: kept_claim_def)
  have "mark_consumed ck slot (w_claims (fold slot_step ops w1)) = (True, d)"
    using assms(6) by (auto simp: mark_slot_consumed_def Let_def split: option.splits prod.splits if_splits)
  from mark_consumed_claim [OF this, of slot] c have "kept_claim ?parse slot ?by ?t0 True d"
    by (cases "cl_consumed c") (auto simp: kept_claim_def stamped_def)
  then have "kept_claim ?parse slot ?by ?t0 True (w_claims (fold slot_step ops' ((fold slot_step ops w1)\<lparr>w_claims := d\<rparr>)))"
    using assms(4,7) by (intro kept_claims.runs_fold) simp_all
  from kept_allocate [OF this _ assms(9)] show ?thesis using assms(4,8,10) by simp
qed

section \<open>The deploy signal\<close>

lemma push_not_numbered [simp]: "\<not> numbered push_slot"
  by (simp add: numbered_def push_slot_def is_digit_def code_of_def)

lemma read_claims_find:
  assumes "claim_of d n = Some c"
  shows "find (\<lambda>v. cv_name v = n) (read_claims ck d) = Some \<lparr>cv_name = n, cv_prov = cl_prov c, cv_age = int (ck_now ck) - int (cl_ctime c)\<rparr>"
proof -
  define es where "es = dir_list d"
  have "map_of es n = Some (Claim_dir c)" using assms by (simp add: es_def claim_entry entry_of_def)
  then show ?thesis unfolding read_claims_def es_def [symmetric]
    by (induction es) (auto split: if_splits dir_entry.splits)
qed

text \<open>The deploy signal is exclusive. After a terminal took the signal, whatever the others do and however much
  time passes, every attempt to take it is refused, and the signal names its holder, as live or, past half
  an hour, as stale; only the holder drops it, or a forced release, or the cleaning of stale claims, which
  spares no name (\<open>clean_removes\<close>).\<close>

theorem deploy_signal_holds:
  assumes "acquire_push_claim env opts w = (Acquired, w1)" "reads_back (se_clock env)" "truthy (jget opts ''by'')"
    and "list_all (spares (ck_parse (se_clock env)) push_slot (jget opts ''by'') (ck_now (se_clock env)) False) ops"
    and "w2 = fold slot_step ops w1" "ck_parse ck = ck_parse (se_clock env)"
  shows "(\<exists>holder. fst (acquire_push_claim env' opts' w2) = Not_acquired holder \<and> jget holder ''by'' = jget opts ''by'') \<and>
    (\<exists>view. pv_who view = jget opts ''by'' \<and> check_push_claim ck unknown (w_claims w2) =
      (if of_nat (ck_now ck) - of_nat (ck_now (se_clock env)) > push_claim_ttl_ms then Push_stale view else Push_live view))"
proof -
  let ?parse = "ck_parse (se_clock env)" and ?by = "jget opts ''by''" and ?t0 = "ck_now (se_clock env)"
  obtain d where d: "claim_slot (se_clock env) push_slot (push_prov opts) (w_claims w) = (Won, d)"
    using assms(1) by (auto simp: acquire_push_claim_def split: prod.splits claim_result.splits)
  have "w_claims w1 = d" using acquire_push_claims [of env opts w] assms(1) d by simp
  moreover have "entry_of d push_slot = Some (Claim_dir (new_claim (se_clock env) (push_prov opts)))"
    using d by (auto simp: claim_slot_won new_claim_def)
  moreover have "jget (push_prov opts) ''by'' = ?by" by (simp add: push_prov_def Let_def own_get_def)
  from new_claim_stamped [OF assms(2) this]
  have "stamped ?parse ?by ?t0 False (new_claim (se_clock env) (push_prov opts))" .
  ultimately have "kept_claim ?parse push_slot ?by ?t0 False (w_claims w1)"
    by (auto simp: kept_claim_def claim_entry)
  then have "kept_claim ?parse push_slot ?by ?t0 False (w_claims w2)"
    unfolding assms(5) using assms(4) by (intro kept_claims.runs_fold)
  then obtain c where c: "claim_of (w_claims w2) push_slot = Some c" "stamped ?parse ?by ?t0 False c"
    by (auto simp: kept_claim_def)
  have held: "claim_slot (se_clock env') push_slot (push_prov opts') (w_claims w2) = (Held (cl_prov c), Some (dir_list (w_claims w2)))"
    using claim_present [OF c(1)] provenance_claim [OF c(1)] by (simp add: claim_slot_held)
  have "is_nullish (cl_prov c) \<Longrightarrow> False" using c(2) by (auto simp: is_nullish_def stamped_def)
  then have taken: "fst (acquire_push_claim env' opts' w2) = Not_acquired (cl_prov c)"
    unfolding acquire_push_claim_def held by (auto simp: coalesce_def)
  have "\<exists>view. pv_who view = ?by \<and> check_push_claim ck unknown (w_claims w2) =
      (if of_nat (ck_now ck) - of_nat ?t0 > push_claim_ttl_ms then Push_stale view else Push_live view)"
    using c(2) assms(3,6) unfolding check_push_claim_def read_claims_find [OF c(1)] option.case Let_def stamped_def
    by simp
  then show ?thesis using taken c(2) by (auto simp: stamped_def)
qed

section \<open>The end of a session\<close>

definition own_view :: "jsval \<Rightarrow> claim_view \<Rightarrow> bool" where
  "own_view by v \<longleftrightarrow> truthy (cv_prov v) \<and> jget (cv_prov v) ''by'' = by"

lemma end_claims_result:
  assumes "\<forall>v \<in> set vs. \<exists>c. claim_of (w_claims w) (cv_name v) = Some c \<and> cl_prov c = cv_prov v"
    and "distinct (map cv_name vs)" "end_claims sha ck by terminal vs w = (names, w')"
  shows "names = map cv_name (filter (own_view by) vs) \<and>
    (\<forall>n. claim_of (w_claims w') n = (if n \<in> set names then None else claim_of (w_claims w) n))"
  using assms
proof (induction vs arbitrary: w names)
  case (Cons v vs)
  show ?case
  proof (cases "own_view by v")
    case False
    then show ?thesis using Cons by (auto simp: own_view_def)
  next
    case True
    obtain c where c: "claim_of (w_claims w) (cv_name v) = Some c" "cl_prov c = cv_prov v" using Cons.prems(1) by auto
    obtain r d where r: "release_slot ck by False (cv_name v) (w_claims w) = (r, d)" by fastforce
    have "r = Released" using release_slot_result [of ck "by" False "cv_name v" "w_claims w"] True
      by (cases r) (simp_all add: r provenance_claim [OF c(1)] c(2) own_view_def)
    note r = r [unfolded this]
    define w1 where "w1 = snd (log_event sha ck terminal (slot_event ''release'' [by] (JStr (cv_name v))
      [(''reason'', JStr ''session-ended'')]) (w\<lparr>w_claims := d\<rparr>))"
    have d: "claim_of (w_claims w1) n = (if n = cv_name v then None else claim_of (w_claims w) n)" for n
      using release_slot_claim [OF r, of n] by (simp add: w1_def)
    obtain names1 where rest: "end_claims sha ck by terminal vs w1 = (names1, w')" "names = cv_name v # names1"
      using Cons.prems(3) True r by (auto simp: own_view_def w1_def Let_def split: prod.splits)
    have others: "cv_name v' \<noteq> cv_name v" if "v' \<in> set vs" for v'
      using Cons.prems(2) that by (metis distinct.simps(2) image_eqI list.set_map list.simps(9))
    have "\<forall>v' \<in> set vs. \<exists>c. claim_of (w_claims w1) (cv_name v') = Some c \<and> cl_prov c = cv_prov v'"
      using Cons.prems(1) others d by auto
    from Cons.IH [OF this _ rest(1)] Cons.prems(2) show ?thesis using True rest(2) d by auto
  qed
qed simp

lemma read_claims_entry:
  assumes "wf_map (dir_list d)" "v \<in> set (read_claims ck d)"
  shows "\<exists>c. claim_of d (cv_name v) = Some c \<and> cl_prov c = cv_prov v"
proof -
  obtain c where "(cv_name v, Claim_dir c) \<in> set (dir_list d)" "cl_prov c = cv_prov v"
    using assms(2) by (auto simp: read_claims_def List.map_filter_def split: dir_entry.splits)
  then show ?thesis using assms(1) by (auto simp: claim_entry entry_of_def wf_map_def akeys_def intro: map_of_is_SomeI)
qed

lemma read_claims_names: "map cv_name (read_claims ck d) = map fst (filter (\<lambda>(_, e). \<exists>c. e = Claim_dir c) (dir_list d))"
proof -
  define es where "es = dir_list d"
  show ?thesis unfolding read_claims_def es_def [symmetric]
    by (induction es) (auto split: dir_entry.splits)
qed

text \<open>The end of a session releases exactly the claims of its holder. After \<open>sessionEnd\<close> no claim
  of that holder is left, every other claim stands as it was, and the released names are those of the
  holder's claims.\<close>

theorem session_end_releases_own:
  assumes "wf_map (dir_list (w_claims w))" "js_or (jget identity ''holderIdentity'') by_opt = by" "truthy by"
    and "session_end sha ck identity by_opt w = (names, w')"
  shows "(\<forall>n. claim_of (w_claims w') n = (case claim_of (w_claims w) n of
      None \<Rightarrow> None | Some c \<Rightarrow> if truthy (cl_prov c) \<and> jget (cl_prov c) ''by'' = by then None else Some c)) \<and>
    set names = {n. \<exists>c. claim_of (w_claims w) n = Some c \<and> truthy (cl_prov c) \<and> jget (cl_prov c) ''by'' = by}"
proof -
  let ?vs = "read_claims ck (w_claims w)"
  have run: "end_claims sha ck by (to_str (js_or (jget identity ''terminalId'') by)) ?vs w = (names, w')"
    using assms(2-4) by (simp add: session_end_def)
  have "distinct (map cv_name ?vs)"
    unfolding read_claims_names using assms(1) by (simp add: wf_map_def akeys_def distinct_map_filter)
  from end_claims_result [OF _ this run] read_claims_entry [OF assms(1), of _ ck]
  have names: "names = map cv_name (filter (own_view by) ?vs)"
    and left: "\<And>n. claim_of (w_claims w') n = (if n \<in> set names then None else claim_of (w_claims w) n)" by auto
  have own: "n \<in> set names \<longleftrightarrow> (\<exists>c. claim_of (w_claims w) n = Some c \<and> truthy (cl_prov c) \<and> jget (cl_prov c) ''by'' = by)" for n
  proof
    assume "n \<in> set names"
    then obtain v where v: "v \<in> set ?vs" "own_view by v" "cv_name v = n" by (auto simp: names)
    then show "\<exists>c. claim_of (w_claims w) n = Some c \<and> truthy (cl_prov c) \<and> jget (cl_prov c) ''by'' = by"
      using read_claims_entry [OF assms(1) v(1)] by (auto simp: own_view_def)
  next
    assume "\<exists>c. claim_of (w_claims w) n = Some c \<and> truthy (cl_prov c) \<and> jget (cl_prov c) ''by'' = by"
    then obtain c where c: "claim_of (w_claims w) n = Some c" "truthy (cl_prov c)" "jget (cl_prov c) ''by'' = by" by blast
    have "\<lparr>cv_name = n, cv_prov = cl_prov c, cv_age = int (ck_now ck) - int (cl_ctime c)\<rparr> \<in> set ?vs"
      using read_claims_find [OF c(1), of ck] by (auto simp: find_Some_iff)
    then show "n \<in> set names" using c by (force simp: names own_view_def)
  qed
  then show ?thesis by (auto simp: left own split: option.splits)
qed

end
