(* ===== verification/Slot_Numbers.thy ===== *)
theory Slot_Numbers
  imports Slot_Laws
begin

text \<open>
  The scanners behind the numbers: no entry of a migration index is overlooked, so a granted number is
  greater than every number in the local file and on the main branch; and a release version that is
  offered is greater than every tag.
\<close>

section \<open>Scanning\<close>

lemma takeWhile_stop: "list_all P xs \<Longrightarrow> \<not> P y \<Longrightarrow> takeWhile P (xs @ y # ys) = xs \<and> dropWhile P (xs @ y # ys) = y # ys"
  by (induction xs) auto

definition entry_ok :: "string \<Rightarrow> string \<Rightarrow> string \<Rightarrow> bool" where
  "entry_ok ws ds body \<longleftrightarrow> list_all js_ws ws \<and> length ds = 3 \<and> list_all is_digit ds \<and> body \<noteq> [] \<and> list_all slug_char body"

definition entry_text :: "string \<Rightarrow> string \<Rightarrow> string \<Rightarrow> string" where
  "entry_text ws ds body = ''name:'' @ ws @ quote_char # ds @ CHR ''_'' # body @ [quote_char]"

lemma marks: "\<not> js_ws quote_char" "\<not> slug_char quote_char" "\<not> is_digit quote_char" "\<not> js_ws (CHR '':'')" "\<not> slug_char (CHR '':'')"
    "\<not> is_digit (CHR '':'')"
  by (simp_all add: js_ws_def slug_char_def is_digit_def code_of_def)

lemma entry_read:
  assumes "entry_ok ws ds body"
  shows "migration_at prev (entry_text ws ds body @ rest) = Some ((digits_val ds, ds @ ''_'' @ body), length (entry_text ws ds body))"
proof -
  have d: "dropWhile js_ws (ws @ quote_char # ds @ CHR ''_'' # body @ quote_char # rest) = quote_char # ds @ CHR ''_'' # body @ quote_char # rest"
    using assms takeWhile_stop [of js_ws ws quote_char] marks by (simp add: entry_ok_def)
  have b: "takeWhile slug_char (body @ quote_char # rest) = body" "dropWhile slug_char (body @ quote_char # rest) = quote_char # rest"
    using assms takeWhile_stop [of slug_char body quote_char] marks by (simp_all add: entry_ok_def)
  show ?thesis using assms by (simp add: migration_at_def entry_text_def entry_ok_def d b Let_def)
qed

lemma entry_found:
  assumes "migration_at prev s = Some (v, k)"
  shows "\<exists>ws ds body rest. entry_ok ws ds body \<and> s = entry_text ws ds body @ rest \<and> k = length (entry_text ws ds body)"
proof -
  define r where "r = dropWhile js_ws (drop 5 s)"
  define ws where "ws = takeWhile js_ws (drop 5 s)"
  define ds where "ds = take 3 (tl r)"
  define body where "body = takeWhile slug_char (drop 4 (tl r))"
  define rest where "rest = dropWhile slug_char (drop 4 (tl r))"
  have c: "str_prefix ''name:'' s" "str_prefix [quote_char] r" "length ds = 3" "list_all is_digit ds" "str_prefix ''_'' (drop 3 (tl r))"
    "body \<noteq> []" "str_prefix [quote_char] rest" and k: "k = length s - (length rest - 1)"
    using assms unfolding migration_at_def Let_def r_def [symmetric] ds_def [symmetric] body_def [symmetric] rest_def [symmetric]
    by (simp_all split: if_splits)
  have s: "s = ''name:'' @ drop 5 s" using c(1) by (auto simp: str_prefix_iff prefix_def)
  have s5: "drop 5 s = ws @ r" by (simp add: ws_def r_def)
  have r: "r = quote_char # tl r" using c(2) by (auto simp: str_prefix_iff prefix_def)
  have t: "tl r = ds @ drop 3 (tl r)" by (simp add: ds_def)
  obtain u where u: "drop 3 (tl r) = CHR ''_'' # u" using c(5) by (auto simp: str_prefix_iff prefix_def)
  then have "drop 4 (tl r) = u" by (metis One_nat_def add.commute drop0 drop_Suc_Cons drop_drop numeral_3_eq_3 numeral_eq_Suc pred_numeral_simps(2) semiring_norm(26) semiring_norm(27))
  then have u2: "u = body @ rest" by (simp add: body_def rest_def)
  obtain z where z: "rest = quote_char # z" using c(7) by (auto simp: str_prefix_iff prefix_def)
  have all: "s = entry_text ws ds body @ z" using s s5 r t u u2 z by (simp add: entry_text_def)
  have "list_all js_ws ws" "list_all slug_char body" by (auto simp: ws_def body_def list_all_iff dest: set_takeWhileD)
  then have "entry_ok ws ds body" using c by (simp add: entry_ok_def)
  moreover have "k = length (entry_text ws ds body)" using k z by (simp add: all)
  ultimately show ?thesis using all by blast
qed

lemma entry_chars:
  assumes "entry_ok ws ds body"
  shows "last (entry_text ws ds body) = quote_char" "5 \<le> i \<Longrightarrow> i < length (entry_text ws ds body) \<Longrightarrow> entry_text ws ds body ! i \<noteq> CHR '':''"
    "take 5 (entry_text ws ds body) = ''name:''" "5 < length (entry_text ws ds body)"
proof -
  show "last (entry_text ws ds body) = quote_char" by (simp add: entry_text_def)
  show "take 5 (entry_text ws ds body) = ''name:''" "5 < length (entry_text ws ds body)" by (simp_all add: entry_text_def)
  let ?tail = "ws @ quote_char # ds @ CHR ''_'' # body @ [quote_char]"
  assume i: "5 \<le> i" "i < length (entry_text ws ds body)"
  then have "entry_text ws ds body ! i = ?tail ! (i - 5)" unfolding entry_text_def by (subst nth_append) (simp add: numeral_eq_Suc)
  moreover have "?tail ! (i - 5) \<in> set ?tail" using i by (intro nth_mem) (simp add: entry_text_def)
  moreover have "CHR '':'' \<notin> set ?tail" using assms marks by (auto simp: entry_ok_def list_all_iff)
  ultimately show "entry_text ws ds body ! i \<noteq> CHR '':''" by metis
qed

text \<open>Two entries do not overlap.\<close>

lemma entry_apart:
  assumes "entry_ok ws ds body" "entry_ok ws' ds' body'" "before \<noteq> []"
    and "before @ entry_text ws ds body @ after = entry_text ws' ds' body' @ rest"
  shows "length (entry_text ws' ds' body') \<le> length before"
proof (rule ccontr)
  let ?E = "entry_text ws ds body" and ?E' = "entry_text ws' ds' body'"
  let ?p = "length before" and ?k = "length (entry_text ws' ds' body')"
  define s where "s = before @ ?E @ after"
  assume "\<not> ?k \<le> ?p"
  then have p: "0 < ?p" "?p < ?k" using assms(3) by auto
  have E: "s ! (?p + j) = ''name:'' ! j" if "j < 5" for j
  proof -
    have "s ! (?p + j) = ?E ! j" using that entry_chars(4) [OF assms(1)] by (simp add: s_def nth_append)
    also have "\<dots> = take 5 ?E ! j" using that by simp
    finally show ?thesis using entry_chars(3) [OF assms(1)] by simp
  qed
  have E': "s ! i = ?E' ! i" if "i < ?k" for i using that assms(4) by (simp add: s_def nth_append)
  show False
  proof (cases "?p + 4 < ?k")
    case True
    then have "?E' ! (?p + 4) \<noteq> CHR '':''" using p(1) by (intro entry_chars(2) [OF assms(2)]) linarith+
    then show False using E [of 4] E' [OF True] by simp
  next
    case False
    define j where "j = ?k - 1 - ?p"
    have j: "j < 4" "?p + j = ?k - 1" using p False by (auto simp: j_def)
    have "?E' ! (?k - 1) = quote_char" using entry_chars(1,4) [OF assms(2)] by (metis last_conv_nth list.size(3) not_less_zero)
    then have "''name:'' ! j = quote_char" using E [of j] E' [of "?k - 1"] j p by simp
    moreover have "j = 0 \<or> j = 1 \<or> j = 2 \<or> j = 3" using j(1) by auto
    ultimately show False by auto
  qed
qed

lemma entry_counted:
  assumes "entry_ok ws ds body"
  shows "(digits_val ds, ds @ ''_'' @ body) \<in> set (all_matches migration_at prev (before @ entry_text ws ds body @ after))"
proof (induction "length before" arbitrary: before prev rule: less_induct)
  case less
  show ?case
  proof (cases before)
    case Nil
    obtain c cs where cs: "entry_text ws ds body @ after = c # cs" by (simp add: entry_text_def)
    show ?thesis using entry_read [OF assms, of prev after] unfolding Nil append_Nil cs by simp
  next
    case (Cons c cs)
    show ?thesis
    proof (cases "migration_at prev (before @ entry_text ws ds body @ after)")
      case None
      then show ?thesis using less [of cs] by (simp add: Cons)
    next
      case (Some vk)
      obtain v k where vk: "vk = (v, k)" by (cases vk)
      from entry_found [OF Some [unfolded vk]] obtain ws' ds' body' rest where found: "entry_ok ws' ds' body'"
        "before @ entry_text ws ds body @ after = entry_text ws' ds' body' @ rest" "k = length (entry_text ws' ds' body')" by blast
      have k: "k \<le> length before" "5 < k" using entry_apart [OF assms found(1) _ found(2)] found(3) entry_chars(4) [OF found(1)]
        by (auto simp: Cons)
      have "drop (k - 1) (cs @ entry_text ws ds body @ after) = drop k before @ entry_text ws ds body @ after"
        using k by (cases k) (simp_all add: Cons)
      moreover have "length (drop k before) < length before" using k by simp
      ultimately show ?thesis using less Some vk by (simp add: Cons)
    qed
  qed
qed

lemma max_from:
  "fst (foldl (\<lambda>(best, entry) (n, e). if int n > best then (int n, Some e) else (best, entry)) (b, e0) xs) \<ge> b \<and>
    (\<forall>x \<in> set xs. int (fst x) \<le> fst (foldl (\<lambda>(best, entry) (n, e). if int n > best then (int n, Some e) else (best, entry)) (b, e0) xs))"
proof (induction xs arbitrary: b e0)
  case (Cons x xs)
  show ?case using Cons.IH [of "int (fst x)" "Some (snd x)"] Cons.IH [of b e0] by (cases x) auto
qed simp

lemma extract_max_bound: "x \<in> set (all_matches migration_at None s) \<Longrightarrow> int (fst x) \<le> fst (extract_max_number s)"
  using max_from by (auto simp: extract_max_number_def)

text \<open>A migration number is new. The number that is granted is greater than the number of every
  entry of the migration index, in the local file and in the file of the main branch: the scanner overlooks
  none, wherever in the text the entry stands.\<close>

theorem migration_number_is_new:
  assumes "next_migration_slot env git fs opts w = (Some g, w')"
    and "index \<in> {pf_read fs (to_str (coalesce (jget opts ''migrationsPath'') (JStr ''src/migrations/index.ts''))),
      git [''show'', ''origin/main:src/migrations/index.ts'']}"
    and "index = Some (before @ entry_text ws ds body @ after)" "entry_ok ws ds body"
  shows "digits_val ds < sg_number g"
proof -
  define here where "here = extract_max_number (text_or_empty (pf_read fs (to_str (coalesce (jget opts ''migrationsPath'') (JStr ''src/migrations/index.ts'')))))"
  define there where "there = extract_max_number (text_or_empty (git [''show'', ''origin/main:src/migrations/index.ts'']))"
  obtain job race where run: "try_slots env job slot_tries (nat (max (fst here) (fst there) + 1)) race w = (Some g, w')"
    using assms(1) unfolding next_migration_slot_def Let_def here_def [symmetric] there_def [symmetric] by blast
  have "int (digits_val ds) \<le> fst (extract_max_number (before @ entry_text ws ds body @ after))"
    using extract_max_bound [OF entry_counted [OF assms(4)]] by simp
  then have "int (digits_val ds) \<le> max (fst here) (fst there)"
    using assms(2,3) by (auto simp: here_def there_def text_or_empty_def le_max_iff_disj dest: sym [of "Some x" for x])
  moreover have "nat (max (fst here) (fst there) + 1) \<le> sg_number g"
    using first_free_from [OF run] .
  ultimately show ?thesis by linarith
qed

section \<open>Release versions\<close>

lemma version_minor_V1: "version_minor (''V1.'' @ dec_nat n) = Some n"
proof -
  have "list_all is_digit (dec_nat n)" using dec_nat_digits by (auto simp: list_all_iff)
  then show ?thesis by (simp add: version_minor_def is_digit_def code_of_def digits_val_dec_nat)
qed

lemma max_minor_from:
  "foldl (\<lambda>best t. case version_minor t of None \<Rightarrow> best | Some n \<Rightarrow> if int n > best then int n else best) b tags \<ge> b \<and>
   (\<forall>t \<in> set tags. \<forall>n. version_minor t = Some n \<longrightarrow>
      int n \<le> foldl (\<lambda>best t. case version_minor t of None \<Rightarrow> best | Some n \<Rightarrow> if int n > best then int n else best) b tags)"
proof (induction tags arbitrary: b)
  case (Cons t tags)
  show ?case using Cons.IH [of b] Cons.IH [of "int (the (version_minor t))"] by (cases "version_minor t") auto
qed simp

text \<open>An offered release version is new. It is free by the check made right before a deploy, and its minor
  is greater, as a number, than the minor of every release tag.\<close>

theorem release_version_is_new:
  "verify_release_still_free (fst (next_release_version git)) git \<and>
   (\<exists>m. version_minor (fst (next_release_version git)) = Some m \<and>
      list_all (\<lambda>t. case version_minor t of None \<Rightarrow> False | Some n \<Rightarrow> n < m) (fst (list_release_tags git)))"
proof -
  let ?tags = "fst (list_release_tags git)"
  define m where "m = nat (max_minor ?tags + 1)"
  have v: "fst (next_release_version git) = ''V1.'' @ dec_nat m"
    by (simp add: next_release_version_def m_def case_prod_unfold Let_def)
  have below: "\<exists>n. version_minor t = Some n \<and> n < m" if t: "t \<in> set ?tags" for t
  proof -
    obtain n where n: "version_minor t = Some n" using t by (auto simp: list_release_tags_def)
    have "int n \<le> max_minor ?tags" using max_minor_from [of "- 1" ?tags] t n by (auto simp: max_minor_def)
    then show ?thesis using n by (auto simp: m_def)
  qed
  have free: "''V1.'' @ dec_nat m \<notin> set ?tags" using below [of "''V1.'' @ dec_nat m"] by (auto simp: version_minor_V1 [simplified])
  show ?thesis unfolding v verify_release_still_free_def
    using free below version_minor_V1 [of m] by (fastforce simp: list_all_iff)
qed

section \<open>Samples\<close>

definition sample_env :: "nat \<Rightarrow> slot_env" where
  "sample_env now = \<lparr>se_sha = short_hash,
     se_clock = \<lparr>ck_now = now, ck_iso = dec_nat, ck_parse = (\<lambda>s. Fin (of_nat (digits_val s))), ck_pid = 7\<rparr>,
     se_say = (\<lambda>_. ''taken''), se_other = ''another''\<rparr>"

definition sample_files :: planning_files where
  "sample_files = \<lparr>pf_read = (\<lambda>p. if p = ''BACKLOG.md'' then Some ''- **BL-7** note'' else None),
     pf_list = (\<lambda>_. None), pf_join = (\<lambda>_ p. p)\<rparr>"

definition sample_request :: "string \<Rightarrow> slot_request" where
  "sample_request who = Counter sample_files ''bl'' (JObj [(''by'', JStr who)])"

definition empty_world :: world where
  "empty_world = \<lparr>w_claims = None, w_journal = None\<rparr>"

lemma sample_grant:
  "case allocate (sample_env 1) (sample_request ''a'') empty_world of (Some (slot, g), w) \<Rightarrow> slot = ''bl-8'' \<and> sg_won g | _ \<Rightarrow> False"
  by code_simp

lemma sample_regrant:
  "case allocate (sample_env 3) (sample_request ''b'')
     (slot_step (sample_env 2, Release_own (JStr ''b'') ''bl-8'') (snd (allocate (sample_env 1) (sample_request ''a'') empty_world)))
   of (Some (slot, g), w) \<Rightarrow> slot = ''bl-9'' \<and> sg_won g | _ \<Rightarrow> False"
  by code_simp

lemma sample_late:
  "case allocate (sample_env 3) (sample_request ''b'')
     ((snd (allocate (sample_env 1) (sample_request ''a'') empty_world))\<lparr>w_claims := snd (mark_slot_consumed (se_clock (sample_env 2)) ''bl'' 8 JNull
        (w_claims (snd (allocate (sample_env 1) (sample_request ''a'') empty_world))))\<rparr>)
   of (Some (slot, g), w) \<Rightarrow> slot = ''bl-9'' \<and> sg_won g | _ \<Rightarrow> False"
  by code_simp

lemma sample_mark:
  "fst (mark_slot_consumed (se_clock (sample_env 2)) ''bl'' 8 JNull
     (w_claims (snd (allocate (sample_env 1) (sample_request ''a'') empty_world)))) = Consumed ''bl-8''"
  by code_simp

lemma sample_push:
  "fst (acquire_push_claim (sample_env 1) (JObj [(''by'', JStr ''a'')]) empty_world) = Acquired"
  by code_simp

lemma sample_reads_back: "reads_back (se_clock (sample_env n))"
  by (simp add: reads_back_def sample_env_def digits_val_dec_nat)

lemma sample_by: "jget (request_opts (sample_request who)) ''by'' = JStr who"
  by (simp add: sample_request_def own_get_def)

lemma sample_clock [simp]: "ck_now (se_clock (sample_env n)) = n" "ck_parse (se_clock (sample_env n)) = (\<lambda>s. Fin (of_nat (digits_val s)))"
  by (simp_all add: sample_env_def)

lemma sample_within: "n \<le> 3 \<Longrightarrow> within_ttl (\<lambda>s. Fin (of_nat (digits_val s))) slot 1 used (se_clock (sample_env n))"
  by (simp add: within_ttl_def unexpired_def slot_claim_ttl_ms_def sample_env_def)

lemma run_case:
  "(case x of (Some (s, g), w) \<Rightarrow> P s g w | _ \<Rightarrow> False) \<Longrightarrow> \<exists>s g w. x = (Some (s, g), w) \<and> P s g w"
  by (auto split: prod.splits option.splits)

lemma run_shown:
  "x = (Some (s, g), w) \<Longrightarrow> P s g w \<Longrightarrow> (case x of (Some (s, g), w) \<Rightarrow> P s g w | _ \<Rightarrow> False)"
  by simp

theorem number_given_once_witness:
  "case allocate (sample_env 1) (sample_request ''a'') empty_world of
     (Some (slot, g), w1) \<Rightarrow>
       (case allocate (sample_env 3) (sample_request ''b'') (slot_step (sample_env 2, Release_own (JStr ''b'') ''bl-8'') w1) of
          (Some (slot', g'), w2) \<Rightarrow> slot' \<noteq> slot
        | _ \<Rightarrow> False)
   | _ \<Rightarrow> False"
proof -
  obtain g w1 where one: "allocate (sample_env 1) (sample_request ''a'') empty_world = (Some (''bl-8'', g), w1)" "sg_won g"
    using run_case [OF sample_grant] by blast
  obtain slot' g' w2 where two: "allocate (sample_env 3) (sample_request ''b'') (slot_step (sample_env 2, Release_own (JStr ''b'') ''bl-8'') w1) = (Some (slot', g'), w2)" "sg_won g'"
    using run_case [OF sample_regrant] unfolding one(1) snd_conv by blast
  have "slot' \<noteq> ''bl-8''"
  proof (rule number_given_once [OF one sample_reads_back refl _ _ _ two(2)])
    show "allocate (sample_env 3) (sample_request ''b'') (fold slot_step [(sample_env 2, Release_own (JStr ''b'') ''bl-8'')] w1) = (Some (slot', g'), w2)"
      using two(1) by (simp only: fold_simps)
  qed (simp_all add: sample_by sample_within [unfolded One_nat_def])
  then show ?thesis by (intro run_shown [OF one(1)] run_shown [OF two(1)])
qed

theorem consumed_number_stays_witness:
  "case allocate (sample_env 1) (sample_request ''a'') empty_world of
     (Some (slot, g), w1) \<Rightarrow>
       (case allocate (sample_env 3) (sample_request ''b'')
          (w1\<lparr>w_claims := snd (mark_slot_consumed (se_clock (sample_env 2)) ''bl'' 8 JNull (w_claims w1))\<rparr>) of
          (Some (slot', g'), w2) \<Rightarrow> slot' \<noteq> slot
        | _ \<Rightarrow> False)
   | _ \<Rightarrow> False"
proof -
  obtain g w1 where one: "allocate (sample_env 1) (sample_request ''a'') empty_world = (Some (''bl-8'', g), w1)" "sg_won g"
    using run_case [OF sample_grant] by blast
  obtain d where d: "mark_slot_consumed (se_clock (sample_env 2)) ''bl'' 8 JNull (w_claims w1) = (Consumed ''bl-8'', d)"
    using sample_mark unfolding one(1) snd_conv by (metis prod.collapse)
  obtain slot' g' w2 where two: "allocate (sample_env 3) (sample_request ''b'') (w1\<lparr>w_claims := d\<rparr>) = (Some (slot', g'), w2)" "sg_won g'"
    using run_case [OF sample_late] unfolding one(1) snd_conv d by blast
  have "slot' \<noteq> ''bl-8''"
  proof (rule consumed_number_stays [OF one sample_reads_back refl _ _ _ _ _ two(2)])
    show "mark_slot_consumed (se_clock (sample_env 2)) ''bl'' 8 JNull (w_claims (fold slot_step [] w1)) = (Consumed ''bl-8'', d)"
      using d by (simp only: fold_simps)
    show "allocate (sample_env 3) (sample_request ''b'') (fold slot_step [] (fold slot_step [] w1\<lparr>w_claims := d\<rparr>)) = (Some (slot', g'), w2)"
      using two(1) by (simp only: fold_simps)
  qed (simp_all add: sample_by sample_within [unfolded One_nat_def])
  then show ?thesis by (intro run_shown [OF one(1)] run_shown) (simp_all only: d snd_conv two(1))
qed

theorem deploy_signal_holds_witness:
  "\<exists>holder. fst (acquire_push_claim (sample_env 3) (JObj [(''by'', JStr ''b'')])
      (slot_step (sample_env 2, Push_drop (JObj [(''by'', JStr ''b'')])) (snd (acquire_push_claim (sample_env 1) (JObj [(''by'', JStr ''a'')]) empty_world))))
    = Not_acquired holder"
proof -
  obtain w1 where one: "acquire_push_claim (sample_env 1) (JObj [(''by'', JStr ''a'')]) empty_world = (Acquired, w1)"
    using sample_push by (metis prod.collapse)
  define w2 where "w2 = slot_step (sample_env 2, Push_drop (JObj [(''by'', JStr ''b'')])) w1"
  have "\<exists>holder. fst (acquire_push_claim (sample_env 3) (JObj [(''by'', JStr ''b'')]) w2) = Not_acquired holder \<and>
      jget holder ''by'' = jget (JObj [(''by'', JStr ''a'')]) ''by''"
  proof (rule conjunct1, rule deploy_signal_holds [OF one sample_reads_back])
    show "w2 = fold slot_step [(sample_env 2, Push_drop (JObj [(''by'', JStr ''b'')]))] w1"
      by (simp only: w2_def fold_simps)
    show "ck_parse (se_clock (sample_env 3)) = ck_parse (se_clock (sample_env 1))" by simp
  qed (simp_all add: own_get_def)
  then show ?thesis unfolding one snd_conv w2_def [symmetric] by blast
qed

definition sample_git :: git where
  "sample_git args = (if args = [''show'', ''origin/main:src/migrations/index.ts''] then Some (entry_text '' '' ''003'' ''a'' @ '', up'') else None)"

lemma sample_migration:
  "case next_migration_slot (sample_env 1) sample_git sample_files (JObj [(''by'', JStr ''a'')]) empty_world of (Some g, w') \<Rightarrow> True | _ \<Rightarrow> False"
  by code_simp

theorem migration_number_is_new_witness:
  "case next_migration_slot (sample_env 1) sample_git sample_files (JObj [(''by'', JStr ''a'')]) empty_world of
     (Some g, w') \<Rightarrow> digits_val ''003'' < sg_number g | _ \<Rightarrow> False"
proof -
  obtain g w' where run: "next_migration_slot (sample_env 1) sample_git sample_files (JObj [(''by'', JStr ''a'')]) empty_world = (Some g, w')"
    using sample_migration by (auto split: prod.splits option.splits)
  have "entry_ok '' '' ''003'' ''a''" by code_simp
  moreover have "sample_git [''show'', ''origin/main:src/migrations/index.ts''] = Some ([] @ entry_text '' '' ''003'' ''a'' @ '', up'')"
    by (simp add: sample_git_def)
  ultimately have "digits_val ''003'' < sg_number g" by (intro migration_number_is_new [OF run insertI2 [OF singletonI]])
  then show ?thesis by (simp only: run prod.case option.case)
qed

definition sample_claims :: claims_dir where
  "sample_claims = Some [(''s'', Claim_dir \<lparr>cl_prov = JObj [(''by'', JStr ''a'')], cl_consumed = False, cl_ctime = 0\<rparr>),
     (''t'', Claim_dir \<lparr>cl_prov = JObj [(''by'', JStr ''b'')], cl_consumed = False, cl_ctime = 0\<rparr>)]"

theorem session_end_releases_own_witness:
  "claim_of (w_claims (snd (session_end short_hash (se_clock (sample_env 1)) (JObj [(''holderIdentity'', JStr ''a'')]) JUndef
     \<lparr>w_claims = sample_claims, w_journal = None\<rparr>))) ''s'' = None"
proof -
  let ?w = "\<lparr>w_claims = sample_claims, w_journal = None\<rparr>" and ?id = "JObj [(''holderIdentity'', JStr ''a'')]"
  obtain names w' where run: "session_end short_hash (se_clock (sample_env 1)) ?id JUndef ?w = (names, w')" by fastforce
  have "wf_map (dir_list (w_claims ?w))" "js_or (jget ?id ''holderIdentity'') JUndef = JStr ''a''" "truthy (JStr ''a'')"
    by (simp_all add: sample_claims_def dir_list_def wf_map_def js_or_def own_get_def)
  from conjunct1 [OF session_end_releases_own [OF this run], THEN spec, of "''s''"]
  have "claim_of (w_claims w') ''s'' = (case claim_of sample_claims ''s'' of None \<Rightarrow> None
      | Some c \<Rightarrow> if truthy (cl_prov c) \<and> jget (cl_prov c) ''by'' = JStr ''a'' then None else Some c)" by simp
  moreover have "claim_of sample_claims ''s'' = Some \<lparr>cl_prov = JObj [(''by'', JStr ''a'')], cl_consumed = False, cl_ctime = 0\<rparr>"
    by (simp add: sample_claims_def claim_of_def entry_of_def dir_list_def)
  ultimately have "claim_of (w_claims w') ''s'' = None" by (simp add: own_get_def)
  then show ?thesis by (simp only: run snd_conv)
qed

end
