(* ===== verification/Claim_Race.thy ===== *)
theory Claim_Race
  imports Slot_Laws
begin

text \<open>
  Several terminals allocate the same slot at once. \<open>Slots\<close> runs an attempt in one piece; here
  each file operation of \<open>claimSlot\<close> and \<open>reconcileExpiredClaim\<close>
  (\<open>src/scripts/sma/lib/claims.mjs\<close>) is a step of its own, and the steps of the terminals interleave in
  any order while the clock runs. The shared state is the directory of the slot and the clock; a terminal is
  in a phase of its attempt, between two file operations.
\<close>

section \<open>Steps\<close>

text \<open>\<open>Made\<close>: the directory is created and not stamped. \<open>Seen\<close>, \<open>Unused\<close>, \<open>Expired\<close>: what the
  reconciliation has read of the claim that is in the way. \<open>Cleared\<close>: it was removed.\<close>

datatype phase = Trying | Made | Holding | Refused_once | Seen jsval | Unused jsval | Expired jsval | Cleared | Gave_up

record race =
  rc_now :: nat
  rc_dir :: "claim option"
  rc_phase :: "nat \<Rightarrow> phase"

definition at_phase :: "nat \<Rightarrow> phase \<Rightarrow> race \<Rightarrow> race" where
  "at_phase i p s = s\<lparr>rc_phase := (rc_phase s)(i := p)\<rparr>"

definition race_clock :: "clock \<Rightarrow> race \<Rightarrow> clock" where
  "race_clock ck s = ck\<lparr>ck_now := rc_now s\<rparr>"

text \<open>\<open>mkdir\<close>: the gate.\<close>

definition make_dir :: "nat \<Rightarrow> phase \<Rightarrow> race \<Rightarrow> race" where
  "make_dir i otherwise s =
     (case rc_dir s of
        None \<Rightarrow> at_phase i Made (s\<lparr>rc_dir := Some \<lparr>cl_prov = JNull, cl_consumed = False, cl_ctime = rc_now s\<rparr>\<rparr>)
      | Some _ \<Rightarrow> at_phase i otherwise s)"

text \<open>\<open>atomicWriteJson\<close> makes the directory anew when it is gone.\<close>

definition write_stamp :: "clock \<Rightarrow> jsval \<Rightarrow> nat \<Rightarrow> race \<Rightarrow> race" where
  "write_stamp ck p i s =
     at_phase i Holding (s\<lparr>rc_dir := Some (case rc_dir s of
        None \<Rightarrow> new_claim (race_clock ck s) p
      | Some c \<Rightarrow> c\<lparr>cl_prov := stamp (race_clock ck s) p, cl_ctime := rc_now s\<rparr>)\<rparr>)"

definition read_provenance :: "nat \<Rightarrow> race \<Rightarrow> race" where
  "read_provenance i s =
     (let prov = (case rc_dir s of None \<Rightarrow> JNull | Some c \<Rightarrow> cl_prov c)
      in at_phase i (if truthy prov then Seen prov else Gave_up) s)"

definition read_consumed :: "nat \<Rightarrow> jsval \<Rightarrow> race \<Rightarrow> race" where
  "read_consumed i prov s =
     at_phase i (if (case rc_dir s of None \<Rightarrow> False | Some c \<Rightarrow> cl_consumed c) then Gave_up else Unused prov) s"

text \<open>The age by the stamp that was read; by the directory of this moment when the stamp says nothing.\<close>

definition seen_age :: "clock \<Rightarrow> jsval \<Rightarrow> race \<Rightarrow> rat" where
  "seen_age ck prov s =
     (case (if truthy (jget prov ''at'') then ck_parse ck (to_str (jget prov ''at'')) else NaN) of
        Fin t \<Rightarrow> of_nat (rc_now s) - t
      | _ \<Rightarrow> (case rc_dir s of None \<Rightarrow> 0 | Some c \<Rightarrow> of_nat (rc_now s) - of_nat (cl_ctime c)))"

definition judge_age :: "clock \<Rightarrow> nat \<Rightarrow> jsval \<Rightarrow> race \<Rightarrow> race" where
  "judge_age ck i prov s = at_phase i (if seen_age ck prov s \<le> slot_claim_ttl_ms then Gave_up else Expired prov) s"

definition remove_dir :: "nat \<Rightarrow> race \<Rightarrow> race" where
  "remove_dir i s = at_phase i Cleared (s\<lparr>rc_dir := None\<rparr>)"

inductive race_step :: "clock \<Rightarrow> (nat \<Rightarrow> jsval) \<Rightarrow> race \<Rightarrow> race \<Rightarrow> bool" for ck :: clock and prov_of :: "nat \<Rightarrow> jsval" where
  ticks: "race_step ck prov_of s (s\<lparr>rc_now := rc_now s + d\<rparr>)"
| tries: "rc_phase s i = Trying \<Longrightarrow> race_step ck prov_of s (make_dir i Refused_once s)"
| stamps: "rc_phase s i = Made \<Longrightarrow> race_step ck prov_of s (write_stamp ck (prov_of i) i s)"
| uses: "rc_phase s i = Holding \<Longrightarrow> rc_dir s = Some c \<Longrightarrow>
    race_step ck prov_of s (s\<lparr>rc_dir := Some (c\<lparr>cl_consumed := True, cl_ctime := rc_now s\<rparr>)\<rparr>)"
| reads: "rc_phase s i = Refused_once \<Longrightarrow> race_step ck prov_of s (read_provenance i s)"
| checks: "rc_phase s i = Seen prov \<Longrightarrow> race_step ck prov_of s (read_consumed i prov s)"
| judges: "rc_phase s i = Unused prov \<Longrightarrow> race_step ck prov_of s (judge_age ck i prov s)"
| removes: "rc_phase s i = Expired prov \<Longrightarrow> race_step ck prov_of s (remove_dir i s)"
| retries: "rc_phase s i = Cleared \<Longrightarrow> race_step ck prov_of s (make_dir i Gave_up s)"

definition owns :: "race \<Rightarrow> nat \<Rightarrow> bool" where
  "owns s i \<longleftrightarrow> rc_phase s i = Made \<or> rc_phase s i = Holding"

definition all_trying :: "nat \<Rightarrow> claim option \<Rightarrow> race" where
  "all_trying now d = \<lparr>rc_now = now, rc_dir = d, rc_phase = (\<lambda>_. Trying)\<rparr>"

section \<open>A free slot has one winner\<close>

definition fresh_prov :: "clock \<Rightarrow> nat \<Rightarrow> nat \<Rightarrow> jsval \<Rightarrow> bool" where
  "fresh_prov ck t0 now p \<longleftrightarrow> (\<exists>t. t0 \<le> t \<and> t \<le> now \<and> truthy (jget p ''at'') \<and> ck_parse ck (to_str (jget p ''at'')) = Fin (of_nat t))"

definition race_inv :: "clock \<Rightarrow> nat \<Rightarrow> race \<Rightarrow> bool" where
  "race_inv ck t0 s \<longleftrightarrow>
     t0 \<le> rc_now s \<and>
     (\<forall>i j. owns s i \<longrightarrow> owns s j \<longrightarrow> i = j) \<and>
     (\<forall>i. owns s i \<longrightarrow> rc_dir s \<noteq> None) \<and>
     (\<forall>c. rc_dir s = Some c \<longrightarrow> cl_prov c = JNull \<or> fresh_prov ck t0 (rc_now s) (cl_prov c)) \<and>
     (\<forall>i p. rc_phase s i = Seen p \<or> rc_phase s i = Unused p \<longrightarrow> fresh_prov ck t0 (rc_now s) p) \<and>
     (\<forall>i p. rc_phase s i \<noteq> Expired p \<and> rc_phase s i \<noteq> Cleared)"

lemma fresh_mono: "fresh_prov ck t0 now p \<Longrightarrow> now \<le> now' \<Longrightarrow> fresh_prov ck t0 now' p"
  by (auto simp: fresh_prov_def intro: order_trans)

lemma fresh_age: "fresh_prov ck t0 (rc_now s) p \<Longrightarrow> seen_age ck p s \<le> of_nat (rc_now s) - of_nat t0"
  by (auto simp: fresh_prov_def seen_age_def)

lemma phase_simps [simp]:
  "rc_phase (at_phase i p s) j = (if j = i then p else rc_phase s j)"
  "rc_dir (at_phase i p s) = rc_dir s" "rc_now (at_phase i p s) = rc_now s"
  by (simp_all add: at_phase_def)

lemma seen_age_phase [simp]: "seen_age ck p (at_phase i q s) = seen_age ck p s"
  unfolding seen_age_def phase_simps ..

definition stamps_read :: "clock \<Rightarrow> bool" where
  "stamps_read ck \<longleftrightarrow> (\<forall>t. ck_iso ck t \<noteq> [] \<and> ck_parse ck (ck_iso ck t) = Fin (of_nat t))"

lemma fresh_stamp:
  "stamps_read ck \<Longrightarrow> t0 \<le> rc_now s \<Longrightarrow> fresh_prov ck t0 (rc_now s) (stamp (race_clock ck s) p)"
  using stamp_reads(3) [of "race_clock ck s" p] by (auto simp: fresh_prov_def stamps_read_def race_clock_def)

lemma race_inv_step:
  assumes "stamps_read ck" "race_step ck prov_of s s'" "race_inv ck t0 s" "of_nat (rc_now s') - of_nat t0 \<le> slot_claim_ttl_ms"
  shows "race_inv ck t0 s'"
  using assms(2)
proof cases
  case (ticks d)
  have "fresh_prov ck t0 (rc_now s) p \<Longrightarrow> fresh_prov ck t0 (rc_now s + d) p" for p by (erule fresh_mono) simp
  then show ?thesis using assms(3) ticks by (auto simp: race_inv_def owns_def)
next
  case (tries i)
  show ?thesis
  proof (cases "rc_dir s")
    case None
    then show ?thesis using assms(3) tries by (auto simp: race_inv_def owns_def make_dir_def)
  next
    case (Some c)
    then show ?thesis using assms(3) tries by (auto simp: race_inv_def owns_def make_dir_def)
  qed
next
  case (stamps i)
  then obtain c where "rc_dir s = Some c" using assms(3) by (fastforce simp: race_inv_def owns_def)
  then show ?thesis using assms(3) stamps fresh_stamp [OF assms(1), of t0 s "prov_of i"]
    by (auto simp: race_inv_def owns_def write_stamp_def)
next
  case (uses i c)
  then show ?thesis using assms(3) by (auto simp: race_inv_def owns_def)
next
  case (reads i)
  then show ?thesis using assms(3)
    by (auto simp: race_inv_def owns_def read_provenance_def Let_def split: option.splits)
next
  case (checks i prov)
  then show ?thesis using assms(3) by (auto simp: race_inv_def owns_def read_consumed_def)
next
  case (judges i prov)
  then have "fresh_prov ck t0 (rc_now s) prov" using assms(3) by (auto simp: race_inv_def)
  then have "seen_age ck prov s \<le> slot_claim_ttl_ms" using fresh_age assms(4) judges by (fastforce simp: judge_age_def)
  then show ?thesis using assms(3) judges by (auto simp: race_inv_def owns_def judge_age_def)
next
  case (removes i prov)
  then show ?thesis using assms(3) by (auto simp: race_inv_def)
next
  case (retries i)
  then show ?thesis using assms(3) by (auto simp: race_inv_def)
qed

lemma clock_runs: "(race_step ck prov_of)\<^sup>*\<^sup>* s s' \<Longrightarrow> rc_now s \<le> rc_now s'"
proof (induction rule: rtranclp_induct)
  case (step s' s'')
  from step(2) have "rc_now s' \<le> rc_now s''"
    by cases (auto simp: make_dir_def write_stamp_def read_provenance_def read_consumed_def judge_age_def remove_dir_def Let_def split: option.splits)
  then show ?case using step(3) by simp
qed simp

text \<open>C7: a free slot has one winner. However many terminals race for a slot that nobody holds, and however
  their file operations interleave, at most one of them owns it, from the making of the directory on, as long
  as the race lasts at most half an hour.\<close>

theorem free_slot_one_winner:
  assumes "stamps_read ck" "(race_step ck prov_of)\<^sup>*\<^sup>* (all_trying t0 None) s"
    and "of_nat (rc_now s) - of_nat t0 \<le> slot_claim_ttl_ms" "owns s i" "owns s j"
  shows "i = j"
proof -
  have "of_nat (rc_now s) - of_nat t0 \<le> slot_claim_ttl_ms \<longrightarrow> race_inv ck t0 s"
    using assms(2)
  proof (induction rule: rtranclp_induct)
    case base
    show ?case by (simp add: race_inv_def all_trying_def owns_def)
  next
    case (step s' s'')
    have "rc_now s' \<le> rc_now s''" using clock_runs step(2) by blast
    then have "of_nat (rc_now s') \<le> (of_nat (rc_now s'') :: rat)" by simp
    then show ?case using step race_inv_step [OF assms(1) step(2)] by fastforce
  qed
  then show ?thesis using assms(3-5) by (simp add: race_inv_def)
qed

section \<open>An expired claim has two\<close>

lemma reach_expired:
  assumes "rc_phase s i = Trying" "rc_dir s = Some c" "truthy (cl_prov c)" "\<not> cl_consumed c"
    and "slot_claim_ttl_ms < seen_age ck (cl_prov c) s"
  shows "(race_step ck prov_of)\<^sup>*\<^sup>* s (at_phase i (Expired (cl_prov c)) s)"
proof -
  let ?at = "\<lambda>p. at_phase i p s" and ?step = "race_step ck prov_of"
  have again: "at_phase i p (?at q) = ?at p" for p q by (simp add: at_phase_def)
  have "?step s (?at Refused_once)"
    using race_step.tries [OF assms(1), of ck prov_of] by (simp add: make_dir_def assms(2))
  moreover have "?step (?at Refused_once) (?at (Seen (cl_prov c)))"
    using race_step.reads [of "?at Refused_once" i ck prov_of] assms(3) by (simp add: read_provenance_def assms(2) again)
  moreover have "?step (?at (Seen (cl_prov c))) (?at (Unused (cl_prov c)))"
    using race_step.checks [of "?at (Seen (cl_prov c))" i "cl_prov c" ck prov_of] assms(4) by (simp add: read_consumed_def assms(2) again)
  moreover have "?step (?at (Unused (cl_prov c))) (?at (Expired (cl_prov c)))"
    using race_step.judges [of "?at (Unused (cl_prov c))" i "cl_prov c" ck prov_of] assms(5) by (simp add: judge_age_def again)
  ultimately show ?thesis by (meson converse_rtranclp_into_rtranclp rtranclp.rtrancl_refl)
qed

lemma reach_holding:
  assumes "rc_phase s i = Expired p"
  shows "\<exists>s'. (race_step ck prov_of)\<^sup>*\<^sup>* s s' \<and> rc_phase s' = (rc_phase s)(i := Holding)"
proof -
  let ?step = "race_step ck prov_of"
  let ?s1 = "remove_dir i s" and ?s2 = "make_dir i Gave_up (remove_dir i s)"
  have "?step s ?s1" by (rule race_step.removes [OF assms])
  moreover have "?step ?s1 ?s2" by (rule race_step.retries) (simp add: remove_dir_def)
  moreover have "?step ?s2 (write_stamp ck (prov_of i) i ?s2)"
    by (rule race_step.stamps) (simp add: remove_dir_def make_dir_def)
  moreover have "rc_phase (write_stamp ck (prov_of i) i ?s2) = (rc_phase s)(i := Holding)"
    by (auto simp: write_stamp_def make_dir_def remove_dir_def fun_eq_iff)
  ultimately show ?thesis by (meson converse_rtranclp_into_rtranclp rtranclp.rtrancl_refl)
qed

text \<open>C31: an expired claim can be won twice. Two terminals that both judged an abandoned claim as expired
  remove it one after the other: the second removes the fresh claim the first has just made, and both
  hold the same number. The age is checked before the removal, and nothing ties the two together.\<close>

theorem expired_claim_won_twice:
  assumes "truthy (cl_prov c)" "\<not> cl_consumed c" "i \<noteq> j"
    and "slot_claim_ttl_ms < seen_age ck (cl_prov c) (all_trying now (Some c))"
  shows "\<exists>s. (race_step ck prov_of)\<^sup>*\<^sup>* (all_trying now (Some c)) s \<and> owns s i \<and> owns s j"
proof -
  let ?step = "race_step ck prov_of" and ?E = "Expired (cl_prov c)"
  let ?s0 = "all_trying now (Some c)"
  let ?s1 = "at_phase i ?E ?s0"
  let ?s2 = "at_phase j ?E ?s1"
  have "?step\<^sup>*\<^sup>* ?s0 ?s1" by (rule reach_expired) (use assms in \<open>simp_all add: all_trying_def\<close>)
  moreover have "?step\<^sup>*\<^sup>* ?s1 ?s2"
    by (rule reach_expired) (use assms in \<open>simp_all add: all_trying_def\<close>)
  moreover obtain s3 where "?step\<^sup>*\<^sup>* ?s2 s3" "rc_phase s3 = (rc_phase ?s2)(i := Holding)"
    using reach_holding [of ?s2 i "cl_prov c" ck prov_of] assms(3) by auto
  moreover from this(2) assms(3) obtain s4 where "?step\<^sup>*\<^sup>* s3 s4" "rc_phase s4 = (rc_phase s3)(j := Holding)"
    using reach_holding [of s3 j "cl_prov c" ck prov_of] by auto
  ultimately show ?thesis using assms(3) by (intro exI [of _ s4]) (auto simp: owns_def)
qed

section \<open>Samples\<close>

definition plain_clock :: clock where
  "plain_clock = \<lparr>ck_now = 0, ck_iso = dec_nat, ck_parse = (\<lambda>s. Fin (of_nat (digits_val s))), ck_pid = 7\<rparr>"

theorem free_slot_one_winner_witness:
  "owns (make_dir 0 Refused_once (all_trying 5 None)) 0 \<and> \<not> owns (make_dir 0 Refused_once (all_trying 5 None)) 1"
proof -
  let ?s = "make_dir 0 Refused_once (all_trying 5 None)"
  have reach: "(race_step plain_clock (\<lambda>_. JNull))\<^sup>*\<^sup>* (all_trying 5 None) ?s"
    by (intro r_into_rtranclp race_step.tries) (simp add: all_trying_def)
  have reads: "stamps_read plain_clock" by (simp add: stamps_read_def plain_clock_def digits_val_dec_nat)
  have now: "of_nat (rc_now ?s) - of_nat 5 \<le> slot_claim_ttl_ms" by (simp add: make_dir_def all_trying_def slot_claim_ttl_ms_def)
  have "owns ?s 0" by (simp add: owns_def make_dir_def all_trying_def)
  then show ?thesis using free_slot_one_winner [OF reads reach now, of 0 1] by auto
qed

definition abandoned :: claim where
  "abandoned = \<lparr>cl_prov = JObj [(''at'', JStr ''0'')], cl_consumed = False, cl_ctime = 0\<rparr>"

theorem expired_claim_won_twice_witness:
  "\<exists>s. (race_step plain_clock (\<lambda>_. JNull))\<^sup>*\<^sup>* (all_trying 1800001 (Some abandoned)) s \<and> owns s 0 \<and> owns s 1"
proof (rule expired_claim_won_twice)
  have "digits_val ''0'' = 0" by (simp add: digits_val_def code_of_def)
  then show "slot_claim_ttl_ms < seen_age plain_clock (cl_prov abandoned) (all_trying 1800001 (Some abandoned))"
    by (simp add: seen_age_def abandoned_def plain_clock_def all_trying_def slot_claim_ttl_ms_def own_get_def)
qed (simp_all add: abandoned_def)

end
