(* ===== verification/Union_Merge.thy ===== *)
theory Union_Merge
  imports Merge_Paths Journal
begin

text \<open>
  The mechanical resolution of merge conflicts (\<open>src/scripts/sma/lib/branch-sync.mjs\<close>): which conflicted
  files may be resolved without a person, the union of two additions in a text with diff3 markers, and the files
  a command touched beside the conflict. What \<open>resolveMechanical\<close> does with git, commands and files is the
  theory \<open>Mechanical\<close>.

  Paths and rules are the theory \<open>Merge_Paths\<close>. Refusals are constructors instead of their sentences.
\<close>

section \<open>The class of a conflict\<close>

datatype resolution = By_regenerate regen_rule | By_measured | By_union | By_human

definition resolution_of :: "merge_rules \<Rightarrow> string \<Rightarrow> resolution" where
  "resolution_of rules f =
     (case find (\<lambda>r. rg_command r \<noteq> [] \<and> list_ex (matches_pattern f) (rg_files r)) (mr_regenerate rules) of
        Some r \<Rightarrow> By_regenerate r
      | None \<Rightarrow>
          if list_ex (matches_pattern f) (mr_measured_files rules) then By_measured
          else if list_ex (matches_pattern f) (mr_union rules) then By_union
          else By_human)"

record conflict_classes =
  cc_union :: "string list"
  cc_regenerate :: "(string \<times> regen_rule) list"
  cc_measured :: "string list"
  cc_human :: "string list"

definition classify_conflicts :: "merge_rules \<Rightarrow> string list \<Rightarrow> conflict_classes" where
  "classify_conflicts rules fs =
     \<lparr>cc_union = filter (\<lambda>f. resolution_of rules f = By_union) fs,
      cc_regenerate = List.map_filter (\<lambda>f. case resolution_of rules f of By_regenerate r \<Rightarrow> Some (f, r) | _ \<Rightarrow> None) fs,
      cc_measured = filter (\<lambda>f. resolution_of rules f = By_measured) fs,
      cc_human = filter (\<lambda>f. resolution_of rules f = By_human) fs\<rparr>"

section \<open>Conflict markers\<close>

definition mark_ours :: string where "mark_ours = replicate 7 (CHR ''<'')"

definition mark_base :: string where "mark_base = replicate 7 (CHR ''|'')"

definition mark_mid :: string where "mark_mid = replicate 7 (CHR ''='')"

definition mark_theirs :: string where "mark_theirs = replicate 7 (CHR ''>'')"

text \<open>\<open>/^(<<<<<<<|=======|>>>>>>>)/m\<close>: a line starts at the start and behind a line end.\<close>

fun markers_after :: "bool \<Rightarrow> string \<Rightarrow> bool" where
  "markers_after start [] = False"
| "markers_after start (c # cs) =
     (start \<and> (str_prefix mark_ours (c # cs) \<or> str_prefix mark_mid (c # cs) \<or> str_prefix mark_theirs (c # cs)) \<or>
      markers_after (code_of c = 10 \<or> code_of c = 13) cs)"

definition has_conflict_markers :: "string \<Rightarrow> bool" where
  "has_conflict_markers s = markers_after True s"

section \<open>The union of two additions\<close>

definition blank_line :: "string \<Rightarrow> bool" where
  "blank_line l \<longleftrightarrow> js_trim l = []"

definition is_measured_line :: "(string \<Rightarrow> bool) list \<Rightarrow> string \<Rightarrow> bool" where
  "is_measured_line pats l \<longleftrightarrow> blank_line l \<or> list_ex (\<lambda>p. p l) pats"

definition is_badge :: "(string \<Rightarrow> bool) list \<Rightarrow> string \<Rightarrow> bool" where
  "is_badge pats l \<longleftrightarrow> \<not> blank_line l \<and> is_measured_line pats l"

datatype trunk_side = Ours | Theirs

datatype union_refusal =
    No_base
  | Torn
  | Badge_decision nat nat nat
  | Disputed "(nat \<times> string) list"
  | No_markers

text \<open>What stands behind an opening marker: the three sides and the rest, or a refusal. The number is
  how many lines of the text lie before the base.\<close>

datatype hunk = Hunk_refused union_refusal | Hunk "string list" "string list" "string list" nat "string list"

definition read_hunk :: "string list \<Rightarrow> hunk" where
  "read_hunk ls =
     (let ours = takeWhile (\<lambda>l. \<not> str_prefix mark_base l \<and> \<not> str_prefix mark_mid l) ls;
          r1 = dropWhile (\<lambda>l. \<not> str_prefix mark_base l \<and> \<not> str_prefix mark_mid l) ls
      in if r1 = [] \<or> \<not> str_prefix mark_base (hd r1) then Hunk_refused No_base
         else let base = takeWhile (\<lambda>l. \<not> str_prefix mark_mid l) (tl r1); r2 = dropWhile (\<lambda>l. \<not> str_prefix mark_mid l) (tl r1)
              in if r2 = [] then Hunk_refused Torn
                 else let theirs = takeWhile (\<lambda>l. \<not> str_prefix mark_theirs l) (tl r2);
                          r3 = dropWhile (\<lambda>l. \<not> str_prefix mark_theirs l) (tl r2)
                      in if r3 = [] then Hunk_refused Torn
                         else Hunk ours base theirs (length ours + 1) (tl r3))"

text \<open>\<open>for (const l of ours) out.push(isBadge(l) ? trunkBadges[taken++] : l)\<close>; the counts are equal.\<close>

fun put_badges :: "(string \<Rightarrow> bool) list \<Rightarrow> string list \<Rightarrow> string list \<Rightarrow> string list" where
  "put_badges pats [] bs = []"
| "put_badges pats (l # ls) bs =
     (if is_badge pats l then (case bs of [] \<Rightarrow> l # put_badges pats ls [] | b # bs' \<Rightarrow> b # put_badges pats ls bs')
      else l # put_badges pats ls bs)"

definition same_text :: "string list \<Rightarrow> string list \<Rightarrow> bool" where
  "same_text a b \<longleftrightarrow> js_join [newline] a = js_join [newline] b"

definition merge_hunk ::
    "(string \<Rightarrow> bool) list \<Rightarrow> trunk_side \<Rightarrow> nat \<Rightarrow> string list \<Rightarrow> string list \<Rightarrow> string list \<Rightarrow> union_refusal + string list \<times> nat" where
  "merge_hunk pats trunk first ours base theirs =
     (if list_ex (\<lambda>l. \<not> blank_line l) base
      then (let disputed = filter (\<lambda>(_, l). if pats \<noteq> [] then \<not> is_measured_line pats l else \<not> blank_line l) (enumerate first base);
                badges = (\<lambda>ls. length (filter (is_badge pats) ls)); n = badges base;
                keep = badges ours = n \<and> badges theirs = n
            in if pats \<noteq> [] \<and> disputed = [] \<and> n > 0 \<and> keep
               then (let kept = put_badges pats ours (filter (is_badge pats) (if trunk = Theirs then theirs else ours));
                         ours_own = filter (\<lambda>l. \<not> is_measured_line pats l) ours;
                         theirs_own = filter (\<lambda>l. \<not> is_measured_line pats l) theirs
                     in Inr (kept @ (if theirs_own \<noteq> [] \<and> \<not> same_text theirs_own ours_own then theirs_own else []), n))
               else if disputed = [] then Inl (Badge_decision n (badges ours) (badges theirs))
               else Inl (Disputed disputed))
      else Inr (ours @ (if same_text theirs ours then [] else theirs), 0))"

record union_text =
  un_lines :: "string list"
  un_hunks :: nat
  un_measured :: nat

definition add_text :: "string list \<Rightarrow> nat \<Rightarrow> nat \<Rightarrow> union_refusal + union_text \<Rightarrow> union_refusal + union_text" where
  "add_text ls h m r = (case r of Inl e \<Rightarrow> Inl e
     | Inr t \<Rightarrow> Inr \<lparr>un_lines = ls @ un_lines t, un_hunks = h + un_hunks t, un_measured = m + un_measured t\<rparr>)"

lemma tail_shorter: "dropWhile P xs \<noteq> [] \<Longrightarrow> length (tl (dropWhile P xs)) < length xs"
  using length_dropWhile_le [of P xs] by (cases "dropWhile P xs") auto

lemma read_hunk_shorter:
  assumes "read_hunk ls = Hunk ours base theirs k rest"
  shows "length rest < length ls"
proof -
  define r1 where "r1 = dropWhile (\<lambda>l. \<not> str_prefix mark_base l \<and> \<not> str_prefix mark_mid l) ls"
  define r2 where "r2 = dropWhile (\<lambda>l. \<not> str_prefix mark_mid l) (tl r1)"
  define r3 where "r3 = dropWhile (\<lambda>l. \<not> str_prefix mark_theirs l) (tl r2)"
  have "r1 \<noteq> []" "r2 \<noteq> []" "r3 \<noteq> []" "rest = tl r3"
    using assms unfolding read_hunk_def Let_def r1_def [symmetric] r2_def [symmetric] r3_def [symmetric]
    by (simp_all split: if_splits)
  moreover from this(1) have "length (tl r1) < length ls" unfolding r1_def by (rule tail_shorter)
  moreover from calculation(2) have "length (tl r2) < length (tl r1)" unfolding r2_def by (rule tail_shorter)
  moreover from calculation(3) have "length (tl r3) < length (tl r2)" unfolding r3_def by (rule tail_shorter)
  ultimately show ?thesis by simp
qed

text \<open>The lines from the one with number \<open>n\<close>, counted from one.\<close>

function union_lines :: "(string \<Rightarrow> bool) list \<Rightarrow> trunk_side \<Rightarrow> nat \<Rightarrow> string list \<Rightarrow> union_refusal + union_text" where
  "union_lines pats trunk n [] = Inr \<lparr>un_lines = [], un_hunks = 0, un_measured = 0\<rparr>"
| "union_lines pats trunk n (l # ls) =
     (if \<not> str_prefix mark_ours l then add_text [l] 0 0 (union_lines pats trunk (n + 1) ls)
      else case read_hunk ls of
             Hunk_refused e \<Rightarrow> Inl e
           | Hunk ours base theirs k rest \<Rightarrow>
               (case merge_hunk pats trunk (n + 1 + k) ours base theirs of
                  Inl e \<Rightarrow> Inl e
                | Inr (out, m) \<Rightarrow> add_text out 1 m (union_lines pats trunk (n + 1 + length ls - length rest) rest)))"
  by pat_completeness auto
termination
  by (relation "measure (\<lambda>(pats, trunk, n, ls). length ls)") (auto dest!: read_hunk_shorter)

definition union_resolve :: "(string \<Rightarrow> bool) list \<Rightarrow> trunk_side \<Rightarrow> string \<Rightarrow> union_refusal + string \<times> nat \<times> nat" where
  "union_resolve pats trunk src =
     (case union_lines pats trunk 1 (js_split newline src) of
        Inl e \<Rightarrow> Inl e
      | Inr t \<Rightarrow> if un_hunks t = 0 then Inl No_markers else Inr (js_join [newline] (un_lines t), un_hunks t, un_measured t))"

section \<open>The state of the tree\<close>

text \<open>\<open>git status --porcelain -z\<close>: a rename or a copy carries its source in the next entry.\<close>

fun status_entries :: "string list \<Rightarrow> (string \<times> string) list \<Rightarrow> (string \<times> string) list" where
  "status_entries [] m = m"
| "status_entries (e # es) m =
     (if length e < 4 then status_entries es m
      else status_entries (if hd e = CHR ''R'' \<or> hd e = CHR ''C'' then tl es else es) (aset (forward_slashes (drop 3 e)) (take 2 e) m))"

definition parse_status_z :: "string \<Rightarrow> (string \<times> string) list" where
  "parse_status_z out = status_entries (js_split nul out) []"

definition strays_between :: "(string \<times> string) list \<Rightarrow> (string \<times> string) list \<Rightarrow> string list \<Rightarrow> string list" where
  "strays_between before after exempt =
     map fst (filter (\<lambda>(p, code). \<not> List.member (map forward_slashes exempt) p \<and> map_of before p \<noteq> Some code) after)"

section \<open>The text of a conflict\<close>

text \<open>A text with diff3 markers as the sequence it is written from: lines, and conflicts with the three
  sides between their four marker lines.\<close>

datatype segment = Plain string | Conflict string "string list" string "string list" string "string list" string

fun render :: "segment \<Rightarrow> string list" where
  "render (Plain l) = [l]"
| "render (Conflict a ours b base m theirs c) = a # ours @ b # base @ m # theirs @ [c]"

fun wf_segment :: "segment \<Rightarrow> bool" where
  "wf_segment (Plain l) = (\<not> str_prefix mark_ours l)"
| "wf_segment (Conflict a ours b base m theirs c) =
     (str_prefix mark_ours a \<and> str_prefix mark_base b \<and> str_prefix mark_mid m \<and> str_prefix mark_theirs c \<and>
      list_all (\<lambda>l. \<not> str_prefix mark_base l \<and> \<not> str_prefix mark_mid l) ours \<and>
      list_all (\<lambda>l. \<not> str_prefix mark_mid l) base \<and> list_all (\<lambda>l. \<not> str_prefix mark_theirs l) theirs)"

fun is_conflict :: "segment \<Rightarrow> bool" where
  "is_conflict (Plain l) = False" | "is_conflict _ = True"

text \<open>Both sides of a conflict, ours first; the same text once.\<close>

fun both_sides :: "segment \<Rightarrow> string list" where
  "both_sides (Plain l) = [l]"
| "both_sides (Conflict a ours b base m theirs c) = ours @ (if same_text theirs ours then [] else theirs)"

fun additions_only :: "segment \<Rightarrow> bool" where
  "additions_only (Plain l) = True"
| "additions_only (Conflict a ours b base m theirs c) = list_all blank_line base"

lemma take_stop: "list_all P xs \<Longrightarrow> \<not> P y \<Longrightarrow> takeWhile P (xs @ y # ys) = xs \<and> dropWhile P (xs @ y # ys) = y # ys"
  by (induction xs) auto

lemma marker_apart: "str_prefix mark_base l \<Longrightarrow> \<not> str_prefix mark_mid l"
  by (cases l) (auto simp: mark_base_def mark_mid_def numeral_eq_Suc)

lemma read_rendered:
  assumes "wf_segment (Conflict a ours b base m theirs c)"
  shows "read_hunk (ours @ b # base @ m # theirs @ c # rest) = Hunk ours base theirs (length ours + 1) rest"
proof -
  let ?P = "\<lambda>l. \<not> str_prefix mark_base l \<and> \<not> str_prefix mark_mid l"
  have w: "list_all ?P ours" "\<not> ?P b" "str_prefix mark_base b" "list_all (\<lambda>l. \<not> str_prefix mark_mid l) base" "\<not> \<not> str_prefix mark_mid m"
    "list_all (\<lambda>l. \<not> str_prefix mark_theirs l) theirs" "\<not> \<not> str_prefix mark_theirs c"
    using assms by simp_all
  note o = take_stop [OF w(1,2), of "base @ m # theirs @ c # rest"] and bs = take_stop [OF w(4,5), of "theirs @ c # rest"]
    and t = take_stop [OF w(6,7), of rest]
  show ?thesis using o bs t w(3) by (simp add: read_hunk_def Let_def)
qed

lemma written_hunk:
  assumes "read_hunk ls = Hunk ours base theirs k rest" "str_prefix mark_ours a"
  shows "\<exists>b m c. wf_segment (Conflict a ours b base m theirs c) \<and> ls = ours @ b # base @ m # theirs @ c # rest \<and> k = length ours + 1"
proof -
  let ?P = "\<lambda>l. \<not> str_prefix mark_base l \<and> \<not> str_prefix mark_mid l" and ?M = "\<lambda>l. \<not> str_prefix mark_mid l" and ?T = "\<lambda>l. \<not> str_prefix mark_theirs l"
  define r1 where "r1 = dropWhile ?P ls"
  define r2 where "r2 = dropWhile ?M (tl r1)"
  define r3 where "r3 = dropWhile ?T (tl r2)"
  have r: "r1 \<noteq> []" "str_prefix mark_base (hd r1)" "r2 \<noteq> []" "r3 \<noteq> []" "rest = tl r3" "k = length ours + 1"
    and side: "ours = takeWhile ?P ls" "base = takeWhile ?M (tl r1)" "theirs = takeWhile ?T (tl r2)"
    using assms(1) unfolding read_hunk_def Let_def r1_def [symmetric] r2_def [symmetric] r3_def [symmetric]
    by (auto split: if_splits)
  have "ls = ours @ r1" "tl r1 = base @ r2" "tl r2 = theirs @ r3" by (simp_all add: side r1_def r2_def r3_def)
  moreover have "r1 = hd r1 # tl r1" "r2 = hd r2 # tl r2" "r3 = hd r3 # tl r3" using r by simp_all
  ultimately have "ls = ours @ hd r1 # base @ hd r2 # theirs @ hd r3 # rest" using r(5) by metis
  moreover have "str_prefix mark_mid (hd r2)" "str_prefix mark_theirs (hd r3)"
    using hd_dropWhile [of ?M "tl r1"] hd_dropWhile [of ?T "tl r2"] r(3,4) by (simp_all add: r2_def r3_def)
  moreover have "list_all ?P ours" "list_all ?M base" "list_all ?T theirs"
    unfolding side list_all_iff using set_takeWhileD by fast+
  ultimately show ?thesis using assms(2) r(2,6) by auto
qed

definition hunk_result :: "(string \<Rightarrow> bool) list \<Rightarrow> trunk_side \<Rightarrow> segment \<Rightarrow> string list \<Rightarrow> bool" where
  "hunk_result pats trunk seg out \<longleftrightarrow> (case seg of
       Plain l \<Rightarrow> out = [l]
     | Conflict a ours b base m theirs c \<Rightarrow> \<exists>k n. merge_hunk pats trunk k ours base theirs = Inr (out, n))"

lemma lines_written:
  "union_lines pats trunk n ls = Inr t \<Longrightarrow>
     \<exists>segs outs. list_all wf_segment segs \<and> ls = concat (map render segs) \<and> list_all2 (hunk_result pats trunk) segs outs \<and>
       un_lines t = concat outs \<and> un_hunks t = length (filter is_conflict segs)"
proof (induction pats trunk n ls arbitrary: t rule: union_lines.induct)
  case (1 pats trunk n)
  then show ?case by (intro exI [of _ "[]"]) auto
next
  case (2 pats trunk n l ls)
  show ?case
  proof (cases "str_prefix mark_ours l")
    case False
    then obtain t' where t': "union_lines pats trunk (n + 1) ls = Inr t'" "t = \<lparr>un_lines = l # un_lines t', un_hunks = un_hunks t', un_measured = un_measured t'\<rparr>"
      using 2(3) by (auto simp: add_text_def split: sum.splits)
    from 2(1) [OF False t'(1)] obtain segs outs where "list_all wf_segment segs" "ls = concat (map render segs)"
      "list_all2 (hunk_result pats trunk) segs outs" "un_lines t' = concat outs" "un_hunks t' = length (filter is_conflict segs)" by blast
    moreover have "hunk_result pats trunk (Plain l) [l]" by (simp add: hunk_result_def)
    ultimately show ?thesis using False t'(2)
      by (intro exI [of _ "Plain l # segs"] exI [of _ "[l] # outs"]) auto
  next
    case True
    obtain ours base theirs k rest where h: "read_hunk ls = Hunk ours base theirs k rest"
      using 2(3) True by (auto split: hunk.splits)
    obtain out m where m: "merge_hunk pats trunk (n + 1 + k) ours base theirs = Inr (out, m)"
      using 2(3) True h by (auto split: sum.splits)
    obtain t' where t': "union_lines pats trunk (n + 1 + length ls - length rest) rest = Inr t'"
      "t = \<lparr>un_lines = out @ un_lines t', un_hunks = 1 + un_hunks t', un_measured = m + un_measured t'\<rparr>"
      using 2(3) True h m by (auto simp: add_text_def split: sum.splits)
    from 2(2) [OF _ h m refl t'(1)] True obtain segs outs where rest: "list_all wf_segment segs" "rest = concat (map render segs)"
      "list_all2 (hunk_result pats trunk) segs outs" "un_lines t' = concat outs" "un_hunks t' = length (filter is_conflict segs)" by auto
    obtain b md c where seg: "wf_segment (Conflict l ours b base md theirs c)" "ls = ours @ b # base @ md # theirs @ c # rest"
      using written_hunk [OF h True] by blast
    have "hunk_result pats trunk (Conflict l ours b base md theirs c) out" using m by (auto simp: hunk_result_def)
    then show ?thesis using seg rest t'(2)
      by (intro exI [of _ "Conflict l ours b base md theirs c # segs"] exI [of _ "out # outs"]) auto
  qed
qed

lemma rendered_lines:
  "list_all wf_segment segs \<Longrightarrow> list_all additions_only segs \<Longrightarrow>
     \<exists>t. union_lines pats trunk n (concat (map render segs)) = Inr t \<and> un_lines t = concat (map both_sides segs) \<and>
       un_hunks t = length (filter is_conflict segs) \<and> un_measured t = 0"
proof (induction segs arbitrary: n)
  case (Cons seg segs)
  show ?case
  proof (cases seg)
    case (Plain l)
    from Cons obtain t where "union_lines pats trunk (n + 1) (concat (map render segs)) = Inr t" "un_lines t = concat (map both_sides segs)"
      "un_hunks t = length (filter is_conflict segs)" "un_measured t = 0" by fastforce
    then show ?thesis using Cons.prems Plain by (simp add: add_text_def)
  next
    case (Conflict a ours b base m theirs c)
    let ?rest = "concat (map render segs)" and ?ls = "ours @ b # base @ m # theirs @ c # concat (map render segs)"
    have w: "wf_segment (Conflict a ours b base m theirs c)" "list_all blank_line base" using Cons.prems Conflict by simp_all
    note h = read_rendered [OF w(1), of ?rest]
    have mh: "merge_hunk pats trunk k ours base theirs = Inr (both_sides seg, 0)" for k
      using w(2) by (auto simp: merge_hunk_def Conflict list_all_iff list_ex_iff)
    obtain t where t: "union_lines pats trunk (n + 1 + length ?ls - length ?rest) ?rest = Inr t" "un_lines t = concat (map both_sides segs)"
      "un_hunks t = length (filter is_conflict segs)" "un_measured t = 0" using Cons by fastforce
    have "union_lines pats trunk n (a # ?ls) = add_text (both_sides seg) 1 0 (Inr t)"
      using w(1) h mh t(1) by simp
    then show ?thesis using t by (simp add: Conflict add_text_def)
  qed
qed simp

lemma merged_additions: "hunk_result [] trunk seg out \<Longrightarrow> additions_only seg \<and> out = both_sides seg"
  by (cases seg) (auto simp: hunk_result_def merge_hunk_def Let_def list_ex_iff list_all_iff enumerate_eq_zip filter_empty_conv
      in_set_zip split: if_splits dest!: in_set_conv_nth [THEN iffD1])

text \<open>C18: the union resolves exactly the texts whose conflicts are additions on both sides. Without patterns of
  measured lines a text is resolved iff its lines are those of some sequence of lines and conflicts with
  at least one conflict and no base line that is not blank_line; and the result is that sequence with both
  sides of every conflict, ours first and the same text once: no line is lost, none is made up.\<close>

theorem union_exactly_additions:
  "union_resolve [] trunk src = Inr (out, hunks, measured) \<longleftrightarrow>
     (\<exists>segs. list_all wf_segment segs \<and> list_all additions_only segs \<and> js_split newline src = concat (map render segs) \<and>
        list_ex is_conflict segs \<and> out = js_join [newline] (concat (map both_sides segs)) \<and>
        hunks = length (filter is_conflict segs) \<and> measured = 0)"
proof
  assume "union_resolve [] trunk src = Inr (out, hunks, measured)"
  then obtain t where t: "union_lines [] trunk 1 (js_split newline src) = Inr t" "un_hunks t \<noteq> 0"
    "out = js_join [newline] (un_lines t)" "hunks = un_hunks t" "measured = un_measured t"
    by (auto simp: union_resolve_def split: sum.splits if_splits)
  obtain segs outs where segs: "list_all wf_segment segs" "js_split newline src = concat (map render segs)"
    "list_all2 (hunk_result [] trunk) segs outs" "un_lines t = concat outs" "un_hunks t = length (filter is_conflict segs)"
    using lines_written [OF t(1)] by blast
  have "list_all additions_only segs \<and> outs = map both_sides segs"
    using segs(3) by (induction rule: list_all2_induct) (auto dest: merged_additions)
  moreover have "un_measured t = 0"
    using rendered_lines [OF segs(1), of "[]" trunk 1] calculation t(1) segs(2) by auto
  ultimately show "\<exists>segs. list_all wf_segment segs \<and> list_all additions_only segs \<and> js_split newline src = concat (map render segs) \<and>
        list_ex is_conflict segs \<and> out = js_join [newline] (concat (map both_sides segs)) \<and>
        hunks = length (filter is_conflict segs) \<and> measured = 0"
    using segs t(2-5) by (intro exI [of _ segs]) (auto simp: filter_empty_conv list_ex_iff)
next
  assume "\<exists>segs. list_all wf_segment segs \<and> list_all additions_only segs \<and> js_split newline src = concat (map render segs) \<and>
        list_ex is_conflict segs \<and> out = js_join [newline] (concat (map both_sides segs)) \<and>
        hunks = length (filter is_conflict segs) \<and> measured = 0"
  then obtain segs where segs: "list_all wf_segment segs" "list_all additions_only segs" "js_split newline src = concat (map render segs)"
    "list_ex is_conflict segs" "out = js_join [newline] (concat (map both_sides segs))" "hunks = length (filter is_conflict segs)" "measured = 0" by blast
  obtain t where "union_lines [] trunk 1 (js_split newline src) = Inr t" "un_lines t = concat (map both_sides segs)"
    "un_hunks t = length (filter is_conflict segs)" "un_measured t = 0"
    using rendered_lines [OF segs(1,2), of "[]" trunk 1] segs(3) by auto
  moreover have "length (filter is_conflict segs) \<noteq> 0" using segs(4) by (auto simp: list_ex_iff filter_empty_conv)
  ultimately show "union_resolve [] trunk src = Inr (out, hunks, measured)"
    using segs(5-7) by (simp add: union_resolve_def)
qed

fun own_lines :: "segment \<Rightarrow> string list" where
  "own_lines (Plain l) = [l]"
| "own_lines (Conflict a ours b base m theirs c) = ours @ theirs"

lemma same_text_line:
  assumes "same_text a b" "\<forall>l \<in> set a \<union> set b. newline \<notin> set l" "l \<in> set a" "l \<noteq> []"
  shows "l \<in> set b"
proof -
  have split: "js_split newline (js_join [newline] a) = a" using assms(2,3) by (intro js_split_join) auto
  show ?thesis
  proof (cases "b = []")
    case True
    then have "js_join [newline] a = []" using assms(1) by (simp add: same_text_def)
    then have "a = [[]]" using split by simp
    then show ?thesis using assms(3,4) by simp
  next
    case False
    then have "js_split newline (js_join [newline] b) = b" using assms(2) by (intro js_split_join) auto
    then have "a = b" using split assms(1) by (simp add: same_text_def)
    then show ?thesis using assms(3) by simp
  qed
qed

lemma line_in_join: "newline \<notin> set l \<Longrightarrow> l \<in> set ls \<Longrightarrow> l \<in> set (js_split newline (js_join [newline] ls))"
proof (induction ls)
  case (Cons w ws)
  show ?case
  proof (cases ws)
    case Nil
    then show ?thesis using Cons.prems by (simp add: js_split_single)
  next
    case (Cons v vs)
    then have "js_split newline (js_join [newline] (w # ws)) = js_split newline w @ js_split newline (js_join [newline] ws)"
      by (simp add: js_split_append)
    then show ?thesis using Cons.IH Cons.prems js_split_single [of newline l] by auto
  qed
qed simp

lemma put_badges_keeps: "l \<in> set ls \<Longrightarrow> \<not> is_badge pats l \<Longrightarrow> l \<in> set (put_badges pats ls bs)"
  by (induction pats ls bs rule: put_badges.induct) (auto split: list.splits)

lemma hunk_loses_nothing:
  assumes "hunk_result pats trunk seg out" "\<forall>l \<in> set (own_lines seg). newline \<notin> set l" "l \<in> set (own_lines seg)"
    and "\<not> is_measured_line pats l"
  shows "l \<in> set out"
proof (cases seg)
  case (Plain k)
  then show ?thesis using assms(1,3) by (simp add: hunk_result_def)
next
  case (Conflict a ours b base m theirs c)
  have ne: "l \<noteq> []" using assms(4) by (auto simp: is_measured_line_def blank_line_def)
  have free: "\<forall>k \<in> set ours \<union> set theirs. newline \<notin> set k" and l: "l \<in> set ours \<or> l \<in> set theirs"
    using assms(2,3) Conflict by auto
  obtain k n where m: "merge_hunk pats trunk k ours base theirs = Inr (out, n)" using assms(1) Conflict by (auto simp: hunk_result_def)
  show ?thesis
  proof (cases "list_ex (\<lambda>l. \<not> blank_line l) base")
    case False
    then have "out = ours @ (if same_text theirs ours then [] else theirs)" using m by (simp add: merge_hunk_def)
    then show ?thesis using l same_text_line [of theirs ours l] free ne by (auto split: if_splits)
  next
    case True
    let ?keep = "filter (\<lambda>l. \<not> is_measured_line pats l)"
    obtain bs where "out = put_badges pats ours bs @ (if ?keep theirs \<noteq> [] \<and> \<not> same_text (?keep theirs) (?keep ours) then ?keep theirs else [])"
      using m True by (auto simp: merge_hunk_def Let_def split: if_splits)
    moreover have "l \<in> set ours \<Longrightarrow> l \<in> set (put_badges pats ours bs)"
      using assms(4) by (intro put_badges_keeps) (auto simp: is_badge_def)
    moreover have "same_text (?keep theirs) (?keep ours) \<Longrightarrow> l \<in> set theirs \<Longrightarrow> l \<in> set ours"
      using same_text_line [of "?keep theirs" "?keep ours" l] free ne assms(4) by auto
    moreover have "l \<in> set theirs \<Longrightarrow> l \<in> set (?keep theirs) \<and> ?keep theirs \<noteq> []" using assms(4) by (auto simp: filter_empty_conv)
    ultimately show ?thesis using l by (auto split: if_splits)
  qed
qed

text \<open>C24: with patterns of measured lines, too, the union loses no text. Whenever a text is resolved, every
  line outside the conflicts and every line of either side stands in the result, unless it is blank or one of the
  patterns of measured lines matches it; those are the only lines that can be replaced, and a blank line of one side
  can be lost beside a measured one.\<close>

theorem union_loses_no_text:
  assumes "union_resolve pats trunk src = Inr (out, hunks, measured)"
  shows "\<exists>segs. list_all wf_segment segs \<and> js_split newline src = concat (map render segs) \<and>
    (\<forall>l \<in> set (concat (map own_lines segs)). js_trim l = [] \<or> list_ex (\<lambda>p. p l) pats \<or> l \<in> set (js_split newline out))"
proof -
  obtain t where t: "union_lines pats trunk 1 (js_split newline src) = Inr t" "un_hunks t \<noteq> 0" "out = js_join [newline] (un_lines t)"
    using assms by (auto simp: union_resolve_def split: sum.splits if_splits)
  obtain segs outs where segs: "list_all wf_segment segs" "js_split newline src = concat (map render segs)"
    "list_all2 (hunk_result pats trunk) segs outs" "un_lines t = concat outs"
    using lines_written [OF t(1)] by blast
  have own: "set (own_lines seg) \<subseteq> set (render seg)" for seg by (cases seg) auto
  have free: "newline \<notin> set l" if "l \<in> set (render seg)" "seg \<in> set segs" for l seg
    using that js_split_no_sep [of l newline src] segs(2) by auto
  have "l \<in> set (un_lines t)" if l: "l \<in> set (concat (map own_lines segs))" "\<not> is_measured_line pats l" for l
  proof -
    obtain seg where seg: "seg \<in> set segs" "l \<in> set (own_lines seg)" using l(1) by auto
    then obtain i where i: "i < length segs" "l \<in> set (own_lines (segs ! i))" unfolding in_set_conv_nth [of seg] by blast
    have "hunk_result pats trunk (segs ! i) (outs ! i)" "i < length outs"
      using segs(3) i(1) by (auto simp: list_all2_conv_all_nth)
    then have "l \<in> set (outs ! i)"
      using hunk_loses_nothing [of pats trunk "segs ! i" "outs ! i" l] i l(2) own free nth_mem by blast
    then show ?thesis using \<open>i < length outs\<close> segs(4) by auto
  qed
  note kept = this
  show ?thesis
  proof (intro exI conjI ballI)
    fix l assume l: "l \<in> set (concat (map own_lines segs))"
    show "js_trim l = [] \<or> list_ex (\<lambda>p. p l) pats \<or> l \<in> set (js_split newline out)"
    proof (cases "is_measured_line pats l")
      case False
      then have "l \<in> set (un_lines t)" by (rule kept [OF l])
      moreover have "newline \<notin> set l" using l own free by fastforce
      ultimately have "l \<in> set (js_split newline (js_join [newline] (un_lines t)))" by (intro line_in_join)
      then show ?thesis using t(3) by simp
    next
      case True
      then show ?thesis by (auto simp: is_measured_line_def blank_line_def)
    qed
  qed (use segs in auto)
qed

section \<open>Samples\<close>

definition sample_conflict :: string where
  "sample_conflict = js_join [newline]
     [''top'', ''<<<<<<< a'', ''badge 3'', ''ours'', ''||||||| b'', ''badge 1'', ''======='', ''badge 2'', ''theirs'', ''>>>>>>> c'', ''end'']"

theorem union_loses_no_text_witness:
  "union_resolve [str_prefix ''badge''] Theirs sample_conflict =
     Inr (js_join [newline] [''top'', ''badge 2'', ''ours'', ''theirs'', ''end''], 1, 1) \<and>
   (\<exists>segs. list_all wf_segment segs \<and> js_split newline sample_conflict = concat (map render segs))"
proof -
  have run: "union_resolve [str_prefix ''badge''] Theirs sample_conflict =
      Inr (js_join [newline] [''top'', ''badge 2'', ''ours'', ''theirs'', ''end''], 1, 1)" by code_simp
  from union_loses_no_text [OF this] show ?thesis using run by blast
qed

end
