(* ===== verification/Mechanical.thy ===== *)
theory Mechanical
  imports Union_Merge "HOL-Library.Multiset"
begin

text \<open>
  \<open>conflictedFiles\<close>, \<open>treeDirt\<close> and \<open>resolveMechanical\<close> of \<open>src/scripts/sma/lib/branch-sync.mjs\<close>: what the mechanical
  resolution does with git, the commands that rebuild derived files, and the files.

  The working copy is a host: git, a command, reading and writing a file are arguments over a state of any
  type, \<open>None\<close> or \<open>False\<close> when they throw. The model keeps the list of the git calls with their
  answers, in order. Notes
  in words are left out.
\<close>

section \<open>The working copy\<close>

record 'r host =
  h_git :: "string list \<Rightarrow> 'r \<Rightarrow> string option \<times> 'r"
  h_run :: "string list \<Rightarrow> 'r \<Rightarrow> bool \<times> 'r"
  h_read :: "string \<Rightarrow> 'r \<Rightarrow> string option"
  h_write :: "string \<Rightarrow> string \<Rightarrow> 'r \<Rightarrow> bool \<times> 'r"

record 'r tree =
  tr_host :: 'r
  tr_calls :: "(string list \<times> string option) list"

definition git_call :: "'r host \<Rightarrow> string list \<Rightarrow> 'r tree \<Rightarrow> string option \<times> 'r tree" where
  "git_call h args t =
     (let (out, r) = h_git h args (tr_host t) in (out, t\<lparr>tr_host := r, tr_calls := tr_calls t @ [(args, out)]\<rparr>))"

definition run_call :: "'r host \<Rightarrow> string list \<Rightarrow> 'r tree \<Rightarrow> bool \<times> 'r tree" where
  "run_call h cmd t = (let (done_ok, r) = h_run h cmd (tr_host t) in (done_ok, t\<lparr>tr_host := r\<rparr>))"

definition read_call :: "'r host \<Rightarrow> string \<Rightarrow> 'r tree \<Rightarrow> string option" where
  "read_call h f t = h_read h f (tr_host t)"

definition write_call :: "'r host \<Rightarrow> string \<Rightarrow> string \<Rightarrow> 'r tree \<Rightarrow> bool \<times> 'r tree" where
  "write_call h f s t = (let (done_ok, r) = h_write h f s (tr_host t) in (done_ok, t\<lparr>tr_host := r\<rparr>))"

text \<open>\<open>conflictedFiles\<close>; \<open>None\<close> when git does not answer.\<close>

definition diff_args :: "string list" where
  "diff_args = [''-c'', ''core.quotepath=false'', ''diff'', ''--name-only'', ''--diff-filter=U'', ''-z'']"

definition conflicted_files :: "'r host \<Rightarrow> 'r tree \<Rightarrow> string list option \<times> 'r tree" where
  "conflicted_files h t =
     (case git_call h diff_args t of
        (None, t') \<Rightarrow> (None, t')
      | (Some out, t') \<Rightarrow> (Some (filter (\<lambda>s. s \<noteq> []) (map js_trim (js_split nul out))), t'))"

definition status_args :: "string list" where
  "status_args = [''-c'', ''core.quotepath=false'', ''status'', ''--porcelain'', ''-z'']"

definition tree_dirt :: "'r host \<Rightarrow> 'r tree \<Rightarrow> (string \<times> string) list option \<times> 'r tree" where
  "tree_dirt h t = (case git_call h status_args t of (out, t') \<Rightarrow> (map_option parse_status_z out, t'))"

section \<open>One file\<close>

datatype how = How_measured | How_union | How_union_measured | How_rederive | How_regenerate

text \<open>The index of a file that was resolved; \<open>None\<close> leaves it to a person.\<close>

definition stage_file :: "'r host \<Rightarrow> string \<Rightarrow> how \<Rightarrow> 'r tree \<Rightarrow> how option \<times> 'r tree" where
  "stage_file h f w t =
     (case git_call h [''add'', ''--'', f] t of (None, t') \<Rightarrow> (None, t') | (Some _, t') \<Rightarrow> (Some w, t'))"

text \<open>A file read back after it was rebuilt: with conflict markers it is not resolved.\<close>

definition add_clean :: "'r host \<Rightarrow> string \<Rightarrow> how \<Rightarrow> 'r tree \<Rightarrow> how option \<times> 'r tree" where
  "add_clean h f w t =
     (case read_call h f t of
        None \<Rightarrow> (None, t)
      | Some after \<Rightarrow> if has_conflict_markers after then (None, t) else stage_file h f w t)"

definition side_flag :: "trunk_side \<Rightarrow> string" where
  "side_flag s = (case s of Ours \<Rightarrow> ''--ours'' | Theirs \<Rightarrow> ''--theirs'')"

definition resolve_measured :: "'r host \<Rightarrow> trunk_side \<Rightarrow> string \<Rightarrow> 'r tree \<Rightarrow> how option \<times> 'r tree" where
  "resolve_measured h trunk f t =
     (case git_call h [''checkout'', side_flag trunk, ''--'', f] t of
        (None, t') \<Rightarrow> (None, t')
      | (Some _, t') \<Rightarrow> add_clean h f How_measured t')"

definition resolve_union :: "'r host \<Rightarrow> (string \<Rightarrow> bool) list \<Rightarrow> trunk_side \<Rightarrow> string \<Rightarrow> 'r tree \<Rightarrow> how option \<times> 'r tree" where
  "resolve_union h pats trunk f t =
     (case git_call h [''-c'', ''merge.conflictStyle=diff3'', ''checkout'', ''--conflict=diff3'', ''--'', f] t of
        (None, t') \<Rightarrow> (None, t')
      | (Some _, t') \<Rightarrow>
          (case read_call h f t' of
             None \<Rightarrow> (None, t')
           | Some before \<Rightarrow>
               (case union_resolve pats trunk before of
                  Inl _ \<Rightarrow> (None, t')
                | Inr (merged, hunks, measured) \<Rightarrow>
                    (case write_call h f merged t' of
                       (False, t'') \<Rightarrow> (None, t'')
                     | (True, t'') \<Rightarrow> stage_file h f (if measured > 0 then How_union_measured else How_union) t''))))"

text \<open>The bytes of a file taken from one side and rebuilt; \<open>None\<close> when a step throws.\<close>

definition side_bytes :: "'r host \<Rightarrow> regen_rule \<Rightarrow> trunk_side \<Rightarrow> string \<Rightarrow> 'r tree \<Rightarrow> string option \<times> 'r tree" where
  "side_bytes h rule side f t =
     (case git_call h [''checkout'', side_flag side, ''--'', f] t of
        (None, t') \<Rightarrow> (None, t')
      | (Some _, t') \<Rightarrow>
          (case run_call h (rg_command rule) t' of
             (done_ok, t'') \<Rightarrow>
               if \<not> done_ok \<and> \<not> rg_exit_is_verdict rule then (None, t'') else (read_call h f t'', t'')))"

definition resolve_rederive :: "'r host \<Rightarrow> string \<times> regen_rule \<Rightarrow> 'r tree \<Rightarrow> how option \<times> 'r tree" where
  "resolve_rederive h fr t =
     (case side_bytes h (snd fr) Ours (fst fr) t of
        (None, t') \<Rightarrow> (None, t')
      | (Some ours, t') \<Rightarrow>
          (case side_bytes h (snd fr) Theirs (fst fr) t' of
             (None, t'') \<Rightarrow> (None, t'')
           | (Some theirs, t'') \<Rightarrow>
               if ours \<noteq> theirs \<or> has_conflict_markers theirs then (None, t'') else stage_file h (fst fr) How_rederive t''))"

section \<open>All files\<close>

record resolving =
  rs_resolved :: "(string \<times> how) list"
  rs_remaining :: "string list"

definition note_file :: "string \<Rightarrow> how option \<Rightarrow> resolving \<Rightarrow> resolving" where
  "note_file f w rs = (case w of
       None \<Rightarrow> rs\<lparr>rs_remaining := rs_remaining rs @ [f]\<rparr>
     | Some x \<Rightarrow> rs\<lparr>rs_resolved := rs_resolved rs @ [(f, x)]\<rparr>)"

fun each_file :: "('x \<Rightarrow> 'r tree \<Rightarrow> how option \<times> 'r tree) \<Rightarrow> ('x \<Rightarrow> string) \<Rightarrow> 'x list \<Rightarrow> resolving \<times> 'r tree \<Rightarrow> resolving \<times> 'r tree" where
  "each_file step fname [] s = s"
| "each_file step fname (x # xs) (rs, t) =
     (let (w, t') = step x t in each_file step fname xs (note_file (fname x) w rs, t'))"

text \<open>Files grouped by their command, in the order the commands appear.\<close>

definition group_files :: "(string \<times> regen_rule) list \<Rightarrow> (string \<times> regen_rule \<times> string list) list" where
  "group_files frs =
     fold (\<lambda>(f, r) m. let key = js_join '' '' (rg_command r) in
       case map_of m key of None \<Rightarrow> aset key (r, [f]) m | Some (r', fs) \<Rightarrow> aset key (r', fs @ [f]) m) frs []"

fun each_group :: "'r host \<Rightarrow> (string \<times> regen_rule \<times> string list) list \<Rightarrow> resolving \<times> 'r tree \<Rightarrow> resolving \<times> 'r tree" where
  "each_group h [] s = s"
| "each_group h ((key, rule, fs) # gs) (rs, t) =
     (let (done_ok, t') = run_call h (rg_command rule) t in
      if \<not> done_ok \<and> \<not> rg_exit_is_verdict rule
      then each_group h gs (rs\<lparr>rs_remaining := rs_remaining rs @ fs\<rparr>, t')
      else each_group h gs (each_file (\<lambda>f. add_clean h f How_regenerate) id fs (rs, t')))"

fun put_back :: "'r host \<Rightarrow> string list \<Rightarrow> 'r tree \<Rightarrow> 'r tree" where
  "put_back h [] t = t"
| "put_back h (f # fs) t = put_back h fs (snd (git_call h [''checkout'', ''--'', f] t))"

definition clear_strays :: "'r host \<Rightarrow> string list \<Rightarrow> (string \<times> string) list option \<Rightarrow> 'r tree \<Rightarrow> 'r tree" where
  "clear_strays h fs before t =
     (case before of
        None \<Rightarrow> t
      | Some b \<Rightarrow>
          let (after, t1) = tree_dirt h t; strays = (case after of None \<Rightarrow> [] | Some a \<Rightarrow> strays_between b a fs);
              t2 = put_back h strays t1
          in if strays = [] then t2 else snd (tree_dirt h t2))"

definition resolve_mechanical :: "'r host \<Rightarrow> merge_rules \<Rightarrow> trunk_side \<Rightarrow> string list \<Rightarrow> 'r tree \<Rightarrow> resolving \<times> 'r tree" where
  "resolve_mechanical h rules trunk fs t =
     (let cc = classify_conflicts rules fs;
          s1 = each_file (resolve_measured h trunk) id (cc_measured cc) (\<lparr>rs_resolved = [], rs_remaining = cc_human cc\<rparr>, t);
          s2 = each_file (resolve_union h (mr_measured_lines rules) trunk) id (cc_union cc) s1;
          (dirt, t2) = (if cc_regenerate cc = [] then (None, snd s2) else tree_dirt h (snd s2));
          s3 = each_file (resolve_rederive h) fst (filter (\<lambda>(f, r). rg_strategy r = Rederive) (cc_regenerate cc)) (fst s2, t2);
          (rs, t4) = each_group h (group_files (filter (\<lambda>(f, r). rg_strategy r \<noteq> Rederive) (cc_regenerate cc))) s3
      in (rs, clear_strays h fs dirt t4))"

section \<open>Which files git is asked to write\<close>

text \<open>The calls of a resolution: the state of the tree, and \<open>checkout\<close> or \<open>add\<close> of one file outside
  \<open>away\<close>.\<close>

definition touching :: "string list list" where
  "touching = [[''checkout'', ''--ours''], [''checkout'', ''--theirs''], [''checkout''], [''add''],
     [''-c'', ''merge.conflictStyle=diff3'', ''checkout'', ''--conflict=diff3'']]"

definition touches :: "string \<Rightarrow> string list \<Rightarrow> bool" where
  "touches f args \<longleftrightarrow> list_ex (\<lambda>pre. args = pre @ [''--'', f]) touching"

definition writes_outside :: "string set \<Rightarrow> string list \<times> string option \<Rightarrow> bool" where
  "writes_outside away c \<longleftrightarrow> fst c = status_args \<or> (\<exists>f. f \<notin> away \<and> touches f (fst c))"

text \<open>One move of the working copy: a git call that satisfies \<open>P\<close>, a command or a written file.\<close>

inductive host_move :: "'r host \<Rightarrow> (string list \<times> string option \<Rightarrow> bool) \<Rightarrow> 'r tree \<Rightarrow> 'r tree \<Rightarrow> bool" for h P where
  asks: "git_call h args t = (out, t') \<Longrightarrow> P (args, out) \<Longrightarrow> host_move h P t t'"
| runs: "run_call h cmd t = (b, t') \<Longrightarrow> host_move h P t t'"
| writes: "write_call h f s t = (b, t') \<Longrightarrow> host_move h P t t'"

abbreviation only_calls :: "'r host \<Rightarrow> (string list \<times> string option \<Rightarrow> bool) \<Rightarrow> 'r tree \<Rightarrow> 'r tree \<Rightarrow> bool" where
  "only_calls h P \<equiv> (host_move h P)\<^sup>*\<^sup>*"

lemma only_calls_trans: "only_calls h P t t' \<Longrightarrow> only_calls h P t' t'' \<Longrightarrow> only_calls h P t t''"
  by (rule rtranclp_trans)

lemma host_move_mono: "host_move h P t t' \<Longrightarrow> (\<And>c. P c \<Longrightarrow> Q c) \<Longrightarrow> host_move h Q t t'"
  by (induction rule: host_move.induct) (auto intro: host_move.intros)

lemma only_calls_mono: "only_calls h P t t' \<Longrightarrow> (\<And>c. P c \<Longrightarrow> Q c) \<Longrightarrow> only_calls h Q t t'"
proof (induction rule: rtranclp_induct)
  case (step t1 t2)
  have "host_move h Q t1 t2" by (rule host_move_mono [OF step.hyps(2)]) (rule step.prems)
  with step show ?case by (blast intro: rtranclp.rtrancl_into_rtrancl)
qed simp

lemma git_only: "git_call h args t = (out, t') \<Longrightarrow> P (args, out) \<Longrightarrow> only_calls h P t t'"
  by (blast intro: host_move.intros)

lemma run_only: "run_call h cmd t = (b, t') \<Longrightarrow> only_calls h P t t'"
  by (blast intro: host_move.intros)

lemma write_only: "write_call h f s t = (b, t') \<Longrightarrow> only_calls h P t t'"
  by (blast intro: host_move.intros)

lemma move_calls: "host_move h P t t' \<Longrightarrow> \<exists>new. tr_calls t' = tr_calls t @ new \<and> list_all P new"
  by (induction rule: host_move.induct) (auto simp: git_call_def run_call_def write_call_def split: prod.splits)

lemma only_new_calls: "only_calls h P t t' \<Longrightarrow> \<exists>new. tr_calls t' = tr_calls t @ new \<and> list_all P new"
proof (induction rule: rtranclp_induct)
  case (step t1 t2)
  then show ?case using move_calls [OF step.hyps(2)] by fastforce
qed simp

lemma touching_file [simp]:
  "f \<notin> away \<Longrightarrow> writes_outside away ([''add'', ''--'', f], out)"
  "f \<notin> away \<Longrightarrow> writes_outside away ([''checkout'', ''--'', f], out)"
  "f \<notin> away \<Longrightarrow> writes_outside away ([''checkout'', side_flag sd, ''--'', f], out)"
  "f \<notin> away \<Longrightarrow> writes_outside away
     ([''-c'', ''merge.conflictStyle=diff3'', ''checkout'', ''--conflict=diff3'', ''--'', f], out)"
  by (auto simp: writes_outside_def touches_def touching_def side_flag_def split: trunk_side.splits)

lemma status_outside [simp]: "writes_outside away (status_args, out)"
  by (simp add: writes_outside_def)

lemma tree_dirt_outside: "tree_dirt h t = (d, t') \<Longrightarrow> only_calls h (writes_outside away) t t'"
  by (auto simp: tree_dirt_def split: prod.splits intro: git_only)

lemma stage_file_outside: "stage_file h f w t = (r, t') \<Longrightarrow> f \<notin> away \<Longrightarrow> only_calls h (writes_outside away) t t'"
  by (auto simp: stage_file_def split: prod.splits option.splits intro: git_only)

lemma add_clean_outside: "add_clean h f w t = (r, t') \<Longrightarrow> f \<notin> away \<Longrightarrow> only_calls h (writes_outside away) t t'"
  by (auto simp: add_clean_def split: option.splits if_splits intro: stage_file_outside)

lemma resolve_measured_outside:
  "resolve_measured h trunk f t = (r, t') \<Longrightarrow> f \<notin> away \<Longrightarrow> only_calls h (writes_outside away) t t'"
  by (auto simp: resolve_measured_def split: prod.splits option.splits
      intro: git_only only_calls_trans [OF git_only add_clean_outside])

lemma resolve_union_outside:
  assumes "resolve_union h pats trunk f t = (r, t')" "f \<notin> away"
  shows "only_calls h (writes_outside away) t t'"
proof (cases "git_call h [''-c'', ''merge.conflictStyle=diff3'', ''checkout'', ''--conflict=diff3'', ''--'', f] t")
  case (Pair out t1)
  then have start: "only_calls h (writes_outside away) t t1" using assms(2) by (auto intro: git_only)
  show ?thesis
  proof (cases "t' = t1")
    case False
    then obtain merged b t2 w where w: "write_call h f merged t1 = (b, t2)" and "t' = t2 \<or> stage_file h f w t2 = (r, t')"
      using assms(1) Pair unfolding resolve_union_def by (auto split: option.splits sum.splits prod.splits bool.splits)
    then have "only_calls h (writes_outside away) t1 t'"
      using write_only [OF w] stage_file_outside [OF _ assms(2)] only_calls_trans by blast
    with start show ?thesis by (rule only_calls_trans)
  qed (use start in simp)
qed

lemma side_bytes_outside:
  assumes "side_bytes h rule sd f t = (r, t')" "f \<notin> away"
  shows "only_calls h (writes_outside away) t t'"
proof (cases "git_call h [''checkout'', side_flag sd, ''--'', f] t")
  case (Pair out t1)
  then have start: "only_calls h (writes_outside away) t t1" using assms(2) by (auto intro: git_only)
  have "t' = t1 \<or> t' = snd (run_call h (rg_command rule) t1)"
    using assms(1) Pair by (auto simp: side_bytes_def split: option.splits prod.splits if_splits)
  then have "only_calls h (writes_outside away) t1 t'"
    using run_only [of h "rg_command rule" t1] by (metis rtranclp.rtrancl_refl surjective_pairing)
  with start show ?thesis by (rule only_calls_trans)
qed

lemma resolve_rederive_outside:
  assumes "resolve_rederive h fr t = (r, t')" "fst fr \<notin> away"
  shows "only_calls h (writes_outside away) t t'"
proof (cases "side_bytes h (snd fr) Ours (fst fr) t")
  case first: (Pair ours t1)
  show ?thesis
  proof (cases "side_bytes h (snd fr) Theirs (fst fr) t1")
    case (Pair theirs t2)
    have "t' = t1 \<or> t' = t2 \<or> stage_file h (fst fr) How_rederive t2 = (r, t')"
      using assms(1) first Pair by (auto simp: resolve_rederive_def split: option.splits if_splits)
    then show ?thesis
      using side_bytes_outside [OF first assms(2)] side_bytes_outside [OF Pair assms(2)] stage_file_outside [OF _ assms(2)]
        only_calls_trans by metis
  qed
qed

text \<open>What holds of one file holds of a loop over files.\<close>

lemma each_file_outside:
  assumes "\<And>x t r t'. x \<in> set xs \<Longrightarrow> step x t = (r, t') \<Longrightarrow> only_calls h P t t'"
    and "each_file step fname xs (rs, t) = (rs', t')"
  shows "only_calls h P t t'"
  using assms
proof (induction xs arbitrary: rs t)
  case (Cons x xs)
  obtain w t1 where one: "step x t = (w, t1)" by (cases "step x t")
  with Cons.prems(2) have "each_file step fname xs (note_file (fname x) w rs, t1) = (rs', t')" by simp
  then have "only_calls h P t1 t'" using Cons.IH Cons.prems(1) by (meson list.set_intros(2))
  moreover have "only_calls h P t t1" using Cons.prems(1) [OF list.set_intros(1) one] .
  ultimately show ?case using only_calls_trans by blast
qed simp

lemma each_group_outside:
  assumes "\<And>key rule fs. (key, rule, fs) \<in> set gs \<Longrightarrow> set fs \<inter> away = {}"
    and "each_group h gs (rs, t) = (rs', t')"
  shows "only_calls h (writes_outside away) t t'"
  using assms
proof (induction gs arbitrary: rs t)
  case (Cons g gs)
  obtain key rule fs where g: "g = (key, rule, fs)" by (cases g)
  obtain b t1 where one: "run_call h (rg_command rule) t = (b, t1)" by (cases "run_call h (rg_command rule) t")
  obtain rs2 t2 where step: "each_file (\<lambda>f. add_clean h f How_regenerate) id fs (rs, t1) = (rs2, t2)"
    by (cases "each_file (\<lambda>f. add_clean h f How_regenerate) id fs (rs, t1)")
  have files: "only_calls h (writes_outside away) t1 t2"
  proof (rule each_file_outside [OF _ step])
    show "only_calls h (writes_outside away) t t'" if "f \<in> set fs" "add_clean h f How_regenerate t = (r, t')" for f t r t'
      using that Cons.prems(1) [of key rule fs] by (auto simp: g intro: add_clean_outside)
  qed
  obtain rs3 t3 where rest: "each_group h gs (rs3, t3) = (rs', t')" and "t3 = t1 \<or> t3 = t2"
    using Cons.prems(2) by (auto simp: g one step split: if_splits)
  then have "only_calls h (writes_outside away) t1 t3" using files by auto
  moreover have "only_calls h (writes_outside away) t3 t'" using Cons.IH [OF _ rest] Cons.prems(1) by (auto simp: g)
  ultimately show ?case using run_only [OF one] only_calls_trans by blast
qed simp

lemma put_back_outside: "set fs \<inter> away = {} \<Longrightarrow> only_calls h (writes_outside away) t (put_back h fs t)"
proof (induction fs arbitrary: t)
  case (Cons f fs)
  obtain out t1 where one: "git_call h [''checkout'', ''--'', f] t = (out, t1)" by (cases "git_call h [''checkout'', ''--'', f] t")
  have "only_calls h (writes_outside away) t t1" using Cons.prems by (auto intro: git_only [OF one])
  moreover have "only_calls h (writes_outside away) t1 (put_back h fs t1)" using Cons by simp
  ultimately show ?case by (auto simp: one intro: only_calls_trans)
qed simp

lemma forward_slashes_again [simp]: "forward_slashes (forward_slashes s) = forward_slashes s"
  by (auto simp: forward_slashes_def)

lemma status_entries_keys:
  "(p, code) \<in> set (status_entries es m) \<Longrightarrow> (\<And>q c. (q, c) \<in> set m \<Longrightarrow> forward_slashes q = q) \<Longrightarrow> forward_slashes p = p"
proof (induction es m rule: status_entries.induct)
  case (2 e es m)
  have "forward_slashes q = q" if "(q, c) \<in> set (aset (forward_slashes (drop 3 e)) (take 2 e) m)" for q c
    using that 2 set_aset_sub by (fastforce split: if_splits)
  then show ?case using 2 by (auto split: if_splits)
qed simp

lemma strays_apart:
  assumes "tree_dirt h t = (Some after, t')"
  shows "set (strays_between before after fs) \<inter> set fs = {}"
proof -
  have slashed: "forward_slashes p = p" if "(p, code) \<in> set after" for p code
    using assms that status_entries_keys [of p code _ "[]"]
    by (auto simp: tree_dirt_def parse_status_z_def split: prod.splits)
  have "p \<notin> set fs" if "p \<in> set (strays_between before after fs)" for p
    using that slashed by (force simp: strays_between_def)
  then show ?thesis by blast
qed

lemma clear_strays_outside: "only_calls h (writes_outside (set fs)) t (clear_strays h fs before t)"
proof (cases before)
  case (Some b)
  obtain after t1 where d: "tree_dirt h t = (after, t1)" by (cases "tree_dirt h t")
  define strays where "strays = (case after of None \<Rightarrow> [] | Some a \<Rightarrow> strays_between b a fs)"
  have "set strays \<inter> set fs = {}" using strays_apart [of h t _ t1 b fs] d by (auto simp: strays_def split: option.splits)
  then have cleared: "only_calls h (writes_outside (set fs)) t (put_back h strays t1)"
    using tree_dirt_outside [OF d] put_back_outside only_calls_trans by blast
  obtain d2 t2 where again: "tree_dirt h (put_back h strays t1) = (d2, t2)" by (cases "tree_dirt h (put_back h strays t1)")
  then show ?thesis
    using cleared only_calls_trans [OF cleared tree_dirt_outside [OF again]] by (auto simp: clear_strays_def Some d Let_def strays_def)
qed (simp add: clear_strays_def)

section \<open>Every file has one ending\<close>

definition accounted :: "resolving \<Rightarrow> string multiset" where
  "accounted rs = mset (map fst (rs_resolved rs)) + mset (rs_remaining rs)"

lemma note_file_accounts [simp]: "accounted (note_file f w rs) = add_mset f (accounted rs)"
  by (simp add: accounted_def note_file_def split: option.splits)

lemma each_file_accounts: "each_file step fname xs (rs, t) = (rs', t') \<Longrightarrow> accounted rs' = accounted rs + mset (map fname xs)"
  by (induction xs arbitrary: rs t) (auto split: prod.splits)

lemma each_group_accounts:
  "each_group h gs (rs, t) = (rs', t') \<Longrightarrow> accounted rs' = accounted rs + mset (concat (map (snd \<circ> snd) gs))"
proof (induction gs arbitrary: rs t)
  case (Cons g gs)
  obtain key rule fs where g: "g = (key, rule, fs)" by (cases g)
  obtain b t1 where one: "run_call h (rg_command rule) t = (b, t1)" by (cases "run_call h (rg_command rule) t")
  obtain rs2 t2 where step: "each_file (\<lambda>f. add_clean h f How_regenerate) id fs (rs, t1) = (rs2, t2)"
    by (cases "each_file (\<lambda>f. add_clean h f How_regenerate) id fs (rs, t1)")
  obtain rs3 t3 where rest: "each_group h gs (rs3, t3) = (rs', t')"
    and here: "rs3 = rs\<lparr>rs_remaining := rs_remaining rs @ fs\<rparr> \<or> rs3 = rs2"
    using Cons.prems by (auto simp: g one step split: if_splits)
  have "accounted rs3 = accounted rs + mset fs"
    using here each_file_accounts [OF step] by (auto simp: accounted_def)
  then show ?case using Cons.IH [OF rest] by (simp add: g)
qed simp

lemma aset_group:
  "map_of m key = Some (r, fs) \<Longrightarrow> mset (concat (map (snd \<circ> snd) (aset key (r, fs @ [f]) m))) =
     add_mset f (mset (concat (map (snd \<circ> snd) m)))"
  by (induction m) auto

lemma aset_new_group:
  "map_of m key = None \<Longrightarrow> mset (concat (map (snd \<circ> snd) (aset key (r, [f]) m))) =
     add_mset f (mset (concat (map (snd \<circ> snd) m)))"
  by (induction m) auto

lemma group_files_accounts: "mset (concat (map (snd \<circ> snd) (group_files frs))) = mset (map fst frs)"
proof -
  have "mset (concat (map (snd \<circ> snd) (fold (\<lambda>(f, r) m. let key = js_join '' '' (rg_command r) in
       case map_of m key of None \<Rightarrow> aset key (r, [f]) m | Some (r', fs) \<Rightarrow> aset key (r', fs @ [f]) m) frs m))) =
     mset (map fst frs) + mset (concat (map (snd \<circ> snd) m))" for m
    by (induction frs arbitrary: m) (auto simp: Let_def aset_group aset_new_group simp del: mset_concat split: option.splits)
  from this [of "[]"] show ?thesis by (simp add: group_files_def)
qed

lemma group_files_members: "(key, rule, gs) \<in> set (group_files frs) \<Longrightarrow> set gs \<subseteq> set (map fst frs)"
  using mset_eq_setD [OF group_files_accounts [of frs]] by force

lemma classes_account:
  "mset (cc_measured (classify_conflicts rules fs)) + mset (cc_union (classify_conflicts rules fs)) +
   mset (map fst (cc_regenerate (classify_conflicts rules fs))) + mset (cc_human (classify_conflicts rules fs)) = mset fs"
  by (induction fs) (auto simp: classify_conflicts_def List.map_filter_simps split: resolution.splits)

lemma human_class: "set (cc_human (classify_conflicts rules fs)) = {f \<in> set fs. resolution_of rules f = By_human}"
  by (auto simp: classify_conflicts_def)

lemma remaining_grow: "each_file step fname xs (rs, t) = (rs', t') \<Longrightarrow> set (rs_remaining rs) \<subseteq> set (rs_remaining rs')"
proof (induction xs arbitrary: rs t)
  case (Cons x xs)
  obtain w t1 where "step x t = (w, t1)" by (cases "step x t")
  with Cons.prems have "each_file step fname xs (note_file (fname x) w rs, t1) = (rs', t')" by simp
  then have "set (rs_remaining (note_file (fname x) w rs)) \<subseteq> set (rs_remaining rs')" by (rule Cons.IH)
  then show ?case by (auto simp: note_file_def split: option.splits)
qed simp

lemma group_remaining_grow: "each_group h gs (rs, t) = (rs', t') \<Longrightarrow> set (rs_remaining rs) \<subseteq> set (rs_remaining rs')"
proof (induction gs arbitrary: rs t)
  case (Cons g gs)
  obtain key rule fs where g: "g = (key, rule, fs)" by (cases g)
  obtain b t1 where one: "run_call h (rg_command rule) t = (b, t1)" by (cases "run_call h (rg_command rule) t")
  obtain rs2 t2 where step: "each_file (\<lambda>f. add_clean h f How_regenerate) id fs (rs, t1) = (rs2, t2)"
    by (cases "each_file (\<lambda>f. add_clean h f How_regenerate) id fs (rs, t1)")
  obtain rs3 t3 where rest: "each_group h gs (rs3, t3) = (rs', t')"
    and here: "rs3 = rs\<lparr>rs_remaining := rs_remaining rs @ fs\<rparr> \<or> rs3 = rs2"
    using Cons.prems by (auto simp: g one step split: if_splits)
  show ?case using Cons.IH [OF rest] here remaining_grow [OF step] by auto
qed simp

text \<open>The whole resolution, stage by stage.\<close>

lemma resolve_mechanical_stages:
  assumes "resolve_mechanical h rules trunk fs t = (rs, t')"
  obtains rs1 t1 rs2 t2 d t3 rs4 t4 t5 where
    "each_file (resolve_measured h trunk) id (cc_measured (classify_conflicts rules fs))
       (\<lparr>rs_resolved = [], rs_remaining = cc_human (classify_conflicts rules fs)\<rparr>, t) = (rs1, t1)"
    "each_file (resolve_union h (mr_measured_lines rules) trunk) id (cc_union (classify_conflicts rules fs)) (rs1, t1) = (rs2, t2)"
    "t3 = t2 \<or> tree_dirt h t2 = (d, t3)"
    "each_file (resolve_rederive h) fst
       (filter (\<lambda>(f, r). rg_strategy r = Rederive) (cc_regenerate (classify_conflicts rules fs))) (rs2, t3) = (rs4, t4)"
    "each_group h (group_files (filter (\<lambda>(f, r). rg_strategy r \<noteq> Rederive) (cc_regenerate (classify_conflicts rules fs))))
       (rs4, t4) = (rs, t5)"
    "t' = clear_strays h fs d t5"
proof -
  let ?cc = "classify_conflicts rules fs"
  obtain rs1 t1 where 1: "each_file (resolve_measured h trunk) id (cc_measured ?cc)
       (\<lparr>rs_resolved = [], rs_remaining = cc_human ?cc\<rparr>, t) = (rs1, t1)" by (meson surj_pair)
  obtain rs2 t2 where 2: "each_file (resolve_union h (mr_measured_lines rules) trunk) id (cc_union ?cc) (rs1, t1) = (rs2, t2)"
    by (meson surj_pair)
  obtain d t3 where 3: "(if cc_regenerate ?cc = [] then (None, t2) else tree_dirt h t2) = (d, t3)" by (meson surj_pair)
  obtain rs4 t4 where 4: "each_file (resolve_rederive h) fst
       (filter (\<lambda>(f, r). rg_strategy r = Rederive) (cc_regenerate ?cc)) (rs2, t3) = (rs4, t4)" by (meson surj_pair)
  obtain rs5 t5 where 5: "each_group h (group_files (filter (\<lambda>(f, r). rg_strategy r \<noteq> Rederive) (cc_regenerate ?cc)))
       (rs4, t4) = (rs5, t5)" by (meson surj_pair)
  have "rs5 = rs" "t' = clear_strays h fs d t5"
    using assms unfolding resolve_mechanical_def Let_def 1 2 fst_conv snd_conv 3 prod.case 4 5 by simp_all
  moreover have "t3 = t2 \<or> tree_dirt h t2 = (d, t3)" using 3 by (auto split: if_splits)
  ultimately show ?thesis using that [OF 1 2 _ 4] 5 by blast
qed

lemma rederive_halves:
  "mset (map fst (filter (\<lambda>(f, r). rg_strategy r = Rederive) frs)) +
     mset (map fst (filter (\<lambda>(f, r). rg_strategy r \<noteq> Rederive) frs)) = mset (map fst frs)"
  by (induction frs) auto

lemma resolution_accounts:
  assumes "resolve_mechanical h rules trunk fs t = (rs, t')"
  shows "accounted rs = mset fs"
  using resolve_mechanical_stages [OF assms]
proof cases
  case (1 rs1 t1 rs2 t2 d t3 rs4 t4 t5)
  let ?cc = "classify_conflicts rules fs"
  have "accounted rs1 = mset (cc_human ?cc) + mset (cc_measured ?cc)" using each_file_accounts [OF 1(1)] by (simp add: accounted_def)
  then have "accounted rs2 = mset (cc_human ?cc) + mset (cc_measured ?cc) + mset (cc_union ?cc)" using each_file_accounts [OF 1(2)] by simp
  moreover note each_file_accounts [OF 1(4)] each_group_accounts [OF 1(5)] group_files_accounts
  ultimately have "accounted rs = mset (cc_human ?cc) + mset (cc_measured ?cc) + mset (cc_union ?cc) + mset (map fst (cc_regenerate ?cc))"
    using rederive_halves [of "cc_regenerate ?cc"] by (simp del: mset_concat mset_map add: add.assoc)
  then show ?thesis using classes_account [of rules fs] by (simp add: ac_simps)
qed

lemma writes_outside_sub: "writes_outside away c \<Longrightarrow> away' \<subseteq> away \<Longrightarrow> writes_outside away' c"
  by (auto simp: writes_outside_def)

lemma writes_elsewhere: "writes_outside away c \<Longrightarrow> f \<in> away \<Longrightarrow> \<not> touches f (fst c)"
  by (auto simp: writes_outside_def touches_def touching_def status_args_def)

lemma resolution_remaining:
  assumes run: "resolve_mechanical h rules trunk fs t = (rs, t')"
  shows "set (cc_human (classify_conflicts rules fs)) \<subseteq> set (rs_remaining rs)"
  using resolve_mechanical_stages [OF run]
proof cases
  case (1 rs1 t1 rs2 t2 d t3 rs4 t4 t5)
  then show ?thesis
    using remaining_grow [OF 1(1)] remaining_grow [OF 1(2)] remaining_grow [OF 1(4)] group_remaining_grow [OF 1(5)] by simp
qed

lemma resolution_outside:
  assumes run: "resolve_mechanical h rules trunk fs t = (rs, t')"
  defines "H \<equiv> set (cc_human (classify_conflicts rules fs))"
  shows "only_calls h (writes_outside H) t t'"
  using resolve_mechanical_stages [OF run]
proof cases
  case (1 rs1 t1 rs2 t2 d t3 rs4 t4 t5)
  let ?cc = "classify_conflicts rules fs"
  have apart: "set (cc_measured ?cc) \<inter> H = {}" "set (cc_union ?cc) \<inter> H = {}" "set (map fst (cc_regenerate ?cc)) \<inter> H = {}"
    and within: "H \<subseteq> set fs"
    by (auto simp: H_def classify_conflicts_def List.map_filter_def split: resolution.splits)
  have "only_calls h (writes_outside H) t t1"
    by (rule each_file_outside [OF _ 1(1)]) (use apart in \<open>auto intro: resolve_measured_outside\<close>)
  also have "only_calls h (writes_outside H) t1 t2"
    by (rule each_file_outside [OF _ 1(2)]) (use apart in \<open>auto intro: resolve_union_outside\<close>)
  also have "only_calls h (writes_outside H) t2 t3" using 1(3) tree_dirt_outside by blast
  also have "only_calls h (writes_outside H) t3 t4"
  proof (rule each_file_outside [OF _ 1(4)])
    fix fr t r t'
    assume "fr \<in> set (filter (\<lambda>(f, r). rg_strategy r = Rederive) (cc_regenerate ?cc))"
      and step: "resolve_rederive h fr t = (r, t')"
    then have "fst fr \<notin> H" using apart(3) by auto
    with step show "only_calls h (writes_outside H) t t'" by (rule resolve_rederive_outside)
  qed
  also have "only_calls h (writes_outside H) t4 t5"
  proof (rule each_group_outside [OF _ 1(5)])
    fix key rule gs
    assume "(key, rule, gs) \<in> set (group_files (filter (\<lambda>(f, r). rg_strategy r \<noteq> Rederive) (cc_regenerate ?cc)))"
    from group_files_members [OF this] show "set gs \<inter> H = {}" using apart(3) by auto
  qed
  also have "only_calls h (writes_outside H) t5 t'"
    unfolding 1(6) by (rule only_calls_mono [OF clear_strays_outside]) (use within in \<open>auto elim: writes_outside_sub\<close>)
  finally show ?thesis .
qed

text \<open>C28: the mechanical resolution of a conflicted merge (\<open>resolveMechanical\<close>) loses no file and decides none twice:
  whatever git, the commands and the files answer, the files it names as resolved and the files it leaves
  to a person are together the files it was given, each as often as it was given.\<close>

theorem every_conflict_has_one_ending:
  "mset (map fst (rs_resolved (fst (resolve_mechanical h rules trunk fs t)))) +
     mset (rs_remaining (fst (resolve_mechanical h rules trunk fs t))) = mset fs"
  using resolution_accounts [of h rules trunk fs t] by (metis accounted_def prod.collapse)

text \<open>C25: a conflicted file that no rule names is a person's (\<open>resolveMechanical\<close>): of the conflicted files the
  resolution is given, each that no rule names stays among the remaining ones, and no git call the
  resolution makes checks it out or adds it, even when a rebuilding command changed it on the way. (A
  file that was not in conflict, and that a rebuilding command dirtied, is checked out again.)\<close>

theorem human_files_untouched:
  assumes "resolve_mechanical h rules trunk fs t = (rs, t')" and "f \<in> set fs" and "resolution_of rules f = By_human"
  shows "f \<in> set (rs_remaining rs) \<and> (\<exists>new. tr_calls t' = tr_calls t @ new \<and> list_all (\<lambda>c. \<not> touches f (fst c)) new)"
proof -
  have "only_calls h (\<lambda>c. \<not> touches f (fst c)) t t'"
    by (rule only_calls_mono [OF resolution_outside [OF assms(1)]])
      (erule writes_elsewhere, use assms(2,3) in \<open>simp add: human_class\<close>)
  then show ?thesis using resolution_remaining [OF assms(1)] assms(2,3) only_new_calls by (auto simp: human_class)
qed

text \<open>A working copy in which git answers with an empty text and every file is empty.\<close>

definition sample_host :: "unit host" where
  "sample_host = \<lparr>h_git = (\<lambda>args r. (Some [], r)), h_run = (\<lambda>cmd r. (True, r)), h_read = (\<lambda>f r. Some []),
     h_write = (\<lambda>f s r. (True, r))\<rparr>"

definition sample_rules :: merge_rules where
  "sample_rules = mechanical_defaults\<lparr>mr_measured_files := [''m*''], mr_union := [''n'']\<rparr>"

definition sample_resolution :: "resolving \<times> unit tree" where
  "sample_resolution = resolve_mechanical sample_host sample_rules Ours [''m1'', ''a''] \<lparr>tr_host = (), tr_calls = []\<rparr>"

lemma sample_human: "resolution_of sample_rules ''a'' = By_human" by code_simp

theorem human_files_untouched_witness:
  "''a'' \<in> set (rs_remaining (fst sample_resolution)) \<and> rs_resolved (fst sample_resolution) = [(''m1'', How_measured)] \<and>
   tr_calls (snd sample_resolution) = [([''checkout'', ''--ours'', ''--'', ''m1''], Some []), ([''add'', ''--'', ''m1''], Some [])]"
proof -
  have "resolve_mechanical sample_host sample_rules Ours [''m1'', ''a''] \<lparr>tr_host = (), tr_calls = []\<rparr> =
      (fst sample_resolution, snd sample_resolution)"
    by (simp add: sample_resolution_def)
  from human_files_untouched [OF this _ sample_human]
  have "''a'' \<in> set (rs_remaining (fst sample_resolution))" by simp
  moreover have "rs_resolved (fst sample_resolution) = [(''m1'', How_measured)] \<and>
      tr_calls (snd sample_resolution) = [([''checkout'', ''--ours'', ''--'', ''m1''], Some []), ([''add'', ''--'', ''m1''], Some [])]"
    by code_simp
  ultimately show ?thesis by blast
qed

end
