(* ===== verification/Merge_Gate.thy ===== *)
theory Merge_Gate
  imports Mechanical Claims
begin

text \<open>
  The gate of a merge (\<open>src/scripts/sma/lib/merge-gate.mjs\<close>): the one merge slot of the terminals, the run that brings
  a branch into the working copy, judges it there, and only then commits it, and the soft scope check.

  A site is the working copy of \<open>Mechanical\<close> with the claims and journals of \<open>Claims\<close>. The test runner, the
  fitness check of the dependencies and the return of the built window are arguments over host and world,
  \<open>None\<close> when they throw; the clock is read from the site. An exception takes the path of the \<open>catch\<close>
  block, \<open>give_up\<close>. Receipts are the objects that are journalled; sentences are values of \<open>merge_words\<close>,
  put into text by \<open>mg_say\<close>. An outcome carries what the returned object adds to its receipt.
\<close>

section \<open>The merge slot\<close>

definition merge_slot_name :: string where "merge_slot_name = ''merge-in-progress''"

definition merge_claim_ttl_ms :: rat where "merge_claim_ttl_ms = 1800000"

datatype acquire_result = Acquired | Denied jsval | Acquire_throws

definition merge_terminal :: "jsval \<Rightarrow> string" where
  "merge_terminal by_v = to_str (coalesce by_v (JStr ''unknown''))"

definition acquire_merge_claim :: "(string \<Rightarrow> string) \<Rightarrow> clock \<Rightarrow> jsval \<Rightarrow> jsval \<Rightarrow> jsval \<Rightarrow> world \<Rightarrow> acquire_result \<times> world" where
  "acquire_merge_claim sha ck by_v session branch w =
     (case claim_slot ck merge_slot_name
             (JObj [(''by'', by_v), (''session'', coalesce session JNull), (''expectedPrev'', JNull),
                (''reason'', JStr (if truthy branch then ''merge-in-progress:'' @ to_str branch else ''merge-in-progress''))])
             (w_claims w) of
        (Won, d) \<Rightarrow>
          (case log_event sha ck (merge_terminal by_v)
                  (JObj [(''type'', JStr ''claim''), (''scope'', JStr merge_slot_name),
                     (''detail'', JObj [(''branch'', coalesce branch JNull)])]) (w\<lparr>w_claims := d\<rparr>) of
             (True, w') \<Rightarrow> (Acquired, w')
           | (False, w') \<Rightarrow> (Acquire_throws, w'))
      | (Held holder, d) \<Rightarrow> (Denied (coalesce holder JNull), w\<lparr>w_claims := d\<rparr>))"

text \<open>\<open>None\<close> when the journal of the release throws: the slot is free then all the same.\<close>

definition release_merge_claim :: "(string \<Rightarrow> string) \<Rightarrow> clock \<Rightarrow> jsval \<Rightarrow> world \<Rightarrow> release_result option \<times> world" where
  "release_merge_claim sha ck by_v w =
     (case release_slot ck by_v False merge_slot_name (w_claims w) of
        (Foreign, d) \<Rightarrow> (Some Foreign, w\<lparr>w_claims := d\<rparr>)
      | (Released, d) \<Rightarrow>
          (case log_event sha ck (merge_terminal by_v)
                  (JObj [(''type'', JStr ''release''), (''scope'', JStr merge_slot_name)]) (w\<lparr>w_claims := d\<rparr>) of
             (True, w') \<Rightarrow> (Some Released, w')
           | (False, w') \<Rightarrow> (None, w')))"

text \<open>\<open>/merge-in-progress:(.+)$/\<close>: up to the end of the text, on one line.\<close>

fun branch_in :: "string \<Rightarrow> string option" where
  "branch_in [] = None"
| "branch_in (c # cs) =
     (let r = drop 18 (c # cs) in
      if str_prefix ''merge-in-progress:'' (c # cs) \<and> r \<noteq> [] \<and> list_all (\<lambda>x. code_of x \<noteq> 10 \<and> code_of x \<noteq> 13) r then Some r
      else branch_in cs)"

datatype merge_view =
    Merge_free
  | Merge_stale "jsval option" jsval "string option"
  | Merge_live "jsval option" jsval "string option"

definition check_merge_claim :: "clock \<Rightarrow> world \<Rightarrow> merge_view" where
  "check_merge_claim ck w =
     (case find (\<lambda>v. cv_name v = merge_slot_name) (read_claims ck (w_claims w)) of
        None \<Rightarrow> Merge_free
      | Some v \<Rightarrow>
          let prov = cv_prov v;
              who = (if truthy prov \<and> truthy (jget prov ''by'') then Some (jget prov ''by'') else None);
              since = (if truthy prov \<and> truthy (jget prov ''at'') then jget prov ''at'' else JNull);
              reason = js_or (and_get prov ''reason'') (JStr []);
              branch = branch_in (to_str reason);
              started = (if truthy since then ck_parse ck (to_str since) else NaN);
              age = (case started of Fin t \<Rightarrow> of_nat (ck_now ck) - t | _ \<Rightarrow> of_int (cv_age v))
          in if age > merge_claim_ttl_ms then Merge_stale who since branch else Merge_live who since branch)"

section \<open>What the runner of the tests said\<close>

text \<open>\<open>typeof v === 'string' && v.trim() ? v.trim() : null\<close>.\<close>

definition said :: "jsval \<Rightarrow> string option" where
  "said v = (case v of JStr s \<Rightarrow> if js_trim s = [] then None else Some (js_trim s) | _ \<Rightarrow> None)"

record run_report =
  rr_failed_test :: "string option"
  rr_detail :: "string option"
  rr_failed_tests :: "string list"
  rr_failed_count :: int
  rr_saved_report :: "string option"
  rr_saved_log :: "string option"
  rr_keep_note :: "string option"

definition report_of :: "jsval \<Rightarrow> run_report" where
  "report_of tr = \<lparr>rr_failed_test = said (jget tr ''failedTest''), rr_detail = said (jget tr ''failureDetail''),
     rr_failed_tests = (case jget tr ''failedTests'' of JArr vs \<Rightarrow> List.map_filter said vs | _ \<Rightarrow> []),
     rr_failed_count = (case jget tr ''failedCount'' of JNum (Fin q) \<Rightarrow> if 0 < q then \<lfloor>q\<rfloor> else 0 | _ \<Rightarrow> 0),
     rr_saved_report = said (jget tr ''savedReport''), rr_saved_log = said (jget tr ''savedLog''),
     rr_keep_note = said (jget tr ''keepNote'')\<rparr>"

datatype verdict = Run_throws | Window_unbuilt "string option" | Nothing_to_run "string option" | Ran bool run_report

text \<open>The answer of the runner, in the order of the code; reading a field of \<open>null\<close> throws.\<close>

definition judge_run :: "jsval \<Rightarrow> verdict" where
  "judge_run tr =
     (if truthy tr \<and> jget tr ''spaBuildFailed'' = JBool True then Window_unbuilt (said (jget tr ''failureDetail''))
      else if truthy tr \<and> (jget tr ''passed'' = JNull \<or> jget tr ''ran'' = JBool False \<or> jget tr ''nothingToRun'' = JBool True)
      then Nothing_to_run (said (jget tr ''note''))
      else if is_nullish tr then Run_throws
      else Ran (truthy tr \<and> truthy (jget tr ''passed'')) (report_of tr))"

definition spa_build_of :: "jsval \<Rightarrow> jsval option" where
  "spa_build_of tr = (if truthy tr \<and> is_object (jget tr ''spaBuild'') then Some (jget tr ''spaBuild'') else None)"

section \<open>The site of a merge\<close>

record 'r site =
  st_tree :: "'r tree"
  st_world :: world

datatype merge_words =
    Already_in_tree
  | No_runner
  | Said_nothing_ran
  | Env_unfit
  | Window_failed_note
  | Window_reason "string option" "string option"
  | Red_reason "string option" "string option" "string option" "string option"
  | Restore_threw
  | Unfinished_hint string

record 'r merge_options =
  mg_branch :: jsval
  mg_by :: jsval
  mg_session :: jsval
  mg_cwd :: string
  mg_rules :: merge_rules
  mg_host :: "'r host"
  mg_tests :: "(jsval \<Rightarrow> 'r \<times> world \<Rightarrow> jsval option \<times> 'r \<times> world) option"
  mg_check :: "'r \<times> world \<Rightarrow> jsval option"
  mg_restore :: "('r \<times> world \<Rightarrow> jsval option \<times> 'r \<times> world) option"
  mg_clock :: "'r \<times> world \<Rightarrow> clock"
  mg_sha :: "string \<Rightarrow> string"
  mg_say :: "merge_words \<Rightarrow> string"

definition seen :: "'r site \<Rightarrow> 'r \<times> world" where
  "seen s = (tr_host (st_tree s), st_world s)"

definition outside :: "('r \<times> world \<Rightarrow> 'a \<times> 'r \<times> world) \<Rightarrow> 'r site \<Rightarrow> 'a \<times> 'r site" where
  "outside f s = (case f (seen s) of (a, r, w) \<Rightarrow> (a, s\<lparr>st_tree := (st_tree s)\<lparr>tr_host := r\<rparr>, st_world := w\<rparr>))"

definition site_git :: "'r merge_options \<Rightarrow> string list \<Rightarrow> 'r site \<Rightarrow> string option \<times> 'r site" where
  "site_git g args s = (case git_call (mg_host g) args (st_tree s) of (out, t) \<Rightarrow> (out, s\<lparr>st_tree := t\<rparr>))"

text \<open>A receipt in the journal; a journal that throws is caught.\<close>

definition journal_receipt :: "'r merge_options \<Rightarrow> jsmap \<Rightarrow> 'r site \<Rightarrow> 'r site" where
  "journal_receipt g receipt s =
     s\<lparr>st_world := snd (log_event (mg_sha g) (mg_clock g (seen s)) (merge_terminal (mg_by g))
         (JObj [(''type'', JStr ''merge''), (''scope'', JStr merge_slot_name), (''detail'', JObj receipt)]) (st_world s))\<rparr>"

definition site_release :: "'r merge_options \<Rightarrow> 'r site \<Rightarrow> bool \<times> 'r site" where
  "site_release g s =
     (case release_merge_claim (mg_sha g) (mg_clock g (seen s)) (mg_by g) (st_world s) of
        (r, w) \<Rightarrow> (r \<noteq> None, s\<lparr>st_world := w\<rparr>))"

definition put_window_back :: "'r merge_options \<Rightarrow> 'r site \<Rightarrow> jsval option \<times> 'r site" where
  "put_window_back g s =
     (case mg_restore g of
        None \<Rightarrow> (None, s)
      | Some f \<Rightarrow>
          (case outside f s of
             (None, s') \<Rightarrow> (Some (JObj [(''restored'', JBool False), (''note'', JStr (mg_say g Restore_threw))]), s')
           | (Some v, s') \<Rightarrow> (if truthy v then Some v else None, s')))"

section \<open>The run\<close>

record conflict_detail =
  cd_files :: "string list"
  cd_resolved :: "(string \<times> how) list"

datatype merge_outcome =
    No_branch
  | Soft_denied jsval
  | Up_to_date jsmap
  | Env_broken jsmap bool
  | Window_failed jsmap bool
  | Tests_red jsmap bool
  | Merged "bool option" jsmap
  | Failed "conflict_detail option" "jsval option" bool

text \<open>\<open>True\<close> when the abort throws: the merge is left unfinished.\<close>

definition abort_args :: "string list" where "abort_args = [''merge'', ''--abort'']"

definition abort_merge :: "'r merge_options \<Rightarrow> 'r site \<Rightarrow> bool \<times> 'r site" where
  "abort_merge g s = (case site_git g abort_args s of (out, s') \<Rightarrow> (out = None, s'))"

text \<open>The \<open>catch\<close> block: \<open>mergeInTree\<close> decides on the abort, \<open>claimed\<close> on the release, which may throw
  unnoticed.\<close>

definition give_up :: "'r merge_options \<Rightarrow> conflict_detail option \<Rightarrow> bool \<Rightarrow> bool \<Rightarrow> 'r site \<Rightarrow> merge_outcome \<times> 'r site" where
  "give_up g conflict in_tree claimed s =
     (let (unfinished, s1) = (if in_tree then abort_merge g s else (False, s));
          (restored, s2) = put_window_back g s1
      in (Failed conflict restored unfinished, if claimed then snd (site_release g s2) else s2))"

text \<open>The end of a path: the release, and the \<open>catch\<close> block when it throws.\<close>

definition leave :: "'r merge_options \<Rightarrow> merge_outcome \<Rightarrow> bool \<Rightarrow> 'r site \<Rightarrow> merge_outcome \<times> 'r site" where
  "leave g out in_tree s =
     (case site_release g s of (True, s') \<Rightarrow> (out, s') | (False, s') \<Rightarrow> give_up g None in_tree True s')"

definition opt_field :: "string \<Rightarrow> jsval option \<Rightarrow> jsmap" where
  "opt_field k v = (case v of None \<Rightarrow> [] | Some x \<Rightarrow> [(k, x)])"

definition receipt_base :: "'r merge_options \<Rightarrow> jsval \<Rightarrow> jsval \<Rightarrow> jsmap" where
  "receipt_base g result_sha passed =
     [(''branch'', mg_branch g), (''resultSha'', result_sha), (''repo'', JStr (mg_cwd g)), (''testsPassed'', passed)]"

definition unfinished_fields :: "'r merge_options \<Rightarrow> bool \<Rightarrow> jsmap" where
  "unfinished_fields g unfinished =
     (if unfinished then [(''unfinishedMerge'', JBool True), (''howToClear'', JStr (mg_say g (Unfinished_hint (mg_cwd g))))] else [])"

definition how_text :: "how \<Rightarrow> string" where
  "how_text w = (case w of How_measured \<Rightarrow> ''measured'' | How_union \<Rightarrow> ''union'' | How_union_measured \<Rightarrow> ''union+measured''
     | How_rederive \<Rightarrow> ''rederive'' | How_regenerate \<Rightarrow> ''regenerate'')"

definition resolved_field :: "(string \<times> how) list \<Rightarrow> jsmap" where
  "resolved_field fs = (if fs = [] then [] else
     [(''mechanicallyResolved'', JArr (map (\<lambda>(f, w). JObj [(''file'', JStr f), (''how'', JStr (how_text w))]) fs))])"

text \<open>The branch into the working copy: the conflict it stops at, or what was resolved mechanically.\<close>

definition merge_args :: "jsval \<Rightarrow> string list" where
  "merge_args branch = [''merge'', ''--no-ff'', ''--no-commit'', to_str branch]"

definition bring_in :: "'r merge_options \<Rightarrow> 'r site \<Rightarrow> (conflict_detail option + (string \<times> how) list) \<times> 'r site" where
  "bring_in g s =
     (case site_git g (merge_args (mg_branch g)) s of
        (Some _, s1) \<Rightarrow> (Inr [], s1)
      | (None, s1) \<Rightarrow>
          (case conflicted_files (mg_host g) (st_tree s1) of
             (None, t2) \<Rightarrow> (Inl None, s1\<lparr>st_tree := t2\<rparr>)
           | (Some fs, t2) \<Rightarrow>
               if fs = [] then (Inl None, s1\<lparr>st_tree := t2\<rparr>)
               else case resolve_mechanical (mg_host g) (mg_rules g) Ours fs t2 of
                      (rs, t3) \<Rightarrow>
                        (if rs_remaining rs = [] then Inr (rs_resolved rs)
                         else Inl (Some \<lparr>cd_files = rs_remaining rs, cd_resolved = rs_resolved rs\<rparr>), s1\<lparr>st_tree := t3\<rparr>)))"

definition head_args :: "string list" where
  "head_args = [''rev-parse'', ''-q'', ''--verify'', ''MERGE_HEAD'']"

definition has_merge_head :: "'r merge_options \<Rightarrow> 'r site \<Rightarrow> bool \<times> 'r site" where
  "has_merge_head g s =
     (case site_git g head_args s of
        (None, s') \<Rightarrow> (False, s') | (Some out, s') \<Rightarrow> (js_trim out \<noteq> [], s'))"

text \<open>\<open>/^[0-9a-f]{7,40}$/\<close>.\<close>

definition is_tree_hash :: "string \<Rightarrow> bool" where
  "is_tree_hash s \<longleftrightarrow> 7 \<le> length s \<and> length s \<le> 40 \<and> list_all (\<lambda>c. is_digit c \<or> 97 \<le> code_of c \<and> code_of c \<le> 102) s"

definition merged_tree_of :: "'r merge_options \<Rightarrow> 'r site \<Rightarrow> jsval \<times> 'r site" where
  "merged_tree_of g s =
     (case site_git g [''write-tree''] s of
        (None, s') \<Rightarrow> (JNull, s')
      | (Some out, s') \<Rightarrow> (if is_tree_hash (js_trim out) then JStr (js_trim out) else JNull, s'))"

text \<open>The fitness of the dependencies, asked only with a runner; a check that throws or answers nothing is
  read as fit.\<close>

definition fitness_of :: "'r merge_options \<Rightarrow> 'r site \<Rightarrow> jsval" where
  "fitness_of g s =
     (let fit = JObj [(''fit'', JBool True), (''reason'', JNull), (''broken'', JArr [])]
      in if mg_tests g = None then fit
         else case mg_check g (seen s) of None \<Rightarrow> fit | Some v \<Rightarrow> js_or v fit)"

definition commit_args :: "string list" where "commit_args = [''commit'', ''--no-edit'']"

definition commit_merge ::
    "'r merge_options \<Rightarrow> bool option \<Rightarrow> string \<Rightarrow> jsval option \<Rightarrow> (string \<times> how) list \<Rightarrow> 'r site \<Rightarrow> merge_outcome \<times> 'r site" where
  "commit_merge g passed words spa resolved s =
     (case site_git g commit_args s of
        (None, s1) \<Rightarrow> give_up g None True True s1
      | (Some _, s1) \<Rightarrow>
          (case site_git g [''rev-parse'', ''HEAD''] s1 of
             (out, s2) \<Rightarrow>
               let sha = (case out of None \<Rightarrow> [] | Some x \<Rightarrow> js_trim x);
                   receipt = receipt_base g (if sha = [] then JNull else JStr sha) (case passed of None \<Rightarrow> JNull | Some b \<Rightarrow> JBool b)
                     @ (if passed = None then [(''testsNote'', JStr words)] else [])
                     @ opt_field ''spaBuild'' spa @ resolved_field resolved
               in leave g (Merged passed receipt) False (journal_receipt g receipt s2)))"

definition refuse_window :: "'r merge_options \<Rightarrow> string option \<Rightarrow> jsval option \<Rightarrow> 'r site \<Rightarrow> merge_outcome \<times> 'r site" where
  "refuse_window g tail spa s =
     (let (unfinished, s1) = abort_merge g s; (restored, s2) = put_window_back g s1;
          from_build = (case spa of None \<Rightarrow> None | Some b \<Rightarrow> said (jget b ''distNote''));
          dist = (case from_build of Some n \<Rightarrow> Some n | None \<Rightarrow> (case restored of None \<Rightarrow> None | Some v \<Rightarrow> said (jget v ''note'')));
          receipt = receipt_base g JNull JNull
            @ [(''testsNote'', JStr (mg_say g Window_failed_note)), (''refused'', JBool True), (''spaBuildFailed'', JBool True),
               (''reasonCode'', JStr ''spa_build_failed''), (''reason'', JStr (mg_say g (Window_reason tail dist)))]
            @ opt_field ''failureDetail'' (map_option JStr tail) @ opt_field ''spaBuild'' spa @ opt_field ''spaRestored'' restored
            @ unfinished_fields g unfinished
      in leave g (Window_failed receipt unfinished) unfinished (journal_receipt g receipt s2))"

definition refuse_red :: "'r merge_options \<Rightarrow> run_report \<Rightarrow> jsval option \<Rightarrow> 'r site \<Rightarrow> merge_outcome \<times> 'r site" where
  "refuse_red g rep spa s =
     (let (unfinished, s1) = abort_merge g s; (restored, s2) = put_window_back g s1;
          dist = (case restored of None \<Rightarrow> None | Some v \<Rightarrow> said (jget v ''note''));
          str_field = (\<lambda>k v. opt_field k (map_option JStr v));
          receipt = receipt_base g JNull (JBool False)
            @ [(''refused'', JBool True),
               (''reason'', JStr (mg_say g (Red_reason (rr_failed_test rep) (rr_saved_report rep) (rr_keep_note rep) dist)))]
            @ str_field ''failedTest'' (rr_failed_test rep)
            @ (if rr_failed_tests rep = [] then [] else [(''failedTests'', JArr (map JStr (rr_failed_tests rep)))])
            @ (if rr_failed_count rep = 0 then [] else [(''failedCount'', JInt (rr_failed_count rep))])
            @ str_field ''failureDetail'' (rr_detail rep) @ str_field ''savedReport'' (rr_saved_report rep)
            @ str_field ''savedLog'' (rr_saved_log rep) @ str_field ''keepNote'' (rr_keep_note rep)
            @ opt_field ''spaBuild'' spa @ opt_field ''spaRestored'' restored @ unfinished_fields g unfinished
      in leave g (Tests_red receipt unfinished) unfinished (journal_receipt g receipt s2))"

definition refuse_env :: "'r merge_options \<Rightarrow> jsval \<Rightarrow> 'r site \<Rightarrow> merge_outcome \<times> 'r site" where
  "refuse_env g fitness s =
     (let (unfinished, s1) = abort_merge g s;
          receipt = receipt_base g JNull JNull
            @ [(''testsNote'', JStr (mg_say g Env_unfit)), (''refused'', JBool True), (''envBroken'', JBool True),
               (''reason'', jget fitness ''reason''),
               (''brokenDeps'', case jget fitness ''broken'' of JArr vs \<Rightarrow> JArr vs | _ \<Rightarrow> JArr [])]
            @ unfinished_fields g unfinished
      in leave g (Env_broken receipt unfinished) unfinished (journal_receipt g receipt s1))"

text \<open>What the answer of the runner decides.\<close>

definition settle_run :: "'r merge_options \<Rightarrow> (string \<times> how) list \<Rightarrow> jsval \<Rightarrow> 'r site \<Rightarrow> merge_outcome \<times> 'r site" where
  "settle_run g resolved tr s =
     (case judge_run tr of
        Run_throws \<Rightarrow> give_up g None True True s
      | Window_unbuilt tail \<Rightarrow> refuse_window g tail (spa_build_of tr) s
      | Nothing_to_run words \<Rightarrow>
          commit_merge g None (case words of None \<Rightarrow> mg_say g Said_nothing_ran | Some n \<Rightarrow> n) (spa_build_of tr) resolved s
      | Ran passed rep \<Rightarrow>
          if passed then commit_merge g (Some True) [] (spa_build_of tr) resolved s
          else refuse_red g rep (spa_build_of tr) s)"

text \<open>The merged working copy, before anything is in history.\<close>

definition judge_tree :: "'r merge_options \<Rightarrow> (string \<times> how) list \<Rightarrow> 'r site \<Rightarrow> merge_outcome \<times> 'r site" where
  "judge_tree g resolved s =
     (let fitness = fitness_of g s in
      if mg_tests g \<noteq> None \<and> jget fitness ''fit'' = JBool False then refuse_env g fitness s
      else case merged_tree_of g s of
             (tree, s1) \<Rightarrow>
               (case mg_tests g of
                  None \<Rightarrow> commit_merge g None (mg_say g No_runner) None resolved s1
                | Some run \<Rightarrow>
                    (case outside (run (JObj [(''branch'', mg_branch g), (''resultSha'', JNull), (''cwd'', JStr (mg_cwd g)),
                                        (''mergedTree'', tree)])) s1 of
                       (None, s2) \<Rightarrow> give_up g None True True s2
                     | (Some tr, s2) \<Rightarrow> settle_run g resolved tr s2)))"

definition merge_claimed :: "'r merge_options \<Rightarrow> 'r site \<Rightarrow> merge_outcome \<times> 'r site" where
  "merge_claimed g s =
     (case bring_in g s of
        (Inl conflict, s1) \<Rightarrow> give_up g conflict True True s1
      | (Inr resolved, s1) \<Rightarrow>
          (case has_merge_head g s1 of
             (False, s2) \<Rightarrow>
               let receipt = receipt_base g JNull JNull @ [(''testsNote'', JStr (mg_say g Already_in_tree)), (''alreadyUpToDate'', JBool True)]
               in leave g (Up_to_date receipt) False (journal_receipt g receipt s2)
           | (True, s2) \<Rightarrow> judge_tree g resolved s2))"

definition run_merge :: "'r merge_options \<Rightarrow> 'r site \<Rightarrow> merge_outcome \<times> 'r site" where
  "run_merge g s =
     (if \<not> is_str (mg_branch g) \<or> \<not> truthy (mg_branch g) then (No_branch, s)
      else case acquire_merge_claim (mg_sha g) (mg_clock g (seen s)) (mg_by g) (mg_session g) (mg_branch g) (st_world s) of
             (Denied holder, w) \<Rightarrow> (Soft_denied holder, s\<lparr>st_world := w\<rparr>)
           | (Acquire_throws, w) \<Rightarrow> give_up g None False False (s\<lparr>st_world := w\<rparr>)
           | (Acquired, w) \<Rightarrow> merge_claimed g (s\<lparr>st_world := w\<rparr>))"

section \<open>The soft scope check\<close>

definition env_on :: "jsval \<Rightarrow> bool" where
  "env_on v = (let s = js_lower (js_trim (to_str (coalesce v (JStr [])))) in s \<noteq> [] \<and> s \<noteq> ''0'' \<and> s \<noteq> ''false'')"

datatype scope_action = Allow | Warn_cooling | Warn_stale "jsval option" | Soft_deny "jsval option"

text \<open>The text of a warning or a denial is the one the check of evidence gave, or a sentence. A check
  that throws allows.\<close>

definition enforce_scope :: "jsval \<Rightarrow> jsval \<Rightarrow> jsval \<Rightarrow> (jsval \<Rightarrow> jsval option) option \<Rightarrow> jsval \<Rightarrow> scope_action" where
  "enforce_scope env foreign cooling verify evidence =
     (if env_on (jget (js_or env (JObj [])) ''SMA_ENFORCE_SCOPES_DISABLE'') then Allow
      else if \<not> truthy foreign then Allow
      else if truthy cooling then Warn_cooling
      else case (case verify of None \<Rightarrow> Some (JObj [(''live'', JBool True), (''text'', JStr [])])
                  | Some f \<Rightarrow> f (js_or evidence (JObj []))) of
             None \<Rightarrow> Allow
           | Some ev \<Rightarrow>
               let said_text = (if truthy ev \<and> truthy (jget ev ''text'') then Some (jget ev ''text'') else None)
               in if truthy ev \<and> jget ev ''live'' = JBool False then Warn_stale said_text else Soft_deny said_text)"

end
