(* ===== verification/Merge_Laws.thy ===== *)
theory Merge_Laws
  imports Merge_Gate
begin

text \<open>
  What holds of every run of the merge gate, whatever git, the tests and the journal answer: whether git stands in
  a merge afterwards and what the run says of it, how often it commits, and that the slot is free again.
\<close>

section \<open>When git stands in a merge\<close>

text \<open>Whether git stands in a merge (\<open>MERGE_HEAD\<close>) is a predicate of the working copy, not of the calls: git may
  refuse a merge outright. What the code relies on, for the calls it makes: an abort or a commit that
  answers ends the merge, one that fails leaves it; the merge that is asked about is the one there is;
  reading, \<open>add\<close> and \<open>checkout\<close> of a file, the rebuilding commands and written files leave it alone.\<close>

definition is_commit :: "string list \<Rightarrow> bool" where
  "is_commit args \<longleftrightarrow> take 1 args = [''commit'']"

definition leaves_head :: "string list \<Rightarrow> bool" where
  "leaves_head args \<longleftrightarrow> args = status_args \<or> args = diff_args \<or> (\<exists>f. touches f args) \<or>
     take 1 args \<in> {[''rev-parse''], [''rev-list''], [''write-tree'']}"

definition present_head :: "string option \<Rightarrow> bool" where
  "present_head out \<longleftrightarrow> (case out of None \<Rightarrow> False | Some x \<Rightarrow> js_trim x \<noteq> [])"

definition follows_git :: "('r \<Rightarrow> bool) \<Rightarrow> 'r host \<Rightarrow> bool" where
  "follows_git merging h \<longleftrightarrow>
     (\<forall>args r. leaves_head args \<longrightarrow> merging (snd (h_git h args r)) = merging r) \<and>
     (\<forall>args r. args = abort_args \<or> is_commit args \<longrightarrow>
        merging (snd (h_git h args r)) = (merging r \<and> fst (h_git h args r) = None)) \<and>
     (\<forall>r. present_head (fst (h_git h head_args r)) = merging r) \<and>
     (\<forall>cmd r. merging (snd (h_run h cmd r)) = merging r) \<and>
     (\<forall>f b r. merging (snd (h_write h f b r)) = merging r)"

text \<open>The runner of the tests and the return of the window leave it alone as well.\<close>

definition leaves_merge :: "('r \<Rightarrow> bool) \<Rightarrow> ('r \<times> world \<Rightarrow> 'a \<times> 'r \<times> world) \<Rightarrow> bool" where
  "leaves_merge merging f \<longleftrightarrow> (\<forall>st. merging (fst (snd (f st))) = merging (fst st))"

definition minds_merge :: "('r \<Rightarrow> bool) \<Rightarrow> 'r merge_options \<Rightarrow> bool" where
  "minds_merge merging g \<longleftrightarrow> follows_git merging (mg_host g) \<and>
     (case mg_tests g of None \<Rightarrow> True | Some run \<Rightarrow> \<forall>args. leaves_merge merging (run args)) \<and>
     (case mg_restore g of None \<Rightarrow> True | Some f \<Rightarrow> leaves_merge merging f)"

abbreviation in_merge :: "('r \<Rightarrow> bool) \<Rightarrow> 'r site \<Rightarrow> bool" where
  "in_merge merging s \<equiv> merging (tr_host (st_tree s))"

abbreviation calls :: "'r site \<Rightarrow> (string list \<times> string option) list" where
  "calls s \<equiv> tr_calls (st_tree s)"

definition commits_in :: "(string list \<times> string option) list \<Rightarrow> nat" where
  "commits_in cs = length (filter (\<lambda>c. is_commit (fst c)) cs)"

lemma commits_snoc [simp]: "commits_in (cs @ [c]) = commits_in cs + of_bool (is_commit (fst c))"
  by (simp add: commits_in_def)

lemmas call_names = merge_args_def commit_args_def is_commit_def abort_args_def head_args_def leaves_head_def

lemma minds_git: "minds_merge merging g \<Longrightarrow> follows_git merging (mg_host g)"
  by (simp add: minds_merge_def)

text \<open>Moves of the working copy that leave the merge alone.\<close>

lemma quiet_not_commit: "leaves_head args \<Longrightarrow> \<not> is_commit args"
  by (auto simp: call_names status_args_def diff_args_def touches_def touching_def)

lemma quiet_not_merge: "leaves_head args \<Longrightarrow> take 1 args \<noteq> [''merge'']"
  by (auto simp: leaves_head_def status_args_def diff_args_def touches_def touching_def)

lemma quiet_move:
  assumes "host_move h (\<lambda>c. leaves_head (fst c)) t t'"
  shows "commits_in (tr_calls t') = commits_in (tr_calls t)"
    and "follows_git merging h \<Longrightarrow> merging (tr_host t') = merging (tr_host t)"
proof -
  show "commits_in (tr_calls t') = commits_in (tr_calls t)"
    using assms by (cases rule: host_move.cases)
      (auto simp: git_call_def run_call_def write_call_def quiet_not_commit split: prod.splits)
  assume git: "follows_git merging h"
  show "merging (tr_host t') = merging (tr_host t)"
    using assms
  proof (cases rule: host_move.cases)
    case (asks args out)
    then have "tr_host t' = snd (h_git h args (tr_host t))" "leaves_head args"
      by (auto simp: git_call_def split: prod.splits)
    then show ?thesis using git by (simp add: follows_git_def)
  next
    case (runs cmd b)
    then have "tr_host t' = snd (h_run h cmd (tr_host t))" by (auto simp: run_call_def split: prod.splits)
    then show ?thesis using git by (simp add: follows_git_def)
  next
    case (writes f s b)
    then have "tr_host t' = snd (h_write h f s (tr_host t))" by (auto simp: write_call_def split: prod.splits)
    then show ?thesis using git by (simp add: follows_git_def)
  qed
qed

lemma quiet_moves:
  assumes "only_calls h (\<lambda>c. leaves_head (fst c)) t t'"
  shows "commits_in (tr_calls t') = commits_in (tr_calls t)"
    and "follows_git merging h \<Longrightarrow> merging (tr_host t') = merging (tr_host t)"
  using assms by (induction rule: rtranclp_induct) (simp_all add: quiet_move)

lemma resolution_quiet: "resolve_mechanical h rules trunk fs t = (rs, t') \<Longrightarrow> only_calls h (\<lambda>c. leaves_head (fst c)) t t'"
  by (erule only_calls_mono [OF resolution_outside]) (auto simp: writes_outside_def leaves_head_def)

lemma conflicted_quiet: "conflicted_files h t = (r, t') \<Longrightarrow> only_calls h (\<lambda>c. leaves_head (fst c)) t t'"
  by (auto simp: conflicted_files_def leaves_head_def split: prod.splits option.splits intro!: git_only)

section \<open>What each step does\<close>

lemma site_git_calls: "site_git g args s = (out, s') \<Longrightarrow> calls s' = calls s @ [(args, out)]"
  by (auto simp: site_git_def git_call_def split: prod.splits)

lemma site_git_host:
  "site_git g args s = (out, s') \<Longrightarrow> h_git (mg_host g) args (tr_host (st_tree s)) = (out, tr_host (st_tree s'))"
  by (auto simp: site_git_def git_call_def split: prod.splits)

lemma site_git_quiet:
  assumes "site_git g args s = (out, s')" and "leaves_head args"
  shows "commits_in (calls s') = commits_in (calls s)"
    and "minds_merge merging g \<Longrightarrow> in_merge merging s' = in_merge merging s"
  using site_git_calls [OF assms(1)] site_git_host [OF assms(1)] assms(2)
  by (simp_all add: quiet_not_commit minds_merge_def follows_git_def) (metis snd_conv)

lemma site_git_ends:
  assumes "site_git g args s = (out, s')" and "args = abort_args \<or> is_commit args"
  shows "commits_in (calls s') = commits_in (calls s) + of_bool (is_commit args)"
    and "minds_merge merging g \<Longrightarrow> in_merge merging s' = (in_merge merging s \<and> out = None)"
  using site_git_calls [OF assms(1)] site_git_host [OF assms(1)] assms(2)
  by (simp, simp add: minds_merge_def follows_git_def) (metis fst_conv snd_conv)

lemma outside_calls: "outside f s = (a, s') \<Longrightarrow> calls s' = calls s"
  by (auto simp: outside_def split: prod.splits)

lemma outside_merge: "outside f s = (a, s') \<Longrightarrow> leaves_merge merging f \<Longrightarrow> in_merge merging s' = in_merge merging s"
  by (auto simp: outside_def leaves_merge_def seen_def split: prod.splits) (metis fst_conv snd_conv)+

lemma journal_tree [simp]: "st_tree (journal_receipt g receipt s) = st_tree s"
  by (simp add: journal_receipt_def)

lemma release_tree: "site_release g s = (b, s') \<Longrightarrow> st_tree s' = st_tree s"
  by (auto simp: site_release_def split: prod.splits)

lemma restore_calls: "put_window_back g s = (v, s') \<Longrightarrow> calls s' = calls s"
  by (auto simp: put_window_back_def split: option.splits prod.splits dest: outside_calls)

lemma restore_merge: "put_window_back g s = (v, s') \<Longrightarrow> minds_merge merging g \<Longrightarrow> in_merge merging s' = in_merge merging s"
  by (auto simp: put_window_back_def minds_merge_def split: option.splits prod.splits dest: outside_merge)

lemma abort_trace:
  assumes "abort_merge g s = (unfinished, s')"
  shows "commits_in (calls s') = commits_in (calls s)"
    and "minds_merge merging g \<Longrightarrow> in_merge merging s' \<longleftrightarrow> in_merge merging s \<and> unfinished"
proof -
  obtain out where asked: "site_git g abort_args s = (out, s')" and u: "unfinished = (out = None)"
    using assms by (auto simp: abort_merge_def split: prod.splits)
  show "commits_in (calls s') = commits_in (calls s)" using site_git_ends(1) [OF asked] by (simp add: call_names)
  show "minds_merge merging g \<Longrightarrow> in_merge merging s' \<longleftrightarrow> in_merge merging s \<and> unfinished"
    using site_git_ends(2) [OF asked, of merging] u by simp
qed

definition unfinished_of :: "merge_outcome \<Rightarrow> bool" where
  "unfinished_of out = (case out of Env_broken _ u \<Rightarrow> u | Window_failed _ u \<Rightarrow> u | Tests_red _ u \<Rightarrow> u | Failed _ _ u \<Rightarrow> u | _ \<Rightarrow> False)"

text \<open>The end of a path that started in \<open>s\<close>, where git stood in a merge: the flag is the truth, and
  \<open>commits\<close> more commits were tried.\<close>

definition ends_with :: "('r \<Rightarrow> bool) \<Rightarrow> 'r merge_options \<Rightarrow> nat \<Rightarrow> 'r site \<Rightarrow> merge_outcome \<Rightarrow> 'r site \<Rightarrow> bool" where
  "ends_with merging g commits s out s' \<longleftrightarrow> commits_in (calls s') = commits_in (calls s) + commits \<and>
     (minds_merge merging g \<longrightarrow> in_merge merging s' = unfinished_of out)"

lemma give_up_trace:
  assumes "give_up g conflict in_tree claimed s = (out, s')"
  shows "commits_in (calls s') = commits_in (calls s)"
    and "minds_merge merging g \<Longrightarrow> in_merge merging s' \<longleftrightarrow> in_merge merging s \<and> (in_tree \<longrightarrow> unfinished_of out)"
proof -
  obtain u s1 where first: "(if in_tree then abort_merge g s else (False, s)) = (u, s1)" by (meson surj_pair)
  obtain v s2 where second: "put_window_back g s1 = (v, s2)" by (meson surj_pair)
  have s': "st_tree s' = st_tree s2" "out = Failed conflict v u"
    using assms release_tree [of g s2] by (auto simp: give_up_def first second split: if_splits) (metis prod.collapse)+
  show "commits_in (calls s') = commits_in (calls s)"
    using first abort_trace(1) [of g s u s1] restore_calls [OF second] s' by (cases in_tree) auto
  assume minds: "minds_merge merging g"
  then show "in_merge merging s' \<longleftrightarrow> in_merge merging s \<and> (in_tree \<longrightarrow> unfinished_of out)"
    using first abort_trace(2) [of g s u s1, OF _ minds] restore_merge [OF second minds] s'
    by (cases in_tree) (auto simp: unfinished_of_def)
qed

lemma give_up_flag: "give_up g conflict in_tree claimed s = (out, s') \<Longrightarrow> \<exists>v u. out = Failed conflict v u \<and> (u \<longrightarrow> in_tree)"
  by (auto simp: give_up_def split: prod.splits if_splits)

lemma give_up_ends:
  assumes "give_up g conflict in_tree claimed s = (out, s')" and "minds_merge merging g \<Longrightarrow> in_merge merging s = in_tree"
  shows "ends_with merging g 0 s out s'"
  using give_up_trace [OF assms(1)] assms(2) give_up_flag [OF assms(1)] by (auto simp: ends_with_def unfinished_of_def)

lemma leave_ends:
  assumes "leave g out0 in_tree s = (out, s')" and "minds_merge merging g \<Longrightarrow> in_merge merging s = in_tree"
    and "unfinished_of out0 = in_tree"
  shows "ends_with merging g 0 s out s'"
proof -
  obtain b s1 where rel: "site_release g s = (b, s1)" by (meson surj_pair)
  note tree = release_tree [OF rel]
  show ?thesis
  proof (cases b)
    case True
    then show ?thesis using assms tree by (simp add: leave_def rel ends_with_def)
  next
    case False
    then have "give_up g None in_tree True s1 = (out, s')" using assms(1) by (simp add: leave_def rel)
    from give_up_ends [OF this, of merging] assms(2) tree show ?thesis by (simp add: ends_with_def)
  qed
qed

lemma ends_from:
  assumes "ends_with merging g n s1 out s'" and "commits_in (calls s1) = commits_in (calls s) + m"
  shows "ends_with merging g (m + n) s out s'"
  using assms by (simp add: ends_with_def)

lemma commit_ends:
  assumes "commit_merge g passed words spa resolved s = (out, s')" and "minds_merge merging g \<Longrightarrow> in_merge merging s"
  shows "ends_with merging g 1 s out s'"
proof -
  obtain done_out s1 where first: "site_git g commit_args s = (done_out, s1)" by (meson surj_pair)
  have here: "commits_in (calls s1) = commits_in (calls s) + 1"
    using site_git_ends(1) [OF first] by (simp add: call_names)
  have after: "minds_merge merging g \<Longrightarrow> in_merge merging s1 = (done_out = None)"
    using site_git_ends(2) [OF first, of merging] assms(2) by (simp add: call_names)
  show ?thesis
  proof (cases done_out)
    case None
    then have "give_up g None True True s1 = (out, s')" using assms(1) by (simp add: commit_merge_def first)
    from ends_from [OF give_up_ends [OF this] here] after None show ?thesis by simp
  next
    case (Some x)
    obtain head s2 where head: "site_git g [''rev-parse'', ''HEAD''] s1 = (head, s2)" by (meson surj_pair)
    have quiet: "leaves_head [''rev-parse'', ''HEAD'']" by (simp add: leaves_head_def)
    obtain receipt where left: "leave g (Merged passed receipt) False (journal_receipt g receipt s2) = (out, s')"
      using assms(1) by (auto simp: commit_merge_def first Some head Let_def)
    have "ends_with merging g 0 (journal_receipt g receipt s2) out s'"
      by (rule leave_ends [OF left]) (use after Some site_git_quiet(2) [OF head quiet, of merging] in \<open>simp_all add: unfinished_of_def\<close>)
    from ends_from [OF this, of s 1] show ?thesis using here site_git_quiet(1) [OF head quiet] by simp
  qed
qed

lemma refusal_ends:
  assumes "abort_merge g s = (u, s1)" and "s2 = s1 \<or> put_window_back g s1 = (v, s2)"
    and "leave g out0 u (journal_receipt g receipt s2) = (out, s')" and "unfinished_of out0 = u"
    and "minds_merge merging g \<Longrightarrow> in_merge merging s"
  shows "ends_with merging g 0 s out s'"
proof -
  have "in_merge merging s2 = u" if minds: "minds_merge merging g"
  proof -
    have "in_merge merging s2 = in_merge merging s1" using assms(2) restore_merge [OF _ minds] by blast
    then show ?thesis using abort_trace(2) [OF assms(1) minds] assms(5) [OF minds] by simp
  qed
  then have "ends_with merging g 0 (journal_receipt g receipt s2) out s'"
    by (intro leave_ends [OF assms(3) _ assms(4)]) simp
  moreover have "calls s2 = calls s1" using assms(2) restore_calls by blast
  ultimately show ?thesis using ends_from [of merging g 0 _ out s' s 0] abort_trace(1) [OF assms(1)] by fastforce
qed

lemma refuse_env_ends:
  assumes "refuse_env g fitness s = (out, s')" and "minds_merge merging g \<Longrightarrow> in_merge merging s"
  shows "ends_with merging g 0 s out s'"
proof -
  obtain u s1 where aborted: "abort_merge g s = (u, s1)" by (meson surj_pair)
  obtain receipt where "leave g (Env_broken receipt u) u (journal_receipt g receipt s1) = (out, s')"
    using assms(1) by (simp only: refuse_env_def aborted Let_def prod.case)
  then show ?thesis by (rule refusal_ends [OF aborted disjI1 [OF refl]]) (simp_all add: unfinished_of_def assms(2))
qed

lemma refuse_window_ends:
  assumes "refuse_window g tail spa s = (out, s')" and "minds_merge merging g \<Longrightarrow> in_merge merging s"
  shows "ends_with merging g 0 s out s'"
proof -
  obtain u s1 where aborted: "abort_merge g s = (u, s1)" by (meson surj_pair)
  obtain v s2 where restored: "put_window_back g s1 = (v, s2)" by (meson surj_pair)
  obtain receipt where "leave g (Window_failed receipt u) u (journal_receipt g receipt s2) = (out, s')"
    using assms(1) by (simp only: refuse_window_def aborted restored Let_def prod.case)
  then show ?thesis by (rule refusal_ends [OF aborted disjI2 [OF restored]]) (simp_all add: unfinished_of_def assms(2))
qed

lemma refuse_red_ends:
  assumes "refuse_red g rep spa s = (out, s')" and "minds_merge merging g \<Longrightarrow> in_merge merging s"
  shows "ends_with merging g 0 s out s'"
proof -
  obtain u s1 where aborted: "abort_merge g s = (u, s1)" by (meson surj_pair)
  obtain v s2 where restored: "put_window_back g s1 = (v, s2)" by (meson surj_pair)
  obtain receipt where "leave g (Tests_red receipt u) u (journal_receipt g receipt s2) = (out, s')"
    using assms(1) by (simp only: refuse_red_def aborted restored Let_def prod.case)
  then show ?thesis by (rule refusal_ends [OF aborted disjI2 [OF restored]]) (simp_all add: unfinished_of_def assms(2))
qed

section \<open>The whole run\<close>

text \<open>The answers of a runner behind which a merge is committed.\<close>

definition lets_through :: "jsval \<Rightarrow> bool" where
  "lets_through tr \<longleftrightarrow> (case judge_run tr of Nothing_to_run _ \<Rightarrow> True | Ran passed _ \<Rightarrow> passed | _ \<Rightarrow> False)"

definition accepted :: "'r merge_options \<Rightarrow> bool" where
  "accepted g \<longleftrightarrow> (case mg_tests g of None \<Rightarrow> True
     | Some run \<Rightarrow> \<exists>args st tr. fst (run args st) = Some tr \<and> lets_through tr)"

text \<open>A commit is tried at most once, and only behind an answer that lets the merge through.\<close>

definition told_end :: "('r \<Rightarrow> bool) \<Rightarrow> 'r merge_options \<Rightarrow> 'r site \<Rightarrow> merge_outcome \<Rightarrow> 'r site \<Rightarrow> bool" where
  "told_end merging g s out s' \<longleftrightarrow> (\<exists>n. ends_with merging g n s out s' \<and> (n = 0 \<or> accepted g \<and> n = 1))"

lemma told_refusal: "ends_with merging g 0 s out s' \<Longrightarrow> told_end merging g s out s'"
  by (auto simp: told_end_def)

lemma told_commit: "ends_with merging g 1 s out s' \<Longrightarrow> accepted g \<Longrightarrow> told_end merging g s out s'"
  by (auto simp: told_end_def)

lemma told_from: "told_end merging g s1 out s' \<Longrightarrow> commits_in (calls s1) = commits_in (calls s) \<Longrightarrow> told_end merging g s out s'"
  by (auto simp: told_end_def ends_with_def)

lemma settle_run_told:
  assumes "settle_run g resolved tr s = (out, s')" and "minds_merge merging g \<Longrightarrow> in_merge merging s"
    and "lets_through tr \<Longrightarrow> accepted g"
  shows "told_end merging g s out s'"
proof (cases "judge_run tr")
  case Run_throws
  with assms(1) have "give_up g None True True s = (out, s')" by (simp add: settle_run_def)
  then have "ends_with merging g 0 s out s'" by (rule give_up_ends) (simp add: assms(2))
  then show ?thesis by (rule told_refusal)
next
  case (Window_unbuilt tail)
  with assms(1) have "refuse_window g tail (spa_build_of tr) s = (out, s')" by (simp add: settle_run_def)
  then show ?thesis using assms(2) by (intro told_refusal refuse_window_ends)
next
  case (Nothing_to_run words)
  with assms(1) have "commit_merge g None (case words of None \<Rightarrow> mg_say g Said_nothing_ran | Some n \<Rightarrow> n) (spa_build_of tr) resolved s
      = (out, s')" by (simp add: settle_run_def)
  then have "ends_with merging g 1 s out s'" by (rule commit_ends) (rule assms(2))
  then show ?thesis using assms(3) by (intro told_commit) (simp_all add: lets_through_def Nothing_to_run)
next
  case (Ran passed rep)
  show ?thesis
  proof (cases passed)
    case True
    with assms(1) Ran have "commit_merge g (Some True) [] (spa_build_of tr) resolved s = (out, s')" by (simp add: settle_run_def)
    then have "ends_with merging g 1 s out s'" by (rule commit_ends) (rule assms(2))
    then show ?thesis using assms(3) by (intro told_commit) (simp_all add: lets_through_def Ran True)
  next
    case False
    with assms(1) Ran have "refuse_red g rep (spa_build_of tr) s = (out, s')" by (simp add: settle_run_def)
    then show ?thesis using assms(2) by (intro told_refusal refuse_red_ends)
  qed
qed

lemma outside_answer: "outside f s = (a, s') \<Longrightarrow> a = fst (f (seen s))"
  by (auto simp: outside_def split: prod.splits)

lemma merged_tree_quiet:
  assumes "merged_tree_of g s = (v, s1)"
  shows "commits_in (calls s1) = commits_in (calls s)" and "minds_merge merging g \<Longrightarrow> in_merge merging s1 = in_merge merging s"
proof -
  obtain out where asked: "site_git g [''write-tree''] s = (out, s1)"
    using assms by (auto simp: merged_tree_of_def split: prod.splits option.splits)
  have "leaves_head [''write-tree'']" by (simp add: leaves_head_def)
  note quiet = site_git_quiet [OF asked this]
  show "commits_in (calls s1) = commits_in (calls s)" by (rule quiet(1))
  show "minds_merge merging g \<Longrightarrow> in_merge merging s1 = in_merge merging s" by (rule quiet(2))
qed

lemma judge_tree_told:
  assumes "judge_tree g resolved s = (out, s')" and "minds_merge merging g \<Longrightarrow> in_merge merging s"
  shows "told_end merging g s out s'"
proof (cases "mg_tests g \<noteq> None \<and> jget (fitness_of g s) ''fit'' = JBool False")
  case True
  with assms(1) have "refuse_env g (fitness_of g s) s = (out, s')" by (simp add: judge_tree_def)
  then show ?thesis using assms(2) by (intro told_refusal refuse_env_ends)
next
  case fit: False
  obtain tree s1 where tree: "merged_tree_of g s = (tree, s1)" by (meson surj_pair)
  have open1: "minds_merge merging g \<Longrightarrow> in_merge merging s1" using merged_tree_quiet(2) [OF tree, of merging] assms(2) by simp
  note same = merged_tree_quiet(1) [OF tree]
  show ?thesis
  proof (cases "mg_tests g")
    case None
    with assms(1) have "commit_merge g None (mg_say g No_runner) None resolved s1 = (out, s')"
      by (simp add: judge_tree_def tree)
    then have "ends_with merging g 1 s1 out s'" by (rule commit_ends) (rule open1)
    then have "told_end merging g s1 out s'" by (rule told_commit) (simp add: accepted_def None)
    then show ?thesis using same by (rule told_from)
  next
    case (Some run)
    define args where "args = JObj [(''branch'', mg_branch g), (''resultSha'', JNull), (''cwd'', JStr (mg_cwd g)), (''mergedTree'', tree)]"
    obtain tr s2 where ran: "outside (run args) s1 = (tr, s2)" by (meson surj_pair)
    have rest: "(case tr of None \<Rightarrow> give_up g None True True s2 | Some tr \<Rightarrow> settle_run g resolved tr s2) = (out, s')"
      using assms(1) fit by (cases tr) (simp_all add: judge_tree_def tree Some ran [unfolded args_def])
    have commits: "commits_in (calls s2) = commits_in (calls s)" using outside_calls [OF ran] same by simp
    have open2: "minds_merge merging g \<Longrightarrow> in_merge merging s2"
      using open1 outside_merge [OF ran, of merging] by (simp add: minds_merge_def Some)
    have "told_end merging g s2 out s'"
    proof (cases tr)
      case None
      with rest have "give_up g None True True s2 = (out, s')" by simp
      then have "ends_with merging g 0 s2 out s'" by (rule give_up_ends) (simp add: open2)
      then show ?thesis by (rule told_refusal)
    next
      case answer: (Some v)
      have "accepted g" if "lets_through v"
        using outside_answer [OF ran] that by (simp add: accepted_def Some answer) (metis surj_pair)
      moreover have "settle_run g resolved v s2 = (out, s')" using rest answer by simp
      ultimately show ?thesis using open2 by (intro settle_run_told)
    qed
    then show ?thesis using commits by (rule told_from)
  qed
qed

text \<open>The merge itself is the one call after which git stands in a merge or not; what is resolved
  afterwards leaves that as it is.\<close>

lemma bring_in_head:
  assumes "bring_in g s = (r, s1)"
  obtains out t where "git_call (mg_host g) (merge_args (mg_branch g)) (st_tree s) = (out, t)"
    "only_calls (mg_host g) (\<lambda>c. leaves_head (fst c)) t (st_tree s1)" "st_world s1 = st_world s" "\<forall>c. r = Inl c \<longrightarrow> out = None"
proof -
  obtain out t where first: "git_call (mg_host g) (merge_args (mg_branch g)) (st_tree s) = (out, t)" by (meson surj_pair)
  show thesis
  proof (cases out)
    case (Some x)
    then show thesis using assms first by (intro that [OF first]) (auto simp: bring_in_def site_git_def)
  next
    case None
    obtain fs t2 where files: "conflicted_files (mg_host g) t = (fs, t2)" by (meson surj_pair)
    have "only_calls (mg_host g) (\<lambda>c. leaves_head (fst c)) t (st_tree s1)"
    proof (cases "fs = None \<or> fs = Some []")
      case True
      then show ?thesis using assms first None files conflicted_quiet [OF files] by (auto simp: bring_in_def site_git_def)
    next
      case False
      then obtain fl where fl: "fs = Some fl" "fl \<noteq> []" by auto
      obtain rs t3 where run: "resolve_mechanical (mg_host g) (mg_rules g) Ours fl t2 = (rs, t3)" by (meson surj_pair)
      have "st_tree s1 = t3" using assms first None files fl run by (auto simp: bring_in_def site_git_def)
      then show ?thesis using conflicted_quiet [OF files] resolution_quiet [OF run] only_calls_trans by blast
    qed
    moreover have "st_world s1 = st_world s"
      using assms first None files by (auto simp: bring_in_def site_git_def split: prod.splits option.splits if_splits)
    ultimately show thesis using None by (intro that [OF first]) simp_all
  qed
qed

text \<open>Git refused the merge of the branch: the call did not answer and git stands in no merge.\<close>

definition merge_refused :: "('r \<Rightarrow> bool) \<Rightarrow> 'r merge_options \<Rightarrow> 'r site \<Rightarrow> bool" where
  "merge_refused merging g s \<longleftrightarrow>
     (case git_call (mg_host g) (merge_args (mg_branch g)) (st_tree s) of (out, t) \<Rightarrow> out = None \<and> \<not> merging (tr_host t))"

definition run_end :: "('r \<Rightarrow> bool) \<Rightarrow> 'r merge_options \<Rightarrow> 'r site \<Rightarrow> merge_outcome \<Rightarrow> 'r site \<Rightarrow> bool" where
  "run_end merging g s out s' \<longleftrightarrow> told_end merging g s out s' \<or>
     commits_in (calls s') = commits_in (calls s) \<and> (\<exists>c v. out = Failed c v True) \<and>
     (minds_merge merging g \<longrightarrow> \<not> in_merge merging s' \<and> merge_refused merging g s)"

lemma merge_claimed_end:
  assumes "merge_claimed g s = (out, s')"
  shows "run_end merging g s out s'"
proof -
  obtain r s1 where first: "bring_in g s = (r, s1)" by (meson surj_pair)
  obtain answer t where asked: "git_call (mg_host g) (merge_args (mg_branch g)) (st_tree s) = (answer, t)"
    and quiet: "only_calls (mg_host g) (\<lambda>c. leaves_head (fst c)) t (st_tree s1)" and "st_world s1 = st_world s"
    and refused: "\<forall>c. r = Inl c \<longrightarrow> answer = None"
    using bring_in_head [OF first] by blast
  have "commits_in (tr_calls t) = commits_in (calls s)"
    using asked by (auto simp: git_call_def call_names split: prod.splits)
  then have commits: "commits_in (calls s1) = commits_in (calls s)" using quiet_moves(1) [OF quiet] by simp
  have stands: "minds_merge merging g \<Longrightarrow> in_merge merging s1 = merging (tr_host t)"
    using quiet_moves(2) [OF quiet minds_git] by simp
  show ?thesis
  proof (cases r)
    case (Inl conflict)
    with assms first have gave: "give_up g conflict True True s1 = (out, s')" by (simp add: merge_claimed_def)
    obtain v u where out: "out = Failed conflict v u" using give_up_flag [OF gave] by blast
    have away: "merge_refused merging g s" if "minds_merge merging g" "\<not> in_merge merging s1"
      using that stands asked refused Inl by (simp add: merge_refused_def)
    show ?thesis
    proof (cases "u \<and> minds_merge merging g \<and> \<not> in_merge merging s1")
      case True
      then have "merge_refused merging g s" and "\<not> in_merge merging s'"
        using away give_up_trace(2) [OF gave, of merging] by blast+
      then show ?thesis using True give_up_trace(1) [OF gave] commits out by (simp add: run_end_def)
    next
      case False
      then have "ends_with merging g 0 s1 out s'"
        using give_up_trace(1) [OF gave] give_up_trace(2) [OF gave, of merging] unfolding out
        by (simp add: ends_with_def unfinished_of_def) blast
      then show ?thesis using told_from [OF told_refusal commits] by (simp add: run_end_def)
    qed
  next
    case (Inr resolved)
    obtain there s2 where head: "has_merge_head g s1 = (there, s2)" by (meson surj_pair)
    obtain out2 where head2: "site_git g head_args s1 = (out2, s2)" and there: "there = present_head out2"
      using head by (auto simp: has_merge_head_def present_head_def split: option.splits prod.splits)
    have "leaves_head head_args" by (simp add: call_names)
    note still = site_git_quiet [OF head2 this]
    have same: "commits_in (calls s2) = commits_in (calls s)" using still(1) commits by simp
    have in_it: "minds_merge merging g \<Longrightarrow> in_merge merging s2 = there"
    proof -
      assume minds: "minds_merge merging g"
      then have "present_head (fst (h_git (mg_host g) head_args (tr_host (st_tree s1)))) = in_merge merging s1"
        by (simp add: minds_merge_def follows_git_def)
      then show ?thesis using still(2) [OF minds] there by (simp add: site_git_host [OF head2])
    qed
    have "told_end merging g s2 out s'"
    proof (cases there)
      case True
      with assms first Inr head have "judge_tree g resolved s2 = (out, s')" by (simp add: merge_claimed_def)
      then show ?thesis by (rule judge_tree_told) (simp add: in_it True)
    next
      case False
      obtain receipt where left: "leave g (Up_to_date receipt) False (journal_receipt g receipt s2) = (out, s')"
        using assms first Inr head False by (simp add: merge_claimed_def Let_def)
      have "ends_with merging g 0 (journal_receipt g receipt s2) out s'"
        by (rule leave_ends [OF left]) (simp_all add: in_it False unfinished_of_def)
      then have "ends_with merging g 0 s2 out s'" by (simp add: ends_with_def)
      then show ?thesis by (rule told_refusal)
    qed
    from told_from [OF this same] show ?thesis by (simp add: run_end_def)
  qed
qed

lemma run_merge_end:
  assumes "run_merge g s = (out, s')" and "\<not> in_merge merging s"
  shows "run_end merging g s out s'"
proof (cases "\<not> is_str (mg_branch g) \<or> \<not> truthy (mg_branch g)")
  case True
  then have "ends_with merging g 0 s out s'" using assms by (simp add: run_merge_def ends_with_def unfinished_of_def)
  then show ?thesis by (simp add: told_refusal run_end_def)
next
  case False
  obtain a w where acq: "acquire_merge_claim (mg_sha g) (mg_clock g (seen s)) (mg_by g) (mg_session g) (mg_branch g) (st_world s) = (a, w)"
    by (meson surj_pair)
  show ?thesis
  proof (cases a)
    case Acquired
    with assms(1) False acq have "merge_claimed g (s\<lparr>st_world := w\<rparr>) = (out, s')" by (simp add: run_merge_def)
    from merge_claimed_end [OF this, of merging] show ?thesis
      by (simp add: run_end_def told_end_def ends_with_def merge_refused_def)
  next
    case (Denied holder)
    with assms False acq have "ends_with merging g 0 s out s'" by (auto simp: run_merge_def ends_with_def unfinished_of_def)
    then show ?thesis by (simp add: told_refusal run_end_def)
  next
    case Acquire_throws
    with assms(1) False acq have "give_up g None False False (s\<lparr>st_world := w\<rparr>) = (out, s')" by (simp add: run_merge_def)
    then have "ends_with merging g 0 (s\<lparr>st_world := w\<rparr>) out s'" by (rule give_up_ends) (simp add: assms(2))
    then have "ends_with merging g 0 s out s'" by (simp add: ends_with_def)
    then show ?thesis by (simp add: told_refusal run_end_def)
  qed
qed

section \<open>The merge slot along a run\<close>

abbreviation slot_claim :: "world \<Rightarrow> claim option" where
  "slot_claim w \<equiv> claim_of (w_claims w) merge_slot_name"

definition ours_or_free :: "'r merge_options \<Rightarrow> 'r site \<Rightarrow> bool" where
  "ours_or_free g s \<longleftrightarrow> (case slot_claim (st_world s) of None \<Rightarrow> True
     | Some c \<Rightarrow> truthy (cl_prov c) \<and> jget (cl_prov c) ''by'' = mg_by g)"

text \<open>The runner and the return of the window leave the slot as it is: nobody clears a foreign claim by force
  meanwhile.\<close>

definition leaves_slot :: "('r \<times> world \<Rightarrow> 'a \<times> 'r \<times> world) \<Rightarrow> bool" where
  "leaves_slot f \<longleftrightarrow> (\<forall>st. slot_claim (snd (snd (f st))) = slot_claim (snd st))"

definition slot_respected :: "'r merge_options \<Rightarrow> bool" where
  "slot_respected g \<longleftrightarrow> (case mg_tests g of None \<Rightarrow> True | Some run \<Rightarrow> \<forall>args. leaves_slot (run args)) \<and>
     (case mg_restore g of None \<Rightarrow> True | Some f \<Rightarrow> leaves_slot f)"

lemma site_git_world: "site_git g args s = (out, s') \<Longrightarrow> st_world s' = st_world s"
  by (auto simp: site_git_def split: prod.splits)

lemma outside_slot: "outside f s = (a, s') \<Longrightarrow> leaves_slot f \<Longrightarrow> slot_claim (st_world s') = slot_claim (st_world s)"
proof -
  assume out: "outside f s = (a, s')" and kept: "leaves_slot f"
  obtain r w where f: "f (seen s) = (a, r, w)" and s': "st_world s' = w"
    using out by (auto simp: outside_def split: prod.splits)
  from kept have "slot_claim (snd (snd (f (seen s)))) = slot_claim (snd (seen s))" unfolding leaves_slot_def by blast
  then show ?thesis using f s' by (simp add: seen_def)
qed

lemma journal_slot [simp]: "slot_claim (st_world (journal_receipt g receipt s)) = slot_claim (st_world s)"
  by (simp add: journal_receipt_def)

lemma restore_slot:
  assumes "put_window_back g s = (v, s')" and "slot_respected g"
  shows "slot_claim (st_world s') = slot_claim (st_world s)"
proof (cases "mg_restore g")
  case None
  then show ?thesis using assms(1) by (simp add: put_window_back_def)
next
  case (Some f)
  then have "leaves_slot f" using assms(2) by (simp add: slot_respected_def)
  then show ?thesis
    using assms(1) by (auto simp: put_window_back_def Some split: prod.splits option.splits dest: outside_slot)
qed

lemma abort_slot: "abort_merge g s = (u, s') \<Longrightarrow> st_world s' = st_world s"
  by (auto simp: abort_merge_def split: prod.splits dest: site_git_world)

lemma release_slot_frees:
  assumes "site_release g s = (b, s')" and "ours_or_free g s"
  shows "slot_claim (st_world s') = None"
proof -
  let ?w = "st_world s"
  obtain r d where rel: "release_slot (mg_clock g (seen s)) (mg_by g) False merge_slot_name (w_claims ?w) = (r, d)" by (meson surj_pair)
  have "claim_of d merge_slot_name = None"
  proof (cases "slot_claim ?w")
    case None
    then show ?thesis using release_slot_claim [OF rel, of merge_slot_name] by simp
  next
    case (Some c)
    then have "r = Released"
      using assms(2) release_slot_result [of "mg_clock g (seen s)" "mg_by g" False merge_slot_name "w_claims ?w"] rel
      by (simp add: ours_or_free_def provenance_claim [OF Some])
    then show ?thesis using release_slot_claim [OF rel, of merge_slot_name] by simp
  qed
  moreover have "w_claims (st_world s') = d"
    using assms(1) rel by (auto simp: site_release_def release_merge_claim_def split: prod.splits release_result.splits bool.splits
        dest: log_event_claims)
  ultimately show ?thesis by simp
qed

lemma give_up_slot:
  assumes "give_up g conflict in_tree True s = (out, s')" and "ours_or_free g s" and "slot_respected g"
  shows "slot_claim (st_world s') = None"
proof -
  obtain u s1 where first: "(if in_tree then abort_merge g s else (False, s)) = (u, s1)" by (meson surj_pair)
  obtain v s2 where second: "put_window_back g s1 = (v, s2)" by (meson surj_pair)
  have "st_world s1 = st_world s" using first abort_slot by (auto split: if_splits)
  then have "ours_or_free g s2" using assms(2) restore_slot [OF second assms(3)] by (simp add: ours_or_free_def)
  moreover have "s' = snd (site_release g s2)" using assms(1) by (simp add: give_up_def first second)
  ultimately show ?thesis using release_slot_frees [of g s2] by (metis prod.collapse)
qed

lemma leave_slot:
  assumes "leave g out0 in_tree s = (out, s')" and "ours_or_free g s" and "slot_respected g"
  shows "slot_claim (st_world s') = None"
proof (cases "site_release g s")
  case (Pair b s1)
  have free: "slot_claim (st_world s1) = None" by (rule release_slot_frees [OF Pair assms(2)])
  show ?thesis
  proof (cases b)
    case True
    then show ?thesis using assms(1) free by (simp add: leave_def Pair)
  next
    case False
    then have "give_up g None in_tree True s1 = (out, s')" using assms(1) by (simp add: leave_def Pair)
    then show ?thesis by (rule give_up_slot) (simp_all add: ours_or_free_def free assms(3))
  qed
qed

lemma ours_same: "slot_claim (st_world s') = slot_claim (st_world s) \<Longrightarrow> ours_or_free g s \<Longrightarrow> ours_or_free g s'"
  by (simp add: ours_or_free_def)

lemma commit_slot:
  assumes "commit_merge g passed words spa resolved s = (out, s')" and "ours_or_free g s" and "slot_respected g"
  shows "slot_claim (st_world s') = None"
proof (cases "site_git g commit_args s")
  case (Pair done_out s1)
  have here: "ours_or_free g s1" by (rule ours_same [OF _ assms(2)]) (simp add: site_git_world [OF Pair])
  show ?thesis
  proof (cases done_out)
    case None
    then have "give_up g None True True s1 = (out, s')" using assms(1) by (simp add: commit_merge_def Pair)
    then show ?thesis using here assms(3) by (rule give_up_slot)
  next
    case (Some x)
    obtain head s2 where head: "site_git g [''rev-parse'', ''HEAD''] s1 = (head, s2)" by (meson surj_pair)
    obtain receipt where "leave g (Merged passed receipt) False (journal_receipt g receipt s2) = (out, s')"
      using assms(1) by (auto simp: commit_merge_def Pair Some head Let_def)
    then show ?thesis
      by (rule leave_slot) (use here in \<open>auto intro: ours_same simp: site_git_world [OF head] assms(3)\<close>)
  qed
qed

lemma refusal_slot:
  assumes "abort_merge g s = (u, s1)" and "slot_claim (st_world s2) = slot_claim (st_world s1)"
    and "leave g out0 in_tree (journal_receipt g receipt s2) = (out, s')" and "ours_or_free g s" and "slot_respected g"
  shows "slot_claim (st_world s') = None"
  by (rule leave_slot [OF assms(3) _ assms(5)], rule ours_same [OF _ assms(4)])
    (simp add: assms(2) abort_slot [OF assms(1)])

lemma refuse_env_slot:
  assumes "refuse_env g fitness s = (out, s')" and "ours_or_free g s" and "slot_respected g"
  shows "slot_claim (st_world s') = None"
proof (cases "abort_merge g s")
  case (Pair u s1)
  obtain receipt where "leave g (Env_broken receipt u) u (journal_receipt g receipt s1) = (out, s')"
    using assms(1) by (simp only: refuse_env_def Pair Let_def prod.case)
  from refusal_slot [OF Pair refl this assms(2,3)] show ?thesis .
qed

lemma refuse_window_slot:
  assumes "refuse_window g tail spa s = (out, s')" and "ours_or_free g s" and "slot_respected g"
  shows "slot_claim (st_world s') = None"
proof (cases "abort_merge g s")
  case (Pair u s1)
  obtain v s2 where restored: "put_window_back g s1 = (v, s2)" by (meson surj_pair)
  obtain receipt where "leave g (Window_failed receipt u) u (journal_receipt g receipt s2) = (out, s')"
    using assms(1) by (simp only: refuse_window_def Pair restored Let_def prod.case)
  from refusal_slot [OF Pair restore_slot [OF restored assms(3)] this assms(2,3)] show ?thesis .
qed

lemma refuse_red_slot:
  assumes "refuse_red g rep spa s = (out, s')" and "ours_or_free g s" and "slot_respected g"
  shows "slot_claim (st_world s') = None"
proof (cases "abort_merge g s")
  case (Pair u s1)
  obtain v s2 where restored: "put_window_back g s1 = (v, s2)" by (meson surj_pair)
  obtain receipt where "leave g (Tests_red receipt u) u (journal_receipt g receipt s2) = (out, s')"
    using assms(1) by (simp only: refuse_red_def Pair restored Let_def prod.case)
  from refusal_slot [OF Pair restore_slot [OF restored assms(3)] this assms(2,3)] show ?thesis .
qed

lemma settle_run_slot:
  assumes "settle_run g resolved tr s = (out, s')" and "ours_or_free g s" and "slot_respected g"
  shows "slot_claim (st_world s') = None"
proof (cases "judge_run tr")
  case Run_throws
  with assms(1) have "give_up g None True True s = (out, s')" by (simp add: settle_run_def)
  then show ?thesis using assms(2,3) by (rule give_up_slot)
next
  case (Window_unbuilt tail)
  with assms(1) have "refuse_window g tail (spa_build_of tr) s = (out, s')" by (simp add: settle_run_def)
  then show ?thesis using assms(2,3) by (rule refuse_window_slot)
next
  case (Nothing_to_run words)
  with assms(1) have "commit_merge g None (case words of None \<Rightarrow> mg_say g Said_nothing_ran | Some n \<Rightarrow> n) (spa_build_of tr) resolved s
      = (out, s')" by (simp add: settle_run_def)
  then show ?thesis using assms(2,3) by (rule commit_slot)
next
  case (Ran passed rep)
  then have "(if passed then commit_merge g (Some True) [] (spa_build_of tr) resolved s else refuse_red g rep (spa_build_of tr) s) = (out, s')"
    using assms(1) by (simp add: settle_run_def)
  then show ?thesis using commit_slot [OF _ assms(2,3)] refuse_red_slot [OF _ assms(2,3)] by (metis (full_types))
qed

lemma judge_tree_slot:
  assumes "judge_tree g resolved s = (out, s')" and "ours_or_free g s" and "slot_respected g"
  shows "slot_claim (st_world s') = None"
proof (cases "mg_tests g \<noteq> None \<and> jget (fitness_of g s) ''fit'' = JBool False")
  case True
  with assms(1) have "refuse_env g (fitness_of g s) s = (out, s')" by (simp add: judge_tree_def)
  then show ?thesis using assms(2,3) by (rule refuse_env_slot)
next
  case fit: False
  obtain tree s1 where tree: "merged_tree_of g s = (tree, s1)" by (meson surj_pair)
  then have "st_world s1 = st_world s"
    by (auto simp: merged_tree_of_def split: prod.splits option.splits dest: site_git_world)
  then have here: "ours_or_free g s1" using assms(2) by (simp add: ours_or_free_def)
  show ?thesis
  proof (cases "mg_tests g")
    case None
    with assms(1) have "commit_merge g None (mg_say g No_runner) None resolved s1 = (out, s')"
      by (simp add: judge_tree_def tree)
    then show ?thesis using here assms(3) by (rule commit_slot)
  next
    case (Some run)
    define args where "args = JObj [(''branch'', mg_branch g), (''resultSha'', JNull), (''cwd'', JStr (mg_cwd g)), (''mergedTree'', tree)]"
    obtain tr s2 where ran: "outside (run args) s1 = (tr, s2)" by (meson surj_pair)
    have rest: "(case tr of None \<Rightarrow> give_up g None True True s2 | Some tr \<Rightarrow> settle_run g resolved tr s2) = (out, s')"
      using assms(1) fit by (cases tr) (simp_all add: judge_tree_def tree Some ran [unfolded args_def])
    have "leaves_slot (run args)" using assms(3) by (simp add: slot_respected_def Some)
    then have here2: "ours_or_free g s2" using ours_same [OF outside_slot [OF ran] here] by simp
    show ?thesis
    proof (cases tr)
      case None
      with rest have "give_up g None True True s2 = (out, s')" by simp
      then show ?thesis using here2 assms(3) by (rule give_up_slot)
    next
      case answer: (Some v)
      with rest have "settle_run g resolved v s2 = (out, s')" by simp
      then show ?thesis using here2 assms(3) by (rule settle_run_slot)
    qed
  qed
qed

lemma merge_claimed_slot:
  assumes "merge_claimed g s = (out, s')" and "ours_or_free g s" and "slot_respected g"
  shows "slot_claim (st_world s') = None"
proof -
  obtain r s1 where first: "bring_in g s = (r, s1)" by (meson surj_pair)
  then have "st_world s1 = st_world s"
    by (auto simp: bring_in_def split: prod.splits option.splits if_splits dest: site_git_world)
  then have here: "ours_or_free g s1" using assms(2) by (simp add: ours_or_free_def)
  show ?thesis
  proof (cases r)
    case (Inl conflict)
    with assms(1) first have "give_up g conflict True True s1 = (out, s')" by (simp add: merge_claimed_def)
    then show ?thesis using here assms(3) by (rule give_up_slot)
  next
    case (Inr resolved)
    obtain present s2 where head: "has_merge_head g s1 = (present, s2)" by (meson surj_pair)
    then have "st_world s2 = st_world s1"
      by (auto simp: has_merge_head_def split: option.splits prod.splits dest: site_git_world)
    then have here2: "ours_or_free g s2" using here by (simp add: ours_or_free_def)
    show ?thesis
    proof (cases present)
      case True
      with assms(1) first Inr head have "judge_tree g resolved s2 = (out, s')" by (simp add: merge_claimed_def)
      then show ?thesis using here2 assms(3) by (rule judge_tree_slot)
    next
      case False
      obtain receipt where "leave g (Up_to_date receipt) False (journal_receipt g receipt s2) = (out, s')"
        using assms(1) first Inr head False by (simp add: merge_claimed_def Let_def)
      then show ?thesis by (rule leave_slot) (auto intro: ours_same [OF _ here2] assms(3))
    qed
  qed
qed

lemma acquired_ours:
  assumes "acquire_merge_claim sha ck by_v session branch w = (a, w')" and "a = Acquired \<or> a = Acquire_throws"
  shows "\<exists>c. slot_claim w' = Some c \<and> truthy (cl_prov c) \<and> jget (cl_prov c) ''by'' = by_v"
proof -
  define p where "p = JObj [(''by'', by_v), (''session'', coalesce session JNull), (''expectedPrev'', JNull),
      (''reason'', JStr (if truthy branch then ''merge-in-progress:'' @ to_str branch else ''merge-in-progress''))]"
  obtain d where won: "claim_slot ck merge_slot_name p (w_claims w) = (Won, d)" and d: "w_claims w' = d"
    using assms
    by (auto simp: acquire_merge_claim_def p_def split: prod.splits claim_result.splits bool.splits dest: log_event_claims)
  moreover have "jget p ''by'' = by_v" by (simp add: p_def own_get_def proto_names_def)
  ultimately show ?thesis by (auto simp: claim_slot_won claim_of_def stamp_reads)
qed

section \<open>The properties of a run\<close>

text \<open>C9: no merge is left open in silence (\<open>runMerge\<close>). Git answers for the merge as documented and the rest of the
  host leaves it alone (\<open>minds_merge\<close>); the run starts outside a merge. Then, whatever git, the tests, the return
  of the window and the journal answer, a run after which git still stands in a merge says so; and a run that
  says so is right, but for one case: git had refused the merge of the branch outright, so that there was
  nothing to abort.\<close>

theorem open_merge_is_reported:
  assumes "run_merge g s = (out, s')" and "minds_merge merging g" and "\<not> merging (tr_host (st_tree s))"
  shows "(merging (tr_host (st_tree s')) \<longrightarrow> unfinished_of out) \<and>
    (unfinished_of out \<longrightarrow> merging (tr_host (st_tree s')) \<or>
       (\<exists>c v t. out = Failed c v True \<and> git_call (mg_host g) (merge_args (mg_branch g)) (st_tree s) = (None, t) \<and>
          \<not> merging (tr_host t)))"
  using run_merge_end [OF assms(1), of merging] assms(2,3)
  by (auto simp: run_end_def told_end_def ends_with_def merge_refused_def split: prod.splits)

text \<open>C8: nothing enters history behind a refused run (\<open>runMerge\<close>): with a test runner none of whose answers lets a
  merge through (red tests, a window that was not built, an answer that cannot be read, or a throw), the
  run never calls \<open>git commit\<close>, whatever else happens.\<close>

theorem red_run_commits_nothing:
  assumes "run_merge g s = (out, s')" and "mg_tests g = Some run"
    and "\<And>args st tr. fst (run args st) = Some tr \<Longrightarrow> \<not> lets_through tr"
  shows "commits_in (tr_calls (st_tree s')) = commits_in (tr_calls (st_tree s))"
  using run_merge_end [OF assms(1), of "\<lambda>_. False"] assms(2,3) by (auto simp: run_end_def told_end_def ends_with_def accepted_def)

text \<open>C21: the merge slot is free again after a run that took it (\<open>runMerge\<close>, \<open>releaseMergeClaim\<close>). If the journal
  accepted the line of the acquisition, and the tests and the return of the window leave the slot as it is (nobody
  clears it by force meanwhile), then it is free at the end on every path, error paths and a journal that throws at
  the release included. A run whose acquisition could not be journalled is the exception:
  \<open>unjournalled_slot_stays_taken\<close>.\<close>

theorem slot_free_after_run:
  assumes "run_merge g s = (out, s')" and "slot_respected g"
    and "acquire_merge_claim (mg_sha g) (mg_clock g (seen s)) (mg_by g) (mg_session g) (mg_branch g) (st_world s) = (Acquired, w)"
    and "mg_branch g = JStr b" and "b \<noteq> []"
  shows "claim_of (w_claims (st_world s')) merge_slot_name = None"
proof -
  have "merge_claimed g (s\<lparr>st_world := w\<rparr>) = (out, s')"
    using assms(1,3-5) by (simp add: run_merge_def)
  moreover have "ours_or_free g (s\<lparr>st_world := w\<rparr>)"
    using acquired_ours [OF assms(3)] by (auto simp: ours_or_free_def)
  ultimately show ?thesis using assms(2) by (rule merge_claimed_slot)
qed

text \<open>The acquisition of the slot leaks it when its own journal line throws (\<open>acquireMergeClaim\<close>, \<open>runMerge\<close>): the claim
  directory is already made, the run does not count it as claimed, so its \<open>catch\<close> block does not release
  it; the run fails without a merge, and the slot stays taken in the name of this terminal.\<close>

theorem unjournalled_slot_stays_taken:
  assumes "run_merge g s = (out, s')" and "slot_respected g" and "mg_branch g = JStr b" and "b \<noteq> []"
    and "acquire_merge_claim (mg_sha g) (mg_clock g (seen s)) (mg_by g) (mg_session g) (mg_branch g) (st_world s) = (Acquire_throws, w)"
  shows "\<exists>restored c. out = Failed None restored False \<and> calls s' = calls s \<and>
    claim_of (w_claims (st_world s')) merge_slot_name = Some c \<and> jget (cl_prov c) ''by'' = mg_by g"
proof -
  have failed: "give_up g None False False (s\<lparr>st_world := w\<rparr>) = (out, s')"
    using assms(1,3-5) by (simp add: run_merge_def)
  obtain v s2 where restored: "put_window_back g (s\<lparr>st_world := w\<rparr>) = (v, s2)" by (meson surj_pair)
  have "out = Failed None v False" "s' = s2" using failed by (simp_all add: give_up_def restored)
  then show ?thesis
    using acquired_ours [OF assms(5)] restore_slot [OF restored assms(2)] restore_calls [OF restored] by auto
qed

end
