(* ===== verification/Merge_Samples.thy ===== *)
theory Merge_Samples
  imports Merge_Laws
begin

text \<open>
  Witnesses of \<open>Merge_Laws\<close>: runs whose tests are red and whose abort throws, and a run whose journal
  cannot be continued (its last line is the JSON text \<open>null\<close>).
\<close>

definition still_clock :: clock where
  "still_clock = \<lparr>ck_now = 1, ck_iso = (\<lambda>_. ''t''), ck_parse = (\<lambda>_. NaN), ck_pid = 1\<rparr>"

text \<open>Git answers every call but the abort.\<close>

definition stuck_host :: "unit host" where
  "stuck_host = \<lparr>h_git = (\<lambda>args r. (if args = abort_args then None else Some ''a'', r)), h_run = (\<lambda>cmd r. (True, r)),
     h_read = (\<lambda>f r. None), h_write = (\<lambda>f s r. (True, r))\<rparr>"

definition red_runner :: "jsval \<Rightarrow> unit \<times> world \<Rightarrow> jsval option \<times> unit \<times> world" where
  "red_runner args st = (Some (JObj [(''passed'', JBool False)]), st)"

definition sample_options :: "unit merge_options" where
  "sample_options = \<lparr>mg_branch = JStr ''b'', mg_by = JStr ''t'', mg_session = JNull, mg_cwd = ''/'',
     mg_rules = mechanical_defaults, mg_host = stuck_host, mg_tests = Some red_runner, mg_check = (\<lambda>_. None),
     mg_restore = None, mg_clock = (\<lambda>_. still_clock), mg_sha = (\<lambda>_. ''h''), mg_say = (\<lambda>_. ''w'')\<rparr>"

definition sample_site :: "journal_dir \<Rightarrow> unit site" where
  "sample_site j = \<lparr>st_tree = \<lparr>tr_host = (), tr_calls = []\<rparr>, st_world = \<lparr>w_claims = None, w_journal = j\<rparr>\<rparr>"

definition red_run :: "merge_outcome \<times> unit site" where "red_run = run_merge sample_options (sample_site None)"

lemma red_run_pair: "run_merge sample_options (sample_site None) = (fst red_run, snd red_run)"
  by (simp add: red_run_def)

lemma red_runner_keeps: "leaves_slot (red_runner args)"
  by (simp add: leaves_slot_def red_runner_def)

lemma sample_respected: "slot_respected sample_options"
  by (simp add: slot_respected_def sample_options_def red_runner_keeps)

lemma red_answer: "\<not> lets_through (JObj [(''passed'', JBool False)])"
  by code_simp

lemma runner_answers: "fst (red_runner args st) = Some tr \<Longrightarrow> \<not> lets_through tr"
  using red_answer by (auto simp: red_runner_def)

definition sample_acquire :: "journal_dir \<Rightarrow> acquire_result \<times> world" where
  "sample_acquire j = acquire_merge_claim (\<lambda>_. ''h'') still_clock (JStr ''t'') JNull (JStr ''b'') \<lparr>w_claims = None, w_journal = j\<rparr>"

lemma acquire_result_none: "fst (sample_acquire None) = Acquired"
  by code_simp

lemma acquire_result_null: "fst (sample_acquire (Some [(''t.jsonl'', ''null'' @ [newline])])) = Acquire_throws"
  by code_simp

lemma sample_acquire_run:
  "acquire_merge_claim (mg_sha sample_options) (mg_clock sample_options (seen (sample_site j))) (mg_by sample_options)
     (mg_session sample_options) (mg_branch sample_options) (st_world (sample_site j)) = sample_acquire j"
  by (simp add: sample_options_def sample_site_def sample_acquire_def)

lemma sample_acquired: "sample_acquire None = (Acquired, snd (sample_acquire None))"
  using acquire_result_none by (metis prod.collapse)

definition null_journal :: journal_dir where
  "null_journal = Some [(''t.jsonl'', ''null'' @ [newline])]"

definition stuck_run :: "merge_outcome \<times> unit site" where "stuck_run = run_merge sample_options (sample_site null_journal)"

lemma stuck_run_pair: "run_merge sample_options (sample_site null_journal) = (fst stuck_run, snd stuck_run)"
  by (simp add: stuck_run_def)

lemma sample_throws: "sample_acquire null_journal = (Acquire_throws, snd (sample_acquire null_journal))"
  using acquire_result_null by (metis null_journal_def prod.collapse)

lemma sample_branch: "mg_branch sample_options = JStr ''b''"
  by (simp add: sample_options_def)

text \<open>A copy whose state says whether git stands in a merge: the merge opens one, the abort never answers, and
  git names \<open>MERGE_HEAD\<close> as long as there is one. The tests throw, and the merge stays.\<close>

definition open_git :: "string list \<Rightarrow> bool \<Rightarrow> string option \<times> bool" where
  "open_git args r =
     (if take 1 args = [''merge''] then (if args = abort_args then (None, r) else (Some ''a'', True))
      else if is_commit args then (Some ''a'', False)
      else if args = head_args then (if r then Some ''a'' else None, r)
      else (Some ''a'', r))"

definition open_host :: "bool host" where
  "open_host = \<lparr>h_git = open_git, h_run = (\<lambda>cmd r. (True, r)), h_read = (\<lambda>f r. None), h_write = (\<lambda>f s r. (True, r))\<rparr>"

definition throwing_tests :: "jsval \<Rightarrow> bool \<times> world \<Rightarrow> jsval option \<times> bool \<times> world" where
  "throwing_tests args st = (None, st)"

definition open_options :: "bool merge_options" where
  "open_options = \<lparr>mg_branch = JStr ''b'', mg_by = JStr ''t'', mg_session = JNull, mg_cwd = ''/'',
     mg_rules = mechanical_defaults, mg_host = open_host, mg_tests = Some throwing_tests, mg_check = (\<lambda>_. None),
     mg_restore = None, mg_clock = (\<lambda>_. still_clock), mg_sha = (\<lambda>_. ''h''), mg_say = (\<lambda>_. ''w'')\<rparr>"

definition open_site :: "bool site" where
  "open_site = \<lparr>st_tree = \<lparr>tr_host = False, tr_calls = []\<rparr>, st_world = \<lparr>w_claims = None, w_journal = None\<rparr>\<rparr>"

definition open_run :: "merge_outcome \<times> bool site" where "open_run = run_merge open_options open_site"

lemma open_follows: "follows_git id open_host"
  using quiet_not_merge quiet_not_commit
  by (auto simp: follows_git_def open_host_def open_git_def present_head_def call_names js_trim_def js_ws_def code_of_def)

lemma open_minds: "minds_merge id open_options"
  by (simp add: minds_merge_def open_options_def open_follows leaves_merge_def throwing_tests_def)

lemma open_asks:
  obtains s2 where "site_git open_options args s = (fst (open_git args (tr_host (st_tree s))), s2)"
    "tr_host (st_tree s2) = snd (open_git args (tr_host (st_tree s)))"
  by (cases "open_git args (tr_host (st_tree s))") (simp add: site_git_def git_call_def open_options_def open_host_def)

lemma open_gives_up: "tr_host (st_tree s) \<Longrightarrow> tr_host (st_tree (snd (give_up open_options None True True s)))"
proof -
  assume here: "tr_host (st_tree s)"
  obtain s2 where "site_git open_options abort_args s = (None, s2)" "tr_host (st_tree s2)"
    using open_asks [of abort_args s] here by (auto simp: open_git_def abort_args_def)
  moreover have "put_window_back open_options s2 = (None, s2)" by (simp add: put_window_back_def open_options_def)
  moreover have "st_tree (snd (site_release open_options s2)) = st_tree s2" by (metis prod.collapse release_tree)
  ultimately show ?thesis by (simp add: give_up_def abort_merge_def)
qed

lemma open_result: "tr_host (st_tree (snd open_run))"
proof -
  obtain w where w: "acquire_merge_claim (\<lambda>_. ''h'') still_clock (JStr ''t'') JNull (JStr ''b'') \<lparr>w_claims = None, w_journal = None\<rparr> = (Acquired, w)"
    using sample_acquired by (auto simp: sample_acquire_def)
  define s1 where "s1 = open_site\<lparr>st_world := w\<rparr>"
  have run: "open_run = merge_claimed open_options s1"
    by (simp add: open_run_def run_merge_def open_options_def open_site_def s1_def seen_def w)
  obtain s2 where "site_git open_options (merge_args (JStr ''b'')) s1 = (Some ''a'', s2)" and host2: "tr_host (st_tree s2)"
    using open_asks [of "merge_args (JStr ''b'')" s1] by (auto simp: open_git_def merge_args_def abort_args_def)
  then have brought: "bring_in open_options s1 = (Inr [], s2)" by (simp add: bring_in_def) (simp add: open_options_def)
  obtain s3 where "site_git open_options head_args s2 = (Some ''a'', s3)" and host3: "tr_host (st_tree s3)"
    using open_asks [of head_args s2] host2 by (auto simp: open_git_def call_names)
  then have head: "has_merge_head open_options s2 = (True, s3)" by (simp add: has_merge_head_def js_trim_def js_ws_def code_of_def)
  obtain s4 where "site_git open_options [''write-tree''] s3 = (Some ''a'', s4)" and host4: "tr_host (st_tree s4)"
    using open_asks [of "[''write-tree'']" s3] host3 by (auto simp: open_git_def call_names)
  then obtain tree where "merged_tree_of open_options s3 = (tree, s4)" by (simp add: merged_tree_of_def)
  moreover have "outside (throwing_tests args) s4 = (None, s4)" for args
    by (simp add: outside_def throwing_tests_def seen_def)
  moreover have "mg_tests open_options = Some throwing_tests" "fitness_of open_options s3 = JObj [(''fit'', JBool True), (''reason'', JNull), (''broken'', JArr [])]"
    by (simp_all add: open_options_def fitness_of_def)
  ultimately have "judge_tree open_options [] s3 = give_up open_options None True True s4"
    by (simp add: judge_tree_def own_get_def)
  then show ?thesis using open_gives_up [OF host4] by (simp add: run merge_claimed_def brought head)
qed

theorem open_merge_is_reported_witness:
  "unfinished_of (fst open_run) \<and> tr_host (st_tree (snd open_run))"
proof -
  have run: "run_merge open_options open_site = (fst open_run, snd open_run)" by (simp add: open_run_def)
  show ?thesis using open_result open_merge_is_reported [OF run open_minds] by (simp add: open_site_def)
qed

theorem red_run_commits_nothing_witness: "commits_in (calls (snd red_run)) = 0"
proof -
  have "mg_tests sample_options = Some red_runner" by (simp add: sample_options_def)
  from red_run_commits_nothing [OF red_run_pair this runner_answers]
  show ?thesis by (simp add: sample_site_def commits_in_def)
qed

theorem slot_free_after_run_witness: "claim_of (w_claims (st_world (snd red_run))) ''merge-in-progress'' = None"
  using slot_free_after_run [OF red_run_pair sample_respected trans [OF sample_acquire_run sample_acquired] sample_branch]
  by (simp add: merge_slot_name_def)

theorem unjournalled_slot_stays_taken_witness:
  "\<exists>restored c. fst stuck_run = Failed None restored False \<and> calls (snd stuck_run) = [] \<and>
     claim_of (w_claims (st_world (snd stuck_run))) ''merge-in-progress'' = Some c \<and> jget (cl_prov c) ''by'' = JStr ''t''"
  using unjournalled_slot_stays_taken [OF stuck_run_pair sample_respected sample_branch _
      trans [OF sample_acquire_run sample_throws]]
  by (simp add: merge_slot_name_def sample_site_def sample_options_def)

end
