(* ===== verification/Trunk_Sync.thy ===== *)
theory Trunk_Sync
  imports Merge_Laws
begin

text \<open>
  The synchronisation of a branch with the trunk in the worker's own copy (\<open>behindBy\<close>, \<open>syncWithTrunk\<close> and
  \<open>abortSync\<close> of \<open>src/scripts/sma/lib/branch-sync.mjs\<close>), over the working copy of \<open>Mechanical\<close>. A call without a
  copy is the result \<open>No_copy\<close> of its caller and left out, as are the sentences; \<open>words\<close> is the message of
  the commit.
\<close>

section \<open>How far behind\<close>

text \<open>\<open>Number.parseInt(text, 10)\<close>.\<close>

definition parse_int10 :: "string \<Rightarrow> int option" where
  "parse_int10 s =
     (let t = dropWhile js_ws s; neg = str_prefix ''-'' t;
          ds = takeWhile is_digit (if neg \<or> str_prefix ''+'' t then tl t else t)
      in if ds = [] then None else Some (if neg then - int (digits_val ds) else int (digits_val ds)))"

definition behind_by :: "'r host \<Rightarrow> string \<Rightarrow> 'r tree \<Rightarrow> int option \<times> 'r tree" where
  "behind_by h trunk t =
     (case git_call h [''rev-list'', ''--count'', ''HEAD..'' @ trunk] t of
        (None, t') \<Rightarrow> (None, t')
      | (Some out, t') \<Rightarrow> (parse_int10 (js_trim out), t'))"

section \<open>The synchronisation\<close>

record sync_conflict =
  sc_files :: "string list"
  sc_remaining :: "string list"
  sc_resolved :: "(string \<times> how) list"

datatype sync_result =
    No_trunk
  | Already_current "int option"
  | Kept "int option" sync_conflict
  | In_conflict "int option" sync_conflict bool
  | Synced "int option" "(string \<times> how) list" "string option"
  | Sync_failed bool

definition tree_abort :: "'r host \<Rightarrow> 'r tree \<Rightarrow> bool \<times> 'r tree" where
  "tree_abort h t = (case git_call h abort_args t of (out, t') \<Rightarrow> (out = None, t'))"

definition trunk_merge_args :: "string \<Rightarrow> string list" where
  "trunk_merge_args trunk = [''merge'', ''--no-ff'', ''--no-commit'', trunk]"

text \<open>The trunk into the copy: the conflict that is left, or what was resolved mechanically.\<close>

definition merge_trunk :: "'r host \<Rightarrow> merge_rules \<Rightarrow> string \<Rightarrow> 'r tree \<Rightarrow> (sync_conflict + (string \<times> how) list) \<times> 'r tree" where
  "merge_trunk h rules trunk t =
     (case git_call h (trunk_merge_args trunk) t of
        (Some _, t1) \<Rightarrow> (Inr [], t1)
      | (None, t1) \<Rightarrow>
          (case conflicted_files h t1 of
             (found, t2) \<Rightarrow>
               (case found of
                  Some (f # fs) \<Rightarrow>
                    (case resolve_mechanical h rules Theirs (f # fs) t2 of
                       (rs, t3) \<Rightarrow>
                         (if rs_remaining rs = [] then Inr (rs_resolved rs)
                          else Inl \<lparr>sc_files = f # fs, sc_remaining = rs_remaining rs, sc_resolved = rs_resolved rs\<rparr>, t3))
                | _ \<Rightarrow> (Inl \<lparr>sc_files = [], sc_remaining = [], sc_resolved = []\<rparr>, t2))))"

definition commit_trunk :: "'r host \<Rightarrow> string \<Rightarrow> int option \<Rightarrow> (string \<times> how) list \<Rightarrow> 'r tree \<Rightarrow> sync_result \<times> 'r tree" where
  "commit_trunk h words behind resolved t =
     (case git_call h [''commit'', ''-m'', words] t of
        (None, t1) \<Rightarrow> (case tree_abort h t1 of (unfinished, t2) \<Rightarrow> (Sync_failed unfinished, t2))
      | (Some _, t1) \<Rightarrow>
          (case git_call h [''rev-parse'', ''HEAD''] t1 of
             (out, t2) \<Rightarrow>
               (Synced behind resolved
                  (case out of None \<Rightarrow> None | Some sha \<Rightarrow> if js_trim sha = [] then None else Some (js_trim sha)), t2)))"

definition sync_with_trunk :: "'r host \<Rightarrow> merge_rules \<Rightarrow> string \<Rightarrow> string \<Rightarrow> bool \<Rightarrow> 'r tree \<Rightarrow> sync_result \<times> 'r tree" where
  "sync_with_trunk h rules trunk words keep t =
     (case git_call h [''rev-parse'', ''-q'', ''--verify'', trunk @ ''^{commit}''] t of
        (None, t0) \<Rightarrow> (No_trunk, t0)
      | (Some _, t0) \<Rightarrow>
          (case behind_by h trunk t0 of
             (behind, t1) \<Rightarrow>
               if behind = Some 0 then (Already_current behind, t1)
               else case merge_trunk h rules trunk t1 of
                      (Inl c, t2) \<Rightarrow>
                        if keep \<and> sc_files c \<noteq> [] then (Kept behind c, t2)
                        else (case tree_abort h t2 of (unfinished, t3) \<Rightarrow> (In_conflict behind c unfinished, t3))
                    | (Inr resolved, t2) \<Rightarrow>
                        (case git_call h head_args t2 of
                           (head, t3) \<Rightarrow>
                             if (case head of None \<Rightarrow> True | Some out \<Rightarrow> js_trim out = []) then (Already_current behind, t3)
                             else commit_trunk h words behind resolved t3)))"

datatype abort_result = No_merge | Aborted | Abort_failed

definition abort_sync :: "'r host \<Rightarrow> 'r tree \<Rightarrow> abort_result \<times> 'r tree" where
  "abort_sync h t =
     (case git_call h head_args t of
        (None, t1) \<Rightarrow> (No_merge, t1)
      | (Some _, t1) \<Rightarrow> (case tree_abort h t1 of (unfinished, t2) \<Rightarrow> (if unfinished then Abort_failed else Aborted, t2)))"

section \<open>What is left in the copy\<close>

lemma git_calls: "git_call h args t = (out, t') \<Longrightarrow> tr_calls t' = tr_calls t @ [(args, out)]"
  by (auto simp: git_call_def split: prod.splits)

lemma git_host: "git_call h args t = (out, t') \<Longrightarrow> h_git h args (tr_host t) = (out, tr_host t')"
  by (auto simp: git_call_def split: prod.splits)

lemma git_quiet: "git_call h args t = (out, t') \<Longrightarrow> leaves_head args \<Longrightarrow> only_calls h (\<lambda>c. leaves_head (fst c)) t t'"
  by (rule git_only) simp_all

lemma git_ends:
  assumes "git_call h args t = (out, t')" and "args = abort_args \<or> is_commit args"
  shows "commits_in (tr_calls t') = commits_in (tr_calls t) + of_bool (is_commit args)"
    and "follows_git merging h \<Longrightarrow> merging (tr_host t') = (merging (tr_host t) \<and> out = None)"
  using git_calls [OF assms(1)] git_host [OF assms(1)] assms(2)
  by (simp, simp add: follows_git_def) (metis fst_conv snd_conv)

lemma tree_abort_trace:
  assumes "tree_abort h t = (unfinished, t')"
  shows "commits_in (tr_calls t') = commits_in (tr_calls t)"
    and "follows_git merging h \<Longrightarrow> merging (tr_host t') \<longleftrightarrow> merging (tr_host t) \<and> unfinished"
proof -
  obtain out where asked: "git_call h abort_args t = (out, t')" and u: "unfinished = (out = None)"
    using assms by (auto simp: tree_abort_def split: prod.splits)
  show "commits_in (tr_calls t') = commits_in (tr_calls t)" using git_ends(1) [OF asked] by (simp add: call_names)
  show "follows_git merging h \<Longrightarrow> merging (tr_host t') \<longleftrightarrow> merging (tr_host t) \<and> unfinished"
    using git_ends(2) [OF asked, of merging] u by simp
qed

text \<open>After the merge call only calls that leave the merge alone.\<close>

lemma merge_trunk_head:
  assumes "merge_trunk h rules trunk t = (r, t')"
  obtains out t1 where "git_call h (trunk_merge_args trunk) t = (out, t1)" "only_calls h (\<lambda>c. leaves_head (fst c)) t1 t'"
    "commits_in (tr_calls t') = commits_in (tr_calls t)" "\<forall>c. r = Inl c \<longrightarrow> out = None"
proof -
  obtain out t1 where first: "git_call h (trunk_merge_args trunk) t = (out, t1)" by (meson surj_pair)
  have quiet: "only_calls h (\<lambda>c. leaves_head (fst c)) t1 t'"
  proof (cases out)
    case None
    obtain found t2 where files: "conflicted_files h t1 = (found, t2)" by (meson surj_pair)
    show ?thesis
    proof (cases "\<exists>f fs. found = Some (f # fs)")
      case True
      then obtain f fs where found: "found = Some (f # fs)" by blast
      obtain rs t3 where run: "resolve_mechanical h rules Theirs (f # fs) t2 = (rs, t3)" by (meson surj_pair)
      have "t' = t3" using assms by (simp add: merge_trunk_def first None files found run)
      then show ?thesis using conflicted_quiet [OF files] resolution_quiet [OF run] only_calls_trans by blast
    next
      case False
      then have "t' = t2"
        using assms by (auto simp: merge_trunk_def first None files split: option.splits list.splits)
      then show ?thesis using conflicted_quiet [OF files] by simp
    qed
  next
    case (Some x)
    then show ?thesis using assms first by (simp add: merge_trunk_def)
  qed
  have "commits_in (tr_calls t1) = commits_in (tr_calls t)"
    by (simp add: git_calls [OF first] trunk_merge_args_def is_commit_def)
  moreover have "\<forall>c. r = Inl c \<longrightarrow> out = None" using assms first by (cases out) (auto simp: merge_trunk_def)
  ultimately show thesis using quiet_moves(1) [OF quiet] by (intro that [OF first quiet]) simp_all
qed

definition left_by :: "sync_result \<Rightarrow> bool" where
  "left_by r = (case r of Kept _ _ \<Rightarrow> True | In_conflict _ _ u \<Rightarrow> u | Sync_failed u \<Rightarrow> u | _ \<Rightarrow> False)"

definition tried_commit :: "sync_result \<Rightarrow> bool" where
  "tried_commit r = (case r of Synced _ _ _ \<Rightarrow> True | Sync_failed _ \<Rightarrow> True | _ \<Rightarrow> False)"

lemma commit_trunk_trace:
  assumes "commit_trunk h words behind resolved t = (r, t')"
  shows "commits_in (tr_calls t') = Suc (commits_in (tr_calls t)) \<and> tried_commit r"
    and "follows_git merging h \<Longrightarrow> merging (tr_host t) \<Longrightarrow> merging (tr_host t') = left_by r"
proof -
  obtain out t1 where first: "git_call h [''commit'', ''-m'', words] t = (out, t1)" by (meson surj_pair)
  have commit: "is_commit [''commit'', ''-m'', words]" by (simp add: is_commit_def)
  note step = git_ends [OF first disjI2 [OF commit]]
  have both: "(commits_in (tr_calls t') = commits_in (tr_calls t1) \<and> tried_commit r) \<and>
      (follows_git merging h \<longrightarrow> merging (tr_host t1) = (out = None) \<longrightarrow> merging (tr_host t') = left_by r)" for merging
  proof (cases out)
    case None
    obtain u t2 where second: "tree_abort h t1 = (u, t2)" by (meson surj_pair)
    have "r = Sync_failed u" "t' = t2" using assms by (simp_all add: commit_trunk_def first None second)
    then show ?thesis
      using tree_abort_trace(1) [OF second] tree_abort_trace(2) [OF second, of merging] None by (simp add: left_by_def tried_commit_def)
  next
    case (Some x)
    obtain head t2 where second: "git_call h [''rev-parse'', ''HEAD''] t1 = (head, t2)" by (meson surj_pair)
    have "only_calls h (\<lambda>c. leaves_head (fst c)) t1 t2" by (rule git_quiet [OF second]) (simp add: leaves_head_def)
    note quiet = quiet_moves [OF this]
    have "left_by r = False" "tried_commit r" "t' = t2"
      using assms by (auto simp: commit_trunk_def first Some second left_by_def tried_commit_def)
    then show ?thesis using quiet(1) quiet(2) [of merging] Some by simp
  qed
  then show "commits_in (tr_calls t') = Suc (commits_in (tr_calls t)) \<and> tried_commit r" using step(1) commit by simp
  show "follows_git merging h \<Longrightarrow> merging (tr_host t) \<Longrightarrow> merging (tr_host t') = left_by r"
    using step(2) [of merging] both [of merging] by simp
qed

text \<open>Everything before the merge leaves the copy outside a merge.\<close>

lemma ask_quiet:
  assumes "git_call h [''rev-parse'', ''-q'', ''--verify'', trunk @ ''^{commit}''] t = (v, t0)" and "behind_by h trunk t0 = (behind, t1)"
  shows "only_calls h (\<lambda>c. leaves_head (fst c)) t t0" "only_calls h (\<lambda>c. leaves_head (fst c)) t t1"
proof -
  show first: "only_calls h (\<lambda>c. leaves_head (fst c)) t t0" by (rule git_quiet [OF assms(1)]) (simp add: leaves_head_def)
  obtain out where "git_call h [''rev-list'', ''--count'', ''HEAD..'' @ trunk] t0 = (out, t1)"
    using assms(2) by (auto simp: behind_by_def split: prod.splits option.splits)
  then have "only_calls h (\<lambda>c. leaves_head (fst c)) t0 t1" by (rule git_quiet) (simp add: leaves_head_def)
  with first show "only_calls h (\<lambda>c. leaves_head (fst c)) t t1" by (rule only_calls_trans)
qed

definition asked_trunk :: "'r host \<Rightarrow> string \<Rightarrow> 'r tree \<Rightarrow> 'r tree" where
  "asked_trunk h trunk t = snd (behind_by h trunk (snd (git_call h [''rev-parse'', ''-q'', ''--verify'', trunk @ ''^{commit}''] t)))"

text \<open>C10: the synchronisation with the trunk (\<open>syncWithTrunk\<close>) leaves no merge behind in silence. Git answers for the
  merge as documented and the rebuilding commands leave it alone (\<open>follows_git\<close>); the copy starts outside a merge.
  Then a copy that stands in a merge afterwards is answered by a conflict that was kept on request or by the flag of
  an unfinished merge; such an answer is right unless git had refused the merge of the trunk outright; and a commit
  is tried exactly when the result is a synchronised branch or a failed commit, and then once, so that a conflict
  that is not mechanical is answered without one.\<close>

theorem sync_leaves_no_merge_in_silence:
  assumes "sync_with_trunk h rules trunk words keep t = (r, t')" and "follows_git merging h" and "\<not> merging (tr_host t)"
  shows "(merging (tr_host t') \<longrightarrow> left_by r) \<and>
    (left_by r \<longrightarrow> merging (tr_host t') \<or>
       (\<exists>u. git_call h (trunk_merge_args trunk) (asked_trunk h trunk t) = (None, u) \<and> \<not> merging (tr_host u))) \<and>
    commits_in (tr_calls t') = commits_in (tr_calls t) + of_bool (tried_commit r)"
proof -
  obtain v t0 where ask: "git_call h [''rev-parse'', ''-q'', ''--verify'', trunk @ ''^{commit}''] t = (v, t0)" by (meson surj_pair)
  obtain behind t1 where count: "behind_by h trunk t0 = (behind, t1)" by (meson surj_pair)
  have t1: "asked_trunk h trunk t = t1" by (simp add: asked_trunk_def ask count)
  note start0 = quiet_moves [OF ask_quiet(1) [OF ask count]] and start1 = quiet_moves [OF ask_quiet(2) [OF ask count]]
  show ?thesis
  proof (cases "v = None \<or> behind = Some 0")
    case True
    then have "left_by r = False \<and> tried_commit r = False \<and> (t' = t0 \<or> t' = t1)"
      using assms(1) by (cases v) (auto simp: sync_with_trunk_def ask count left_by_def tried_commit_def)
    then show ?thesis using start0(1) start1(1) start0(2) [OF assms(2)] start1(2) [OF assms(2)] assms(3) by auto
  next
    case False
    obtain m t2 where merged: "merge_trunk h rules trunk t1 = (m, t2)" by (meson surj_pair)
    obtain out u where first: "git_call h (trunk_merge_args trunk) t1 = (out, u)" and quiet: "only_calls h (\<lambda>c. leaves_head (fst c)) u t2"
      and commits: "commits_in (tr_calls t2) = commits_in (tr_calls t1)" and refused: "\<forall>c. m = Inl c \<longrightarrow> out = None"
      using merge_trunk_head [OF merged] by blast
    note stands = quiet_moves(2) [OF quiet assms(2)]
    show ?thesis
    proof (cases m)
      case (Inl c)
      obtain b t3 where aborted: "tree_abort h t2 = (b, t3)" by (meson surj_pair)
      have "r = Kept behind c \<and> t' = t2 \<or> r = In_conflict behind c b \<and> t' = t3"
        using assms(1) False by (auto simp: sync_with_trunk_def ask count merged Inl aborted split: if_splits)
      then show ?thesis
        using tree_abort_trace(1) [OF aborted] tree_abort_trace(2) [OF aborted assms(2)] commits start1(1) first refused Inl stands
        by (auto simp: left_by_def tried_commit_def t1)
    next
      case (Inr resolved)
      obtain head t3 where asked: "git_call h head_args t2 = (head, t3)" by (meson surj_pair)
      have "only_calls h (\<lambda>c. leaves_head (fst c)) t2 t3" by (rule git_quiet [OF asked]) (simp add: call_names)
      note still = quiet_moves [OF this]
      have there: "merging (tr_host t3) = present_head head"
      proof -
        have "present_head (fst (h_git h head_args (tr_host t2))) = merging (tr_host t2)"
          using assms(2) by (simp add: follows_git_def)
        then show ?thesis using still(2) [OF assms(2)] by (simp add: git_host [OF asked])
      qed
      have no_commit: "commits_in (tr_calls t3) = commits_in (tr_calls t)" using still(1) commits start1(1) by simp
      show ?thesis
      proof (cases "present_head head")
        case False2: False
        then have "r = Already_current behind" "t' = t3"
          using assms(1) False
          by (auto simp: sync_with_trunk_def ask count merged Inr asked present_head_def split: if_splits option.splits)
        then show ?thesis using there False2 no_commit by (simp add: left_by_def tried_commit_def)
      next
        case True
        then have "commit_trunk h words behind resolved t3 = (r, t')"
          using assms(1) False
          by (auto simp: sync_with_trunk_def ask count merged Inr asked present_head_def split: if_splits option.splits)
        note ends = commit_trunk_trace(1) [OF this] commit_trunk_trace(2) [OF this assms(2)]
        then show ?thesis using there True no_commit by simp
      qed
    qed
  qed
qed

text \<open>A copy whose state says whether git stands in a merge: the merge of the trunk stops in one, with one conflicted
  file, which no rule resolves.\<close>

definition disputed_git :: "string list \<Rightarrow> bool \<Rightarrow> string option \<times> bool" where
  "disputed_git args r =
     (if take 1 args = [''merge''] then (if args = abort_args then (if r then Some [] else None, False) else (None, True))
      else if is_commit args then (Some ''1'', False)
      else if args = head_args then (if r then Some ''1'' else None, r)
      else (if args = diff_args then Some ''a'' else Some ''1'', r))"

definition disputed_host :: "bool host" where
  "disputed_host = \<lparr>h_git = disputed_git, h_run = (\<lambda>cmd r. (True, r)), h_read = (\<lambda>f r. None), h_write = (\<lambda>f s r. (True, r))\<rparr>"

definition kept_run :: "sync_result \<times> bool tree" where
  "kept_run = sync_with_trunk disputed_host mechanical_defaults ''main'' ''w'' True \<lparr>tr_host = False, tr_calls = []\<rparr>"

lemma kept_result:
  "fst kept_run = Kept (Some 1) \<lparr>sc_files = [''a''], sc_remaining = [''a''], sc_resolved = []\<rparr>" "tr_host (snd kept_run)"
  by (code_simp, code_simp)

lemma disputed_follows: "follows_git id disputed_host"
  using quiet_not_merge quiet_not_commit
  by (auto simp: follows_git_def disputed_host_def disputed_git_def present_head_def call_names js_trim_def js_ws_def code_of_def)

theorem sync_leaves_no_merge_in_silence_witness:
  "left_by (fst kept_run) \<and> tr_host (snd kept_run) \<and> commits_in (tr_calls (snd kept_run)) = 0"
proof -
  have run: "sync_with_trunk disputed_host mechanical_defaults ''main'' ''w'' True \<lparr>tr_host = False, tr_calls = []\<rparr> =
      (fst kept_run, snd kept_run)"
    by (simp add: kept_run_def)
  show ?thesis
    using sync_leaves_no_merge_in_silence [OF run disputed_follows] kept_result by (simp add: tried_commit_def commits_in_def)
qed

end
