(* ===== verification/Batch.thy ===== *)
theory Batch
  imports Json_Text
begin

text \<open>
  The middle lane for two to four small backlog items (\<open>src/scripts/sma/lib/batch.mjs\<close>): which items are a
  phase, which make a batch, the check box of an item in the backlog, and the run of a batch.

  An item is a record of the fields the code reads, a missing one \<open>None\<close>. The markers of a phase in words
  that are not 8-bit text are the argument \<open>other\<close>, the long dash is \<open>dash\<close>. The preflight, the grill,
  the executor and the reverification are arguments over a state of any type, \<open>None\<close> when they throw; reading
  and writing the backlog succeed.
\<close>

section \<open>Items\<close>

record batch_item =
  bi_id :: string
  bi_title :: "string option"
  bi_description :: "string option"
  bi_files :: "string list"
  bi_done :: bool
  bi_phase :: bool
  bi_size :: string
  bi_area :: "string option"

definition is_word :: "char \<Rightarrow> bool" where
  "is_word c \<longleftrightarrow> is_digit c \<or> 65 \<le> code_of c \<and> code_of c \<le> 90 \<or> 97 \<le> code_of c \<and> code_of c \<le> 122 \<or> c = CHR ''_''"

definition word_ends :: "string \<Rightarrow> bool" where
  "word_ends s \<longleftrightarrow> (case s of [] \<Rightarrow> True | c # _ \<Rightarrow> \<not> is_word c)"

text \<open>The words between \<open>\b\<close> of \<open>PHASE_CLASS_MARKERS\<close>, alternatives written out; upper and lower case are one.\<close>

definition phase_words :: "string list" where
  "phase_words = [''migration'', ''migrations'', ''migrate'', ''new collection'', ''payload collection'', ''collection'',
     ''webhook'', ''webhooks'', ''ai agent'', ''ai agents'', ''new agent'', ''agent'', ''cron'', ''new route'', ''new page'',
     ''new surface'', ''new endpoint'', ''new dashboard'', ''schema change'', ''external integration'']"

definition new_crm :: "string \<Rightarrow> bool" where
  "new_crm s = (let r = drop 3 s; r2 = dropWhile js_ws r
     in str_prefix ''new'' s \<and> r \<noteq> r2 \<and> str_prefix ''/crm'' r2 \<and> word_ends (drop 4 r2))"

text \<open>A marker somewhere in a text in lower case; the flag tells whether the character before is a word
  character.\<close>

fun phase_marked :: "bool \<Rightarrow> string \<Rightarrow> bool" where
  "phase_marked inside [] = False"
| "phase_marked inside (c # cs) =
     (\<not> inside \<and> (list_ex (\<lambda>w. str_prefix w (c # cs) \<and> word_ends (drop (length w) (c # cs))) phase_words \<or> new_crm (c # cs))
      \<or> phase_marked (is_word c) cs)"

definition opt_text :: "string option \<Rightarrow> string list" where
  "opt_text v = (case v of None \<Rightarrow> [] | Some s \<Rightarrow> [s])"

definition item_blob :: "batch_item \<Rightarrow> string" where
  "item_blob i = js_join '' '' (filter (\<lambda>s. s \<noteq> []) (opt_text (bi_title i) @ opt_text (bi_description i) @ bi_files i))"

definition batch_allowed :: "(string \<Rightarrow> bool) \<Rightarrow> batch_item \<Rightarrow> bool" where
  "batch_allowed other i \<longleftrightarrow> \<not> (phase_marked False (js_lower (item_blob i)) \<or> other (item_blob i))"

definition files_overlap :: "batch_item \<Rightarrow> batch_item \<Rightarrow> bool" where
  "files_overlap a b \<longleftrightarrow> list_ex (\<lambda>f. List.member (bi_files b) f) (bi_files a)"

fun seen_twice :: "string list \<Rightarrow> string list \<Rightarrow> bool" where
  "seen_twice seen [] = False"
| "seen_twice seen (f # fs) = (List.member seen f \<or> seen_twice (f # seen) fs)"

definition any_overlap :: "batch_item list \<Rightarrow> bool" where
  "any_overlap is = seen_twice [] (concat (map bi_files is))"

section \<open>Choosing a batch\<close>

datatype select_refusal = Not_found string | Too_few | Too_many | Overlapping

text \<open>\<open>new Map(backlog.map(i => [i.id, i]))\<close>: of two items with one id the later counts.\<close>

definition find_item :: "batch_item list \<Rightarrow> string \<Rightarrow> batch_item option" where
  "find_item backlog i = map_of (rev (map (\<lambda>x. (bi_id x, x)) backlog)) i"

fun find_items :: "batch_item list \<Rightarrow> string list \<Rightarrow> string + batch_item list" where
  "find_items backlog [] = Inr []"
| "find_items backlog (i # is) =
     (case find_item backlog i of
        None \<Rightarrow> Inl i
      | Some x \<Rightarrow> (case find_items backlog is of Inl e \<Rightarrow> Inl e | Inr xs \<Rightarrow> Inr (x # xs)))"

definition select_batch :: "string list \<Rightarrow> batch_item list \<Rightarrow> select_refusal + batch_item list" where
  "select_batch ids backlog =
     (case find_items backlog ids of
        Inl i \<Rightarrow> Inl (Not_found i)
      | Inr is \<Rightarrow>
          if length is < 2 then Inl Too_few
          else if length is > 4 then Inl Too_many
          else if any_overlap is then Inl Overlapping
          else Inr is)"

definition batch_eligible :: "(string \<Rightarrow> bool) \<Rightarrow> batch_item \<Rightarrow> bool" where
  "batch_eligible other i \<longleftrightarrow> \<not> bi_done i \<and> \<not> bi_phase i \<and> (bi_size i = ''S'' \<or> bi_size i = ''M'') \<and> batch_allowed other i"

text \<open>The groups of one area in the order the areas appear; a missing area is \<open>(none)\<close>.\<close>

definition area_key :: "batch_item \<Rightarrow> string" where
  "area_key i = (case bi_area i of None \<Rightarrow> ''(none)'' | Some a \<Rightarrow> a)"

definition by_area :: "batch_item list \<Rightarrow> (string \<times> batch_item list) list" where
  "by_area is = fold (\<lambda>i m. let key = area_key i in
     aset key ((case map_of m key of None \<Rightarrow> [] | Some g \<Rightarrow> g) @ [i]) m) is []"

fun pick_group :: "batch_item list \<Rightarrow> batch_item list \<Rightarrow> batch_item list" where
  "pick_group picked [] = picked"
| "pick_group picked (cand # grp) =
     (if length picked \<ge> 4 then picked
      else if list_all (\<lambda>p. \<not> files_overlap p cand) picked then pick_group (picked @ [cand]) grp
      else pick_group picked grp)"

definition assemble_compatible_batch :: "(string \<Rightarrow> bool) \<Rightarrow> batch_item list \<Rightarrow> batch_item list option" where
  "assemble_compatible_batch other backlog =
     (let best = fold (\<lambda>(_, grp) best. let picked = pick_group [] grp in
            if 2 \<le> length picked \<and> length best < length picked then picked else best)
          (by_area (filter (batch_eligible other) backlog)) []
      in if length best < 2 then None else Some best)"

section \<open>The check box of an item\<close>

text \<open>\<open>^-\s+\[(mark)\]\s+\*\*id\*\*\<close>: what stands before the mark, the mark, and the rest of the line.\<close>

definition box_line :: "string \<Rightarrow> string \<Rightarrow> (string \<times> char \<times> string) option" where
  "box_line i line =
     (let r = drop 1 line; gap = takeWhile js_ws r; r2 = dropWhile js_ws r; r3 = drop 2 r2; gap2 = takeWhile js_ws (drop 1 r3)
      in if str_prefix ''-'' line \<and> gap \<noteq> [] \<and> str_prefix ''['' r2 \<and> length r2 \<ge> 2 \<and> str_prefix '']'' r3 \<and> gap2 \<noteq> [] \<and>
            str_prefix (''**'' @ i @ ''**'') (dropWhile js_ws (drop 1 r3))
         then Some (''-'' @ gap @ ''['', r2 ! 1, r3) else None)"

fun check_line :: "string \<Rightarrow> string list \<Rightarrow> string list option" where
  "check_line i [] = None"
| "check_line i (l # ls) =
     (case box_line i l of
        Some (before, m, rest) \<Rightarrow>
          if m = CHR '' '' then Some ((before @ ''x'' @ rest) # ls) else map_option (Cons l) (check_line i ls)
      | None \<Rightarrow> map_option (Cons l) (check_line i ls))"

definition check_off_backlog_item :: "string \<Rightarrow> string \<Rightarrow> bool \<times> string" where
  "check_off_backlog_item i backlog =
     (case check_line i (js_split (CHR 0x0A) backlog) of
        None \<Rightarrow> (False, backlog)
      | Some ls \<Rightarrow> (True, js_join [CHR 0x0A] ls))"

fun reopen_line :: "string \<Rightarrow> string \<Rightarrow> string \<Rightarrow> string list \<Rightarrow> string list option" where
  "reopen_line dash i words [] = None"
| "reopen_line dash i words (l # ls) =
     (case box_line i l of
        Some (before, m, rest) \<Rightarrow>
          if m = CHR '' '' \<or> m = CHR ''x'' \<or> m = CHR ''X''
          then Some ((if str_includes words (before @ '' '' @ rest) then before @ '' '' @ rest
                      else before @ '' '' @ rest @ '' '' @ dash @ '' '' @ words) # ls)
          else map_option (Cons l) (reopen_line dash i words ls)
      | None \<Rightarrow> map_option (Cons l) (reopen_line dash i words ls))"

text \<open>\<open>/^##\s+Backlog\b/i\<close>.\<close>

definition backlog_heading :: "string \<Rightarrow> bool" where
  "backlog_heading line =
     (let r = drop 2 line; r2 = dropWhile js_ws r
      in str_prefix ''##'' line \<and> r \<noteq> r2 \<and> str_prefix ''backlog'' (js_lower r2) \<and> word_ends (drop 7 r2))"

fun insert_below :: "string \<Rightarrow> string list \<Rightarrow> string list option" where
  "insert_below fresh [] = None"
| "insert_below fresh (l # ls) =
     (if backlog_heading l then Some (l # fresh # ls) else map_option (Cons l) (insert_below fresh ls))"

definition eject_item :: "string \<Rightarrow> batch_item \<Rightarrow> string \<Rightarrow> string option \<Rightarrow> string \<times> string" where
  "eject_item dash item backlog note_opt =
     (let words = (case note_opt of None \<Rightarrow> ''grew past batch-class '' @ dash @ '' replan as a phase'' | Some n \<Rightarrow> n);
          ls = js_split (CHR 0x0A) backlog;
          fresh = ''- [ ] **'' @ bi_id item @ ''** '' @ [CHR 0xB7] @ '' '' @ (case bi_title item of None \<Rightarrow> bi_id item | Some t \<Rightarrow> t)
            @ '' '' @ dash @ '' '' @ words;
          out = (case reopen_line dash (bi_id item) words ls of
                   Some l \<Rightarrow> l
                 | None \<Rightarrow> (case insert_below fresh ls of Some l \<Rightarrow> l | None \<Rightarrow> ls @ [fresh]))
      in (words, js_join [CHR 0x0A] out))"

section \<open>The run of a batch\<close>

record 's batch_io =
  bo_preflight :: "(batch_item \<Rightarrow> 's \<Rightarrow> jsval option \<times> 's) option"
  bo_grill :: "(batch_item \<Rightarrow> 's \<Rightarrow> jsval option \<times> 's) option"
  bo_execute :: "batch_item \<Rightarrow> 's \<Rightarrow> jsval option \<times> 's"
  bo_reverify :: "batch_item \<Rightarrow> 's \<Rightarrow> jsval option \<times> 's"
  bo_backlog :: "(('s \<Rightarrow> string) \<times> (string \<Rightarrow> 's \<Rightarrow> 's)) option"
  bo_other :: "string \<Rightarrow> bool"

datatype batch_status = Rejected | Skipped_built | Blocked nat | Executor_failed | Reverify_failed | Passed "bool option"

record batch_rec =
  br_item :: batch_item
  br_status :: batch_status
  br_preflight :: jsval
  br_grill :: "string option"
  br_commit :: jsval
  br_reverify :: jsval
  br_receipt :: jsval

text \<open>\<open>try { v = f(item) ?? v } catch { v = other }\<close>.\<close>

definition ask :: "(batch_item \<Rightarrow> 's \<Rightarrow> jsval option \<times> 's) \<Rightarrow> batch_item \<Rightarrow> jsval \<Rightarrow> jsval \<Rightarrow> 's \<Rightarrow> jsval \<times> 's" where
  "ask f item otherwise thrown s =
     (case f item s of (None, s') \<Rightarrow> (thrown, s') | (Some v, s') \<Rightarrow> (coalesce v otherwise, s'))"

definition absent :: jsval where "absent = JObj [(''verdict'', JStr ''absent'')]"

definition ungrilled :: jsval where
  "ungrilled = JObj [(''allowed'', JBool True), (''grilled'', JBool False), (''open'', JArr [])]"

definition reverify_error :: jsval where "reverify_error = JObj [(''verdict'', JStr ''error'')]"

definition grill_word :: "jsval \<Rightarrow> string" where
  "grill_word gate = (if truthy (jget gate ''grilled'') then (if truthy (jget gate ''allowed'') then ''clear'' else ''open'') else ''ungrilled'')"

definition check_off :: "'s batch_io \<Rightarrow> string \<Rightarrow> 's \<Rightarrow> bool option \<times> 's" where
  "check_off io i s =
     (case bo_backlog io of
        None \<Rightarrow> (None, s)
      | Some (rd, wr) \<Rightarrow>
          (case check_off_backlog_item i (rd s) of
             (changed, backlog) \<Rightarrow> (Some changed, if changed then wr backlog s else s)))"

definition verify_item :: "'s batch_io \<Rightarrow> batch_item \<Rightarrow> batch_rec \<Rightarrow> 's \<Rightarrow> batch_rec \<times> 's" where
  "verify_item io item r s =
     (case ask (bo_reverify io) item reverify_error reverify_error s of
        (rv, s1) \<Rightarrow>
          let r1 = r\<lparr>br_reverify := jget rv ''verdict'', br_receipt := coalesce (jget rv ''receipt'') JNull\<rparr> in
          if jget rv ''verdict'' = JStr ''verified''
          then (case check_off io (bi_id item) s1 of (changed, s2) \<Rightarrow> (r1\<lparr>br_status := Passed changed\<rparr>, s2))
          else (r1\<lparr>br_status := Reverify_failed\<rparr>, s1))"

definition execute_item :: "'s batch_io \<Rightarrow> batch_item \<Rightarrow> batch_rec \<Rightarrow> 's \<Rightarrow> batch_rec \<times> 's" where
  "execute_item io item r s =
     (case bo_execute io item s of
        (None, s1) \<Rightarrow> (r\<lparr>br_status := Executor_failed\<rparr>, s1)
      | (Some done_v, s1) \<Rightarrow>
          verify_item io item (r\<lparr>br_commit := coalesce (jget (coalesce done_v (JObj [])) ''commit'') JNull\<rparr>) s1)"

definition grill_item :: "'s batch_io \<Rightarrow> batch_item \<Rightarrow> batch_rec \<Rightarrow> 's \<Rightarrow> batch_rec \<times> 's" where
  "grill_item io item r s =
     (case (case bo_grill io of None \<Rightarrow> (ungrilled, s) | Some f \<Rightarrow> ask f item ungrilled ungrilled s) of
        (gate, s1) \<Rightarrow>
          let r1 = r\<lparr>br_grill := Some (grill_word gate)\<rparr> in
          if \<not> truthy (jget gate ''allowed'')
          then (r1\<lparr>br_status := Blocked (case jget gate ''open'' of JArr vs \<Rightarrow> length vs | _ \<Rightarrow> 0)\<rparr>, s1)
          else execute_item io item r1 s1)"

definition run_item :: "'s batch_io \<Rightarrow> batch_item \<Rightarrow> 's \<Rightarrow> batch_rec \<times> 's" where
  "run_item io item s =
     (let r = \<lparr>br_item = item, br_status = Rejected, br_preflight = JUndef, br_grill = None, br_commit = JUndef,
            br_reverify = JUndef, br_receipt = JUndef\<rparr> in
      if \<not> batch_allowed (bo_other io) item then (r, s)
      else case (case bo_preflight io of None \<Rightarrow> (absent, s) | Some f \<Rightarrow> ask f item absent absent s) of
        (pf, s1) \<Rightarrow>
          let r1 = r\<lparr>br_preflight := coalesce (jget pf ''verdict'') (JStr ''absent'')\<rparr> in
          if jget pf ''verdict'' = JStr ''built'' then (r1\<lparr>br_status := Skipped_built\<rparr>, s1)
          else grill_item io item r1 s1)"

fun run_batch :: "'s batch_io \<Rightarrow> batch_item list \<Rightarrow> 's \<Rightarrow> batch_rec list \<times> 's" where
  "run_batch io [] s = ([], s)"
| "run_batch io (i # is) s =
     (case run_item io i s of (r, s1) \<Rightarrow> (case run_batch io is s1 of (rs, s2) \<Rightarrow> (r # rs, s2)))"

section \<open>One box\<close>

lemma two_heads: "str_prefix [c] s \<Longrightarrow> 2 \<le> length s \<Longrightarrow> s = [c] @ s ! 1 # drop 2 s"
  by (cases s; cases "tl s") auto

lemma box_line_parts:
  assumes "box_line i l = Some (before, m, rest)"
  shows "l = before @ m # rest" "\<exists>h. before = h @ ''[''" "\<exists>t. rest = '']'' @ t"
proof -
  let ?r = "drop 1 l" and ?r2 = "dropWhile js_ws (drop 1 l)"
  have parts: "str_prefix ''-'' l" "str_prefix ''['' ?r2" "2 \<le> length ?r2" "str_prefix '']'' rest"
    "before = ''-'' @ takeWhile js_ws ?r @ ''[''" "m = ?r2 ! 1" "rest = drop 2 ?r2"
    using assms by (auto simp: box_line_def Let_def split: if_splits)
  have "l = ''-'' @ ?r" using parts(1) by (cases l) auto
  moreover have "?r = takeWhile js_ws ?r @ ?r2" by simp
  moreover have "?r2 = ''['' @ m # rest"
    unfolding parts(6,7) by (rule two_heads [OF parts(2,3)])
  ultimately show "l = before @ m # rest" unfolding parts(5) by (metis append.assoc)
  show "\<exists>h. before = h @ ''[''" unfolding parts(5) by (rule exI [of _ "''-'' @ takeWhile js_ws ?r"]) simp
  show "\<exists>t. rest = '']'' @ t" using parts(4) by (auto simp: str_prefix_iff prefix_def)
qed

lemma check_line_one:
  "check_line i ls = Some ls' \<Longrightarrow> \<exists>pre before rest post. ls = pre @ (before @ '' '' @ rest) # post \<and>
     ls' = pre @ (before @ ''x'' @ rest) # post \<and> box_line i (before @ '' '' @ rest) = Some (before, CHR '' '', rest)"
proof (induction ls arbitrary: ls')
  case (Cons l ls)
  show ?case
  proof (cases "\<exists>before rest. box_line i l = Some (before, CHR '' '', rest)")
    case True
    then obtain before rest where b: "box_line i l = Some (before, CHR '' '', rest)" by blast
    then have "ls' = (before @ ''x'' @ rest) # ls" using Cons.prems by simp
    moreover have "l = before @ '' '' @ rest" using box_line_parts(1) [OF b] by simp
    ultimately show ?thesis using b by (metis append_Nil)
  next
    case False
    then obtain ls2 where "check_line i ls = Some ls2" "ls' = l # ls2"
      using Cons.prems by (auto split: option.splits prod.splits if_splits)
    then show ?thesis using Cons.IH by (metis append_Cons)
  qed
qed simp

lemma join_hole: "\<exists>a b. \<forall>l. js_join sep (pre @ l # post) = a @ l @ b"
proof -
  have tail: "\<exists>b. \<forall>l. js_join sep (l # post) = l @ b" by (cases post) auto
  show ?thesis
  proof (cases "pre = []")
    case True
    then show ?thesis using tail by (metis append_Nil)
  next
    case False
    obtain b where "\<forall>l. js_join sep (l # post) = l @ b" using tail by blast
    then have "\<forall>l. js_join sep (pre @ l # post) = (js_join sep pre @ sep) @ l @ b"
      using js_join_append [OF False, of "_ # post" sep] by simp
    then show ?thesis by blast
  qed
qed

text \<open>Checking off an item changes one character of the backlog (\<open>checkOffBacklogItem\<close>): the space between the brackets
  of a box becomes an \<open>x\<close>, and every other character of the text stays.\<close>

theorem check_off_sets_one_box:
  assumes "check_off_backlog_item i backlog = (True, backlog')"
  shows "\<exists>a b. backlog = a @ ''[ ]'' @ b \<and> backlog' = a @ ''[x]'' @ b"
proof -
  let ?nl = "CHR 0x0A"
  obtain ls where ls: "check_line i (js_split ?nl backlog) = Some ls" and out: "backlog' = js_join [?nl] ls"
    using assms by (auto simp: check_off_backlog_item_def split: option.splits)
  obtain pre before rest post where split: "js_split ?nl backlog = pre @ (before @ '' '' @ rest) # post"
    and ls': "ls = pre @ (before @ ''x'' @ rest) # post"
    and box: "box_line i (before @ '' '' @ rest) = Some (before, CHR '' '', rest)"
    using check_line_one [OF ls] by blast
  obtain h t where ht: "before = h @ ''[''" "rest = '']'' @ t" using box_line_parts(2,3) [OF box] by blast
  obtain a b where hole: "\<And>l. js_join [?nl] (pre @ l # post) = a @ l @ b" using join_hole by metis
  have "backlog = js_join [?nl] (js_split ?nl backlog)" by (simp only: js_join_split)
  also have "\<dots> = a @ (before @ '' '' @ rest) @ b" by (simp only: split hole)
  finally have "backlog = (a @ h) @ ''[ ]'' @ (t @ b)" by (simp add: ht)
  moreover have "backlog' = (a @ h) @ ''[x]'' @ (t @ b)" by (simp add: out ls' hole ht)
  ultimately show ?thesis by blast
qed

theorem check_off_sets_one_box_witness:
  "\<exists>a b. ''- [ ] **B1** t'' = a @ ''[ ]'' @ b \<and> ''- [x] **B1** t'' = a @ ''[x]'' @ b"
proof (rule check_off_sets_one_box)
  show "check_off_backlog_item ''B1'' ''- [ ] **B1** t'' = (True, ''- [x] **B1** t'')" by code_simp
qed

section \<open>A batch that can be chosen\<close>

lemma seen_twice_distinct: "seen_twice seen fs \<longleftrightarrow> \<not> (distinct fs \<and> set fs \<inter> set seen = {})"
  by (induction fs arbitrary: seen) auto

lemma overlap_files: "files_overlap a b \<longleftrightarrow> set (bi_files a) \<inter> set (bi_files b) \<noteq> {}"
  by (auto simp: files_overlap_def list_ex_iff)

definition apart :: "batch_item list \<Rightarrow> bool" where
  "apart is \<longleftrightarrow> sorted_wrt (\<lambda>a b. \<not> files_overlap a b) is"

lemma pick_group_ok:
  assumes "apart picked" "length picked \<le> 4"
  shows "apart (pick_group picked g) \<and> length (pick_group picked g) \<le> 4 \<and> set (pick_group picked g) \<subseteq> set picked \<union> set g"
  using assms
proof (induction picked g rule: pick_group.induct)
  case (2 picked cand g)
  then show ?case by (auto simp: apart_def sorted_wrt_append list_all_iff)
qed simp

lemma any_overlap_apart: "apart is \<Longrightarrow> any_overlap is \<longleftrightarrow> \<not> list_all (\<lambda>i. distinct (bi_files i)) is"
proof (induction "is")
  case (Cons i "is")
  have "set (bi_files i) \<inter> set (concat (map bi_files is)) = {}"
    using Cons.prems by (fastforce simp: apart_def overlap_files)
  then show ?case using Cons by (auto simp: any_overlap_def seen_twice_distinct apart_def)
qed (simp add: any_overlap_def)

lemma by_area_members:
  assumes "(k, g) \<in> set (by_area is)"
  shows "set g \<subseteq> set is"
proof -
  have "\<forall>(k, g) \<in> set (fold (\<lambda>i m. let key = area_key i in
      aset key ((case map_of m key of None \<Rightarrow> [] | Some g \<Rightarrow> g) @ [i]) m) is m). set g \<subseteq> set is \<union> X"
    if "\<forall>(k, g) \<in> set m. set g \<subseteq> X" for m X
    using that
  proof (induction "is" arbitrary: m X)
    case (Cons i "is")
    let ?m = "aset (area_key i) ((case map_of m (area_key i) of None \<Rightarrow> [] | Some g \<Rightarrow> g) @ [i]) m"
    have "\<forall>(k, g) \<in> set ?m. set g \<subseteq> insert i X"
      using Cons.prems set_aset_sub [of "area_key i" _ m] by (fastforce dest: map_of_SomeD split: option.splits)
    from Cons.IH [OF this] show ?case by (simp add: Let_def insert_commute)
  qed simp
  from this [of "[]" "{}"] assms show ?thesis by (auto simp: by_area_def)
qed

lemma best_group:
  fixes grps :: "(string \<times> batch_item list) list"
  assumes "\<forall>(k, g) \<in> set grps. set g \<subseteq> X" and "best = [] \<or> apart best \<and> length best \<le> 4 \<and> set best \<subseteq> X"
  shows "(let b = fold (\<lambda>(_, grp) best. let picked = pick_group [] grp in
      if 2 \<le> length picked \<and> length best < length picked then picked else best) grps best in
    b = [] \<or> apart b \<and> length b \<le> 4 \<and> set b \<subseteq> X)"
  using assms
proof (induction grps arbitrary: best)
  case (Cons kg grps)
  obtain k g where kg: "kg = (k, g)" by (cases kg)
  have "apart (pick_group [] g) \<and> length (pick_group [] g) \<le> 4 \<and> set (pick_group [] g) \<subseteq> X"
    using pick_group_ok [of "[]" g] Cons.prems(1) by (auto simp: kg apart_def)
  then show ?case using Cons.IH [of "let picked = pick_group [] g in
      if 2 \<le> length picked \<and> length best < length picked then picked else best"] Cons.prems
    by (auto simp: kg Let_def)
qed simp

lemma assembled:
  assumes "assemble_compatible_batch other backlog = Some is"
  shows "apart is" "2 \<le> length is" "length is \<le> 4" "set is \<subseteq> {i \<in> set backlog. batch_eligible other i}"
proof -
  let ?X = "{i \<in> set backlog. batch_eligible other i}"
  have grps: "\<forall>(k, g) \<in> set (by_area (filter (batch_eligible other) backlog)). set g \<subseteq> ?X"
    using by_area_members by fastforce
  have two: "2 \<le> length is" using assms by (auto simp: assemble_compatible_batch_def Let_def split: if_splits)
  then have "apart is \<and> length is \<le> 4 \<and> set is \<subseteq> ?X"
    using best_group [OF grps, of "[]"] assms
    by (auto simp: assemble_compatible_batch_def Let_def simp del: set_filter split: if_splits)
  with two show "apart is" "2 \<le> length is" "length is \<le> 4" "set is \<subseteq> ?X" by simp_all
qed

lemma find_own: "distinct (map bi_id backlog) \<Longrightarrow> x \<in> set backlog \<Longrightarrow> find_item backlog (bi_id x) = Some x"
  unfolding find_item_def
  by (rule map_of_is_SomeI) (simp_all add: comp_def rev_map [symmetric] distinct_map)

lemma find_own_items: "distinct (map bi_id backlog) \<Longrightarrow> set is \<subseteq> set backlog \<Longrightarrow> find_items backlog (map bi_id is) = Inr is"
  by (induction "is") (auto simp: find_own)

text \<open>The batch the lane proposes is one it accepts, but for an item that names a file twice
  (\<open>assembleCompatibleBatch\<close>, \<open>selectBatch\<close>): with distinct ids, selecting the proposed items gives them back
  exactly when no item repeats a file in its own list, and is refused as an overlap otherwise.\<close>

theorem proposed_batch_is_accepted:
  assumes "distinct (map bi_id backlog)" and "assemble_compatible_batch other backlog = Some is"
  shows "select_batch (map bi_id is) backlog =
    (if list_all (\<lambda>i. distinct (bi_files i)) is then Inr is else Inl Overlapping)"
proof -
  note a = assembled [OF assms(2)]
  have "find_items backlog (map bi_id is) = Inr is" using find_own_items [OF assms(1)] a(4) by blast
  then show ?thesis using a any_overlap_apart [OF a(1)] by (simp add: select_batch_def)
qed

definition sample_item :: "string \<Rightarrow> string list \<Rightarrow> batch_item" where
  "sample_item i fs = \<lparr>bi_id = i, bi_title = None, bi_description = None, bi_files = fs, bi_done = False, bi_phase = False,
     bi_size = ''S'', bi_area = None\<rparr>"

lemma sample_backlog:
  "assemble_compatible_batch (\<lambda>_. False) [sample_item ''a'' [''f''], sample_item ''b'' [''g'', ''g''], sample_item ''c'' [''f'']] =
     Some [sample_item ''a'' [''f''], sample_item ''b'' [''g'', ''g'']]"
  by code_simp

theorem proposed_batch_is_accepted_witness:
  "select_batch [''a'', ''b''] [sample_item ''a'' [''f''], sample_item ''b'' [''g'', ''g''], sample_item ''c'' [''f'']] = Inl Overlapping"
  using proposed_batch_is_accepted [OF _ sample_backlog] by (simp add: sample_item_def)

section \<open>What passes\<close>

text \<open>What an item may become behind its preflight.\<close>

definition item_passed :: "batch_rec \<Rightarrow> bool" where
  "item_passed r \<longleftrightarrow> (\<exists>c. br_status r = Passed c)"

definition sound_end :: "batch_rec \<Rightarrow> batch_rec \<Rightarrow> bool" where
  "sound_end r r' \<longleftrightarrow> br_item r' = br_item r \<and> br_preflight r' = br_preflight r \<and>
     (item_passed r' \<longleftrightarrow> br_reverify r' = JStr ''verified'')"

lemma verify_sound: "verify_item io item r s = (r', s') \<Longrightarrow> sound_end r r'"
  by (auto simp: verify_item_def Let_def sound_end_def item_passed_def split: prod.splits if_splits)

lemma execute_sound:
  assumes "execute_item io item r s = (r', s')" "br_reverify r = JUndef"
  shows "sound_end r r'"
proof (cases "bo_execute io item s")
  case (Pair v s1)
  then show ?thesis
    using assms verify_sound by (cases v) (fastforce simp: execute_item_def sound_end_def item_passed_def)+
qed

lemma grill_sound:
  assumes "grill_item io item r s = (r', s')" "br_reverify r = JUndef"
  shows "sound_end r r'"
proof -
  obtain gate s1 where g: "(case bo_grill io of None \<Rightarrow> (ungrilled, s) | Some f \<Rightarrow> ask f item ungrilled ungrilled s) = (gate, s1)"
    by (meson surj_pair)
  let ?r = "r\<lparr>br_grill := Some (grill_word gate)\<rparr>"
  show ?thesis
  proof (cases "truthy (jget gate ''allowed'')")
    case True
    then have "execute_item io item ?r s1 = (r', s')" using assms(1) by (simp add: grill_item_def g)
    from execute_sound [OF this] show ?thesis using assms(2) by (simp add: sound_end_def)
  next
    case False
    then show ?thesis using assms by (auto simp: grill_item_def g sound_end_def item_passed_def)
  qed
qed

lemma run_item_sound:
  assumes "run_item io item s = (r, s')"
  shows "br_item r = item \<and> (item_passed r \<longleftrightarrow> br_reverify r = JStr ''verified'') \<and>
    (item_passed r \<longrightarrow> batch_allowed (bo_other io) item \<and> br_preflight r \<noteq> JStr ''built'')"
proof (cases "batch_allowed (bo_other io) item")
  case True
  obtain pf s1 where p: "(case bo_preflight io of None \<Rightarrow> (absent, s) | Some f \<Rightarrow> ask f item absent absent s) = (pf, s1)"
    by (meson surj_pair)
  define r1 where "r1 = \<lparr>br_item = item, br_status = Rejected, br_preflight = coalesce (jget pf ''verdict'') (JStr ''absent''),
      br_grill = None, br_commit = JUndef, br_reverify = JUndef, br_receipt = JUndef\<rparr>"
  show ?thesis
  proof (cases "jget pf ''verdict'' = JStr ''built''")
    case built: True
    then show ?thesis using assms True by (auto simp: run_item_def Let_def p item_passed_def)
  next
    case False
    then have "grill_item io item r1 s1 = (r, s')" using assms True by (simp add: run_item_def Let_def p r1_def)
    from grill_sound [OF this] have "sound_end r1 r" by (simp add: r1_def)
    moreover have "br_preflight r1 \<noteq> JStr ''built''" using False by (auto simp: r1_def coalesce_def)
    ultimately show ?thesis using True by (simp add: sound_end_def r1_def)
  qed
next
  case False
  then show ?thesis using assms by (auto simp: run_item_def item_passed_def)
qed

text \<open>A batch reports every item, in order, and an item passes exactly when its receipt was reproduced
  (\<open>runBatch\<close>): its reverification answered \<open>verified\<close>, and no item of a phase or found built passes.\<close>

theorem batch_passes_only_reproduced:
  "map br_item (fst (run_batch io items s)) = items \<and>
   list_all (\<lambda>r. item_passed r = (br_reverify r = JStr ''verified'') \<and>
     item_passed r = (br_reverify r = JStr ''verified'' \<and> batch_allowed (bo_other io) (br_item r) \<and> br_preflight r \<noteq> JStr ''built''))
     (fst (run_batch io items s))"
proof (induction items arbitrary: s)
  case (Cons i items)
  obtain r s1 where one: "run_item io i s = (r, s1)" by (meson surj_pair)
  obtain rs s2 where rest: "run_batch io items s1 = (rs, s2)" by (meson surj_pair)
  show ?case using Cons.IH [of s1] run_item_sound [OF one] by (auto simp: one rest)
qed simp

end
