(* ===== verification/Stall.thy ===== *)
theory Stall
  imports Json_Text
begin

text \<open>
  The detector of a worker that is stuck (\<open>src/scripts/sma/lib/stall.mjs\<close>): the signature of a tool call, the
  window of the last twenty, and the four patterns.

  The SHA-1 of a text is an argument \<open>sha\<close>; the file of the window is its list of events, read back as
  written, \<open>None\<close> when there is none. The time stamp of an event and the sentences of the advice are left
  out.
\<close>

definition same_action_repeat :: nat where "same_action_repeat = 4"

definition same_error_repeat :: nat where "same_error_repeat = 3"

definition pingpong_cycles :: nat where "pingpong_cycles = 2"

definition monologue_turns :: rat where "monologue_turns = 6"

definition window_size :: nat where "window_size = 20"

section \<open>One event\<close>

definition switch_on :: "jsval \<Rightarrow> bool" where
  "switch_on v = (let s = js_lower (js_trim (to_str (coalesce v (JStr [])))) in s \<noteq> [] \<and> s \<noteq> ''0'' \<and> s \<noteq> ''false'')"

text \<open>Digits go, runs of white space become one space, the ends are trimmed, 200 characters are kept.\<close>

fun squeeze_ws :: "bool \<Rightarrow> string \<Rightarrow> string" where
  "squeeze_ws _ [] = []"
| "squeeze_ws inside (c # cs) =
     (if js_ws c then (if inside then squeeze_ws True cs else CHR '' '' # squeeze_ws True cs)
      else c # squeeze_ws False cs)"

definition normalize_err :: "string \<Rightarrow> string" where
  "normalize_err raw = take 200 (js_trim (squeeze_ws False (filter (\<lambda>c. \<not> is_digit c) (js_lower raw))))"

text \<open>\<open>/^\s*shell cwd was reset to\b/i\<close>.\<close>

definition is_harness_line :: "string \<Rightarrow> bool" where
  "is_harness_line line =
     (let t = js_lower (dropWhile js_ws line); r = drop 22 t
      in str_prefix ''shell cwd was reset to'' t \<and>
         (case r of [] \<Rightarrow> True | c # _ \<Rightarrow> \<not> (is_digit c \<or> 97 \<le> code_of c \<and> code_of c \<le> 122 \<or> c = CHR ''_'')))"

text \<open>\<open>split(/\r?\n/)\<close>: a carriage return before a line end goes with it.\<close>

definition drop_cr :: "string \<Rightarrow> string" where
  "drop_cr l = (if l \<noteq> [] \<and> last l = CHR 0x0D then butlast l else l)"

definition text_lines :: "string \<Rightarrow> string list" where
  "text_lines s = (let ls = js_split (CHR 0x0A) s in map drop_cr (butlast ls) @ [last ls])"

definition strip_harness_noise :: "string \<Rightarrow> string" where
  "strip_harness_noise raw =
     js_join [CHR 0x0A] (filter (\<lambda>l. js_trim l \<noteq> [] \<and> \<not> is_harness_line l) (text_lines raw))"

definition succeeded :: "jsval \<Rightarrow> bool" where
  "succeeded resp =
     (if jget resp ''is_error'' = JBool True then False
      else case find (\<lambda>v. case v of JNum n \<Rightarrow> is_finite_num n | _ \<Rightarrow> False)
             (map (jget resp) [''exit_code'', ''exitCode'', ''returncode'']) of
             Some v \<Rightarrow> v = JInt 0
           | None \<Rightarrow> False)"

definition spoken :: "jsval \<Rightarrow> string option" where
  "spoken v = (case v of JStr s \<Rightarrow> if js_trim s = [] then None else Some s | _ \<Rightarrow> None)"

definition err_sig_from :: "jsval \<Rightarrow> string" where
  "err_sig_from resp =
     (if \<not> is_object resp then []
      else if succeeded resp then []
      else
        let raw = (case spoken (jget resp ''error'') of
              Some s \<Rightarrow> s
            | None \<Rightarrow> (case spoken (jget resp ''stderr'') of
                Some s \<Rightarrow> s
              | None \<Rightarrow>
                  if jget resp ''is_error'' = JBool True
                  then (case jget resp ''output'' of JStr s \<Rightarrow> s
                        | _ \<Rightarrow> (case jget resp ''content'' of JStr s \<Rightarrow> s | _ \<Rightarrow> ''error''))
                  else []))
        in normalize_err (strip_harness_noise raw))"

record stall_event =
  sv_tool :: string
  sv_input_hash :: string
  sv_err_sig :: string
  sv_target :: string
  sv_toolless :: "rat option"

definition event_from :: "(string \<Rightarrow> string) \<Rightarrow> jsval \<Rightarrow> stall_event" where
  "event_from sha evt =
     (let e = (if is_object evt then evt else JObj []);
          input = (if is_object (jget e ''tool_input'') then jget e ''tool_input'' else JObj []);
          turns = coalesce (jget e ''turns_without_tools'') (jget e ''toolless_turns'')
      in \<lparr>sv_tool = (case jget e ''tool_name'' of JStr s \<Rightarrow> s | _ \<Rightarrow> []),
          sv_input_hash = take 12 (sha (json_text input)),
          sv_err_sig = err_sig_from (jget e ''tool_response''),
          sv_target = (case jget input ''file_path'' of
             JStr s \<Rightarrow> js_lower (map (\<lambda>c. if c = CHR 0x5C then CHR ''/'' else c) s) | _ \<Rightarrow> []),
          sv_toolless = (if is_nullish turns then None else case to_num turns of Fin q \<Rightarrow> Some q | _ \<Rightarrow> None)\<rparr>)"

section \<open>The window\<close>

definition last_n :: "nat \<Rightarrow> 'a list \<Rightarrow> 'a list" where
  "last_n n xs = drop (length xs - n) xs"

text \<open>The event is appended and the last twenty are kept; a disabled detector records nothing.\<close>

definition record_event :: "(string \<Rightarrow> string) \<Rightarrow> bool \<Rightarrow> jsval \<Rightarrow> stall_event list option \<Rightarrow> stall_event list \<times> stall_event list option" where
  "record_event sha disabled evt stored =
     (if disabled then ([], stored)
      else let events = last_n window_size ((case stored of None \<Rightarrow> [] | Some es \<Rightarrow> es) @ [event_from sha evt])
           in (events, Some events))"

section \<open>The patterns\<close>

datatype stall =
    Same_action string
  | Same_error string
  | Ping_pong string string
  | Monologue rat

text \<open>The last \<open>n\<close> events, \<open>None\<close> when there are fewer.\<close>

definition tail_of :: "nat \<Rightarrow> 'a list \<Rightarrow> 'a list option" where
  "tail_of n events = (if length events \<ge> n then Some (last_n n events) else None)"

definition same_action :: "stall_event list \<Rightarrow> stall option" where
  "same_action events =
     (case tail_of same_action_repeat events of
        None \<Rightarrow> None
      | Some acts \<Rightarrow>
          let sig = (\<lambda>e. sv_tool e @ ''::'' @ sv_input_hash e); first = sig (hd acts) in
          if first \<noteq> ''::'' \<and> list_all (\<lambda>e. sig e = first) acts then Some (Same_action (sv_tool (hd acts))) else None)"

definition same_error :: "stall_event list \<Rightarrow> stall option" where
  "same_error events =
     (case tail_of same_error_repeat events of
        None \<Rightarrow> None
      | Some errs \<Rightarrow>
          if list_all (\<lambda>e. sv_err_sig e \<noteq> []) errs \<and> list_all (\<lambda>e. sv_err_sig e = sv_err_sig (hd errs)) errs
          then Some (Same_error (sv_err_sig (hd errs))) else None)"

definition is_edit :: "stall_event \<Rightarrow> bool" where
  "is_edit e \<longleftrightarrow> sv_tool e = ''Edit'' \<or> sv_tool e = ''Write''"

fun alternates :: "string \<Rightarrow> string \<Rightarrow> stall_event list \<Rightarrow> bool" where
  "alternates a b [] = True"
| "alternates a b (e # es) = (sv_target e = a \<and> alternates b a es)"

definition ping_pong :: "stall_event list \<Rightarrow> stall option" where
  "ping_pong events =
     (case tail_of (pingpong_cycles * 2) events of
        None \<Rightarrow> None
      | Some pp \<Rightarrow>
          let a = sv_target (pp ! 0); b = sv_target (pp ! 1) in
          if list_all (\<lambda>e. is_edit e \<and> sv_target e \<noteq> []) pp \<and> a \<noteq> b \<and> alternates a b pp then Some (Ping_pong a b) else None)"

definition monologue :: "stall_event list \<Rightarrow> stall option" where
  "monologue events =
     (case sv_toolless (last events) of
        None \<Rightarrow> None
      | Some n \<Rightarrow> if n \<ge> monologue_turns then Some (Monologue n) else None)"

definition first_of :: "'a option \<Rightarrow> 'a option \<Rightarrow> 'a option" where
  "first_of x y = (case x of None \<Rightarrow> y | Some v \<Rightarrow> Some v)"

definition detect :: "bool \<Rightarrow> stall_event list \<Rightarrow> stall option" where
  "detect disabled events =
     (if disabled \<or> events = [] then None
      else first_of (same_action events) (first_of (same_error events) (first_of (ping_pong events) (monologue events))))"

section \<open>The window is enough\<close>

fun record_all :: "(string \<Rightarrow> string) \<Rightarrow> jsval list \<Rightarrow> stall_event list option \<Rightarrow> stall_event list option" where
  "record_all sha [] stored = stored"
| "record_all sha (e # es) stored = record_all sha es (snd (record_event sha False e stored))"

lemma length_last_n [simp]: "length (last_n n xs) = min n (length xs)"
  by (simp add: last_n_def)

lemma last_n_again: "m \<le> n \<Longrightarrow> last_n m (last_n n xs) = last_n m xs"
  by (cases "length xs \<le> n") (auto simp: last_n_def intro: arg_cong [where f = "\<lambda>k. drop k xs"])

lemma last_n_rev: "last_n n xs = rev (take n (rev xs))"
  by (simp add: last_n_def take_rev)

lemma last_n_append: "last_n n (last_n n xs @ ys) = last_n n (xs @ ys)"
  by (simp add: last_n_rev min_def)

lemma tail_window: "m \<le> n \<Longrightarrow> tail_of m (last_n n xs) = tail_of m xs"
  by (simp add: tail_of_def last_n_again)

lemma record_all_window:
  "es \<noteq> [] \<Longrightarrow> record_all sha es stored = Some (last_n window_size ((case stored of None \<Rightarrow> [] | Some s \<Rightarrow> s) @ map (event_from sha) es))"
proof (induction es arbitrary: stored)
  case (Cons e es)
  show ?case
  proof (cases "es = []")
    case False
    then show ?thesis using Cons.IH by (simp add: record_event_def Let_def last_n_append)
  qed (simp add: record_event_def Let_def)
qed simp

lemma last_window: "0 < n \<Longrightarrow> xs \<noteq> [] \<Longrightarrow> last_n n xs \<noteq> [] \<and> last (last_n n xs) = last xs"
  by (cases xs) (auto simp: last_n_def last_drop)

text \<open>C20: twenty events are enough (\<open>recordEvent\<close>, \<open>detect\<close>): whatever the tool calls of a session, the detector that
  sees only the kept window answers as one that sees the whole session, and the window never holds more
  than twenty events.\<close>

theorem window_detects_as_history:
  assumes "evts \<noteq> []"
  shows "\<exists>kept. record_all sha evts None = Some kept \<and> length kept \<le> 20 \<and> detect disabled kept = detect disabled (map (event_from sha) evts)"
proof -
  let ?all = "map (event_from sha) evts"
  have kept: "record_all sha evts None = Some (last_n window_size ?all)" using record_all_window [OF assms] by simp
  have small: "same_action_repeat \<le> window_size" "same_error_repeat \<le> window_size" "pingpong_cycles * 2 \<le> window_size"
    by (simp_all add: same_action_repeat_def same_error_repeat_def pingpong_cycles_def window_size_def)
  have "last_n window_size ?all \<noteq> []" "last (last_n window_size ?all) = last ?all"
    using assms last_window [of window_size ?all] by (simp_all add: window_size_def)
  then have "detect disabled (last_n window_size ?all) = detect disabled ?all"
    using assms small
    by (simp add: detect_def same_action_def same_error_def ping_pong_def monologue_def tail_window)
  then show ?thesis using kept by (simp add: window_size_def)
qed

theorem window_detects_as_history_witness:
  "\<exists>kept. record_all (\<lambda>s. s) (replicate 25 (JObj [(''tool_name'', JStr ''Bash'')])) None = Some kept \<and> length kept \<le> 20 \<and>
     detect False kept = Some (Same_action ''Bash'')"
proof -
  have "detect False (map (event_from (\<lambda>s. s)) (replicate 25 (JObj [(''tool_name'', JStr ''Bash'')]))) = Some (Same_action ''Bash'')"
    by code_simp
  then show ?thesis
    using window_detects_as_history [of "replicate 25 (JObj [(''tool_name'', JStr ''Bash'')])" "\<lambda>s. s" False] by simp
qed

end
