(* ===== verification/Operator_Words.thy ===== *)
theory Operator_Words
  imports Js_Num
begin

text \<open>
  What an operator sends by telegram: the decision on a tool ticket
  (\<open>src/scripts/sma/lib/tool-decision.mjs\<close>) and the pairing of the chat by a code
  (\<open>src/daemon/src/telegram/pairing.mjs\<close> with the readers of the configuration in
  \<open>src/daemon/src/telegram/client.mjs\<close>).

  Random bytes are a list of numbers, the clock is an argument. \<open>toUpperCase\<close> is exact on 8-bit
  characters but for the two whose capital is not one; they are no letter of the code either way.
\<close>

section \<open>Words\<close>

lemma rest_shorter:
  assumes "dropWhile (\<lambda>c. \<not> P c) s \<noteq> []"
  shows "length (dropWhile P (dropWhile (\<lambda>c. \<not> P c) s)) < length s"
proof -
  obtain c cs where r: "dropWhile (\<lambda>c. \<not> P c) s = c # cs" using assms by (cases "dropWhile (\<lambda>c. \<not> P c) s") auto
  then have "P c" using hd_dropWhile [of "\<lambda>c. \<not> P c" s] by simp
  then have "length (dropWhile P (c # cs)) \<le> length cs" by (simp add: length_dropWhile_le)
  also have "\<dots> < length (dropWhile (\<lambda>c. \<not> P c) s)" using r by simp
  also have "\<dots> \<le> length s" by (rule length_dropWhile_le)
  finally show ?thesis using r by simp
qed

text \<open>\<open>s.split(/\s+/)\<close>.\<close>

function split_ws :: "string \<Rightarrow> string list" where
  "split_ws s =
     (let w = takeWhile (\<lambda>c. \<not> js_ws c) s; r = dropWhile (\<lambda>c. \<not> js_ws c) s
      in if r = [] then [w] else w # split_ws (dropWhile js_ws r))"
  by pat_completeness auto
termination by (relation "measure length") (simp_all add: rest_shorter)

declare split_ws.simps [simp del]

definition break_char :: "char \<Rightarrow> bool" where
  "break_char c \<longleftrightarrow> code_of c = 10 \<or> code_of c = 13"

text \<open>\<open>s.replace(/[\r\n]+/g, ' ')\<close>; the flag tells that the character before was a line break.\<close>

fun join_lines :: "bool \<Rightarrow> string \<Rightarrow> string" where
  "join_lines _ [] = []"
| "join_lines inside (c # cs) =
     (if break_char c then (if inside then join_lines True cs else CHR '' '' # join_lines True cs)
      else c # join_lines False cs)"

section \<open>Decisions on a ticket\<close>

definition ticket_decision_prefix :: string where "ticket_decision_prefix = ''sma-tool-decision/1''"

definition ticket_decisions :: "string list" where "ticket_decisions = [''approve'', ''deny'']"

text \<open>\<open>/^tk-[0-9a-f]{16}$/\<close>.\<close>

definition is_ticket_id :: "string \<Rightarrow> bool" where
  "is_ticket_id s \<longleftrightarrow> str_prefix ''tk-'' s \<and> length s = 19 \<and>
     list_all (\<lambda>c. is_digit c \<or> 97 \<le> code_of c \<and> code_of c \<le> 102) (drop 3 s)"

definition format_decision :: "jsval \<Rightarrow> jsval \<Rightarrow> jsval \<Rightarrow> string" where
  "format_decision ticket decision reason =
     (let word = (case decision of JStr d \<Rightarrow> if List.member ticket_decisions d then d else ''deny'' | _ \<Rightarrow> ''deny'');
          tail = js_trim (join_lines False (to_str (coalesce reason (JStr []))))
      in ticket_decision_prefix @ '' '' @ to_str (coalesce ticket (JStr [])) @ '' '' @ word @ (if tail = [] then [] else '' '' @ tail))"

record decision_view =
  dv_ticket :: string
  dv_decision :: string
  dv_reason :: string

definition parse_decision :: "jsval \<Rightarrow> decision_view option" where
  "parse_decision v =
     (case v of
        JStr s \<Rightarrow>
          let line = js_trim s in
          if \<not> str_prefix (ticket_decision_prefix @ '' '') line then None
          else let parts = split_ws (js_trim (drop (length ticket_decision_prefix + 1) line));
                   ticket = (case parts of [] \<Rightarrow> [] | p # _ \<Rightarrow> p);
                   decision = (case parts of _ # d # _ \<Rightarrow> d | _ \<Rightarrow> [])
               in if \<not> is_ticket_id ticket \<or> \<not> List.member ticket_decisions decision then None
                  else Some \<lparr>dv_ticket = ticket, dv_decision = decision, dv_reason = js_join '' '' (drop 2 parts)\<rparr>
      | _ \<Rightarrow> None)"

section \<open>Pairing of the chat\<close>

definition pairing_ttl_ms :: rat where "pairing_ttl_ms = 600000"

definition pairing_alphabet :: string where "pairing_alphabet = ''ABCDEFGHJKLMNPQRSTUVWXYZ23456789''"

definition pairing_code_length :: nat where "pairing_code_length = 8"

record pairing =
  pr_code :: string
  pr_expires :: rat

definition mint_pairing :: "jsnum \<Rightarrow> rat \<Rightarrow> nat list \<Rightarrow> pairing" where
  "mint_pairing now clock bytes =
     (let raw = map (\<lambda>b. pairing_alphabet ! (b mod length pairing_alphabet)) (take pairing_code_length bytes)
      in \<lparr>pr_code = take 4 raw @ ''-'' @ drop 4 raw,
          pr_expires = (case now of Fin t \<Rightarrow> t | _ \<Rightarrow> clock) + pairing_ttl_ms\<rparr>)"

definition upper_chars :: "char \<Rightarrow> string" where
  "upper_chars c = (let n = code_of c in
     if 97 \<le> n \<and> n \<le> 122 \<or> 224 \<le> n \<and> n \<le> 254 \<and> n \<noteq> 247 then [char_of (n - 32)]
     else if n = 223 then ''SS'' else [c])"

definition normalize_code :: "jsval \<Rightarrow> string" where
  "normalize_code v =
     filter (\<lambda>c. List.member pairing_alphabet c) (concat (map upper_chars (to_str (coalesce v (JStr [])))))"

definition code_from_message :: "jsval \<Rightarrow> string" where
  "code_from_message v = normalize_code (JStr (last (split_ws (js_trim (to_str (coalesce v (JStr [])))))))"

definition telegram_field :: "jsval \<Rightarrow> string \<Rightarrow> jsval" where
  "telegram_field config k =
     (if truthy config \<and> truthy (jget config ''telegram'') then jget (jget config ''telegram'') k else JUndef)"

definition pairing_of :: "jsval \<Rightarrow> pairing option" where
  "pairing_of config =
     (let raw = telegram_field config ''pairing'' in
      if \<not> is_object raw then None
      else let code = (case jget raw ''code'' of JStr s \<Rightarrow> s | _ \<Rightarrow> []) in
           case to_num (jget raw ''expiresAt'') of
             Fin e \<Rightarrow> if length (normalize_code (JStr code)) \<noteq> pairing_code_length then None
                      else Some \<lparr>pr_code = code, pr_expires = e\<rparr>
           | _ \<Rightarrow> None)"

definition pairing_live :: "jsval \<Rightarrow> jsnum \<Rightarrow> bool" where
  "pairing_live config now = (case pairing_of config of None \<Rightarrow> False | Some p \<Rightarrow> num_lt now (Fin (pr_expires p)))"

definition matches_pairing_code :: "jsval \<Rightarrow> jsval \<Rightarrow> jsnum \<Rightarrow> bool" where
  "matches_pairing_code config message now =
     (if \<not> pairing_live config now then False
      else case pairing_of config of
             None \<Rightarrow> False
           | Some p \<Rightarrow> let sent = code_from_message message in
               length sent = pairing_code_length \<and> sent = normalize_code (JStr (pr_code p)))"

definition telegram_bot_token :: "jsval \<Rightarrow> string option" where
  "telegram_bot_token config =
     (case telegram_field config ''botToken'' of JStr s \<Rightarrow> if js_trim s = [] then None else Some (js_trim s) | _ \<Rightarrow> None)"

definition telegram_chat_id :: "jsval \<Rightarrow> string option" where
  "telegram_chat_id config =
     (case telegram_field config ''chatId'' of
        JNum n \<Rightarrow> if is_finite_num n then Some (num_to_str n) else None
      | JStr s \<Rightarrow> if js_trim s = [] then None else Some (js_trim s)
      | _ \<Rightarrow> None)"

definition bot_token_tail :: "jsval \<Rightarrow> string option" where
  "bot_token_tail config = map_option (\<lambda>s. drop (length s - 4) s) (telegram_bot_token config)"

datatype link_view =
    Link_off
  | Linked string string "string option"
  | Awaiting_code string "(string \<times> rat) option" bool

definition telegram_link_view :: "jsval \<Rightarrow> jsnum \<Rightarrow> link_view" where
  "telegram_link_view config now =
     (case bot_token_tail config of
        None \<Rightarrow> Link_off
      | Some tail \<Rightarrow>
          (case telegram_chat_id config of
             Some chat \<Rightarrow> Linked tail chat
               (case telegram_field config ''chatTitle'' of JStr s \<Rightarrow> if js_trim s = [] then None else Some (js_trim s) | _ \<Rightarrow> None)
           | None \<Rightarrow>
               let live = pairing_live config now in
               Awaiting_code tail
                 (if live then map_option (\<lambda>p. (pr_code p, pr_expires p)) (pairing_of config) else None)
                 (pairing_of config \<noteq> None \<and> \<not> live)))"

section \<open>The words of a text\<close>

text \<open>The words by themselves, read character by character: \<open>w\<close> is the word under way.\<close>

fun tokens :: "string \<Rightarrow> string \<Rightarrow> string list" where
  "tokens w [] = (if w = [] then [] else [w])"
| "tokens w (c # cs) = (if js_ws c then (if w = [] then tokens [] cs else w # tokens [] cs) else tokens (w @ [c]) cs)"

abbreviation words_of :: "string \<Rightarrow> string list" where "words_of \<equiv> tokens []"

lemma tokens_word: "\<forall>c \<in> set v. \<not> js_ws c \<Longrightarrow> tokens w (v @ s) = tokens (w @ v) s"
  by (induction v arbitrary: w) auto

lemma tokens_skip: "words_of (dropWhile js_ws s) = words_of s"
  by (induction s) auto

lemma tokens_gap: "w \<noteq> [] \<Longrightarrow> s \<noteq> [] \<Longrightarrow> js_ws (hd s) \<Longrightarrow> tokens w s = w # words_of s"
  by (cases s) simp_all

lemma last_dropWhile: "dropWhile P s \<noteq> [] \<Longrightarrow> last (dropWhile P s) = last s"
  using last_appendR [of "dropWhile P s" "takeWhile P s"] by simp

lemma split_ws_words: "s \<noteq> [] \<Longrightarrow> \<not> js_ws (hd s) \<Longrightarrow> \<not> js_ws (last s) \<Longrightarrow> split_ws s = words_of s"
proof (induction s rule: split_ws.induct)
  case (1 s)
  let ?w = "takeWhile (\<lambda>c. \<not> js_ws c) s" and ?r = "dropWhile (\<lambda>c. \<not> js_ws c) s"
  have w: "?w \<noteq> []" using 1(2,3) by (cases s) auto
  have here: "words_of s = tokens ?w ?r"
    using tokens_word [of ?w "[]" ?r] by (metis append_Nil set_takeWhileD takeWhile_dropWhile_id)
  show ?case
  proof (cases "?r = []")
    case True
    then have "words_of s = [?w]" using here w by (simp only: tokens.simps if_False)
    moreover have "split_ws s = [?w]" by (subst split_ws.simps) (simp only: Let_def True simp_thms if_True)
    ultimately show ?thesis by (simp only:)
  next
    case False
    let ?d = "dropWhile js_ws ?r"
    have gap: "js_ws (hd ?r)" using hd_dropWhile [OF False] by simp
    have last_r: "last ?r = last s" by (rule last_dropWhile [OF False])
    have d: "?d \<noteq> []" using last_in_set [OF False] last_r 1(4) by (auto simp: dropWhile_eq_Nil_conv)
    then have "\<not> js_ws (hd ?d)" by (rule hd_dropWhile)
    moreover have "last ?d = last s" using last_dropWhile [OF d] last_r by simp
    ultimately have "split_ws ?d = words_of ?d" using 1(1) [OF refl refl False] d 1(4) by simp
    moreover have "tokens ?w ?r = ?w # words_of ?r" by (rule tokens_gap [OF w False gap])
    moreover have "split_ws s = ?w # split_ws ?d" by (subst split_ws.simps) (simp only: Let_def False if_False)
    ultimately show ?thesis using here by (simp only: tokens_skip)
  qed
qed

lemma break_space: "break_char c \<Longrightarrow> js_ws c"
  by (auto simp: break_char_def js_ws_def Let_def)

lemma tokens_join: "tokens w (join_lines False s) = tokens w s" "words_of (join_lines True s) = words_of s"
proof (induction s arbitrary: w)
  case (Cons c s)
  have blank: "js_ws (CHR '' '')" by (simp add: js_ws_def code_of_def)
  { case 1 then show ?case using Cons blank break_space [of c] by simp }
  { case 2 then show ?case using Cons blank break_space [of c] by simp }
qed simp_all

lemma tokens_trailing: "\<forall>c \<in> set v. js_ws c \<Longrightarrow> tokens w (s @ v) = tokens w s"
proof (induction s arbitrary: w)
  case Nil
  have "words_of v = []" if "\<forall>c \<in> set v. js_ws c" for v using that by (induction v) auto
  then show ?case using Nil by (cases v) auto
qed simp

lemma words_trim: "words_of (js_trim s) = words_of s"
proof -
  let ?d = "dropWhile js_ws s"
  have "?d = js_trim s @ rev (takeWhile js_ws (rev ?d))"
    by (metis js_trim_def rev_append rev_rev_ident takeWhile_dropWhile_id)
  moreover have "\<forall>c \<in> set (rev (takeWhile js_ws (rev ?d))). js_ws c" by (auto dest: set_takeWhileD)
  ultimately have "words_of ?d = words_of (js_trim s)" using tokens_trailing by metis
  then show ?thesis by (simp add: tokens_skip)
qed

lemma ticket_solid:
  assumes "is_ticket_id t"
  shows "t \<noteq> []" "\<forall>c \<in> set t. \<not> js_ws c"
proof -
  have t: "t = ''tk-'' @ drop 3 t" using assms by (auto simp: is_ticket_id_def str_prefix_iff prefix_def)
  then show "t \<noteq> []" by auto
  have "\<forall>c \<in> set (drop 3 t). \<not> js_ws c"
    using assms by (auto simp: is_ticket_id_def list_all_iff is_digit_def js_ws_def Let_def)
  moreover have "\<forall>c \<in> set ''tk-''. \<not> js_ws c" by (simp add: js_ws_def code_of_def)
  ultimately show "\<forall>c \<in> set t. \<not> js_ws c" by (subst t) (auto simp del: append_take_drop_id)
qed

text \<open>The outcome a decision reads as: an unknown word denies.\<close>

definition decided :: "jsval \<Rightarrow> string" where
  "decided d = (if d = JStr ''approve'' then ''approve'' else ''deny'')"

lemma decided_word:
  "(case d of JStr x \<Rightarrow> if List.member ticket_decisions x then x else ''deny'' | _ \<Rightarrow> ''deny'') = decided d"
  by (cases d) (auto simp: decided_def ticket_decisions_def)

lemma decided_solid: "decided d \<noteq> []" "\<forall>c \<in> set (decided d). \<not> js_ws c" "List.member ticket_decisions (decided d)"
  by (auto simp: decided_def ticket_decisions_def js_ws_def code_of_def)

lemma spaced_words:
  assumes "w \<noteq> []" "\<forall>c \<in> set w. \<not> js_ws c"
  shows "words_of (w @ '' '' @ s) = w # words_of s" "words_of w = [w]"
proof -
  have "js_ws (CHR '' '')" by (simp add: js_ws_def code_of_def)
  then show "words_of (w @ '' '' @ s) = w # words_of s" using assms tokens_word [of w "[]" "'' '' @ s"] by simp
  show "words_of w = [w]" using assms tokens_word [of w "[]" "[]"] by simp
qed

text \<open>C19: a decision written by the button is read by the hook (\<open>formatDecision\<close>, \<open>parseDecision\<close>): for every ticket id of
  the declared form the parser gives the same ticket, \<open>approve\<close> only if the decision was the word
  \<open>approve\<close> and \<open>deny\<close> for everything else, and the words of the reason, whatever its line breaks and
  spaces.\<close>

theorem decision_round_trip:
  assumes "is_ticket_id t"
  shows "parse_decision (JStr (format_decision (JStr t) d r)) =
    Some \<lparr>dv_ticket = t, dv_decision = decided d, dv_reason = js_join '' '' (words_of (to_str (coalesce r (JStr []))))\<rparr>"
proof -
  let ?p = ticket_decision_prefix
  define reason where "reason = to_str (coalesce r (JStr []))"
  define tail where "tail = js_trim (join_lines False reason)"
  define rest where "rest = t @ '' '' @ decided d @ (if tail = [] then [] else '' '' @ tail)"
  have line: "format_decision (JStr t) d r = ?p @ '' '' @ rest"
    by (simp add: format_decision_def decided_word Let_def rest_def tail_def reason_def coalesce_def is_nullish_def)
  have ends: "rest \<noteq> []" "\<not> js_ws (hd rest)" "\<not> js_ws (last rest)"
    using ticket_solid [OF assms] decided_solid [of d] trim_ends(2) [of "join_lines False reason"]
    by (auto simp: rest_def tail_def hd_append)
  have "hd ?p = CHR ''s''" "?p \<noteq> []" by (simp_all add: ticket_decision_prefix_def)
  moreover have "\<not> js_ws (CHR ''s'')" by (simp add: js_ws_def code_of_def)
  ultimately have "js_trim (?p @ '' '' @ rest) = ?p @ '' '' @ rest"
    using ends by (intro js_trim_ends) (auto simp: hd_append)
  moreover have "str_prefix (?p @ '' '') (?p @ '' '' @ rest)"
    using str_prefix_append [of "?p @ '' ''" rest] by simp
  moreover have "drop (length ?p + 1) (?p @ '' '' @ rest) = rest" by simp
  moreover have "js_trim rest = rest" by (rule js_trim_ends [OF ends])
  moreover have "split_ws rest = t # decided d # words_of tail"
    using split_ws_words [OF ends] spaced_words [OF ticket_solid [OF assms]] spaced_words [OF decided_solid(1,2)]
    by (simp add: rest_def)
  moreover have "words_of tail = words_of reason" by (simp add: tail_def words_trim tokens_join)
  ultimately show ?thesis
    using assms decided_solid(3) [of d] by (simp add: parse_decision_def line reason_def numeral_2_eq_2)
qed

theorem decision_round_trip_witness:
  "parse_decision (JStr (format_decision (JStr ''tk-0123456789abcdef'') (JStr ''allow'') (JStr '' no ''))) =
     Some \<lparr>dv_ticket = ''tk-0123456789abcdef'', dv_decision = ''deny'', dv_reason = ''no''\<rparr>"
proof -
  have "is_ticket_id ''tk-0123456789abcdef''" by code_simp
  from decision_round_trip [OF this, of "JStr ''allow''" "JStr '' no ''"]
  show ?thesis by (simp add: decided_def coalesce_def is_nullish_def js_ws_def code_of_def)
qed

section \<open>The code of the chat\<close>

lemma letter_upper: "List.member pairing_alphabet c \<Longrightarrow> upper_chars c = [c]"
  by (auto simp: pairing_alphabet_def upper_chars_def code_of_def)

lemma letter_solid: "List.member pairing_alphabet c \<Longrightarrow> \<not> js_ws c"
  by (auto simp: pairing_alphabet_def js_ws_def code_of_def)

lemma raw_letters:
  "\<forall>c \<in> set (map (\<lambda>b. pairing_alphabet ! (b mod length pairing_alphabet)) bytes). List.member pairing_alphabet c"
proof -
  have "pairing_alphabet ! (b mod length pairing_alphabet) \<in> set pairing_alphabet" for b
    by (rule nth_mem) (simp add: pairing_alphabet_def)
  then show ?thesis by auto
qed

lemma letters_kept: "\<forall>c \<in> set s. List.member pairing_alphabet c \<Longrightarrow>
    filter (\<lambda>c. List.member pairing_alphabet c) (concat (map upper_chars s)) = s"
  by (induction s) (simp_all add: letter_upper)

lemma normalize_minted: "length bytes = 8 \<Longrightarrow>
    normalize_code (JStr (pr_code (mint_pairing now clock bytes))) =
      map (\<lambda>b. pairing_alphabet ! (b mod length pairing_alphabet)) bytes"
proof -
  assume len: "length bytes = 8"
  define raw where "raw = map (\<lambda>b. pairing_alphabet ! (b mod length pairing_alphabet)) bytes"
  have mem: "\<forall>c \<in> set raw. List.member pairing_alphabet c" unfolding raw_def by (rule raw_letters)
  have halves: "\<forall>c \<in> set (take 4 raw). List.member pairing_alphabet c" "\<forall>c \<in> set (drop 4 raw). List.member pairing_alphabet c"
    using mem by (auto dest: in_set_takeD in_set_dropD)
  have dash: "upper_chars (CHR ''-'') = ''-''" "CHR ''-'' \<notin> set pairing_alphabet"
    by (simp_all add: upper_chars_def code_of_def pairing_alphabet_def)
  have "pr_code (mint_pairing now clock bytes) = take 4 raw @ ''-'' @ drop 4 raw"
    using len by (simp add: mint_pairing_def Let_def raw_def pairing_code_length_def)
  then show ?thesis
    using letters_kept [OF halves(1)] letters_kept [OF halves(2)]
    by (simp add: normalize_code_def coalesce_def is_nullish_def dash raw_def)
qed

lemma minted_solid: "length bytes = 8 \<Longrightarrow> \<forall>c \<in> set (pr_code (mint_pairing now clock bytes)). \<not> js_ws c"
  using raw_letters [of "take 8 bytes"] letter_solid
  by (auto simp: mint_pairing_def Let_def pairing_code_length_def js_ws_def code_of_def
      simp del: set_map dest!: in_set_takeD in_set_dropD)

lemma minted_nonempty: "pr_code (mint_pairing now clock bytes) \<noteq> []"
  by (simp add: mint_pairing_def Let_def)

lemma tokens_last: "js_ws c \<Longrightarrow> \<exists>ws. tokens w (g @ c # s) = ws @ words_of s"
proof (induction g arbitrary: w)
  case (Cons x g)
  show ?case using Cons.IH [OF Cons.prems] by (cases "js_ws x"; cases "w = []") (auto, metis append_Cons)+
qed (auto intro: exI [of _ "[]"])

lemma last_word:
  assumes "w \<noteq> []" "\<forall>c \<in> set w. \<not> js_ws c"
  shows "last (split_ws (js_trim (g @ '' '' @ w))) = w"
proof -
  have space: "js_ws (CHR '' '')" by (simp add: js_ws_def code_of_def)
  obtain ws where words: "words_of (g @ '' '' @ w) = ws @ [w]"
    using tokens_last [OF space, of "[]" g w] spaced_words(2) [OF assms] by auto
  let ?t = "js_trim (g @ '' '' @ w)"
  have "?t \<noteq> []" using words words_trim [of "g @ '' '' @ w"] by auto
  then have "split_ws ?t = words_of ?t" using trim_ends by (intro split_ws_words)
  then show ?thesis using words by (simp only: words_trim last_snoc)
qed

text \<open>C30: a pairing code opens the chat until it expires and never after (\<open>mintPairing\<close>, \<open>matchesPairingCode\<close>): written
  into the configuration and sent back as the last word of any message, a code minted from eight random
  bytes is accepted exactly while the time is before ten minutes after the minting.\<close>

theorem pairing_code_opens_until_expiry:
  assumes "length bytes = 8"
  shows "matches_pairing_code
      (JObj [(''telegram'', JObj [(''pairing'', JObj [(''code'', JStr (pr_code (mint_pairing (Fin t) clock bytes))),
         (''expiresAt'', JNum (Fin (pr_expires (mint_pairing (Fin t) clock bytes))))])])])
      (JStr (greeting @ '' '' @ pr_code (mint_pairing (Fin t) clock bytes))) now \<longleftrightarrow>
    num_lt now (Fin (t + 600000))"
proof -
  let ?m = "mint_pairing (Fin t) clock bytes"
  let ?config = "JObj [(''telegram'', JObj [(''pairing'', JObj [(''code'', JStr (pr_code ?m)), (''expiresAt'', JNum (Fin (pr_expires ?m)))])])]"
  have expires: "pr_expires ?m = t + 600000" by (simp add: mint_pairing_def Let_def pairing_ttl_ms_def)
  have len: "length (normalize_code (JStr (pr_code ?m))) = pairing_code_length"
    by (simp add: normalize_minted [OF assms] assms pairing_code_length_def)
  have "telegram_field ?config ''pairing'' = JObj [(''code'', JStr (pr_code ?m)), (''expiresAt'', JNum (Fin (pr_expires ?m)))]"
    by (simp add: telegram_field_def own_get_def proto_names_def)
  then have stored: "pairing_of ?config = Some ?m"
    by (simp add: pairing_of_def Let_def is_object_def own_get_def proto_names_def len)
  have "code_from_message (JStr (greeting @ '' '' @ pr_code ?m)) = normalize_code (JStr (pr_code ?m))"
    using last_word [OF minted_nonempty minted_solid [OF assms]]
    by (simp add: code_from_message_def coalesce_def is_nullish_def)
  then show ?thesis unfolding matches_pairing_code_def pairing_live_def stored Let_def by (simp add: len expires)
qed

theorem pairing_code_opens_until_expiry_witness:
  "matches_pairing_code
      (JObj [(''telegram'', JObj [(''pairing'', JObj [(''code'', JStr (pr_code (mint_pairing (Fin 1) 0 [0, 1, 2, 3, 4, 5, 6, 39]))),
         (''expiresAt'', JNum (Fin (pr_expires (mint_pairing (Fin 1) 0 [0, 1, 2, 3, 4, 5, 6, 39]))))])])])
      (JStr (''/start'' @ '' '' @ pr_code (mint_pairing (Fin 1) 0 [0, 1, 2, 3, 4, 5, 6, 39]))) (Fin 600000) \<and>
    pr_code (mint_pairing (Fin 1) 0 [0, 1, 2, 3, 4, 5, 6, 39]) = ''ABCD-EFGH''"
  using pairing_code_opens_until_expiry [of "[0, 1, 2, 3, 4, 5, 6, 39]" 1 0 "''/start''" "Fin 600000"]
  by (simp add: mint_pairing_def Let_def pairing_code_length_def pairing_alphabet_def)

end
