(* ===== verification/Phase_Cycle.thy ===== *)
theory Phase_Cycle
  imports Js_Text
begin

text \<open>
  The command that starts a stage of a phase (\<open>src/daemon/src/policy/phase-cycle.mjs\<close>) and its wall against
  automation flags. The titles of the stages are words and left out.
\<close>

definition stage_commands :: "(string \<times> string) list" where
  "stage_commands =
    [(''discuss'', ''/sma-discuss-phase {phase} --batch --text''), (''plan'', ''/sma-plan-phase {phase} --text --skip-research''),
     (''design'', ''/sma-design-phase {phase} --text''), (''execute'', ''/sma-execute-phase {phase}''),
     (''verify'', ''/sma-verify-work {phase} --text'')]"

definition letter_or_digit :: "char \<Rightarrow> bool" where
  "letter_or_digit c \<longleftrightarrow> is_digit c \<or> 65 \<le> code_of c \<and> code_of c \<le> 90 \<or> 97 \<le> code_of c \<and> code_of c \<le> 122"

text \<open>\<open>/^[A-Za-z0-9][A-Za-z0-9._-]{0,63}$/\<close>.\<close>

definition is_phase :: "string \<Rightarrow> bool" where
  "is_phase s \<longleftrightarrow> (case s of [] \<Rightarrow> False
     | c # cs \<Rightarrow> letter_or_digit c \<and> length cs \<le> 63 \<and>
         list_all (\<lambda>x. letter_or_digit x \<or> x = CHR ''.'' \<or> x = CHR ''_'' \<or> x = CHR ''-'') cs)"

text \<open>\<open>/(^|\s)--(auto|bare|dangerously-skip-permissions|permission-mode)(\s|=|$)/\<close>.\<close>

definition automation_flags :: "string list" where
  "automation_flags = [''--auto'', ''--bare'', ''--dangerously-skip-permissions'', ''--permission-mode'']"

definition flag_ends :: "string \<Rightarrow> bool" where
  "flag_ends s \<longleftrightarrow> (case s of [] \<Rightarrow> True | c # _ \<Rightarrow> js_ws c \<or> c = CHR ''='')"

fun automated :: "bool \<Rightarrow> string \<Rightarrow> bool" where
  "automated start [] = False"
| "automated start (c # cs) =
     (start \<and> list_ex (\<lambda>f. str_prefix f (c # cs) \<and> flag_ends (drop (length f) (c # cs))) automation_flags
      \<or> automated (js_ws c) cs)"

text \<open>\<open>text.replace('{phase}', phase)\<close>: the first occurrence.\<close>

fun put_phase :: "string \<Rightarrow> string \<Rightarrow> string" where
  "put_phase phase [] = []"
| "put_phase phase (c # cs) =
     (if str_prefix ''{phase}'' (c # cs) then phase @ drop 7 (c # cs) else c # put_phase phase cs)"

datatype stage_result = Not_a_stage | Command string | Refused_flag string

definition assert_no_automation :: "string \<Rightarrow> stage_result" where
  "assert_no_automation cmd = (if automated True cmd then Refused_flag cmd else Command cmd)"

definition stage_command :: "string \<Rightarrow> jsval \<Rightarrow> stage_result" where
  "stage_command stage phase =
     (case map_of stage_commands stage of
        None \<Rightarrow> Not_a_stage
      | Some template \<Rightarrow>
          let s = (if is_nullish phase then [] else to_str phase) in
          if \<not> is_phase s then Not_a_stage else assert_no_automation (put_phase s template))"

section \<open>No automation\<close>

lemma phase_chars: "is_phase s \<Longrightarrow> \<forall>c \<in> set s. \<not> js_ws c"
  by (cases s) (auto simp: is_phase_def letter_or_digit_def is_digit_def js_ws_def Let_def code_of_def list_all_iff)

lemma automated_inside: "\<forall>c \<in> set w. \<not> js_ws c \<Longrightarrow> automated False (w @ s) = automated False s"
  by (induction w) auto

lemma phase_start: "is_phase s \<Longrightarrow> hd s \<noteq> CHR ''-''"
  by (cases s) (auto simp: is_phase_def letter_or_digit_def is_digit_def code_of_def)

lemma automated_phase:
  assumes "is_phase s"
  shows "automated True (s @ r) = automated False r"
proof -
  obtain c cs where s: "s = c # cs" using assms by (cases s) (auto simp: is_phase_def)
  have "c \<noteq> CHR ''-''" using phase_start [OF assms] by (simp add: s)
  then have "\<not> str_prefix f (c # cs @ r)" if "f \<in> set automation_flags" for f
    using that by (auto simp: automation_flags_def)
  then have "automated True (s @ r) = automated (js_ws c) (cs @ r)" by (auto simp: s list_ex_iff)
  also have "\<dots> = automated False r"
    using phase_chars [OF assms] automated_inside [of cs r] by (simp add: s)
  finally show ?thesis .
qed

lemma spaces: "js_ws (CHR '' '')" by (simp add: js_ws_def code_of_def)

lemma put_phase_template: "\<forall>c \<in> set a. c \<noteq> CHR ''{'' \<Longrightarrow> put_phase p (a @ ''{phase}'' @ b) = a @ p @ b"
  by (induction a) auto

text \<open>A template is a head, the phase, and a tail that carry no flag.\<close>

lemma templates:
  assumes "(stage, template) \<in> set stage_commands"
  shows "\<exists>a b. template = a @ '' '' @ ''{phase}'' @ b \<and> (\<forall>c \<in> set a. c \<noteq> CHR ''{'' \<and> \<not> js_ws c) \<and> a \<noteq> [] \<and> hd a \<noteq> CHR ''-'' \<and>
    \<not> automated False b"
proof -
  have "template \<in> {''/sma-discuss-phase'' @ '' '' @ ''{phase}'' @ '' --batch --text'',
      ''/sma-plan-phase'' @ '' '' @ ''{phase}'' @ '' --text --skip-research'', ''/sma-design-phase'' @ '' '' @ ''{phase}'' @ '' --text'',
      ''/sma-execute-phase'' @ '' '' @ ''{phase}'' @ [], ''/sma-verify-work'' @ '' '' @ ''{phase}'' @ '' --text''}"
    using assms by (auto simp: stage_commands_def)
  moreover have "\<not> automated False '' --batch --text''" "\<not> automated False '' --text --skip-research''" "\<not> automated False '' --text''"
    by code_simp+
  moreover have solid: "\<forall>c \<in> set ''/sma-discuss-phase''. c \<noteq> CHR ''{'' \<and> \<not> js_ws c" "\<forall>c \<in> set ''/sma-plan-phase''. c \<noteq> CHR ''{'' \<and> \<not> js_ws c"
    "\<forall>c \<in> set ''/sma-design-phase''. c \<noteq> CHR ''{'' \<and> \<not> js_ws c" "\<forall>c \<in> set ''/sma-execute-phase''. c \<noteq> CHR ''{'' \<and> \<not> js_ws c"
    "\<forall>c \<in> set ''/sma-verify-work''. c \<noteq> CHR ''{'' \<and> \<not> js_ws c"
    by code_simp+
  ultimately show ?thesis
    by (elim insertE emptyE) (rule exI, rule exI, rule conjI, assumption, simp)+
qed

text \<open>A stage command never carries an automation flag (\<open>stageCommand\<close>, \<open>assertNoAutomation\<close>): for every stage and
  every phase, whatever text stands for it, the wall has nothing to refuse, and the command that is built
  has no \<open>--auto\<close>, \<open>--bare\<close>, \<open>--permission-mode\<close> or skipping of permissions as a word.\<close>

theorem stage_command_not_automated:
  "case stage_command stage phase of Not_a_stage \<Rightarrow> True | Command cmd \<Rightarrow> \<not> automated True cmd | Refused_flag _ \<Rightarrow> False"
proof (cases "map_of stage_commands stage")
  case (Some template)
  define s where "s = (if is_nullish phase then [] else to_str phase)"
  show ?thesis
  proof (cases "is_phase s")
    case True
    obtain a b where t: "template = a @ '' '' @ ''{phase}'' @ b" and a: "\<forall>c \<in> set a. c \<noteq> CHR ''{'' \<and> \<not> js_ws c" "a \<noteq> []" "hd a \<noteq> CHR ''-''"
      and b: "\<not> automated False b"
      using templates map_of_SomeD [OF Some] by meson
    have "put_phase s template = (a @ '' '') @ s @ b"
      unfolding t using put_phase_template [of "a @ '' ''" s b] a by simp
    moreover obtain c cs where ac: "a = c # cs" using a(2) by (cases a) auto
    have "automated True (a @ '' '' @ s @ b) = automated (js_ws c) (cs @ '' '' @ s @ b)"
      using a(3) by (auto simp: ac automation_flags_def)
    then have "automated True (a @ '' '' @ s @ b) = automated True (s @ b)"
      using a(1) automated_inside [of cs "'' '' @ s @ b"] spaces by (simp add: ac)
    ultimately have "\<not> automated True (put_phase s template)" using automated_phase [OF True, of b] b by simp
    then show ?thesis using Some True by (simp add: stage_command_def s_def [symmetric] Let_def assert_no_automation_def)
  next
    case False
    then show ?thesis using Some by (simp add: stage_command_def s_def [symmetric] Let_def)
  qed
qed (simp add: stage_command_def)

end
