(* ===== verification/Scopes.thy ===== *)
theory Scopes
  imports Slots Merge_Paths
begin

text \<open>
  The scopes terminals claim (\<open>src/scripts/sma/lib/collision.mjs\<close>, and the naming leaf
  \<open>src/scripts/sma/lib/translit.mjs\<close>): how a path and a glob are normalised, how a glob is compiled and tested,
  how an absolute path is read against the root, and the name under which a scope is filed.

  \<open>compileGlob\<close> writes a regular expression; here it is the list of its parts, and \<open>glob_test\<close> is the match
  of that expression from the first character to the last. The letters of the transliteration table lie
  outside the code units of the model, so transliteration is the lower-casing it starts with.
\<close>

section \<open>Paths\<close>

fun single_slashes :: "string \<Rightarrow> string" where
  "single_slashes [] = []"
| "single_slashes (c # cs) =
     (if c = CHR ''/'' \<and> (case cs of d # _ \<Rightarrow> d = CHR ''/'' | [] \<Rightarrow> False) then single_slashes cs
      else c # single_slashes cs)"

definition norm_path :: "jsval \<Rightarrow> string" where
  "norm_path p = (if is_nullish p then [] else single_slashes (forward_slashes (js_lower (to_str p))))"

definition hot_files :: "string list" where
  "hot_files = map (\<lambda>p. norm_path (JStr p)) [''.planning/STATE.md'', ''.planning/ROADMAP.md'', ''.claude/memory/MEMORY.md'']"

definition without_end_slashes :: "string \<Rightarrow> string" where
  "without_end_slashes s = rev (dropWhile (\<lambda>c. c = CHR ''/'') (rev s))"

text \<open>The root as the detector and the probe spell it: normalised, with one slash behind.\<close>

definition root_prefix :: "string \<Rightarrow> string" where
  "root_prefix r = without_end_slashes (norm_path (JStr r)) @ ''/''"

definition relativize_path :: "string \<Rightarrow> string \<Rightarrow> string" where
  "relativize_path p base = (if base = [] then p else if str_prefix base p then drop (length base) p else p)"

section \<open>Globs\<close>

datatype glob_part = Any_run | Segment_run | Literal char

text \<open>Two stars also swallow a slash behind them.\<close>

definition after_stars :: "string \<Rightarrow> string" where
  "after_stars cs = (case cs of c # ds \<Rightarrow> if c = CHR ''/'' then ds else cs | [] \<Rightarrow> [])"

lemma after_stars_shorter [simp]: "length (after_stars cs) \<le> length cs"
  by (simp add: after_stars_def split: list.split)

function glob_parts :: "string \<Rightarrow> glob_part list" where
  "glob_parts [] = []"
| "glob_parts (c # cs) =
     (if c \<noteq> CHR ''*'' then Literal c # glob_parts cs
      else case cs of
             d # ds \<Rightarrow> if d = CHR ''*'' then Any_run # glob_parts (after_stars ds) else Segment_run # glob_parts cs
           | [] \<Rightarrow> [Segment_run])"
  by pat_completeness auto
termination
  by (relation "measure length") (auto simp: le_imp_less_Suc le_SucI)

definition compile_glob :: "jsval \<Rightarrow> glob_part list" where
  "compile_glob g = glob_parts (norm_path g)"

text \<open>A dot of a regular expression does not match the end of a line; a negated class does.\<close>

fun glob_test :: "glob_part list \<Rightarrow> string \<Rightarrow> bool" where
  "glob_test [] s = (s = [])"
| "glob_test (Any_run # ps) s =
     (glob_test ps s \<or> (case s of [] \<Rightarrow> False | c # cs \<Rightarrow> \<not> line_end c \<and> glob_test (Any_run # ps) cs))"
| "glob_test (Segment_run # ps) s =
     (glob_test ps s \<or> (case s of [] \<Rightarrow> False | c # cs \<Rightarrow> c \<noteq> CHR ''/'' \<and> glob_test (Segment_run # ps) cs))"
| "glob_test (Literal x # ps) s = (case s of [] \<Rightarrow> False | c # cs \<Rightarrow> c = x \<and> glob_test ps cs)"

section \<open>The name of a scope\<close>

definition translit_to_latin :: "string \<Rightarrow> string" where
  "translit_to_latin s = js_lower s"

definition slug_letter :: "char \<Rightarrow> bool" where
  "slug_letter c \<longleftrightarrow> (let n = code_of c in (97 \<le> n \<and> n \<le> 122) \<or> (48 \<le> n \<and> n \<le> 57))"

definition machine_name :: "string \<Rightarrow> string" where
  "machine_name s = strip_dashes (dash_runs slug_letter False s)"

text \<open>\<open>sha1\<close> is the hexadecimal digest of the language's library.\<close>

definition slug_hash :: "(string \<Rightarrow> string) \<Rightarrow> string \<Rightarrow> string" where
  "slug_hash sha1 s = take 8 (sha1 s)"

definition scope_claim_slug :: "(string \<Rightarrow> string) \<Rightarrow> jsval \<Rightarrow> string" where
  "scope_claim_slug sha1 src =
     (let cleaned = machine_name (translit_to_latin (norm_path (js_or src (JStr ''claim''))))
      in if \<not> truthy src then (if cleaned = [] then ''claim'' else cleaned)
         else if cleaned = [] \<or> cleaned = ''claim'' then ''claim-'' @ slug_hash sha1 (to_str src)
         else cleaned)"

section \<open>What a glob accepts\<close>

definition runs :: "(char \<Rightarrow> bool) \<Rightarrow> string set" where
  "runs P = {s. list_all P s}"

fun part_lang :: "glob_part \<Rightarrow> string set" where
  "part_lang Any_run = runs (\<lambda>c. \<not> line_end c)"
| "part_lang Segment_run = runs (\<lambda>c. c \<noteq> CHR ''/'')"
| "part_lang (Literal x) = {[x]}"

text \<open>The language of a glob: the concatenations of a word of each part.\<close>

fun glob_lang :: "glob_part list \<Rightarrow> string set" where
  "glob_lang [] = {[]}"
| "glob_lang (p # ps) = {u @ v | u v. u \<in> part_lang p \<and> v \<in> glob_lang ps}"

definition run_then :: "(char \<Rightarrow> bool) \<Rightarrow> string set \<Rightarrow> string set" where
  "run_then P L = {u @ v | u v. u \<in> runs P \<and> v \<in> L}"

lemma run_then_Nil: "[] \<in> run_then P L \<longleftrightarrow> [] \<in> L"
  by (auto simp: run_then_def runs_def)

lemma run_then_Cons: "c # cs \<in> run_then P L \<longleftrightarrow> c # cs \<in> L \<or> P c \<and> cs \<in> run_then P L"
proof
  assume "c # cs \<in> run_then P L"
  then obtain u v where uv: "c # cs = u @ v" "list_all P u" "v \<in> L" by (auto simp: run_then_def runs_def)
  then show "c # cs \<in> L \<or> P c \<and> cs \<in> run_then P L"
    by (cases u) (auto simp: run_then_def runs_def)
next
  assume "c # cs \<in> L \<or> P c \<and> cs \<in> run_then P L"
  then show "c # cs \<in> run_then P L"
  proof
    assume "c # cs \<in> L"
    then show ?thesis unfolding run_then_def runs_def by (metis (mono_tags, lifting) append_Nil list.pred_inject(1) mem_Collect_eq)
  next
    assume "P c \<and> cs \<in> run_then P L"
    then obtain u v where "P c" "cs = u @ v" "list_all P u" "v \<in> L" by (auto simp: run_then_def runs_def)
    then have "c # cs = (c # u) @ v \<and> c # u \<in> runs P \<and> v \<in> L" by (simp add: runs_def)
    then show ?thesis unfolding run_then_def by blast
  qed
qed

lemma glob_lang_run:
  "glob_lang (Any_run # ps) = run_then (\<lambda>c. \<not> line_end c) (glob_lang ps)"
  "glob_lang (Segment_run # ps) = run_then (\<lambda>c. c \<noteq> CHR ''/'') (glob_lang ps)"
  by (simp_all add: run_then_def)

lemma glob_lang_literal: "s \<in> glob_lang (Literal x # ps) \<longleftrightarrow> (\<exists>cs. s = x # cs \<and> cs \<in> glob_lang ps)"
  by auto

lemma glob_test_lang: "glob_test ps s \<longleftrightarrow> s \<in> glob_lang ps"
proof (induction ps s rule: glob_test.induct)
  case (2 ps s)
  show ?case unfolding glob_lang_run
    by (cases s) (use 2 in \<open>simp_all add: run_then_Nil run_then_Cons glob_lang_run del: glob_lang.simps\<close>)
next
  case (3 ps s)
  show ?case unfolding glob_lang_run
    by (cases s) (use 3 in \<open>simp_all add: run_then_Nil run_then_Cons glob_lang_run del: glob_lang.simps\<close>)
next
  case (4 x ps s)
  show ?case unfolding glob_lang_literal by (cases s) (use 4 in auto)
qed simp

text \<open>A glob without stars accepts its own spelling only; a directory glob everything under the directory.\<close>

lemma literal_parts: "CHR ''*'' \<notin> set s \<Longrightarrow> glob_parts (s @ t) = map Literal s @ glob_parts t"
  by (induction s) auto

lemma glob_lang_literals: "p \<in> glob_lang (map Literal s @ ps) \<longleftrightarrow> (\<exists>r. p = s @ r \<and> r \<in> glob_lang ps)"
  by (induction s arbitrary: p) (auto simp del: glob_lang.simps(2) simp: glob_lang_literal)

lemma plain_glob: "CHR ''*'' \<notin> set s \<Longrightarrow> glob_test (glob_parts s) p \<longleftrightarrow> p = s"
  using literal_parts [of s "[]"] glob_lang_literals [of p s "[]"] by (simp add: glob_test_lang)

lemma directory_glob:
  "CHR ''*'' \<notin> set s \<Longrightarrow> glob_test (glob_parts (s @ ''/**'')) p \<longleftrightarrow> (\<exists>r. p = s @ ''/'' @ r \<and> list_all (\<lambda>c. \<not> line_end c) r)"
  using glob_lang_literals [of p "s @ ''/''" "[Any_run]"] literal_parts [of "s @ ''/''" "''**''"]
  by (simp add: glob_test_lang after_stars_def runs_def)

end
