(* ===== verification/Sessions.thy ===== *)
theory Sessions
  imports Scopes
begin

text \<open>
  The registry of the terminals' sessions (\<open>src/scripts/sma/lib/registry.mjs\<close>): who a window is, the lease each
  window keeps in a file of its own, how a lease is renewed, graded, dropped and reaped.

  The directory of leases is the list of its files with the value their JSON reads as, \<open>JNull\<close> when it does not
  parse; \<open>None\<close> when there is no directory. What a file holds after a write is \<open>as_json\<close> of the value. The
  environment is the record \<open>registry_env\<close>: the clock, the files that can be written or removed, what a signal to a
  process answers, the digest and the variables of the process. A failed write leaves a sibling whose name the
  registry does not read. The intervals are those of \<open>constants.mjs\<close>. A digest is no name every object inherits.
\<close>

section \<open>Values in files\<close>

text \<open>\<open>JSON.parse(JSON.stringify(v))\<close>.\<close>

fun as_json :: "jsval \<Rightarrow> jsval" and json_members :: "jsmap \<Rightarrow> jsmap" where
  "as_json JUndef = JNull"
| "as_json JNull = JNull"
| "as_json (JBool b) = JBool b"
| "as_json (JNum n) = (if is_finite_num n then JNum n else JNull)"
| "as_json (JStr s) = JStr s"
| "as_json (JArr vs) = JArr (map as_json vs)"
| "as_json (JObj m) = JObj (json_members m)"
| "as_json (JFun f) = JNull"
| "json_members [] = []"
| "json_members ((k, v) # m) =
     (case v of JUndef \<Rightarrow> json_members m | JFun _ \<Rightarrow> json_members m | _ \<Rightarrow> (k, as_json v) # json_members m)"

fun unwritten :: "jsval \<Rightarrow> bool" where
  "unwritten JUndef = True" | "unwritten (JFun _) = True" | "unwritten _ = False"

lemma json_members_Cons: "json_members ((k, v) # m) = (if unwritten v then json_members m else (k, as_json v) # json_members m)"
  by (cases v) auto

declare json_members.simps(2) [simp del] json_members_Cons [simp]

lemma as_json_written [simp]: "\<not> unwritten (as_json v)"
  by (cases v) auto

lemma as_json_idem: "as_json (as_json v) = as_json v" "json_members (json_members m) = json_members m"
proof (induction v and m rule: as_json_json_members.induct)
  case (10 k v m)
  then show ?case by (cases v) auto
qed auto

lemma json_members_get: "map_of m k = Some v \<Longrightarrow> \<not> unwritten v \<Longrightarrow> map_of (json_members m) k = Some (as_json v)"
  by (induction m) (auto split: if_splits)

lemma json_get: "map_of m k = Some v \<Longrightarrow> \<not> unwritten v \<Longrightarrow> jget (as_json (JObj m)) k = as_json v"
  by (simp add: json_members_get own_get_def)

text \<open>\<open>===\<close> of two values read from different places: two objects are never the same one.\<close>

definition js_same :: "jsval \<Rightarrow> jsval \<Rightarrow> bool" where
  "js_same a b \<longleftrightarrow> a = b \<and> \<not> is_object a \<and> a \<noteq> JNum NaN"

text \<open>The own members of a value that is spread into an object.\<close>

definition members_of :: "jsval \<Rightarrow> jsmap" where
  "members_of v = (case v of
       JObj m \<Rightarrow> m
     | JArr vs \<Rightarrow> zip (map dec_nat [0..<length vs]) vs
     | _ \<Rightarrow> [])"

datatype kill_answer = Answers | No_such_process | Other_failure

record registry_env =
  re_clock :: clock
  re_store :: "string \<Rightarrow> bool"
  re_kill :: "nat \<Rightarrow> kill_answer"
  re_sha1 :: "string \<Rightarrow> string"
  re_vars :: jsval

type_synonym sessions_dir = "(string \<times> jsval) list option"

definition files_of :: "sessions_dir \<Rightarrow> (string \<times> jsval) list" where
  "files_of d = (case d of None \<Rightarrow> [] | Some fs \<Rightarrow> fs)"

definition lease_at :: "sessions_dir \<Rightarrow> string \<Rightarrow> jsval" where
  "lease_at d f = (case map_of (files_of d) f of None \<Rightarrow> JNull | Some v \<Rightarrow> v)"

text \<open>\<open>atomicWriteJson\<close>; \<open>None\<close> when it throws.\<close>

definition atomic_write :: "registry_env \<Rightarrow> string \<Rightarrow> jsval \<Rightarrow> sessions_dir \<Rightarrow> sessions_dir option" where
  "atomic_write env f v d = (if re_store env f then Some (Some (aset f (as_json v) (files_of d))) else None)"

definition date_parse :: "clock \<Rightarrow> jsval \<Rightarrow> jsnum" where
  "date_parse ck v = ck_parse ck (to_str v)"

section \<open>Who a window is\<close>

datatype name_source = By_env | By_persist | By_fallback

record identity =
  id_holder :: string
  id_terminal :: string
  id_pid :: nat
  id_token :: "string option"
  id_source :: name_source
  id_auto :: bool

definition token_hash :: "(string \<Rightarrow> string) \<Rightarrow> string \<Rightarrow> string" where
  "token_hash sha1 t = take 8 (sha1 t)"

text \<open>The trimmed text of a value that is a string with something in it.\<close>

definition nonblank :: "jsval \<Rightarrow> string option" where
  "nonblank v = (case v of JStr s \<Rightarrow> if js_trim s = [] then None else Some (js_trim s) | _ \<Rightarrow> None)"

fun window_token :: "jsval list \<Rightarrow> string option" where
  "window_token [] = None"
| "window_token (v # vs) = (case nonblank v of Some t \<Rightarrow> Some t | None \<Rightarrow> window_token vs)"

definition ends_with :: "string \<Rightarrow> string \<Rightarrow> bool" where
  "ends_with s t = str_prefix (rev t) (rev s)"

definition slugify :: "string \<Rightarrow> string \<Rightarrow> string" where
  "slugify nm suf =
     (let slug = machine_name (js_lower (translit_to_latin nm))
      in if slug = [] then ''t-'' @ suf
         else if slug = ''t-'' @ suf \<or> ends_with slug (''-'' @ suf) then slug
         else slug @ ''-'' @ suf)"

text \<open>The map of window names, by the content of its file. \<open>prefix\<close> is the Cyrillic word the automatic names
  begin with.\<close>

definition read_terminal_names :: "jsval \<Rightarrow> jsmap" where
  "read_terminal_names content = (case content of JObj m \<Rightarrow> m | _ \<Rightarrow> [])"

definition persisted_name :: "jsval \<Rightarrow> string \<Rightarrow> (string \<times> jsval) option" where
  "persisted_name content hash =
     (let rec = own_get (read_terminal_names content) hash
      in map_option (\<lambda>n. (n, jget rec ''auto'')) (nonblank (jget rec ''name'')))"

definition default_number :: "string \<Rightarrow> string \<Rightarrow> nat option" where
  "default_number pre s =
     (let ds = drop (length pre) s
      in if str_prefix pre s \<and> ds \<noteq> [] \<and> list_all is_digit ds then Some (digits_val ds) else None)"

definition recorded_number :: "string \<Rightarrow> jsval \<Rightarrow> nat" where
  "recorded_number pre rec =
     (case jget rec ''name'' of
        JStr s \<Rightarrow> (case default_number pre (js_trim s) of Some n \<Rightarrow> n | None \<Rightarrow> 0)
      | _ \<Rightarrow> 0)"

definition highest_number :: "string \<Rightarrow> jsmap \<Rightarrow> nat" where
  "highest_number pre names = fold (\<lambda>(_, rec) n. max n (recorded_number pre rec)) names 0"

datatype name_result = No_token | Window_name string | Name_threw

text \<open>\<open>between\<close> is what other windows do to the file between the write and the reading after it. Only the first
  write can throw.\<close>

definition allocate_default_window_name ::
    "(nat \<Rightarrow> bool) \<Rightarrow> string \<Rightarrow> string \<Rightarrow> (jsval \<Rightarrow> jsval) \<Rightarrow> jsval \<Rightarrow> jsval \<Rightarrow> name_result \<times> jsval" where
  "allocate_default_window_name writes pre at_text between token content =
     (let hash = (if is_nullish token then [] else js_trim (to_str token));
          names = read_terminal_names content
      in if hash = [] then (No_token, content)
         else case persisted_name content hash of
                Some (n, _) \<Rightarrow> (Window_name n, content)
              | None \<Rightarrow>
                  let n = pre @ dec_nat (highest_number pre names + 1);
                      rec = JObj [(''name'', JStr n), (''auto'', JBool True), (''at'', JStr at_text)]
                  in if \<not> writes 0 then (Name_threw, content)
                     else let content' = between (as_json (JObj (aset hash rec names)));
                              after = read_terminal_names content'; mine = own_get after hash
                          in (Window_name n,
                              if (truthy mine \<and> jget mine ''name'' = JStr n) \<or> \<not> writes 1 then content'
                              else as_json (JObj (aset hash rec after))))"

definition resolve_terminal_identity :: "registry_env \<Rightarrow> nat \<Rightarrow> jsval \<Rightarrow> jsval \<Rightarrow> identity" where
  "resolve_terminal_identity env pid session_token content =
     (let vars = re_vars env;
          token = window_token [session_token, jget vars ''SMA_WINDOW_TOKEN'',
                    jget vars ''CLAUDE_CODE_SESSION_ID'', jget vars ''CLAUDE_SESSION_ID''];
          named = nonblank (jget vars ''SMA_TERMINAL_NAME'');
          disambig = (case token of Some t \<Rightarrow> token_hash (re_sha1 env) t | None \<Rightarrow> dec_nat pid);
          persisted = (if named = None \<and> token \<noteq> None then persisted_name content disambig else None);
          holder = (case named of Some n \<Rightarrow> n
                    | None \<Rightarrow> (case persisted of Some (n, _) \<Rightarrow> n | None \<Rightarrow> ''T-'' @ disambig))
      in \<lparr>id_holder = holder, id_terminal = slugify holder disambig, id_pid = pid, id_token = token,
          id_source = (if named \<noteq> None then By_env else if persisted \<noteq> None then By_persist else By_fallback),
          id_auto = (if named \<noteq> None then False
                     else case persisted of Some (_, auto) \<Rightarrow> auto = JBool True | None \<Rightarrow> True)\<rparr>)"

definition lease_file :: "identity \<Rightarrow> string" where
  "lease_file i = id_terminal i @ ''.json''"

section \<open>Renewing and dropping a lease\<close>

definition heartbeat_interval_ms :: rat where "heartbeat_interval_ms = 180000"

definition attention_after_misses :: rat where "attention_after_misses = 3"

definition session_ttl_ms :: rat where "session_ttl_ms = 1800000"

definition grace_ms :: rat where "grace_ms = 900000"

definition status_values :: "jsval list" where
  "status_values = map JStr [''working'', ''blocked'', ''idle'', ''done'']"

definition fp_status_values :: "jsval list" where
  "fp_status_values = map JStr [''working'', ''waiting-for-human'', ''idle'']"

definition drop_session :: "registry_env \<Rightarrow> string \<Rightarrow> sessions_dir \<Rightarrow> bool option \<times> sessions_dir" where
  "drop_session env terminal d =
     (let f = terminal @ ''.json''
      in if terminal = [] \<or> map_of (files_of d) f = None then (Some False, d)
         else if re_store env f then (Some True, map_option (adel f) d)
         else (None, d))"

definition globs_of :: "jsval \<Rightarrow> jsval list" where
  "globs_of scope = elems (jget scope ''globs'')"

definition scope_unchanged :: "jsval \<Rightarrow> jsval \<Rightarrow> bool" where
  "scope_unchanged a b =
     (if \<not> truthy a \<or> \<not> truthy b then js_same a b
      else list_all2 js_same (globs_of a) (globs_of b) \<and>
           js_same (coalesce (jget a ''description'') (JStr [])) (coalesce (jget b ''description'') (JStr [])))"

text \<open>A text of the beat when it says something, else the one already on the lease.\<close>

definition kept_text :: "jsval \<Rightarrow> jsval \<Rightarrow> string \<Rightarrow> string" where
  "kept_text beat existing k =
     (case nonblank (jget beat k) of
        Some t \<Rightarrow> t
      | None \<Rightarrow> str_of (jget existing k))"

definition kept_fp_status :: "jsval \<Rightarrow> jsval \<Rightarrow> jsval" where
  "kept_fp_status beat existing =
     (if List.member fp_status_values (jget beat ''fpStatus'') then jget beat ''fpStatus''
      else if List.member fp_status_values (jget existing ''fpStatus'') then jget existing ''fpStatus''
      else JStr ''working'')"

definition beat_scope :: "jsval \<Rightarrow> jsval" where
  "beat_scope beat = coalesce (jget beat ''scope'') (JObj [(''globs'', JArr []), (''description'', JStr [])])"

definition beat_status :: "jsval \<Rightarrow> jsval" where
  "beat_status beat = (if List.member status_values (jget beat ''status'') then jget beat ''status'' else JStr ''working'')"

definition is_young :: "clock \<Rightarrow> jsval \<Rightarrow> bool" where
  "is_young ck existing =
     (case date_parse ck (jget existing ''renewTime'') of
        Fin t \<Rightarrow> of_nat (ck_now ck) - t < heartbeat_interval_ms
      | _ \<Rightarrow> False)"

text \<open>The throttle: what of the beat is compared with the lease.\<close>

definition nothing_changed :: "clock \<Rightarrow> jsval \<Rightarrow> jsval \<Rightarrow> bool" where
  "nothing_changed ck beat existing \<longleftrightarrow>
     is_young ck existing \<and>
     scope_unchanged (jget existing ''scope'') (beat_scope beat) \<and>
     js_same (jget existing ''status'') (beat_status beat) \<and>
     js_same (coalesce (jget existing ''label'') (JStr [])) (JStr (kept_text beat existing ''label'')) \<and>
     js_same (coalesce (jget existing ''intent'') (JStr [])) (JStr (kept_text beat existing ''intent'')) \<and>
     js_same (coalesce (jget existing ''fpStatus'') (JStr ''working'')) (kept_fp_status beat existing)"

definition beat_transitions :: "jsval \<Rightarrow> jsval \<Rightarrow> jsnum" where
  "beat_transitions beat existing =
     (let prior = (case jget existing ''transitions'' of JNum (Fin q) \<Rightarrow> Fin q | _ \<Rightarrow> Fin 0)
      in if truthy existing \<and> \<not> scope_unchanged (jget existing ''scope'') (beat_scope beat)
         then num_add prior (Fin 1) else prior)"

definition lease_of :: "registry_env \<Rightarrow> identity \<Rightarrow> jsval \<Rightarrow> jsval \<Rightarrow> jsval" where
  "lease_of env i beat existing =
     (let ck = re_clock env; now_iso = JStr (ck_iso ck (ck_now ck)); scope = beat_scope beat
      in JObj [(''holderIdentity'', JStr (id_holder i)), (''pid'', JInt (int (id_pid i))),
          (''scope'', JObj [(''globs'', JArr (globs_of scope)), (''description'', coalesce (jget scope ''description'') (JStr []))]),
          (''status'', beat_status beat),
          (''blockers'', JArr (elems (jget beat ''blockers''))),
          (''label'', JStr (kept_text beat existing ''label'')),
          (''intent'', JStr (kept_text beat existing ''intent'')),
          (''fpStatus'', kept_fp_status beat existing),
          (''filesRecent'', JArr (elems (jget existing ''filesRecent''))),
          (''acquireTime'', js_or (jget existing ''acquireTime'') now_iso),
          (''renewTime'', now_iso),
          (''leaseDurationSeconds'', JNum (Fin (session_ttl_ms / 1000))),
          (''transitions'', JNum (beat_transitions beat existing))])"

text \<open>The reporter is launched only where it has somewhere to report to, and not under a test runner; the result
  is the environment of the child.\<close>

definition has_snapshot_receiver :: "jsval \<Rightarrow> bool" where
  "has_snapshot_receiver vars \<longleftrightarrow>
     truthy vars \<and> nonblank (jget vars ''SMA_SNAPSHOT_TOKEN'') \<noteq> None \<and> nonblank (jget vars ''SMA_SNAPSHOT_URL'') \<noteq> None"

definition snapshot_child :: "jsval \<Rightarrow> string option \<Rightarrow> jsval option" where
  "snapshot_child vars token =
     (if \<not> has_snapshot_receiver vars then None
      else if truthy (jget vars ''SMA_DISABLE_SNAPSHOT_SPAWN'') \<or> truthy (jget vars ''VITEST'') \<or>
              jget vars ''NODE_ENV'' = JStr ''test'' then None
      else Some (JObj (case token of
                         Some t \<Rightarrow> if t = [] then entries vars else aset ''SMA_WINDOW_TOKEN'' (JStr t) (entries vars)
                       | None \<Rightarrow> entries vars)))"

datatype beat_result = Beat_skipped | Beat_written "jsval option" | Beat_failed

definition heartbeat :: "registry_env \<Rightarrow> bool \<Rightarrow> identity \<Rightarrow> jsval \<Rightarrow> sessions_dir \<Rightarrow> beat_result \<times> sessions_dir" where
  "heartbeat env spawn i beat d =
     (let f = lease_file i; existing = lease_at d f
      in if is_nullish beat then (Beat_failed, d)
         else if truthy existing \<and> nothing_changed (re_clock env) beat existing then (Beat_skipped, d)
         else case atomic_write env f (lease_of env i beat existing) d of
                None \<Rightarrow> (Beat_failed, d)
              | Some d' \<Rightarrow> (Beat_written (if spawn then snapshot_child (re_vars env) (id_token i) else None), d'))"

section \<open>Reading the registry\<close>

definition session_of :: "string \<times> jsval \<Rightarrow> jsval option" where
  "session_of = (\<lambda>(f, v). if is_object v then Some (JObj (aset ''_file'' (JStr f) (members_of v))) else None)"

definition is_lease_file :: "string \<times> jsval \<Rightarrow> bool" where
  "is_lease_file = (\<lambda>(f, _). ends_with f ''.json'')"

definition sessions_in :: "sessions_dir \<Rightarrow> jsval list" where
  "sessions_in d = List.map_filter session_of (filter is_lease_file (files_of d))"

text \<open>A \<open>Set\<close> and the keys of a \<open>Map\<close> keep primitives once; two objects are never the same key.\<close>

definition add_once :: "jsval \<Rightarrow> jsval list \<Rightarrow> jsval list" where
  "add_once v seen = (if \<not> is_object v \<and> v \<in> set seen then seen else seen @ [v])"

definition same_holder :: "jsval \<Rightarrow> jsval list \<Rightarrow> jsval list" where
  "same_holder h ss = filter (\<lambda>s. jget s ''holderIdentity'' = h) ss"

definition duplicate_warnings :: "jsval list \<Rightarrow> (jsval \<times> jsval list) list" where
  "duplicate_warnings ss =
     (let holders = fold (\<lambda>s hs. let h = jget s ''holderIdentity'' in if truthy h \<and> \<not> is_object h then add_once h hs else hs) ss []
      in List.map_filter (\<lambda>h.
           let pids = fold add_once (filter (\<lambda>p. \<not> is_nullish p) (map (\<lambda>s. jget s ''pid'') (same_holder h ss))) []
           in if 1 < length pids then Some (h, pids) else None) holders)"

record registry_reading =
  rr_sessions :: "jsval list"
  rr_corrupt :: nat
  rr_warnings :: "(jsval \<times> jsval list) list"

definition read_sessions :: "sessions_dir \<Rightarrow> registry_reading" where
  "read_sessions d =
     (let ss = sessions_in d
      in \<lparr>rr_sessions = ss, rr_corrupt = length (filter is_lease_file (files_of d)) - length ss,
          rr_warnings = duplicate_warnings ss\<rparr>)"

section \<open>Grading and reaping\<close>

definition is_pid_alive :: "registry_env \<Rightarrow> nat \<Rightarrow> bool" where
  "is_pid_alive env n \<longleftrightarrow> n = 0 \<or> re_kill env n \<noteq> No_such_process"

text \<open>A lease named by a process, \<open>/^T-(\d+)$/\<close>, whose process is gone.\<close>

definition pid_identity :: "string \<Rightarrow> nat option" where
  "pid_identity s =
     (if str_prefix ''T-'' s \<and> drop 2 s \<noteq> [] \<and> list_all is_digit (drop 2 s) then Some (digits_val (drop 2 s)) else None)"

definition is_dead_pid_lease :: "registry_env \<Rightarrow> jsval \<Rightarrow> bool" where
  "is_dead_pid_lease env s =
     (case pid_identity (js_trim (str_of (jget s ''holderIdentity''))) of
        None \<Rightarrow> False
      | Some n \<Rightarrow> \<not> is_pid_alive env n)"

datatype staleness = Fresh | Attention | Reap_clean | Needs_human

definition age_ms :: "clock \<Rightarrow> jsval \<Rightarrow> jsnum" where
  "age_ms ck s =
     (case date_parse ck (jget s ''renewTime'') of Fin t \<Rightarrow> Fin (of_nat (ck_now ck) - t) | _ \<Rightarrow> PInf)"

text \<open>\<open>scopeMtimeProbe\<close>, where the caller gives one; its answer is \<open>None\<close> when it throws.\<close>

type_synonym mtime_probe = "(jsval \<Rightarrow> jsnum option) option"

definition is_dirty :: "clock \<Rightarrow> mtime_probe \<Rightarrow> jsval \<Rightarrow> bool" where
  "is_dirty ck probe s =
     (case probe of
        None \<Rightarrow> False
      | Some p \<Rightarrow>
          globs_of (jget s ''scope'') \<noteq> [] \<and>
          (case (p s, date_parse ck (jget s ''renewTime'')) of
             (Some (Fin m), Fin t) \<Rightarrow> t < m
           | _ \<Rightarrow> False))"

definition classify_staleness :: "registry_env \<Rightarrow> mtime_probe \<Rightarrow> jsval \<Rightarrow> staleness" where
  "classify_staleness env probe s =
     (let age = age_ms (re_clock env) s
      in if num_lt age (Fin (attention_after_misses * heartbeat_interval_ms)) then Fresh
         else if num_lt age (Fin (session_ttl_ms + grace_ms)) then Attention
         else if is_dead_pid_lease env s then Reap_clean
         else if is_dirty (re_clock env) probe s then Needs_human
         else Reap_clean)"

datatype activity = Active_fresh | Active_attention | Inactive

definition session_activity_tier :: "registry_env \<Rightarrow> mtime_probe \<Rightarrow> jsval \<Rightarrow> activity" where
  "session_activity_tier env probe s =
     (case classify_staleness env probe s of
        Fresh \<Rightarrow> if is_dead_pid_lease env s then Inactive else Active_fresh
      | Attention \<Rightarrow> if is_dead_pid_lease env s then Inactive else Active_attention
      | _ \<Rightarrow> Inactive)"

definition is_session_live :: "registry_env \<Rightarrow> mtime_probe \<Rightarrow> jsval \<Rightarrow> bool" where
  "is_session_live env probe s \<longleftrightarrow> session_activity_tier env probe s \<noteq> Inactive"

record reaping =
  rp_reaped :: "jsval list"
  rp_candidates :: "jsval list"
  rp_dir :: sessions_dir

definition reap_one :: "registry_env \<Rightarrow> mtime_probe \<Rightarrow> bool \<Rightarrow> jsval \<Rightarrow> reaping \<Rightarrow> reaping" where
  "reap_one env probe dry s r =
     (if classify_staleness env probe s \<noteq> Reap_clean then r
      else let h = jget s ''holderIdentity''; f = str_of (jget s ''_file'');
               r' = r\<lparr>rp_candidates := rp_candidates r @ [h]\<rparr>
           in if dry then r'
              else if map_of (files_of (rp_dir r)) f = None then r'\<lparr>rp_reaped := rp_reaped r @ [h]\<rparr>
              else if re_store env f then r'\<lparr>rp_reaped := rp_reaped r @ [h], rp_dir := map_option (adel f) (rp_dir r)\<rparr>
              else r')"

definition reap_stale :: "registry_env \<Rightarrow> mtime_probe \<Rightarrow> bool \<Rightarrow> sessions_dir \<Rightarrow> reaping" where
  "reap_stale env probe dry d =
     fold (reap_one env probe dry) (sessions_in d) \<lparr>rp_reaped = [], rp_candidates = [], rp_dir = d\<rparr>"

end
