(* ===== verification/Collision.thy ===== *)
theory Collision
  imports Sessions
begin

text \<open>
  The collision detector (\<open>src/scripts/sma/lib/collision.mjs\<close>), the probe of a claimed scope
  (\<open>probeScopeMtime\<close> of \<open>registry.mjs\<close>), the trail of touched files (\<open>fingerprint.mjs\<close>) and what a tool call of a
  window does to its lease (\<open>buildCtx\<close> of \<open>pre.mjs\<close>).

  A warning is a record, its wording left out: the command that clears it is the name it would clear, with whether
  the reader is told to wait first. The walk of the probe is over the tree under the root, each directory with its
  entries or \<open>None\<close> when it cannot be listed, each file with its time or \<open>None\<close> when it cannot be read.
\<close>

section \<open>The detector\<close>

definition terminal_id_of :: "jsval \<Rightarrow> string option" where
  "terminal_id_of s =
     (case jget s ''_file'' of
        JStr f \<Rightarrow> Some (if ends_with (js_lower f) ''.json'' then take (length f - 5) f else f)
      | _ \<Rightarrow> None)"

definition is_own :: "string option \<Rightarrow> jsval \<Rightarrow> bool" where
  "is_own self s \<longleftrightarrow> self \<noteq> None \<and> self \<noteq> Some [] \<and> terminal_id_of s = self"

definition norm_paths :: "string option \<Rightarrow> jsval list \<Rightarrow> string list" where
  "norm_paths base paths =
     (let pre = (case base of None \<Rightarrow> [] | Some r \<Rightarrow> if r = [] then [] else root_prefix r)
      in filter (\<lambda>p. p \<noteq> []) (map (\<lambda>p. relativize_path (norm_path p) pre) paths))"

record scope_warning =
  sw_who :: jsval
  sw_pid :: jsval
  sw_operation :: jsval
  sw_scope :: jsval
  sw_since :: jsval
  sw_staleness :: staleness
  sw_wait :: bool
  sw_clear :: string

datatype collision_warning = Scope_warning scope_warning | Hot_file string nat

fun is_scope_warning :: "collision_warning \<Rightarrow> bool" where
  "is_scope_warning (Scope_warning w) = True" | "is_scope_warning (Hot_file p n) = False"

definition slug_claim :: "(string \<Rightarrow> string) \<Rightarrow> jsval \<Rightarrow> string" where
  "slug_claim sha1 s =
     scope_claim_slug sha1 (js_or (js_or (and_get (jget s ''scope'') ''description'') (jget s ''holderIdentity'')) (JStr ''claim''))"

text \<open>\<open>dash\<close> is the character shown in place of a missing name.\<close>

definition warning_of :: "registry_env \<Rightarrow> mtime_probe \<Rightarrow> jsval \<Rightarrow> jsval \<Rightarrow> jsval \<Rightarrow> scope_warning" where
  "warning_of env probe dash s g =
     \<lparr>sw_who = coalesce (jget s ''holderIdentity'') dash, sw_pid = coalesce (jget s ''pid'') JNull,
      sw_operation = js_or (and_get (jget s ''scope'') ''description'') dash, sw_scope = g,
      sw_since = coalesce (coalesce (jget s ''acquireTime'') (jget s ''renewTime'')) JNull,
      sw_staleness = classify_staleness env probe s, sw_wait = is_session_live env probe s,
      sw_clear = slug_claim (re_sha1 env) s\<rparr>"

definition glob_hits :: "string list \<Rightarrow> jsval \<Rightarrow> bool" where
  "glob_hits ps g \<longleftrightarrow> list_ex (glob_test (compile_glob g)) ps"

text \<open>The first of a foreign session's globs that one of the paths lies in.\<close>

definition session_warning ::
    "registry_env \<Rightarrow> mtime_probe \<Rightarrow> jsval \<Rightarrow> string option \<Rightarrow> string list \<Rightarrow> jsval \<Rightarrow> collision_warning option" where
  "session_warning env probe dash self ps s =
     (if is_own self s then None
      else map_option (\<lambda>g. Scope_warning (warning_of env probe dash s g))
             (List.find (glob_hits ps) (globs_of (jget s ''scope''))))"

definition fresh_count :: "registry_env \<Rightarrow> jsval list \<Rightarrow> nat" where
  "fresh_count env ss = length (filter (\<lambda>s. session_activity_tier env None s = Active_fresh) ss)"

definition check_scope_collision ::
    "registry_env \<Rightarrow> mtime_probe \<Rightarrow> jsval \<Rightarrow> string option \<Rightarrow> string option \<Rightarrow> jsval list \<Rightarrow> jsval list \<Rightarrow> collision_warning list" where
  "check_scope_collision env probe dash self base ss paths =
     (let ps = norm_paths base paths; n = fresh_count env ss
      in if ps = [] then []
         else List.map_filter (session_warning env probe dash self ps) ss
              @ (if 2 \<le> n then map (\<lambda>p. Hot_file p n) (filter (List.member hot_files) ps) else []))"

record tier_count =
  tc_fresh :: nat
  tc_attention :: nat
  tc_active :: nat

definition count_session_tiers :: "registry_env \<Rightarrow> jsval list \<Rightarrow> tier_count" where
  "count_session_tiers env ss =
     (let fresh = fresh_count env ss;
          attention = length (filter (\<lambda>s. session_activity_tier env None s = Active_attention) ss)
      in \<lparr>tc_fresh = fresh, tc_attention = attention, tc_active = fresh + attention\<rparr>)"

text \<open>The evidence a warning carries: the commit that settled the scope, or who holds it.\<close>

datatype claim_evidence = Settled string | Live_claim jsval jsval

definition verify_claim_evidence :: "jsval \<Rightarrow> jsval \<Rightarrow> jsval \<Rightarrow> jsval \<Rightarrow> claim_evidence" where
  "verify_claim_evidence claim dirty commit intent =
     (if \<not> truthy dirty \<and> truthy commit then Settled (take 7 (to_str commit))
      else Live_claim (js_or (js_or (and_get claim ''by'') (and_get claim ''holderIdentity'')) (JStr ''T-?''))
             (js_or (js_or (and_get claim ''intent'') intent) (JStr [])))"

text \<open>One event in the journal of the terminal for every collision, none for the advice on hot files.\<close>

fun collision_events :: "string option \<Rightarrow> jsval \<Rightarrow> (jsval \<Rightarrow> jsval) \<Rightarrow> (staleness \<Rightarrow> string) \<Rightarrow> collision_warning list \<Rightarrow> jsval list" where
  "collision_events self_display terminal who_display grade [] = []"
| "collision_events self_display terminal who_display grade (Hot_file p n # ws) =
     collision_events self_display terminal who_display grade ws"
| "collision_events self_display terminal who_display grade (Scope_warning w # ws) =
     slot_event ''collision''
       (filter truthy (case self_display of
           Some me \<Rightarrow> if me = [] then [terminal, sw_who w] else [JStr me, coalesce (who_display (sw_who w)) (sw_who w)]
         | None \<Rightarrow> [terminal, sw_who w]))
       (sw_scope w)
       [(''operation'', sw_operation w), (''pid'', sw_pid w), (''staleness'', JStr (grade (sw_staleness w)))]
     # collision_events self_display terminal who_display grade ws"

section \<open>The probe of a scope\<close>

datatype tree_node = Dir_node string "tree_node list option" | File_node string "rat option"

definition probe_skip_dirs :: "string list" where
  "probe_skip_dirs = [''.git'', ''node_modules'', ''.next'', ''.sma'']"

definition rel_norm :: "string \<Rightarrow> string \<Rightarrow> string" where
  "rel_norm base full =
     (let n = norm_path (JStr full) in if str_prefix (root_prefix base) n then drop (length (root_prefix base)) n else n)"

text \<open>The walk, with the largest time so far.\<close>

fun walk_node :: "string \<Rightarrow> glob_part list list \<Rightarrow> string \<Rightarrow> tree_node \<Rightarrow> rat \<Rightarrow> rat"
and walk_dir :: "string \<Rightarrow> glob_part list list \<Rightarrow> string \<Rightarrow> tree_node list \<Rightarrow> rat \<Rightarrow> rat" where
  "walk_node base ms dir (Dir_node nm listing) best =
     (if List.member probe_skip_dirs nm then best
      else case listing of None \<Rightarrow> best | Some es \<Rightarrow> walk_dir base ms (dir @ ''/'' @ nm) es best)"
| "walk_node base ms dir (File_node nm mtime) best =
     (if \<not> list_ex (\<lambda>m. glob_test m (rel_norm base (dir @ ''/'' @ nm))) ms then best
      else case mtime of Some m \<Rightarrow> if best < m then m else best | None \<Rightarrow> best)"
| "walk_dir base ms dir [] best = best"
| "walk_dir base ms dir (e # es) best = walk_dir base ms dir es (walk_node base ms dir e best)"

definition probe_scope_mtime :: "string \<Rightarrow> tree_node list option \<Rightarrow> jsval \<Rightarrow> jsnum option" where
  "probe_scope_mtime base listing s =
     (let globs = globs_of (jget s ''scope'')
      in Some (Fin (if globs = [] then 0
                    else case listing of None \<Rightarrow> 0 | Some es \<Rightarrow> walk_dir base (map compile_glob globs) base es 0)))"

section \<open>A tool call of a window\<close>

definition fingerprint_files_max :: nat where "fingerprint_files_max = 12"

definition fingerprint_files_window_ms :: rat where
  "fingerprint_files_window_ms = 3 * heartbeat_interval_ms"

definition recent_touch :: "clock \<Rightarrow> jsval \<Rightarrow> bool" where
  "recent_touch ck e \<longleftrightarrow>
     is_str (jget e ''path'') \<and>
     (case jget e ''ts'' of JNum (Fin t) \<Rightarrow> of_nat (ck_now ck) - t < fingerprint_files_window_ms | _ \<Rightarrow> False)"

definition record_touch :: "clock \<Rightarrow> jsval \<Rightarrow> string \<Rightarrow> jsval list" where
  "record_touch ck lease path =
     (let prior = elems (jget lease ''filesRecent''); p = js_trim path;
          touched = (if p = [] then prior
                  else prior @ [JObj [(''path'', JStr p), (''ts'', JNum (Fin (of_nat (ck_now ck))))]]);
          kept = filter (recent_touch ck) touched
      in drop (length kept - fingerprint_files_max) kept)"

text \<open>The beat of a tool call carries no scope; the trail is kept for the two tools that write a file.\<close>

definition tool_beat :: jsval where
  "tool_beat = JObj [(''scope'', JObj [(''globs'', JArr []), (''description'', JStr [])]), (''status'', JStr ''working'')]"

definition self_capture :: "registry_env \<Rightarrow> identity \<Rightarrow> string \<Rightarrow> jsval \<Rightarrow> sessions_dir \<Rightarrow> sessions_dir" where
  "self_capture env i tool path d =
     (let f = lease_file i;
          own = (case List.find (\<lambda>s. jget s ''_file'' = JStr f) (sessions_in d) of Some s \<Rightarrow> s | None \<Rightarrow> lease_at d f)
      in if (tool = ''Edit'' \<or> tool = ''Write'') \<and> nonblank path \<noteq> None \<and> truthy own
         then case atomic_write env f
                     (JObj (adel ''_file'' (aset ''filesRecent'' (JArr (record_touch (re_clock env) own (str_of path))) (members_of own)))) d of
                Some d' \<Rightarrow> d' | None \<Rightarrow> d
         else d)"

definition tool_call :: "registry_env \<Rightarrow> identity \<Rightarrow> string \<Rightarrow> jsval \<Rightarrow> sessions_dir \<Rightarrow> sessions_dir" where
  "tool_call env i tool path d = self_capture env i tool path (snd (heartbeat env True i tool_beat d))"

text \<open>The lease's part of \<open>sma claim\<close>: the scope is the claim.\<close>

definition claim_beat :: "jsval list \<Rightarrow> jsval \<Rightarrow> jsval \<Rightarrow> jsval" where
  "claim_beat globs desc label =
     JObj [(''scope'', JObj [(''globs'', JArr globs), (''description'', desc)]), (''status'', JStr ''working''), (''label'', label)]"

end
