(* ===== verification/Session_Laws.thy ===== *)
theory Session_Laws
  imports Collision
begin

text \<open>
  The laws of the session registry and of the collision detector: what a write leaves in the directory of leases,
  what a beat does to the lease of its terminal and to no other, which leases the reaper takes, what the probe of a
  scope sees, when the detector warns, and what becomes of a claim at the next tool call of its holder.
\<close>

section \<open>The directory of leases\<close>

text \<open>A directory whose files have distinct names and hold what they read as.\<close>

definition json_dir :: "sessions_dir \<Rightarrow> bool" where
  "json_dir d \<longleftrightarrow> wf_map (files_of d) \<and> list_all (\<lambda>(f, v). as_json v = v) (files_of d)"

lemma json_dir_wf: "json_dir d \<Longrightarrow> wf_map (files_of d)"
  by (simp add: json_dir_def)

lemma json_dir_value: "json_dir d \<Longrightarrow> map_of (files_of d) f = Some v \<Longrightarrow> as_json v = v"
  by (auto simp: json_dir_def list_all_iff dest: map_of_SomeD)

lemma files_of_simps [simp]: "files_of None = []" "files_of (Some fs) = fs"
  "files_of (map_option (adel f) d) = adel f (files_of d)"
  by (simp_all add: files_of_def adel_def split: option.split)

lemma set_adel: "set (adel k m) \<subseteq> set m"
  by (auto simp: adel_def)

lemma json_dir_adel: "json_dir d \<Longrightarrow> json_dir (map_option (adel f) d)"
  using set_adel [of f "files_of d"] by (auto simp: json_dir_def list_all_iff)

lemma atomic_write_some:
  "atomic_write env f v d = Some d' \<longleftrightarrow> re_store env f \<and> d' = Some (aset f (as_json v) (files_of d))"
  by (auto simp: atomic_write_def)

lemma json_dir_write: "json_dir d \<Longrightarrow> atomic_write env f v d = Some d' \<Longrightarrow> json_dir d'"
  using set_aset_sub [of f "as_json v" "files_of d"]
  by (auto simp: atomic_write_some json_dir_def list_all_iff as_json_idem)

section \<open>The operations on the directory\<close>

datatype registry_op =
    Beat identity jsval bool
  | Call identity string jsval
  | Drop string
  | Reap mtime_probe bool

fun registry_step :: "registry_env \<times> registry_op \<Rightarrow> sessions_dir \<Rightarrow> sessions_dir" where
  "registry_step (env, Beat i beat spawn) d = snd (heartbeat env spawn i beat d)"
| "registry_step (env, Call i tool path) d = tool_call env i tool path d"
| "registry_step (env, Drop terminal) d = snd (drop_session env terminal d)"
| "registry_step (env, Reap probe dry) d = rp_dir (reap_stale env probe dry d)"

text \<open>A beat writes its own file or nothing.\<close>

lemma heartbeat_dir:
  "snd (heartbeat env spawn i beat d) =
     (let existing = lease_at d (lease_file i)
      in if \<not> is_nullish beat \<and> \<not> (truthy existing \<and> nothing_changed (re_clock env) beat existing)
         then case atomic_write env (lease_file i) (lease_of env i beat existing) d of None \<Rightarrow> d | Some d' \<Rightarrow> d'
         else d)"
proof -
  have snd_cases: "snd (case w of None \<Rightarrow> (x, d) | Some d' \<Rightarrow> (y, d')) = (case w of None \<Rightarrow> d | Some d' \<Rightarrow> d')"
    for w and x y :: beat_result by (cases w) simp_all
  show ?thesis by (auto simp: heartbeat_def Let_def snd_cases)
qed

lemma kept_or_written:
  "x = (if c then case w of None \<Rightarrow> d | Some d' \<Rightarrow> d' else d) \<Longrightarrow> x = d \<or> w = Some x"
  by (auto split: option.splits if_splits)

lemma heartbeat_cases:
  obtains (kept) "snd (heartbeat env spawn i beat d) = d"
    | (wrote) v where "atomic_write env (lease_file i) v d = Some (snd (heartbeat env spawn i beat d))"
  using kept_or_written [OF heartbeat_dir [unfolded Let_def]] by blast

lemma self_capture_cases:
  obtains (kept) "self_capture env i tool path d = d"
    | (wrote) v where "atomic_write env (lease_file i) v d = Some (self_capture env i tool path d)"
  using kept_or_written [OF self_capture_def [unfolded Let_def]] by blast

lemma write_other: "atomic_write env g v d = Some d' \<Longrightarrow> f \<noteq> g \<Longrightarrow> map_of (files_of d') f = map_of (files_of d) f"
  by (auto simp: atomic_write_some)

lemma heartbeat_other: "f \<noteq> lease_file i \<Longrightarrow> map_of (files_of (snd (heartbeat env spawn i beat d))) f = map_of (files_of d) f"
  by (cases rule: heartbeat_cases [of env spawn i beat d]) (auto dest: write_other)

lemma self_capture_other: "f \<noteq> lease_file i \<Longrightarrow> map_of (files_of (self_capture env i tool path d)) f = map_of (files_of d) f"
  by (cases rule: self_capture_cases [of env i tool path d]) (auto dest: write_other)

lemma drop_session_other: "f \<noteq> terminal @ ''.json'' \<Longrightarrow> map_of (files_of (snd (drop_session env terminal d))) f = map_of (files_of d) f"
  by (auto simp: drop_session_def Let_def)

lemma heartbeat_json: "json_dir d \<Longrightarrow> json_dir (snd (heartbeat env spawn i beat d))"
  by (cases rule: heartbeat_cases [of env spawn i beat d]) (auto dest: json_dir_write)

lemma self_capture_json: "json_dir d \<Longrightarrow> json_dir (self_capture env i tool path d)"
  by (cases rule: self_capture_cases [of env i tool path d]) (auto dest: json_dir_write)

lemma drop_session_json: "json_dir d \<Longrightarrow> json_dir (snd (drop_session env terminal d))"
  by (auto simp: drop_session_def Let_def json_dir_adel)


section \<open>Grading\<close>

text \<open>The fields of a session are those of its lease.\<close>

lemma session_of_some:
  "session_of (f, v) = Some s \<longleftrightarrow> is_object v \<and> s = JObj (aset ''_file'' (JStr f) (members_of v))"
  by (auto simp: session_of_def)

lemma session_file [simp]: "jget (JObj (aset ''_file'' (JStr f) m)) ''_file'' = JStr f"
  by (simp add: own_get_aset_same)

lemma member_names: "k \<notin> range dec_nat \<Longrightarrow> map_of (members_of (JArr vs)) k = None"
  by (auto simp: members_of_def map_of_eq_None_iff dest!: set_zip_leftD)

lemma session_get:
  assumes "session_of (f, v) = Some s" "k \<noteq> ''_file''" "k \<notin> range dec_nat" "k \<notin> set proto_names"
  shows "jget s k = jget v k"
proof (cases v)
  case (JArr vs)
  then show ?thesis using assms member_names [of k vs] by (simp add: session_of_some own_get_def)
next
  case (JObj m)
  then show ?thesis using assms by (simp add: session_of_some own_get_def members_of_def)
qed (use assms in \<open>simp_all add: session_of_some is_object_def\<close>)

lemma letter_no_index: "\<not> is_digit c \<Longrightarrow> c # cs \<notin> range dec_nat"
  using dec_nat_digits by (metis list.set_intros(1) rangeE)

lemma session_fields:
  assumes "session_of (f, v) = Some s"
  shows "jget s ''_file'' = JStr f" "jget s ''renewTime'' = jget v ''renewTime''" "jget s ''scope'' = jget v ''scope''"
    "jget s ''holderIdentity'' = jget v ''holderIdentity''"
proof -
  show "jget s ''_file'' = JStr f" using assms by (auto simp: session_of_some own_get_aset_same)
  have "\<not> is_digit (CHR ''r'')" "\<not> is_digit (CHR ''s'')" "\<not> is_digit (CHR ''h'')"
    by (simp_all add: is_digit_def code_of_def)
  note no_index = this [THEN letter_no_index]
  show "jget s ''renewTime'' = jget v ''renewTime''" "jget s ''scope'' = jget v ''scope''"
    "jget s ''holderIdentity'' = jget v ''holderIdentity''"
    by (rule session_get [OF assms _ no_index(1)] session_get [OF assms _ no_index(2)] session_get [OF assms _ no_index(3)];
      simp add: proto_names_def)+
qed

lemma sessions_in_iff:
  "s \<in> set (sessions_in d) \<longleftrightarrow> (\<exists>f v. (f, v) \<in> set (files_of d) \<and> ends_with f ''.json'' \<and> session_of (f, v) = Some s)"
  by (force simp: sessions_in_def is_lease_file_def List.map_filter_def)

text \<open>A young lease is never taken, whatever else is true of it.\<close>

lemma young_not_reaped:
  assumes "date_parse (re_clock env) (jget s ''renewTime'') = Fin t"
    and "of_nat (ck_now (re_clock env)) < t + session_ttl_ms + grace_ms"
  shows "classify_staleness env probe s \<noteq> Reap_clean"
  using assms by (simp add: classify_staleness_def age_ms_def Let_def)


section \<open>What the reaper takes\<close>

definition takes :: "registry_env \<Rightarrow> mtime_probe \<Rightarrow> string \<Rightarrow> jsval \<Rightarrow> bool" where
  "takes env probe f v \<longleftrightarrow>
     re_store env f \<and> ends_with f ''.json'' \<and>
     (case session_of (f, v) of Some s \<Rightarrow> classify_staleness env probe s = Reap_clean | None \<Rightarrow> False)"

lemma reap_one_dir:
  "map_of (files_of (rp_dir (reap_one env probe dry s r))) f =
     (if \<not> dry \<and> classify_staleness env probe s = Reap_clean \<and> re_store env f \<and> f = str_of (jget s ''_file'')
      then None else map_of (files_of (rp_dir r)) f)"
  by (auto simp: reap_one_def Let_def)

lemma reap_fold_dir:
  "map_of (files_of (rp_dir (fold (reap_one env probe dry) ss r))) f =
     (if \<not> dry \<and> re_store env f \<and> (\<exists>s \<in> set ss. classify_staleness env probe s = Reap_clean \<and> f = str_of (jget s ''_file''))
      then None else map_of (files_of (rp_dir r)) f)"
  by (induction ss arbitrary: r) (auto simp: reap_one_dir)

lemma reap_stale_file:
  assumes "wf_map (files_of d)"
  shows "map_of (files_of (rp_dir (reap_stale env probe dry d))) f =
    (case map_of (files_of d) f of
       None \<Rightarrow> None
     | Some v \<Rightarrow> if \<not> dry \<and> takes env probe f v then None else Some v)"
proof -
  have session: "s \<in> set (sessions_in d) \<and> f = str_of (jget s ''_file'') \<longleftrightarrow>
      (\<exists>v. map_of (files_of d) f = Some v \<and> ends_with f ''.json'' \<and> session_of (f, v) = Some s)" for s
    using assms by (auto simp: sessions_in_iff session_fields wf_map_def akeys_def dest: map_of_SomeD)
  have "(\<exists>s \<in> set (sessions_in d). classify_staleness env probe s = Reap_clean \<and> f = str_of (jget s ''_file'')) \<longleftrightarrow>
      (\<exists>v s. map_of (files_of d) f = Some v \<and> ends_with f ''.json'' \<and> session_of (f, v) = Some s \<and>
        classify_staleness env probe s = Reap_clean)"
    using session by blast
  then show ?thesis
    by (auto simp: reap_stale_def reap_fold_dir takes_def split: option.splits)
qed

lemma reap_one_json: "json_dir (rp_dir r) \<Longrightarrow> json_dir (rp_dir (reap_one env probe dry s r))"
  by (auto simp: reap_one_def Let_def json_dir_adel)

lemma reap_stale_json: "json_dir d \<Longrightarrow> json_dir (rp_dir (reap_stale env probe dry d))"
proof -
  have "json_dir (rp_dir r) \<Longrightarrow> json_dir (rp_dir (fold (reap_one env probe dry) ss r))" for ss r
    by (induction ss arbitrary: r) (simp_all add: reap_one_json)
  then show "json_dir d \<Longrightarrow> json_dir (rp_dir (reap_stale env probe dry d))" by (simp add: reap_stale_def)
qed

lemma registry_step_json: "json_dir d \<Longrightarrow> json_dir (registry_step so d)"
  by (induction so d rule: registry_step.induct)
    (simp_all add: heartbeat_json tool_call_def self_capture_json drop_session_json reap_stale_json)


section \<open>A window that beats\<close>

lemma lease_renew_time: "jget (as_json (lease_of env i beat existing)) ''renewTime'' = JStr (ck_iso (re_clock env) (ck_now (re_clock env)))"
  unfolding lease_of_def Let_def
  by (rule trans [OF json_get [where v = "JStr (ck_iso (re_clock env) (ck_now (re_clock env)))"]]) simp_all

lemma lease_truthy: "truthy (as_json (lease_of env i beat existing))"
  by (simp add: lease_of_def Let_def)

lemma beat_renews:
  assumes "re_store env (lease_file i)" "\<not> is_nullish beat"
    and parse: "ck_parse (re_clock env) (ck_iso (re_clock env) (ck_now (re_clock env))) = Fin (of_nat (ck_now (re_clock env)))"
  obtains v t where "map_of (files_of (snd (heartbeat env spawn i beat d))) (lease_file i) = Some v"
    "truthy v" "date_parse (re_clock env) (jget v ''renewTime'') = Fin t"
    "of_nat (ck_now (re_clock env)) < t + heartbeat_interval_ms"
proof (cases "truthy (lease_at d (lease_file i)) \<and> nothing_changed (re_clock env) beat (lease_at d (lease_file i))")
  case True
  then obtain v where v: "map_of (files_of d) (lease_file i) = Some v" "lease_at d (lease_file i) = v"
    by (auto simp: lease_at_def split: option.splits)
  from True v obtain t where "date_parse (re_clock env) (jget v ''renewTime'') = Fin t"
    "of_nat (ck_now (re_clock env)) - t < heartbeat_interval_ms"
    by (auto simp: nothing_changed_def is_young_def split: jsnum.splits)
  then show ?thesis using that [of v t] True v by (simp add: heartbeat_dir Let_def)
next
  case False
  let ?v = "as_json (lease_of env i beat (lease_at d (lease_file i)))"
  have "map_of (files_of (snd (heartbeat env spawn i beat d))) (lease_file i) = Some ?v"
    using False assms by (auto simp: heartbeat_dir Let_def atomic_write_def)
  moreover have "date_parse (re_clock env) (jget ?v ''renewTime'') = Fin (of_nat (ck_now (re_clock env)))"
    using parse by (simp add: lease_renew_time date_parse_def)
  ultimately show ?thesis using that [of ?v] lease_truthy by (simp add: heartbeat_interval_ms_def)
qed

text \<open>A step that is not one of the terminal that owns the file, and not a reaper past the deadline.\<close>

fun leaves_alone :: "(string \<Rightarrow> jsnum) \<Rightarrow> string \<Rightarrow> nat \<Rightarrow> registry_env \<times> registry_op \<Rightarrow> bool" where
  "leaves_alone parse f deadline (env, Beat i beat spawn) = (lease_file i \<noteq> f)"
| "leaves_alone parse f deadline (env, Call i tool path) = (lease_file i \<noteq> f)"
| "leaves_alone parse f deadline (env, Drop terminal) = (terminal @ ''.json'' \<noteq> f)"
| "leaves_alone parse f deadline (env, Reap probe dry) = (ck_parse (re_clock env) = parse \<and> ck_now (re_clock env) < deadline)"

lemma step_keeps_lease:
  assumes "json_dir d" "map_of (files_of d) f = Some v" "date_parse ck (jget v ''renewTime'') = Fin t"
    and "of_nat deadline \<le> t + session_ttl_ms + grace_ms" "leaves_alone (ck_parse ck) f deadline so"
  shows "map_of (files_of (registry_step so d)) f = Some v"
proof -
  have "\<not> takes env probe f v" if so: "so = (env, Reap probe dry)" for env probe dry
  proof -
    have "classify_staleness env probe s \<noteq> Reap_clean" if s: "session_of (f, v) = Some s" for s
    proof (rule young_not_reaped)
      show "date_parse (re_clock env) (jget s ''renewTime'') = Fin t"
        using assms(3,5) so session_fields(2) [OF s] by (simp add: date_parse_def)
      have "of_nat (ck_now (re_clock env)) < (of_nat deadline :: rat)" using assms(5) so by simp
      then show "of_nat (ck_now (re_clock env)) < t + session_ttl_ms + grace_ms" using assms(4) by linarith
    qed
    then show ?thesis by (simp add: takes_def split: option.split)
  qed
  then show ?thesis
    using assms(1,2,5) json_dir_wf [OF assms(1)]
    by (induction so d rule: registry_step.induct)
      (simp_all add: heartbeat_other tool_call_def self_capture_other drop_session_other reap_stale_file)
qed

lemma steps_keep_lease:
  assumes "json_dir d" "map_of (files_of d) f = Some v" "date_parse ck (jget v ''renewTime'') = Fin t"
    and "of_nat deadline \<le> t + session_ttl_ms + grace_ms" "list_all (leaves_alone (ck_parse ck) f deadline) steps"
  shows "map_of (files_of (fold registry_step steps d)) f = Some v"
  using assms
proof (induction steps arbitrary: d)
  case (Cons so steps)
  then have "map_of (files_of (registry_step so d)) f = Some v" by (simp add: step_keeps_lease)
  with Cons show ?case by (simp add: registry_step_json)
qed simp

text \<open>C11: The lease of a window that has just beaten stays in the registry, unchanged, for forty-two minutes,
  whatever the other windows do in between: their beats, their tool calls, their ends, and any number of
  reapers, with or without a probe. The three minutes missing from the forty-five of the reaper are those a
  beat may be skipped for.\<close>

theorem beating_window_never_reaped:
  assumes "json_dir d" "re_store env (lease_file i)" "\<not> is_nullish beat"
    and "ck_parse (re_clock env) (ck_iso (re_clock env) (ck_now (re_clock env))) = Fin (of_nat (ck_now (re_clock env)))"
    and "list_all (leaves_alone (ck_parse (re_clock env)) (lease_file i) (ck_now (re_clock env) + 2520000)) steps"
    and "beaten = snd (heartbeat env spawn i beat d)"
  shows "map_of (files_of (fold registry_step steps beaten)) (lease_file i) = Some (lease_at beaten (lease_file i)) \<and>
    lease_at beaten (lease_file i) \<noteq> JNull"
proof -
  obtain v t where v: "map_of (files_of beaten) (lease_file i) = Some v" "truthy v"
    "date_parse (re_clock env) (jget v ''renewTime'') = Fin t" "of_nat (ck_now (re_clock env)) < t + heartbeat_interval_ms"
    using beat_renews [OF assms(2-4), of spawn d] assms(6) by blast
  have "of_nat (ck_now (re_clock env) + 2520000) \<le> t + session_ttl_ms + grace_ms"
    using v(4) by (simp add: heartbeat_interval_ms_def session_ttl_ms_def grace_ms_def)
  then have "map_of (files_of (fold registry_step steps beaten)) (lease_file i) = Some v"
    using steps_keep_lease [OF _ v(1,3) _ assms(5)] assms(1,6) by (simp add: heartbeat_json)
  moreover have "v \<noteq> JNull" using v(2) by auto
  ultimately show ?thesis using v(1) by (simp add: lease_at_def)
qed


section \<open>Work in a claimed scope\<close>


text \<open>The walk returns the largest time among the files one of the globs accepts.\<close>

definition accepted_times :: "string \<Rightarrow> glob_part list list \<Rightarrow> (string \<times> rat) list \<Rightarrow> rat list" where
  "accepted_times base ms fs = map snd (filter (\<lambda>(p, _). list_ex (\<lambda>m. glob_test m (rel_norm base p)) ms) fs)"

lemma accepted_times_simps [simp]:
  "accepted_times base ms [] = []"
  "accepted_times base ms (fs @ gs) = accepted_times base ms fs @ accepted_times base ms gs"
  by (simp_all add: accepted_times_def)






section \<open>When the detector warns\<close>

text \<open>The paths a glob lies across, by its language.\<close>

definition across :: "string list \<Rightarrow> jsval set" where
  "across ps = {g. \<exists>p \<in> set ps. p \<in> glob_lang (compile_glob g)}"

lemma glob_hits_across: "glob_hits ps g \<longleftrightarrow> g \<in> across ps"
  by (auto simp: glob_hits_def across_def list_ex_iff glob_test_lang)

lemma find_first: "List.find P xs = Some x \<longleftrightarrow> (\<exists>us vs. xs = us @ x # vs \<and> P x \<and> set us \<inter> {y. P y} = {})"
proof
  assume "List.find P xs = Some x"
  then show "\<exists>us vs. xs = us @ x # vs \<and> P x \<and> set us \<inter> {y. P y} = {}"
  proof (induction xs)
    case (Cons a xs)
    show ?case
    proof (cases "P a")
      case True
      with Cons.prems show ?thesis by (intro exI [of _ "[]"] exI [of _ xs]) simp
    next
      case False
      with Cons obtain us vs where "xs = us @ x # vs \<and> P x \<and> set us \<inter> {y. P y} = {}" by auto
      with False show ?thesis by (intro exI [of _ "a # us"] exI [of _ vs]) auto
    qed
  qed simp
next
  assume "\<exists>us vs. xs = us @ x # vs \<and> P x \<and> set us \<inter> {y. P y} = {}"
  then obtain us vs where xs: "xs = us @ x # vs" "P x" "set us \<inter> {y. P y} = {}" by blast
  then have "List.find P us = None" by (auto simp: find_None_iff)
  then have "List.find P (us @ x # vs) = Some x" using xs(2) by (induction us) (auto split: if_splits)
  with xs show "List.find P xs = Some x" by simp
qed

lemma find_hits:
  "List.find (glob_hits ps) gs = Some g \<longleftrightarrow> (\<exists>us vs. gs = us @ g # vs \<and> g \<in> across ps \<and> set us \<inter> across ps = {})"
  using find_first [of "glob_hits ps" gs g] by (simp add: glob_hits_across)

lemma scope_warning_member:
  "Scope_warning w \<in> set (check_scope_collision env probe dash self base ss paths) \<longleftrightarrow>
     (\<exists>s \<in> set ss. \<exists>g. \<not> is_own self s \<and>
        List.find (glob_hits (norm_paths base paths)) (globs_of (jget s ''scope'')) = Some g \<and>
        w = warning_of env probe dash s g)"
proof (cases "norm_paths base paths = []")
  case True
  then show ?thesis
    by (auto simp: check_scope_collision_def glob_hits_def find_Some_iff)
next
  case False
  have "Scope_warning w \<in> set (check_scope_collision env probe dash self base ss paths) \<longleftrightarrow>
      (\<exists>s \<in> set ss. session_warning env probe dash self (norm_paths base paths) s = Some (Scope_warning w))"
    using False by (force simp: check_scope_collision_def Let_def List.map_filter_def)
  then show ?thesis by (auto simp: session_warning_def split: if_splits)
qed

text \<open>C12: The detector warns of a claim exactly when a session that is not the caller's own claims a glob whose
  language holds one of the paths, read against the root; the warning names the first such glob, once for a
  session, with the grade of the lease and whether its owner may still be working.\<close>

theorem warns_of_exactly_the_foreign_claims:
  "Scope_warning w \<in> set (check_scope_collision env probe dash self base ss paths) \<longleftrightarrow>
     (\<exists>s before g after. s \<in> set ss \<and> \<not> is_own self s \<and>
        globs_of (jget s ''scope'') = before @ g # after \<and>
        g \<in> across (norm_paths base paths) \<and> set before \<inter> across (norm_paths base paths) = {} \<and>
        w = warning_of env probe dash s g)"
  unfolding scope_warning_member find_hits by blast

section \<open>A claim and the next tool call\<close>

lemma json_members_values: "(k, v) \<in> set (json_members m) \<Longrightarrow> \<not> unwritten v \<and> as_json v = v"
  by (induction m) (auto simp: as_json_idem split: if_splits)

lemma member_is_json: "as_json (JObj m) = JObj m \<Longrightarrow> map_of m k = Some v \<Longrightarrow> \<not> unwritten v \<and> as_json v = v"
  using json_members_values [of k v m] by (auto dest: map_of_SomeD)

lemma json_members_absent: "map_of m k = None \<Longrightarrow> map_of (json_members m) k = None"
  by (induction m) (auto split: if_splits)

text \<open>The scope on the lease after the beat of a tool call.\<close>

lemma lease_scope:
  "jget (as_json (lease_of env i beat existing)) ''scope'' =
     as_json (JObj [(''globs'', JArr (globs_of (beat_scope beat))), (''description'', coalesce (jget (beat_scope beat) ''description'') (JStr []))])"
  unfolding lease_of_def Let_def
  by (rule trans [OF json_get [where v = "JObj [(''globs'', JArr (globs_of (beat_scope beat))), (''description'', coalesce (jget (beat_scope beat) ''description'') (JStr []))]"]]) simp_all

lemma tool_beat_scope: "beat_scope tool_beat = JObj [(''globs'', JArr []), (''description'', JStr [])]"
  by (simp add: beat_scope_def tool_beat_def own_get_def coalesce_def is_nullish_def)

lemma tool_beat_globs:
  assumes "re_store env (lease_file i)"
  shows "globs_of (jget (lease_at (snd (heartbeat env spawn i tool_beat d)) (lease_file i)) ''scope'') = []"
proof (cases "truthy (lease_at d (lease_file i)) \<and> nothing_changed (re_clock env) tool_beat (lease_at d (lease_file i))")
  case True
  let ?scope = "jget (lease_at d (lease_file i)) ''scope''"
  have same: "scope_unchanged ?scope (beat_scope tool_beat)" using True by (simp add: nothing_changed_def)
  moreover have "truthy ?scope"
    using same by (auto simp: scope_unchanged_def tool_beat_scope js_same_def split: if_splits)
  ultimately have "list_all2 js_same (globs_of ?scope) (globs_of (beat_scope tool_beat))"
    by (simp add: scope_unchanged_def tool_beat_scope)
  then have "globs_of ?scope = []" by (simp add: tool_beat_scope globs_of_def own_get_def)
  with True show ?thesis by (simp add: heartbeat_dir Let_def)
next
  case False
  have "\<not> is_nullish tool_beat" by (simp add: is_nullish_def tool_beat_def)
  with False assms have "lease_at (snd (heartbeat env spawn i tool_beat d)) (lease_file i) =
      as_json (lease_of env i tool_beat (lease_at d (lease_file i)))"
    by (simp add: heartbeat_dir Let_def atomic_write_def lease_at_def [of "Some x" for x])
  then show ?thesis by (simp only: lease_scope tool_beat_scope) (simp add: globs_of_def own_get_def)
qed

text \<open>The capture of a touched file writes the scope back as it read it.\<close>

lemma own_session_scope:
  assumes "wf_map (files_of d)"
    and "own = (case List.find (\<lambda>s. jget s ''_file'' = JStr f) (sessions_in d) of Some s \<Rightarrow> s | None \<Rightarrow> lease_at d f)"
  shows "map_of (members_of own) ''scope'' = map_of (members_of (lease_at d f)) ''scope''"
proof (cases "List.find (\<lambda>s. jget s ''_file'' = JStr f) (sessions_in d)")
  case (Some s)
  then have "s \<in> set (sessions_in d)" "jget s ''_file'' = JStr f" by (auto simp: find_Some_iff)
  then obtain v where v: "(f, v) \<in> set (files_of d)" "session_of (f, v) = Some s"
    by (auto simp: sessions_in_iff session_fields)
  then have "lease_at d f = v" using assms(1) by (simp add: lease_at_def wf_map_def akeys_def)
  with v(2) assms(2) Some show ?thesis by (simp add: session_of_some members_of_def [of "JObj x" for x])
qed (use assms(2) in simp)

lemma scope_of_members:
  "jget v ''scope'' = (case map_of (members_of v) ''scope'' of None \<Rightarrow> JUndef | Some sc \<Rightarrow> sc)"
proof (cases v)
  case (JArr vs)
  have "''scope'' \<notin> range dec_nat" by (rule letter_no_index) (simp add: is_digit_def code_of_def)
  then show ?thesis using member_names [of "''scope''" vs] JArr by simp
qed (simp_all add: members_of_def own_get_def proto_names_def split: option.split)

lemma self_capture_globs:
  assumes "json_dir d" "globs_of (jget (lease_at d (lease_file i)) ''scope'') = []"
  shows "globs_of (jget (lease_at (self_capture env i tool path d) (lease_file i)) ''scope'') = []"
proof -
  let ?f = "lease_file i"
  define own where "own = (case List.find (\<lambda>s. jget s ''_file'' = JStr ?f) (sessions_in d) of Some s \<Rightarrow> s | None \<Rightarrow> lease_at d ?f)"
  define m where "m = adel ''_file'' (aset ''filesRecent'' (JArr (record_touch (re_clock env) own (str_of path))) (members_of own))"
  have scope: "map_of m ''scope'' = map_of (members_of (lease_at d ?f)) ''scope''"
    using own_session_scope [OF json_dir_wf [OF assms(1)] own_def] by (simp add: m_def)
  have "globs_of (jget (as_json (JObj m)) ''scope'') = []"
  proof (cases "map_of m ''scope''")
    case None
    then show ?thesis by (simp add: json_members_absent own_get_def proto_names_def globs_of_def)
  next
    case (Some sc)
    with scope have member: "map_of (members_of (lease_at d ?f)) ''scope'' = Some sc" by simp
    obtain ms where ms: "lease_at d ?f = JObj ms" "map_of ms ''scope'' = Some sc"
    proof (cases "lease_at d ?f")
      case (JArr vs)
      have "''scope'' \<notin> range dec_nat" by (rule letter_no_index) (simp add: is_digit_def code_of_def)
      then show ?thesis using member_names [of "''scope''" vs] JArr member by simp
    qed (use member that in \<open>simp_all add: members_of_def\<close>)
    then have "as_json (JObj ms) = JObj ms"
      using json_dir_value [OF assms(1), of ?f "JObj ms"] by (auto simp: lease_at_def split: option.splits)
    then have "\<not> unwritten sc \<and> as_json sc = sc" using member_is_json ms(2) by blast
    then have "jget (as_json (JObj m)) ''scope'' = sc" using json_get [OF Some] by simp
    then show ?thesis using assms(2) ms by (simp add: own_get_def)
  qed
  then show ?thesis
    using assms(2) unfolding self_capture_def Let_def own_def [symmetric] m_def [symmetric]
    by (auto simp: atomic_write_def lease_at_def split: option.splits)
qed

text \<open>C22: The claim a window puts on its lease lasts until its own next tool call: the beat of the call carries an
  empty scope, which is written over the claimed one, so that no path anybody touches is reported against
  that claim any more.\<close>

theorem tool_call_erases_claim:
  assumes "json_dir d" "re_store env' (lease_file i)"
    and "after = tool_call env' i tool path (snd (heartbeat env spawn i (claim_beat globs desc label) d))"
  shows "globs_of (jget (lease_at after (lease_file i)) ''scope'') = [] \<and>
    filter is_scope_warning (check_scope_collision env'' probe dash self base
      (filter (\<lambda>s. jget s ''_file'' = JStr (lease_file i)) (sessions_in after)) paths) = []"
proof -
  let ?f = "lease_file i" and ?claimed = "snd (heartbeat env spawn i (claim_beat globs desc label) d)"
  have json: "json_dir (snd (heartbeat env' True i tool_beat ?claimed))" using assms(1) by (simp add: heartbeat_json)
  then have after: "json_dir after" using assms(3) by (simp add: tool_call_def self_capture_json)
  have empty: "globs_of (jget (lease_at after ?f) ''scope'') = []"
    using self_capture_globs [OF json] tool_beat_globs [OF assms(2)] assms(3) by (simp add: tool_call_def)
  have none: "globs_of (jget s ''scope'') = []" if s: "s \<in> set (sessions_in after)" "jget s ''_file'' = JStr ?f" for s
  proof -
    from s obtain v where v: "(?f, v) \<in> set (files_of after)" "session_of (?f, v) = Some s"
      by (auto simp: sessions_in_iff session_fields)
    then have "lease_at after ?f = v" using json_dir_wf [OF after] by (simp add: lease_at_def wf_map_def akeys_def)
    with empty session_fields(3) [OF v(2)] show ?thesis by simp
  qed
  let ?ss = "filter (\<lambda>s. jget s ''_file'' = JStr ?f) (sessions_in after)"
  have "Scope_warning w \<notin> set (check_scope_collision env'' probe dash self base ?ss paths)" for w
    using none by (auto simp: check_scope_collision_def Let_def List.map_filter_def session_warning_def)
  then have "filter is_scope_warning (check_scope_collision env'' probe dash self base ?ss paths) = []"
    by (simp add: filter_empty_conv) (metis is_scope_warning.elims(2))
  with empty show ?thesis by simp
qed

end
