(* ===== verification/Window_Names.thy ===== *)
theory Window_Names
  imports Sessions
begin

text \<open>
  Names of windows (\<open>allocateDefaultWindowName\<close> and \<open>resolveTerminalIdentity\<close> of
  \<open>src/scripts/sma/lib/registry.mjs\<close>, \<open>scopeClaimSlug\<close> of \<open>collision.mjs\<close>): an automatic name is new and stays,
  the reporter a window launches is the same terminal, and a scope may be filed under a name the number and
  push slots use.
\<close>

section \<open>Automatic names\<close>

text \<open>The names on file, as they are read.\<close>

definition recorded_names :: "jsval \<Rightarrow> string set" where
  "recorded_names content = {js_trim s | k rec s. (k, rec) \<in> set (read_terminal_names content) \<and> jget rec ''name'' = JStr s}"

lemma highest_ge:
  "(k, rec) \<in> set names \<Longrightarrow> recorded_number pre rec \<le> highest_number pre names"
proof -
  have start: "b \<le> fold (\<lambda>(_, rec) n. max n (recorded_number pre rec)) xs b" for xs :: jsmap and b
    by (induction xs arbitrary: b) (auto intro: order_trans [OF max.cobounded1])
  have "(k, rec) \<in> set xs \<Longrightarrow> recorded_number pre rec \<le> fold (\<lambda>(_, rec) n. max n (recorded_number pre rec)) xs b" for xs b
  proof (induction xs arbitrary: b)
    case (Cons x xs)
    then show ?case using start [of "max b (recorded_number pre rec)" xs] by auto
  qed simp
  then show "(k, rec) \<in> set names \<Longrightarrow> recorded_number pre rec \<le> highest_number pre names"
    by (simp add: highest_number_def)
qed

lemma default_number_of: "default_number pre (pre @ dec_nat n) = Some n"
proof -
  have "list_all is_digit (dec_nat n)" using dec_nat_digits by (simp add: list_all_iff)
  then show ?thesis by (simp add: default_number_def str_prefix_iff digits_val_dec_nat)
qed

lemma next_name_new: "pre @ dec_nat (highest_number pre (read_terminal_names content) + 1) \<notin> recorded_names content"
proof
  let ?top = "highest_number pre (read_terminal_names content)"
  assume "pre @ dec_nat (?top + 1) \<in> recorded_names content"
  then obtain k rec s where r: "(k, rec) \<in> set (read_terminal_names content)" "jget rec ''name'' = JStr s"
    "js_trim s = pre @ dec_nat (?top + 1)"
    by (auto simp: recorded_names_def)
  then have "recorded_number pre rec = ?top + 1" by (simp only: recorded_number_def jsval.case default_number_of option.case)
  with highest_ge [OF r(1), of pre] show False by simp
qed

lemma digit_not_space: "is_digit c \<Longrightarrow> \<not> js_ws c"
  by (auto simp: is_digit_def js_ws_def Let_def)

lemma default_name_trim: "\<not> js_ws c \<Longrightarrow> js_trim ((c # cs) @ dec_nat n) = (c # cs) @ dec_nat n"
  using dec_nat_digits [of "last (dec_nat n)" n] by (intro js_trim_ends) (simp_all add: digit_not_space)

text \<open>A window without a name is given one that no window on file has, and a later process of the same window
  reads the same name back, marked as automatic.\<close>

theorem window_name_is_new_and_kept:
  assumes "\<not> is_nullish token" "hash = js_trim (to_str token)" "hash \<noteq> []" "persisted_name content hash = None"
    and "writes 0" "\<not> js_ws c"
    and "allocate_default_window_name writes (c # cs) at_text (\<lambda>x. x) token content = (res, content')"
  shows "\<exists>n. res = Window_name n \<and> n \<notin> recorded_names content \<and> persisted_name content' hash = Some (n, JBool True)"
proof -
  let ?names = "read_terminal_names content"
  define n where "n = (c # cs) @ dec_nat (highest_number (c # cs) ?names + 1)"
  define rec where "rec = JObj [(''name'', JStr n), (''auto'', JBool True), (''at'', JStr at_text)]"
  define stored where "stored = as_json (JObj (aset hash rec ?names))"
  have rec: "truthy rec" "jget rec ''name'' = JStr n" "jget rec ''auto'' = JBool True" "\<not> unwritten rec" "as_json rec = rec"
    by (simp_all add: rec_def own_get_def)
  have kept: "map_of (json_members (aset hash rec m)) hash = Some rec" for m
    using json_members_get [of "aset hash rec m" hash rec] rec by simp
  then have mine: "own_get (read_terminal_names stored) hash = rec"
    by (simp add: stored_def read_terminal_names_def own_get_def)
  have "allocate_default_window_name writes (c # cs) at_text (\<lambda>x. x) token content = (Window_name n, stored)"
    unfolding allocate_default_window_name_def Let_def
    by (simp only: assms(1,3,4,5) assms(2) [symmetric] if_False if_True n_def [symmetric] rec_def [symmetric]
      stored_def [symmetric] mine option.case rec(1,2) simp_thms HOL.disj_absorb)
  then have "res = Window_name n \<and> content' = stored" using assms(7) by simp
  moreover have "persisted_name stored hash = Some (n, JBool True)"
    using default_name_trim [OF assms(6), of cs] rec(2,3)
    by (simp add: persisted_name_def mine nonblank_def n_def del: append_Cons)
  ultimately show ?thesis using next_name_new [of "c # cs" content] by (auto simp: n_def simp del: append_Cons)
qed


section \<open>The reporter of a window\<close>

lemma nonblank_trim: "nonblank v = Some t \<Longrightarrow> nonblank (JStr t) = Some t"
  by (auto simp: nonblank_def js_trim_idem split: jsval.splits if_splits)

lemma window_token_trim: "window_token vs = Some t \<Longrightarrow> nonblank (JStr t) = Some t \<and> t \<noteq> []"
  by (induction vs) (auto simp: nonblank_trim nonblank_def js_trim_idem split: option.splits jsval.splits if_splits)

text \<open>The child a beat launches, which reads no hook event and is another process, takes the window it reports for
  from its environment, and resolves to the same terminal and the same name.\<close>

lemma reporter_is_the_same_terminal:
  assumes "re_vars env = JObj vars" "i = resolve_terminal_identity env pid session_token content"
    and "id_token i = Some t" "snapshot_child (re_vars env) (id_token i) = Some vars'"
    and "j = resolve_terminal_identity (env\<lparr>re_vars := vars'\<rparr>) pid' JUndef content"
  shows "id_terminal j = id_terminal i \<and> id_holder j = id_holder i"
proof -
  have token: "window_token [session_token, jget (re_vars env) ''SMA_WINDOW_TOKEN'',
      jget (re_vars env) ''CLAUDE_CODE_SESSION_ID'', jget (re_vars env) ''CLAUDE_SESSION_ID''] = Some t"
    using assms(2,3) by (simp add: resolve_terminal_identity_def Let_def)
  note t = window_token_trim [OF token]
  then have vars': "vars' = JObj (aset ''SMA_WINDOW_TOKEN'' (JStr t) vars)"
    using assms(1,3,4) by (simp add: snapshot_child_def split: if_splits)
  have "jget vars' ''SMA_WINDOW_TOKEN'' = JStr t" "jget vars' ''SMA_TERMINAL_NAME'' = jget (re_vars env) ''SMA_TERMINAL_NAME''"
    by (simp_all add: vars' assms(1) own_get_aset)
  moreover have "nonblank JUndef = None" by (simp add: nonblank_def)
  ultimately have tok: "window_token [JUndef, jget vars' ''SMA_WINDOW_TOKEN'', jget vars' ''CLAUDE_CODE_SESSION_ID'',
      jget vars' ''CLAUDE_SESSION_ID''] = Some t" "nonblank (jget vars' ''SMA_TERMINAL_NAME'') = nonblank (jget (re_vars env) ''SMA_TERMINAL_NAME'')"
    using t by simp_all
  have upd: "re_vars (env\<lparr>re_vars := vars'\<rparr>) = vars'" "re_sha1 (env\<lparr>re_vars := vars'\<rparr>) = re_sha1 env" by simp_all
  show ?thesis
    unfolding assms(2,5) resolve_terminal_identity_def Let_def upd tok token option.case by simp
qed

section \<open>The name of a scope among the names of numbers\<close>

lemma single_slashes_none: "CHR ''/'' \<notin> set s \<Longrightarrow> single_slashes s = s"
  by (induction s) auto

lemma digit_chars: "is_digit c \<Longrightarrow> lower_char c = c \<and> slug_letter c \<and> c \<noteq> CHR ''/'' \<and> c \<noteq> CHR 0x5C \<and> c \<noteq> CHR ''-''"
  by (auto simp: is_digit_def lower_char_def slug_letter_def Let_def code_of_def)

lemma dash_runs_names: "list_all slug_letter s \<Longrightarrow> dash_runs slug_letter b s = s"
  by (induction s arbitrary: b) auto

lemma phase_scope_slug: "scope_claim_slug sha1 (JStr (''Phase '' @ dec_nat n)) = ''phase-'' @ dec_nat n"
proof -
  let ?ds = "dec_nat n"
  have digits: "list_all is_digit ?ds" using dec_nat_digits by (simp add: list_all_iff)
  then have same: "map lower_char ?ds = ?ds" "list_all slug_letter ?ds" "CHR ''/'' \<notin> set ?ds" "last ?ds \<noteq> CHR ''-''"
    "map (\<lambda>c. if c = CHR 0x5C then CHR ''/'' else c) ?ds = ?ds"
    using digit_chars last_in_set [OF dec_nat_nonempty [of n]] by (auto simp: list_all_iff map_idI)
  have word: "map lower_char ''Phase '' = ''phase ''" "map lower_char ''phase '' = ''phase ''"
    by code_simp+
  have "norm_path (JStr (''Phase '' @ ?ds)) = ''phase '' @ ?ds"
    using same word by (simp add: norm_path_def is_nullish_def forward_slashes_def js_lower_def single_slashes_none del: append_Cons)
  then have "machine_name (translit_to_latin (norm_path (JStr (''Phase '' @ ?ds)))) = strip_dashes (dash_runs slug_letter False (''phase '' @ ?ds))"
    using same word by (simp add: translit_to_latin_def js_lower_def machine_name_def del: append_Cons)
  also have "dash_runs slug_letter False (''phase '' @ ?ds) = ''phase-'' @ ?ds"
    using same(2) by (simp add: slug_letter_def code_of_def dash_runs_names)
  also have "strip_dashes (''phase-'' @ ?ds) = ''phase-'' @ ?ds"
    using same(4) dec_nat_nonempty [of n] by (cases ?ds rule: rev_cases) (simp_all add: strip_dashes_def)
  finally show ?thesis by (simp add: scope_claim_slug_def js_or_def)
qed

lemma second_claim_lost: "fst (claim_slot later nm p' (snd (claim_slot ck nm p d))) \<noteq> Won"
  by (auto simp: claim_slot_def split: option.splits)

text \<open>C32: A scope claimed under the description "Phase n" is filed under the very name the number slot of phase n
  has, in the same directory: whoever asks for that number after it finds it taken, whatever scope or number
  either of them meant.\<close>

theorem scope_claim_takes_the_phase_number:
  "slot_name_for_kind ''phase'' n opts = Some (scope_claim_slug sha1 (JStr (''Phase '' @ dec_nat n))) \<and>
   fst (claim_slot later (''phase-'' @ dec_nat n) number_prov
     (snd (claim_slot ck (scope_claim_slug sha1 (JStr (''Phase '' @ dec_nat n))) scope_prov d))) \<noteq> Won"
  unfolding phase_scope_slug using second_claim_lost by (simp add: slot_name_for_kind_def)

end
