(* ===== verification/Session_Samples.thy ===== *)
theory Session_Samples
  imports Session_Laws Window_Names
begin

text \<open>
  Two windows on one registry, evaluated: the theorems about leases, claims and window names at concrete inputs,
  and what the detector says of a claim before and after the first tool call of its holder.
\<close>

definition registry_clock :: "nat \<Rightarrow> clock" where
  "registry_clock n = \<lparr>ck_now = n, ck_iso = dec_nat,
     ck_parse = (\<lambda>s. if s \<noteq> [] \<and> list_all is_digit s then Fin (of_nat (digits_val s)) else NaN), ck_pid = 1\<rparr>"

definition sample_registry :: "nat \<Rightarrow> registry_env" where
  "sample_registry n = \<lparr>re_clock = registry_clock n, re_store = (\<lambda>_. True), re_kill = (\<lambda>_. Answers), re_sha1 = (\<lambda>s. s),
     re_vars = JObj []\<rparr>"

definition brain :: identity where
  "brain = \<lparr>id_holder = ''Brain'', id_terminal = ''brain-1'', id_pid = 7, id_token = Some ''1'', id_source = By_env, id_auto = False\<rparr>"

definition mill :: identity where
  "mill = \<lparr>id_holder = ''Mill'', id_terminal = ''mill-2'', id_pid = 8, id_token = Some ''2'', id_source = By_env, id_auto = False\<rparr>"

definition beaten_dir :: sessions_dir where
  "beaten_dir = snd (heartbeat (sample_registry 1000) False brain tool_beat None)"

definition other_steps :: "(registry_env \<times> registry_op) list" where
  "other_steps = [(sample_registry 5000, Beat mill tool_beat True), (sample_registry 2520999, Reap None False),
     (sample_registry 9000, Drop ''mill-2'')]"

lemma sample_parse: "ck_parse (registry_clock m) (ck_iso (registry_clock n) n) = Fin (of_nat n)"
  using dec_nat_digits by (simp add: registry_clock_def list_all_iff digits_val_dec_nat)

lemma beating_window_never_reaped_witness:
  "map_of (files_of (fold registry_step other_steps beaten_dir)) ''brain-1.json'' = Some (lease_at beaten_dir ''brain-1.json'')"
proof -
  have "json_dir None" by (simp add: json_dir_def)
  moreover have "re_store (sample_registry 1000) (lease_file brain)" "\<not> is_nullish tool_beat"
    by (simp_all add: sample_registry_def is_nullish_def tool_beat_def)
  moreover have "ck_parse (re_clock (sample_registry 1000)) (ck_iso (re_clock (sample_registry 1000)) (ck_now (re_clock (sample_registry 1000)))) =
      Fin (of_nat (ck_now (re_clock (sample_registry 1000))))"
    using sample_parse [of 1000 1000] by (simp add: sample_registry_def registry_clock_def)
  moreover have "list_all (leaves_alone (ck_parse (re_clock (sample_registry 1000))) (lease_file brain)
      (ck_now (re_clock (sample_registry 1000)) + 2520000)) other_steps"
    by (simp add: other_steps_def sample_registry_def registry_clock_def lease_file_def brain_def mill_def)
  ultimately show ?thesis
    using beating_window_never_reaped [OF _ _ _ _ _ beaten_dir_def] by (simp add: lease_file_def brain_def)
qed




definition claimed_dir :: sessions_dir where
  "claimed_dir = snd (heartbeat (sample_registry 1000) False brain (claim_beat [JStr ''src/**''] (JStr ''Queue'') (JStr ''Queue'')) None)"

definition called_dir :: sessions_dir where
  "called_dir = tool_call (sample_registry 2000) brain ''Edit'' (JStr ''src/queue.ts'') claimed_dir"

text \<open>Before the call the other window is warned.\<close>

lemma claim_is_seen:
  "\<exists>w. Scope_warning w \<in> set (check_scope_collision (sample_registry 1500) None (JStr ''-'') (Some ''mill-2'') (Some ''/repo'')
     (sessions_in claimed_dir) [JStr ''/repo/src/Queue.ts''])"
proof -
  let ?beat = "claim_beat [JStr ''src/**''] (JStr ''Queue'') (JStr ''Queue'')" and ?f = "''brain-1.json''"
  let ?lease = "as_json (lease_of (sample_registry 1000) brain ?beat JNull)"
  have "lease_at None ?f = JNull" by (simp add: lease_at_def)
  then have dir: "claimed_dir = Some [(?f, ?lease)]"
    by (simp add: claimed_dir_def heartbeat_dir atomic_write_def sample_registry_def lease_file_def brain_def
      is_nullish_def claim_beat_def)
  obtain s where s: "session_of (?f, ?lease) = Some s"
    by (simp add: session_of_some lease_of_def Let_def is_object_def)
  have "ends_with ?f ''.json''" by (simp add: ends_with_def)
  then have mem: "s \<in> set (sessions_in claimed_dir)"
    using s unfolding sessions_in_iff dir files_of_simps by (intro exI [of _ ?f] exI [of _ ?lease]) (simp only: list.set_intros simp_thms)
  have globs: "globs_of (jget s ''scope'') = [] @ JStr ''src/**'' # []"
    using session_fields(3) [OF s] by (simp add: lease_scope beat_scope_def claim_beat_def coalesce_def is_nullish_def own_get_def globs_of_def)
  have "terminal_id_of s = Some ''brain-1''"
    using session_fields(1) [OF s] by (simp add: terminal_id_of_def) code_simp
  then have own: "\<not> is_own (Some ''mill-2'') s" by (simp add: is_own_def)
  have "glob_hits (norm_paths (Some ''/repo'') [JStr ''/repo/src/Queue.ts'']) (JStr ''src/**'')" by code_simp
  then have "List.find (glob_hits (norm_paths (Some ''/repo'') [JStr ''/repo/src/Queue.ts''])) (globs_of (jget s ''scope'')) = Some (JStr ''src/**'')"
    by (simp add: globs)
  with mem own show ?thesis unfolding scope_warning_member by blast
qed

lemma tool_call_erases_claim_witness:
  "globs_of (jget (lease_at called_dir ''brain-1.json'') ''scope'') = [] \<and>
   filter is_scope_warning (check_scope_collision (sample_registry 2500) None (JStr ''-'') (Some ''mill-2'') (Some ''/repo'')
     (filter (\<lambda>s. jget s ''_file'' = JStr ''brain-1.json'') (sessions_in called_dir)) [JStr ''/repo/src/Queue.ts'']) = []"
proof -
  have "json_dir None" "re_store (sample_registry 2000) (lease_file brain)" by (simp_all add: json_dir_def sample_registry_def)
  then show ?thesis
    using tool_call_erases_claim [OF _ _ called_dir_def [unfolded claimed_dir_def]] by (simp add: lease_file_def brain_def)
qed

lemma window_name_is_new_and_kept_witness:
  "\<exists>n. fst (allocate_default_window_name (\<lambda>_. True) ''W-'' ''now'' (\<lambda>x. x) (JStr ''abc'') JNull) = Window_name n \<and>
     n \<notin> recorded_names JNull \<and>
     persisted_name (snd (allocate_default_window_name (\<lambda>_. True) ''W-'' ''now'' (\<lambda>x. x) (JStr ''abc'') JNull)) ''abc'' = Some (n, JBool True)"
proof -
  let ?given = "allocate_default_window_name (\<lambda>_. True) ''W-'' ''now'' (\<lambda>x. x) (JStr ''abc'') JNull"
  have "\<not> is_nullish (JStr ''abc'')" "''abc'' = js_trim (to_str (JStr ''abc''))" "persisted_name JNull ''abc'' = None" "\<not> js_ws (CHR ''W'')"
    by code_simp+
  then show ?thesis
    using window_name_is_new_and_kept [of "JStr ''abc''" "''abc''" JNull "\<lambda>_. True" "CHR ''W''" "''-''" "''now''" "fst ?given" "snd ?given"]
    by simp
qed

end
