(* ===== verification/Spec2Isabelle.thy ===== *)
theory Spec2Isabelle
  imports Fleet_State Capability Seats Routing Money Windows Liveness Breaker Ledger Ladder Turns Holds Reconcile Queue_Endings Slot_Numbers Claim_Race Merge_Samples Trunk_Sync Batch Stall Operator_Words
    Phase_Cycle Session_Samples
begin

text \<open>
  Verification library of the SMA fleet: a daemon (\<open>daemon/src\<close>) that hands tasks of a queue to worker
  processes, and the coordination scripts (\<open>scripts/sma/lib\<close>) the workers and their hooks run.

  \<^bold>\<open>The program.\<close> A task is a row of the durable queue (\<open>queue/adapter.mjs\<close>). The loop reconciles the rows a
  previous life of the daemon left (\<open>loop.mjs\<close>, \<open>queue/attempt-ledger.mjs\<close>), sweeps silent workers
  (\<open>queue/liveness.mjs\<close>), asks which work is held (\<open>queue/wave-holds.mjs\<close>, \<open>queue/reconcile.mjs\<close>), picks an
  account for a candidate (\<open>policy/routing.mjs\<close> over \<open>policy/windows.mjs\<close> and \<open>policy/budget.mjs\<close>), takes a seat
  (\<open>queue/in-flight.mjs\<close>), claims the row, writes the attempt's capability envelope
  (\<open>queue/capability-envelope.mjs\<close>) and runs it; the attempt itself goes through the fleet state machine
  (\<open>queue/state-machine.mjs\<close>), within a turn budget (\<open>policy/turn-budget.mjs\<close>). Beside the daemon, hooks of
  the terminals write a hash-chained journal (\<open>lib/journal.mjs\<close>), break loops of tool calls
  (\<open>lib/breaker.mjs\<close>) and move rules up a ladder of enforcement (\<open>lib/ladder.mjs\<close>).

  \<^bold>\<open>The theories.\<close> Source paths are under \<open>src/\<close>; the map of the manifest gives the lines.
  \<^item> \<open>Prelude\<close>, \<open>Js_Text\<close>, \<open>Js_Num\<close>, \<open>Json_Text\<close>: the language. Association lists with JavaScript's key
    order, stable sorting and \<open>find\<close> loops; JavaScript values (\<open>jsval\<close>), truthiness, \<open>??\<close>, \<open>String\<close>,
    \<open>split\<close>, \<open>trim\<close>; \<open>Number\<close> with \<open>NaN\<close> and the infinities; \<open>JSON.stringify\<close> and \<open>JSON.parse\<close> with
    their round trip.
  \<^item> \<open>Contracts\<close>: the locales several components share (guarded runs of a step function with an invariant).
  \<^item> \<open>Fleet_State\<close>: the contracts between the eleven states and \<open>applyTransition\<close>: what it performs, and which
    repeated request it recognises by its key.
  \<^item> \<open>Capability\<close>: the envelope of an attempt, its validation, its permissions, the wall of forbidden
    actions, the canonical hash.
  \<^item> \<open>Roles\<close>, \<open>Seats\<close>: the configured workers and roles, and the house of running attempts with its
    ceiling and reserved seats.
  \<^item> \<open>Routing\<close>, \<open>Money\<close>, \<open>Windows\<close>: choice of the account, the paid channel and its cap, the subscription
    windows and their persisted file. This theory composes the first two.
  \<^item> \<open>Liveness\<close>, \<open>Reconcile\<close>, \<open>Ledger\<close>: the sweep of silent workers, the rows rebuilt at a start, the
    ledger of attempts and its numbers.
  \<^item> \<open>Task_Rules\<close>, \<open>Queue_Holds\<close>, \<open>Queue\<close>, \<open>Queue_Laws\<close>, \<open>Queue_Endings\<close>: the task vocabulary, the rules of
    held work, the reference queue with every door, its invariant and order, and how work ends.
  \<^item> \<open>Holds\<close>: the wave log of operator decisions, refined to the hold it stands for.
  \<^item> \<open>Turns\<close>: the turn budget of an attempt and its escalation.
  \<^item> \<open>Breaker\<close>, \<open>Ladder\<close>, \<open>Journal\<close>: the loop breaker, the ladder of rules, the hash-chained journal.
  \<^item> \<open>Claims\<close>, \<open>Slots\<close>, \<open>Slot_Laws\<close>, \<open>Slot_Numbers\<close>, \<open>Claim_Race\<close>: the claims the terminals take as directories
    (\<open>claims.mjs\<close>), the counters and the deploy signal taken through them (\<open>slots.mjs\<close>) with their laws over
    all sequences of calls, the forced releases and the cleaning of the command line included, and the interleaving of the file operations of two terminals.
  \<^item> \<open>Merge_Paths\<close>, \<open>Union_Merge\<close>, \<open>Mechanical\<close>: which conflicts of a merge need no person, the union of two
    additions in a conflicted text, and what the resolution does with git (\<open>branch-sync.mjs\<close>).
  \<^item> \<open>Merge_Gate\<close>, \<open>Merge_Laws\<close>, \<open>Merge_Samples\<close>: the merge slot and the run that judges a branch in the
    working copy before it is committed (\<open>merge-gate.mjs\<close>), over \<open>Mechanical\<close>, \<open>Claims\<close> and \<open>Journal\<close>. Git is
    an argument; what the laws need of it is the hypothesis \<open>follows_git\<close> on a predicate of the working copy that
    says whether git stands in a merge (abort, commit and \<open>MERGE_HEAD\<close> as documented).
  \<^item> \<open>Trunk_Sync\<close>: the synchronisation of a branch with the trunk in the worker's copy (\<open>branch-sync.mjs\<close>).
  \<^item> \<open>Batch\<close>, \<open>Stall\<close>: the lane of small backlog items (\<open>batch.mjs\<close>) and the detector of a stuck worker
    (\<open>stall.mjs\<close>).
  \<^item> \<open>Operator_Words\<close>, \<open>Phase_Cycle\<close>: the decisions on tool tickets and the pairing of the chat
    (\<open>tool-decision.mjs\<close>, \<open>pairing.mjs\<close>), and the command of a stage (\<open>policy/phase-cycle.mjs\<close>).

  \<^item> \<open>Scopes\<close>, \<open>Sessions\<close>, \<open>Collision\<close>: the globs and names of claimed scopes (\<open>collision.mjs\<close>), the leases of
    the windows with their identities, grades and reaper (\<open>registry.mjs\<close>), and the detector that compares a
    touched path with the scopes on the leases, together with what a tool call does to the lease (\<open>pre.mjs\<close>).
  \<^item> \<open>Session_Laws\<close>, \<open>Window_Names\<close>, \<open>Session_Samples\<close>: which leases survive which operations, when a warning is
    given, what becomes of a claim and of a name; the samples evaluate them.

  \<^bold>\<open>Lemmas.\<close> Each theory first models the code in its order, then proves the laws its locales ask for
  (interpretations on the model's own operations), then its properties: invariants over all sequences
  of operations, exact characterisations of the decisions, safety of the endings, round trips of the
  texts. A theorem with hypotheses is followed by a witness at a concrete input.

  \<^bold>\<open>Bounds and fuel.\<close> The JSON parser takes \<open>2 * length + 2\<close> as fuel, and \<open>json_round_trip\<close> shows that
  this reads back every text the printer writes. \<open>dec_rat\<close> prints thirty digits of a fraction, exact for
  whole numbers. All other recursions are structural or have a measure.

  \<^bold>\<open>Idealisations.\<close> Numbers are exact rationals with \<open>NaN\<close> and the infinities, not IEEE doubles. Strings
  are lists of 8-bit characters. SHA-256, \<open>Date.parse\<close>, \<open>toISOString\<close>, the clock, random bytes and
  the file system are arguments of the definitions or maps whose writes succeed; the clock stands
  still within one call of the queue. Refusal sentences are constructors. The logs of \<open>Holds\<close> and
  \<open>Ledger\<close> are lists of parsed lines, those of \<open>Journal\<close> whole texts. Comparison with \<open>===\<close> is on
  primitive values; writing a key \<open>__proto__\<close> and the numeric order of integer keys are not modelled.

  \<^bold>\<open>Not modelled.\<close> The HTTP front and its projections, the chat and the telegram bridge, the PostgreSQL
  backend of the queue (SQL), the spawning of processes and their streams, the command line
  \<open>scripts/sma/cli.mjs\<close> (but for what its verbs do to claims, in \<open>Slot_Laws\<close> and \<open>Window_Names\<close>), the memory store and its search, the planning tool under \<open>sma-core/bin\<close>, the
  installer and the single-page application: input and output, generated text, or code whose meaning
  lies in a service or a process outside the repository. The manifest lists them one by one.
\<close>

section \<open>Routing under the money rule\<close>

lemma paid_route_asks:
  assumes "rd_budget d = Some seam" "seam task True = Some v" "is_object v" "is_bool (jget v ''fallback'')"
    and "r_api (fst (resolve_route d task))"
  shows "jget v ''fallback'' = JBool True"
proof -
  have ask: "ask_budget d task True = Some v" using assms(1-4) by (simp add: ask_budget_def)
  have "jget v ''fallback'' \<noteq> JBool False"
    using assms(5) ask
    by (auto simp: resolve_route_def api_requested_route no_candidate_api no_route_def chosen_route_facts
        split: if_splits list.splits)
  then show ?thesis using assms(4) by (cases "jget v ''fallback''") auto
qed

text \<open>C29: the paid channel never takes a task past the cap, as long as the configuration lets its paid accounts be
  listed. When routing is bound to the money rule as the daemon binds it and the listing of the paid accounts
  (\<open>spend_account_names\<close>) does not throw, a route through the paid channel means a cap above zero, a month's
  spending below it, and room under it for the ceiling of this very task. (When the listing throws, the money rule
  gives no answer, and a task that asks for the paid channel by name gets it with no cap asked.)\<close>

theorem paid_route_within_cap:
  assumes "rd_budget d = Some (money_seam start reader config now)" "spend_account_names config = Some names"
    and "r_api (fst (resolve_route d task))"
  shows "let budget = coalesce (jget config ''budget'') (JObj []);
             cap = api_cap_usd budget;
             spent = round2_usd (month_to_date_api_spend_usd start reader (spend_names budget (JArr names)) now)
         in num_lt (Fin 0) cap \<and> num_lt spent cap \<and> \<not> num_lt cap (num_add spent (task_ceiling task budget))"
proof -
  let ?v = "should_api_fallback start reader task (JBool True) (coalesce (jget config ''budget'') (JObj [])) (JArr names) now"
  have "money_seam start reader config now task True = Some ?v" by (simp add: money_seam_def assms(2))
  then have "jget ?v ''fallback'' = JBool True" by (rule paid_route_asks [OF assms(1)]) (simp_all add: money_says assms(3))
  then show ?thesis by (simp add: Let_def money_says(2))
qed

definition capped_config :: jsval where
  "capped_config = JObj [(''budget'', JObj [(''monthlyApiCapUsd'', JInt 50)])]"

definition paid_deps :: route_deps where
  "paid_deps = \<lparr>rd_workers = [], rd_window = (\<lambda>_. False), rd_hour = 3, rd_config = capped_config,
     rd_budget = Some (money_seam (\<lambda>_. Fin 0) (Some sample_reader) capped_config (Fin 1)), rd_sink = True,
     rd_unknown = False, rd_busy = []\<rparr>"

lemma paid_run: "r_api (fst (resolve_route paid_deps prod_task))" "spend_account_names capped_config = Some [JStr ''api'']"
  by (code_simp, code_simp)

theorem paid_route_within_cap_witness:
  "num_lt (Fin 0) (api_cap_usd (JObj [(''monthlyApiCapUsd'', JInt 50)]))"
proof -
  have "rd_budget paid_deps = Some (money_seam (\<lambda>_. Fin 0) (Some sample_reader) capped_config (Fin 1))"
    by (simp add: paid_deps_def)
  from paid_route_within_cap [OF this paid_run(2,1)]
  have "num_lt (Fin 0) (api_cap_usd (coalesce (jget capped_config ''budget'') (JObj [])))" by (simp only: Let_def)
  moreover have "coalesce (jget capped_config ''budget'') (JObj []) = JObj [(''monthlyApiCapUsd'', JInt 50)]" by code_simp
  ultimately show ?thesis by simp
qed

end
